(* ===== verification/Prelude.thy ===== *)
theory Prelude
  imports Main "HOL-Library.Word"
begin

text \<open>
  Shared vocabulary of the development: the C types at their width, memory as a map from
  addresses to bytes, the lemma collections the component proofs use, and the generic facts on
  lists, words and memory that more than one component needs.

  A C \<open>unsigned char\<close> (and a \<open>char\<close> read through \<open>& 0377\<close>) is an \<open>8 word\<close>, an
  \<open>unsigned short\<close> a \<open>16 word\<close> and an \<open>unsigned long\<close> of an LP64 host a \<open>64 word\<close>.  A pointer
  is an integer address, with \<open>0\<close> for the null pointer.
\<close>

unbundle bit_operations_syntax

type_synonym byte = "8 word"
type_synonym u16 = "16 word"
type_synonym u32 = "32 word"
type_synonym ulong = "64 word"
type_synonym addr = int
type_synonym mem = "addr \<Rightarrow> byte"

named_theorems step_simps
  \<open>unfolding equations of the operations of a component\<close>

named_theorems frame_simps
  \<open>what an operation leaves unchanged\<close>

section \<open>Memory\<close>

text \<open>\<open>memmove (p, buf, n)\<close> into memory: the bytes \<open>bs\<close> stored from address \<open>p\<close> on.\<close>

definition mem_write :: "mem \<Rightarrow> addr \<Rightarrow> byte list \<Rightarrow> mem" where
  "mem_write m p bs = (\<lambda>a. if p \<le> a \<and> a < p + int (length bs) then bs ! nat (a - p) else m a)"

lemma mem_write_in: "p \<le> a \<Longrightarrow> a < p + int (length bs) \<Longrightarrow> mem_write m p bs a = bs ! nat (a - p)"
  by (simp add: mem_write_def)

lemma mem_write_out: "a < p \<or> p + int (length bs) \<le> a \<Longrightarrow> mem_write m p bs a = m a"
  by (auto simp: mem_write_def)

lemma mem_write_Nil [simp]: "mem_write m p [] = m"
  by (rule ext) (auto simp: mem_write_def)

text \<open>The same on an array: the bytes \<open>bs\<close> stored from index \<open>p\<close> on.\<close>

definition buf_write :: "(nat \<Rightarrow> byte) \<Rightarrow> nat \<Rightarrow> byte list \<Rightarrow> nat \<Rightarrow> byte" where
  "buf_write m p bs = (\<lambda>a. if p \<le> a \<and> a < p + length bs then bs ! (a - p) else m a)"

text \<open>The bytes of an array between two indices.\<close>

definition slice :: "(nat \<Rightarrow> byte) \<Rightarrow> nat \<Rightarrow> nat \<Rightarrow> byte list" where
  "slice m i j = map m [i..<j]"

lemma length_slice [simp]: "length (slice m i j) = j - i"
  by (simp add: slice_def)

lemma slice_empty [simp]: "j \<le> i \<Longrightarrow> slice m i j = []"
  by (simp add: slice_def)

lemma slice_append: "i \<le> j \<Longrightarrow> j \<le> k \<Longrightarrow> slice m i j @ slice m j k = slice m i k"
  by (metis slice_def map_append upt_add_eq_append le_Suc_ex)

lemma slice_buf_write:
  "i \<le> p \<Longrightarrow> n \<le> length bs \<Longrightarrow> slice (buf_write m p bs) i (p + n) = slice m i p @ take n bs"
  by (rule nth_equalityI) (auto simp: slice_def buf_write_def nth_append add.commute)

lemma buf_write_one: "buf_write m p [c] = m(p := c)"
  by (rule ext) (auto simp: buf_write_def)

section \<open>Lists\<close>

lemma take_append_drop_take: "take m xs @ take n (drop m xs) = take (m + n) xs"
  by (simp add: take_add)

lemma take_drop_assoc [simp]: "take n xs @ drop n xs @ ys = xs @ ys"
  by (simp flip: append_assoc)

lemma map_upt_drop: "drop n (map f [0..<k]) = map (\<lambda>i. f (n + i)) [0..<k - n]"
  by (rule nth_equalityI) (auto simp: ac_simps)

section \<open>Words\<close>

lemma ulong_tick: "unat (c::ulong) + 1 < 2 ^ 64 \<Longrightarrow> unat (c + 1) = unat c + 1"
  by (simp add: unat_word_ariths)

section \<open>Queues\<close>

text \<open>
  What a queue promises to its clients, whatever it is made of.  A run is a list of \<open>Put\<close> and
  \<open>Get\<close> operations; \<open>qlegal\<close> says that every \<open>Put\<close> has data and room for it and every \<open>Get\<close> asks
  for no more than the queue holds, \<open>qin\<close> is the data put over the run and \<open>qout\<close> the data got.
\<close>

datatype 'a qop = Put "'a list" | Get nat

fun qrun :: "('a list \<Rightarrow> 'q \<Rightarrow> 'q) \<Rightarrow> (nat \<Rightarrow> 'q \<Rightarrow> 'q) \<Rightarrow> 'q \<Rightarrow> 'a qop list \<Rightarrow> 'q" where
  "qrun pt gt q [] = q"
| "qrun pt gt q (Put xs # ops) = qrun pt gt (pt xs q) ops"
| "qrun pt gt q (Get n # ops) = qrun pt gt (gt n q) ops"

fun qlegal :: "('q \<Rightarrow> 'a list) \<Rightarrow> ('q \<Rightarrow> nat) \<Rightarrow> ('a list \<Rightarrow> 'q \<Rightarrow> 'q) \<Rightarrow> (nat \<Rightarrow> 'q \<Rightarrow> 'q)
    \<Rightarrow> 'q \<Rightarrow> 'a qop list \<Rightarrow> bool" where
  "qlegal ct rm pt gt q [] = True"
| "qlegal ct rm pt gt q (Put xs # ops) =
     (xs \<noteq> [] \<and> length xs \<le> rm q \<and> qlegal ct rm pt gt (pt xs q) ops)"
| "qlegal ct rm pt gt q (Get n # ops) =
     (n \<le> length (ct q) \<and> qlegal ct rm pt gt (gt n q) ops)"

fun qin :: "'a qop list \<Rightarrow> 'a list" where
  "qin [] = []"
| "qin (Put xs # ops) = xs @ qin ops"
| "qin (Get n # ops) = qin ops"

fun qout :: "('q \<Rightarrow> 'a list) \<Rightarrow> ('a list \<Rightarrow> 'q \<Rightarrow> 'q) \<Rightarrow> (nat \<Rightarrow> 'q \<Rightarrow> 'q) \<Rightarrow> 'q \<Rightarrow> 'a qop list \<Rightarrow> 'a list"
where
  "qout ct pt gt q [] = []"
| "qout ct pt gt q (Put xs # ops) = qout ct pt gt (pt xs q) ops"
| "qout ct pt gt q (Get n # ops) = take n (ct q) @ qout ct pt gt (gt n q) ops"

text \<open>
  The contract.  \<open>invar k q\<close> says that \<open>q\<close> is well formed and can take \<open>k\<close> more operations (the
  implementations count time in a bounded clock).
\<close>

locale fifo_queue =
  fixes invar :: "nat \<Rightarrow> 'q \<Rightarrow> bool"
    and contents :: "'q \<Rightarrow> 'a list"
    and room :: "'q \<Rightarrow> nat"
    and put :: "'a list \<Rightarrow> 'q \<Rightarrow> 'q"
    and get :: "nat \<Rightarrow> 'q \<Rightarrow> 'q"
  assumes put_invar: "invar (Suc k) q \<Longrightarrow> xs \<noteq> [] \<Longrightarrow> length xs \<le> room q \<Longrightarrow> invar k (put xs q)"
    and put_contents: "invar (Suc k) q \<Longrightarrow> xs \<noteq> [] \<Longrightarrow> length xs \<le> room q
      \<Longrightarrow> contents (put xs q) = contents q @ xs"
    and get_invar: "invar (Suc k) q \<Longrightarrow> n \<le> length (contents q) \<Longrightarrow> invar k (get n q)"
    and get_contents: "invar (Suc k) q \<Longrightarrow> n \<le> length (contents q)
      \<Longrightarrow> contents (get n q) = drop n (contents q)"
begin

lemma run_invar:
  "invar (length ops + k) q \<Longrightarrow> qlegal contents room put get q ops \<Longrightarrow> invar k (qrun put get q ops)"
proof (induction ops arbitrary: q)
  case (Cons x ops)
  then show ?case by (cases x) (auto intro: put_invar get_invar)
qed simp

text \<open>Nothing is lost, duplicated or reordered: what came out, followed by what is still held, is
  what was held at first followed by what went in.\<close>

lemma run_fifo:
  "invar (length ops) q \<Longrightarrow> qlegal contents room put get q ops
    \<Longrightarrow> qout contents put get q ops @ contents (qrun put get q ops) = contents q @ qin ops"
proof (induction ops arbitrary: q)
  case (Cons x ops)
  show ?case
  proof (cases x)
    case (Put xs)
    with Cons.prems have l: "xs \<noteq> []" "length xs \<le> room q"
        and rest: "qlegal contents room put get (put xs q) ops" and i: "invar (Suc (length ops)) q"
      by auto
    from put_invar [OF i l] rest show ?thesis
      by (simp add: Put Cons.IH put_contents [OF i l])
  next
    case (Get n)
    with Cons.prems have l: "n \<le> length (contents q)"
        and rest: "qlegal contents room put get (get n q) ops" and i: "invar (Suc (length ops)) q"
      by auto
    from get_invar [OF i l] rest show ?thesis
      by (simp add: Get Cons.IH get_contents [OF i l])
  qed
qed simp

end

end
