(* ===== verification/Ring_Buffer.thy ===== *)
theory Ring_Buffer
  imports Prelude
begin

text \<open>
  The TELNET client's ring buffers, \<open>telnet/ring.c\<close> and \<open>telnet/ring.h\<close>.  A \<open>Ring\<close> is the C structure:
  pointers into a byte area \<open>[bottom, top)\<close> and two time stamps taken from the file-wide counter
  \<open>ring_clock\<close>, which tell a full ring from an empty one when \<open>consume = supply\<close>.  The byte area
  itself is memory outside the structure.  The build modelled is the one without \<open>ENCRYPTION\<close>.
\<close>

section \<open>The structure and its operations\<close>

record Ring =
  consume :: addr
  supply_p :: addr
  bottom :: addr
  top :: addr
  mark :: addr
  size_r :: int
  consumetime :: ulong
  supplytime :: ulong

definition ring_subtract :: "Ring \<Rightarrow> addr \<Rightarrow> addr \<Rightarrow> int" where
  "ring_subtract d a b = (if a - b \<ge> 0 then a - b else (a - b) + size_r d)"

definition ring_increment :: "Ring \<Rightarrow> addr \<Rightarrow> int \<Rightarrow> addr" where
  "ring_increment d a c = (if a + c < top d then a + c else (a + c) - size_r d)"

definition ring_decrement :: "Ring \<Rightarrow> addr \<Rightarrow> int \<Rightarrow> addr" where
  "ring_decrement d a c = (if a - c \<ge> bottom d then a - c else (a - c) - size_r d)"

definition ring_empty :: "Ring \<Rightarrow> bool" where
  "ring_empty d = (consume d = supply_p d \<and> consumetime d \<ge> supplytime d)"

definition ring_full :: "Ring \<Rightarrow> bool" where
  "ring_full d = (supply_p d = consume d \<and> supplytime d > consumetime d)"

definition ring_init :: "addr \<Rightarrow> int \<Rightarrow> Ring" where
  "ring_init buffer count =
     \<lparr>consume = buffer, supply_p = buffer, bottom = buffer, top = buffer + count, mark = 0,
      size_r = count, consumetime = 0, supplytime = 0\<rparr>"

definition ring_mark :: "Ring \<Rightarrow> Ring" where
  "ring_mark ring = ring\<lparr>mark := ring_decrement ring (supply_p ring) 1\<rparr>"

definition ring_at_mark :: "Ring \<Rightarrow> bool" where
  "ring_at_mark ring = (mark ring = consume ring)"

definition ring_clear_mark :: "Ring \<Rightarrow> Ring" where
  "ring_clear_mark ring = ring\<lparr>mark := 0\<rparr>"

definition ring_supplied :: "ulong \<Rightarrow> Ring \<Rightarrow> int \<Rightarrow> ulong \<times> Ring" where
  "ring_supplied ring_clock ring count =
     (ring_clock + 1,
      ring\<lparr>supply_p := ring_increment ring (supply_p ring) count, supplytime := ring_clock + 1\<rparr>)"

definition ring_consumed :: "ulong \<Rightarrow> Ring \<Rightarrow> int \<Rightarrow> ulong \<times> Ring" where
  "ring_consumed ring_clock ring count =
     (if count = 0 then (ring_clock, ring)
      else
        let r1 = (if mark ring \<noteq> 0 \<and> ring_subtract ring (mark ring) (consume ring) < count
                  then ring\<lparr>mark := 0\<rparr> else ring);
            r2 = r1\<lparr>consume := ring_increment r1 (consume r1) count, consumetime := ring_clock + 1\<rparr>
        in (ring_clock + 1,
            if ring_empty r2 then r2\<lparr>consume := bottom r2, supply_p := bottom r2\<rparr> else r2))"

definition ring_empty_count :: "Ring \<Rightarrow> int" where
  "ring_empty_count ring =
     (if ring_empty ring then size_r ring else ring_subtract ring (consume ring) (supply_p ring))"

definition ring_empty_consecutive :: "Ring \<Rightarrow> int" where
  "ring_empty_consecutive ring =
     (if consume ring < supply_p ring \<or> ring_empty ring
      then ring_subtract ring (top ring) (supply_p ring)
      else ring_subtract ring (consume ring) (supply_p ring))"

definition ring_full_count :: "Ring \<Rightarrow> int" where
  "ring_full_count ring =
     (if mark ring = 0 \<or> mark ring = consume ring
      then (if ring_full ring then size_r ring else ring_subtract ring (supply_p ring) (consume ring))
      else ring_subtract ring (mark ring) (consume ring))"

definition ring_full_consecutive :: "Ring \<Rightarrow> int" where
  "ring_full_consecutive ring =
     (if mark ring = 0 \<or> mark ring = consume ring
      then (if supply_p ring < consume ring \<or> ring_full ring
            then ring_subtract ring (top ring) (consume ring)
            else ring_subtract ring (supply_p ring) (consume ring))
      else (if mark ring < consume ring
            then ring_subtract ring (top ring) (consume ring)
            else ring_subtract ring (mark ring) (consume ring)))"

text \<open>
  The copying loop does not return when the ring has no room left for the rest of the data: the
  chunk is then empty and the loop goes round for ever.  Not returning is the value \<open>None\<close>.
\<close>

partial_function (option) ring_supply_data ::
  "mem \<Rightarrow> ulong \<Rightarrow> Ring \<Rightarrow> byte list \<Rightarrow> int \<Rightarrow> (mem \<times> ulong \<times> Ring) option" where
  "ring_supply_data m ring_clock ring buffer count =
     (if count = 0 then Some (m, ring_clock, ring)
      else
        let i = min count (ring_empty_consecutive ring);
            m' = mem_write m (supply_p ring) (take (nat i) buffer);
            st = ring_supplied ring_clock ring i
        in ring_supply_data m' (fst st) (snd st) (drop (nat i) buffer) (count - i))"

lemmas ring_defs = ring_subtract_def ring_increment_def ring_empty_def ring_full_def
  ring_empty_count_def ring_empty_consecutive_def ring_full_count_def ring_full_consecutive_def

section \<open>The invariant and the abstraction to a list of bytes\<close>

definition ring_ok :: "ulong \<Rightarrow> Ring \<Rightarrow> bool" where
  "ring_ok clk r \<longleftrightarrow> 0 < bottom r \<and> 0 < size_r r \<and> top r = bottom r + size_r r
     \<and> bottom r \<le> consume r \<and> consume r < top r \<and> bottom r \<le> supply_p r \<and> supply_p r < top r
     \<and> consumetime r \<le> clk \<and> supplytime r \<le> clk"

definition ring_used :: "Ring \<Rightarrow> nat" where
  "ring_used r = nat (if ring_full r then size_r r else ring_subtract r (supply_p r) (consume r))"

definition ring_slot :: "Ring \<Rightarrow> addr \<Rightarrow> nat \<Rightarrow> addr" where
  "ring_slot r p k = ring_increment r p (int k)"

definition ring_contents :: "mem \<Rightarrow> Ring \<Rightarrow> byte list" where
  "ring_contents m r = map (\<lambda>k. m (ring_slot r (consume r) k)) [0..<ring_used r]"

lemma length_ring_contents [simp]: "length (ring_contents m r) = ring_used r"
  by (simp add: ring_contents_def)

lemma ring_init_ok: "0 < buffer \<Longrightarrow> 0 < count \<Longrightarrow> ring_ok clk (ring_init buffer count)"
  by (simp add: ring_ok_def ring_init_def)

lemma ring_init_contents: "ring_contents m (ring_init buffer count) = []"
  by (simp add: ring_contents_def ring_used_def ring_init_def ring_full_def ring_subtract_def)

lemma ring_used_le: "ring_ok clk r \<Longrightarrow> int (ring_used r) \<le> size_r r"
  by (auto simp: ring_ok_def ring_used_def ring_subtract_def)

text \<open>Free and used space make up the whole area.\<close>

lemma ring_empty_count_used: "ring_ok clk r \<Longrightarrow> ring_empty_count r = size_r r - int (ring_used r)"
  by (auto simp: ring_ok_def ring_used_def ring_defs not_le)

lemma ring_empty_iff: "ring_ok clk r \<Longrightarrow> ring_empty r \<longleftrightarrow> ring_used r = 0"
  by (auto simp: ring_ok_def ring_used_def ring_defs not_le)

section \<open>Supplying and consuming\<close>

text \<open>\<open>ring_clock\<close> has room for \<open>k\<close> more ticks.\<close>

definition ticks :: "nat \<Rightarrow> ulong \<Rightarrow> bool" where
  "ticks k clk \<longleftrightarrow> unat clk + k < 2 ^ 64"

lemma ticks_less: "ticks (Suc k) clk \<Longrightarrow> t \<le> clk \<Longrightarrow> t < clk + 1"
  by (auto simp: ticks_def word_less_nat_alt word_le_nat_alt unat_word_ariths)

lemma ticks_Suc: "ticks (Suc k) clk \<Longrightarrow> ticks k (clk + 1)"
  by (auto simp: ticks_def unat_word_ariths)

lemma ticks_mono: "ticks k clk \<Longrightarrow> j \<le> k \<Longrightarrow> ticks j clk"
  by (auto simp: ticks_def)

lemma ring_empty_consecutive_bounds:
  "ring_ok clk r \<Longrightarrow> 0 \<le> ring_empty_consecutive r \<and> ring_empty_consecutive r \<le> ring_empty_count r"
  by (auto simp: ring_ok_def ring_defs)

lemma ring_empty_consecutive_pos:
  "ring_ok clk r \<Longrightarrow> 0 < ring_empty_count r \<Longrightarrow> 0 < ring_empty_consecutive r"
  by (auto simp: ring_ok_def ring_defs split: if_splits)

lemma ring_slot_old:
  "ring_ok clk r \<Longrightarrow> 0 < i \<Longrightarrow> i \<le> ring_empty_consecutive r \<Longrightarrow> k < ring_used r
    \<Longrightarrow> ring_slot r (consume r) k < supply_p r \<or> supply_p r + i \<le> ring_slot r (consume r) k"
  by (auto simp: ring_ok_def ring_defs ring_used_def ring_slot_def split: if_splits)

lemma ring_slot_new:
  "ring_ok clk r \<Longrightarrow> 0 < i \<Longrightarrow> i \<le> ring_empty_consecutive r \<Longrightarrow> int j < i
    \<Longrightarrow> ring_slot r (consume r) (ring_used r + j) = supply_p r + int j"
  by (auto simp: ring_ok_def ring_defs ring_used_def ring_slot_def split: if_splits)

lemma ring_supplied_ok:
  "ring_ok clk r \<Longrightarrow> 0 < i \<Longrightarrow> i \<le> ring_empty_consecutive r \<Longrightarrow> ticks (Suc k) clk
    \<Longrightarrow> ring_ok (fst (ring_supplied clk r i)) (snd (ring_supplied clk r i))"
  using ticks_less [of k clk "consumetime r"]
  by (auto simp: ring_ok_def ring_supplied_def ring_defs less_imp_le split: if_splits)

text \<open>The number of used bytes as integer arithmetic: \<open>f\<close> is the verdict of the time stamps.\<close>

definition used_of :: "int \<Rightarrow> int \<Rightarrow> int \<Rightarrow> bool \<Rightarrow> int" where
  "used_of c s n f = (if c = s then (if f then n else 0) else if c < s then s - c else s - c + n)"

lemma ring_used_of:
  "ring_used r = nat (used_of (consume r) (supply_p r) (size_r r) (consumetime r < supplytime r))"
  by (auto simp: ring_used_def ring_full_def ring_subtract_def used_of_def)

lemma ring_empty_consecutive_of:
  "ring_empty_consecutive r = (if consume r < supply_p r \<or> (consume r = supply_p r \<and> \<not> consumetime r < supplytime r)
     then ring_subtract r (top r) (supply_p r) else ring_subtract r (consume r) (supply_p r))"
  by (auto simp: ring_empty_consecutive_def ring_empty_def not_less)

lemma ring_supplied_used:
  assumes ok: "ring_ok clk r" and i: "0 < i" "i \<le> ring_empty_consecutive r" and t: "ticks (Suc k) clk"
  shows "ring_used (snd (ring_supplied clk r i)) = ring_used r + nat i"
proof -
  from ok have "consumetime r \<le> clk" by (simp add: ring_ok_def)
  then have f: "consumetime r < clk + 1" by (rule ticks_less [OF t])
  have "used_of (consume r) (ring_increment r (supply_p r) i) (size_r r) True
      = used_of (consume r) (supply_p r) (size_r r) (consumetime r < supplytime r) + i
    \<and> 0 \<le> used_of (consume r) (supply_p r) (size_r r) (consumetime r < supplytime r)"
    using ok i unfolding ring_ok_def ring_empty_consecutive_of
    by (cases "consumetime r < supplytime r")
      (auto simp: used_of_def ring_increment_def ring_subtract_def split: if_splits)
  then show ?thesis
    using f i by (simp add: ring_used_of ring_supplied_def nat_add_distrib)
qed

lemma ring_supplied_contents:
  assumes ok: "ring_ok clk r" and i: "0 < i" "i \<le> ring_empty_consecutive r"
    and t: "ticks (Suc k) clk" and len: "length bs = nat i"
  shows "ring_contents (mem_write m (supply_p r) bs) (snd (ring_supplied clk r i))
    = ring_contents m r @ bs"
proof (rule nth_equalityI)
  show "length (ring_contents (mem_write m (supply_p r) bs) (snd (ring_supplied clk r i)))
    = length (ring_contents m r @ bs)"
    using ring_supplied_used [OF ok i t] len by simp
next
  fix n
  assume "n < length (ring_contents (mem_write m (supply_p r) bs) (snd (ring_supplied clk r i)))"
  then have n: "n < ring_used r + nat i" by (simp add: ring_supplied_used [OF ok i t])
  have slot: "ring_slot (snd (ring_supplied clk r i)) p j = ring_slot r p j" for p j
    by (simp add: ring_supplied_def ring_slot_def ring_increment_def)
  have c: "consume (snd (ring_supplied clk r i)) = consume r" by (simp add: ring_supplied_def)
  have lhs: "ring_contents (mem_write m (supply_p r) bs) (snd (ring_supplied clk r i)) ! n
      = mem_write m (supply_p r) bs (ring_slot r (consume r) n)"
    using n by (simp add: ring_contents_def ring_supplied_used [OF ok i t] slot c)
  show "ring_contents (mem_write m (supply_p r) bs) (snd (ring_supplied clk r i)) ! n
    = (ring_contents m r @ bs) ! n"
  proof (cases "n < ring_used r")
    case True
    then show ?thesis
      using ring_slot_old [OF ok i True] len i
      by (simp add: lhs mem_write_out nth_append) (simp add: ring_contents_def)
  next
    case False
    then obtain j where j: "n = ring_used r + j" "int j < i"
      using n i by (metis add_diff_inverse_nat nat_add_left_cancel_less zless_nat_eq_int_zless)
    then show ?thesis
      using ring_slot_new [OF ok i j(2)] len i lhs
      by (simp add: mem_write_in nth_append)
  qed
qed

text \<open>Consuming, field by field: a ring that becomes empty is rewound to its bottom.\<close>

lemma ring_consumed_fields:
  assumes ok: "ring_ok clk r" and t: "ticks (Suc k) clk" and n: "c \<noteq> 0"
  defines "r' \<equiv> snd (ring_consumed clk r c)" and "p \<equiv> ring_increment r (consume r) c"
  shows "fst (ring_consumed clk r c) = clk + 1" "bottom r' = bottom r" "top r' = top r" "size_r r' = size_r r"
    "supplytime r' = supplytime r" "consumetime r' = clk + 1" "supplytime r < clk + 1"
    "consume r' = (if p = supply_p r then bottom r else p)"
    "supply_p r' = (if p = supply_p r then bottom r else supply_p r)"
proof -
  from ok have "supplytime r \<le> clk" by (simp add: ring_ok_def)
  then have f: "supplytime r < clk + 1" by (rule ticks_less [OF t])
  then show "supplytime r < clk + 1" .
  from f have "supplytime r \<le> clk + 1" by (rule less_imp_le)
  with n f show "fst (ring_consumed clk r c) = clk + 1" "bottom r' = bottom r" "top r' = top r"
    "size_r r' = size_r r" "supplytime r' = supplytime r" "consumetime r' = clk + 1"
    "consume r' = (if p = supply_p r then bottom r else p)"
    "supply_p r' = (if p = supply_p r then bottom r else supply_p r)"
    by (simp_all add: r'_def p_def ring_consumed_def Let_def ring_empty_def ring_increment_def)
qed

lemma ring_consumed_0 [simp]: "ring_consumed clk r 0 = (clk, r)"
  by (simp add: ring_consumed_def)

lemma ring_consumed_ok:
  assumes ok: "ring_ok clk r" and n: "n \<le> ring_used r" and t: "ticks (Suc k) clk"
  shows "ring_ok (fst (ring_consumed clk r (int n))) (snd (ring_consumed clk r (int n)))"
proof (cases "n = 0")
  case False
  then have "int n \<noteq> 0" by simp
  note f = ring_consumed_fields [OF ok t this]
  show ?thesis
    using ok n ring_used_le [OF ok] False f(7) unfolding ring_ok_def f
    by (auto simp: ring_increment_def)
qed (use ok in simp)

lemma ring_consumed_used:
  assumes ok: "ring_ok clk r" and n: "n \<le> ring_used r" and t: "ticks (Suc k) clk"
  shows "ring_used (snd (ring_consumed clk r (int n))) = ring_used r - n"
proof (cases "n = 0")
  case False
  then have "int n \<noteq> 0" by simp
  note f = ring_consumed_fields [OF ok t this]
  have "used_of (ring_increment r (consume r) (int n)) (supply_p r) (size_r r) False
      = used_of (consume r) (supply_p r) (size_r r) (consumetime r < supplytime r) - int n"
    using ok n False unfolding ring_ok_def ring_used_of
    by (cases "consumetime r < supplytime r")
      (auto simp: used_of_def ring_increment_def split: if_splits)
  moreover have "\<not> clk + 1 < supplytime r" using f(7) by simp
  moreover have "used_of (if p = q then b else p) (if p = q then b else q) z False = used_of p q z False"
    for p q b z :: int by (simp add: used_of_def)
  ultimately show ?thesis
    unfolding ring_used_of f by simp
qed simp

lemma ring_consumed_slot:
  assumes ok: "ring_ok clk r" and n: "n + k < ring_used r" and t: "ticks (Suc j) clk"
  shows "ring_slot (snd (ring_consumed clk r (int n))) (consume (snd (ring_consumed clk r (int n)))) k
      = ring_slot r (consume r) (n + k)"
proof (cases "n = 0")
  case False
  then have "int n \<noteq> 0" by simp
  note f = ring_consumed_fields [OF ok t this]
  have "ring_increment r (consume r) (int n) \<noteq> supply_p r"
    using ok n False unfolding ring_ok_def ring_used_of
    by (auto simp: used_of_def ring_increment_def split: if_splits)
  then show ?thesis
    using ok n ring_used_le [OF ok] unfolding ring_slot_def ring_increment_def f ring_ok_def
    by auto
qed simp

lemma ring_consumed_contents:
  assumes "ring_ok clk r" "n \<le> ring_used r" "ticks (Suc k) clk"
  shows "ring_contents m (snd (ring_consumed clk r (int n))) = drop n (ring_contents m r)"
proof -
  have "ring_contents m (snd (ring_consumed clk r (int n)))
      = map (\<lambda>j. m (ring_slot r (consume r) (n + j))) [0..<ring_used r - n]"
    unfolding ring_contents_def ring_consumed_used [OF assms]
    by (rule map_cong) (use assms in \<open>auto simp: ring_consumed_slot\<close>)
  then show ?thesis
    by (simp add: ring_contents_def map_upt_drop)
qed

section \<open>The copying loop\<close>

lemma ring_empty_count_supplied:
  assumes "ring_ok clk r" "0 < i" "i \<le> ring_empty_consecutive r" "ticks (Suc k) clk"
  shows "ring_empty_count (snd (ring_supplied clk r i)) = ring_empty_count r - i"
proof -
  have "size_r (snd (ring_supplied clk r i)) = size_r r" by (simp add: ring_supplied_def)
  then show ?thesis
    using ring_empty_count_used [OF ring_supplied_ok [OF assms]] ring_empty_count_used [OF assms(1)]
      ring_supplied_used [OF assms] assms(2)
    by simp
qed

text \<open>
  After a chunk that fills the area up to its top the free space is consecutive again, so the loop
  goes round at most twice and the clock ticks at most twice.
\<close>

lemma ring_second_chunk:
  assumes ok: "ring_ok clk r" and "0 < ring_empty_consecutive r" "ring_empty_consecutive r < count"
    "count \<le> ring_empty_count r" and t: "ticks (Suc k) clk"
  defines "r' \<equiv> snd (ring_supplied clk r (ring_empty_consecutive r))"
  shows "count - ring_empty_consecutive r \<le> ring_empty_consecutive r'"
proof -
  have "consumetime r \<le> clk" using ok by (simp add: ring_ok_def)
  then have f: "consumetime r < clk + 1" by (rule ticks_less [OF t])
  show ?thesis
    using assms(1-4) f unfolding r'_def ring_ok_def
    by (auto simp: ring_defs ring_supplied_def split: if_splits)
qed

lemma ring_supply_data_0: "ring_supply_data m clk r buf 0 = Some (m, clk, r)"
  by (simp add: ring_supply_data.simps)

lemma ring_supply_data_chunk:
  assumes ok: "ring_ok clk r" and c: "0 < count" "count \<le> ring_empty_consecutive r"
  shows "ring_supply_data m clk r buf count =
    Some (mem_write m (supply_p r) (take (nat count) buf), ring_supplied clk r count)"
  using c by (subst ring_supply_data.simps) (simp add: Let_def ring_supply_data_0 min_def)

lemma ring_supply_data_split:
  assumes ok: "ring_ok clk r" and e: "0 < ring_empty_consecutive r" "ring_empty_consecutive r < count"
    "count \<le> ring_empty_count r" and t: "ticks (Suc (Suc k)) clk"
  defines "e \<equiv> ring_empty_consecutive r" and "s \<equiv> ring_supplied clk r (ring_empty_consecutive r)"
  shows "ring_supply_data m clk r buf count =
    Some (mem_write (mem_write m (supply_p r) (take (nat e) buf)) (supply_p (snd s))
            (take (nat (count - e)) (drop (nat e) buf)),
          ring_supplied (fst s) (snd s) (count - e))"
proof -
  have le: "ring_empty_consecutive r \<le> ring_empty_consecutive r" by simp
  have ok': "ring_ok (fst s) (snd s)" unfolding s_def by (rule ring_supplied_ok [OF ok e(1) le t])
  have "count - e \<le> ring_empty_consecutive (snd s)"
    unfolding s_def e_def by (rule ring_second_chunk [OF ok e t])
  with ok' e(1,2) show ?thesis
    by (subst ring_supply_data.simps)
      (simp add: Let_def e_def min_def s_def ring_supply_data_chunk)
qed

lemma ring_supply_data_effect:
  assumes ok: "ring_ok clk r" and c: "length xs = nat count" "0 < count" "count \<le> ring_empty_count r"
    and t: "ticks (Suc (Suc k)) clk"
  shows "\<exists>m' clk' r'. ring_supply_data m clk r xs count = Some (m', clk', r')
    \<and> ring_ok clk' r' \<and> ticks k clk' \<and> ring_contents m' r' = ring_contents m r @ xs"
proof (cases "count \<le> ring_empty_consecutive r")
  case True
  note s = ok c(2) True t
  from ring_supply_data_chunk [OF ok c(2) True] show ?thesis
    using ring_supplied_ok [OF s] ring_supplied_contents [OF s c(1)] c(1) ticks_Suc [OF t]
      ticks_mono [OF ticks_Suc [OF t], of k]
    by (auto simp: ring_supplied_def)
next
  case False
  define e where "e = ring_empty_consecutive r"
  define s where "s = ring_supplied clk r e"
  define ys where "ys = take (nat e) xs"
  define zs where "zs = take (nat (count - e)) (drop (nat e) xs)"
  have e: "0 < e" "e < count" "e \<le> ring_empty_consecutive r"
    using False ring_empty_consecutive_pos [OF ok] c by (auto simp: e_def)
  note s1 = ok e(1,3) t
  have ok1: "ring_ok (fst s) (snd s)" unfolding s_def by (rule ring_supplied_ok [OF s1])
  have t1: "ticks (Suc k) (fst s)" using ticks_Suc [OF t] by (simp add: s_def ring_supplied_def)
  have e2: "0 < count - e" "count - e \<le> ring_empty_consecutive (snd s)"
    using e ring_second_chunk [OF ok _ _ c(3) t] by (auto simp: s_def e_def)
  note s2 = ok1 e2 t1
  have len: "length ys = nat e" "length zs = nat (count - e)" "ys @ zs = xs"
    using e c(1) by (auto simp: ys_def zs_def nat_diff_distrib' take_append_drop_take)
  from ring_supply_data_split [OF ok _ _ c(3) t] e
  have "ring_supply_data m clk r xs count =
    Some (mem_write (mem_write m (supply_p r) ys) (supply_p (snd s)) zs,
          ring_supplied (fst s) (snd s) (count - e))"
    by (simp add: e_def s_def ys_def zs_def)
  moreover have "ring_contents (mem_write (mem_write m (supply_p r) ys) (supply_p (snd s)) zs)
      (snd (ring_supplied (fst s) (snd s) (count - e))) = ring_contents m r @ xs"
    using ring_supplied_contents [OF s1 len(1), of m] ring_supplied_contents [OF s2 len(2)]
    by (simp add: s_def flip: len(3))
  ultimately show ?thesis
    using ring_supplied_ok [OF s2] ticks_Suc [OF t1] by (auto simp: ring_supplied_def)
qed

section \<open>The ring as a queue\<close>

type_synonym ring_state = "mem \<times> ulong \<times> Ring"

fun rq_invar :: "nat \<Rightarrow> ring_state \<Rightarrow> bool" where
  "rq_invar k (m, clk, r) = (ring_ok clk r \<and> ticks (2 * k) clk)"

fun rq_contents :: "ring_state \<Rightarrow> byte list" where
  "rq_contents (m, clk, r) = ring_contents m r"

fun rq_room :: "ring_state \<Rightarrow> nat" where
  "rq_room (m, clk, r) = nat (ring_empty_count r)"

fun rq_put :: "byte list \<Rightarrow> ring_state \<Rightarrow> ring_state" where
  "rq_put xs (m, clk, r) =
     (case ring_supply_data m clk r xs (int (length xs)) of Some s \<Rightarrow> s | None \<Rightarrow> (m, clk, r))"

fun rq_get :: "nat \<Rightarrow> ring_state \<Rightarrow> ring_state" where
  "rq_get n (m, clk, r) = (m, ring_consumed clk r (int n))"

lemma rq_put_effect:
  assumes "rq_invar (Suc k) q" "xs \<noteq> []" "length xs \<le> rq_room q"
  shows "rq_invar k (rq_put xs q) \<and> rq_contents (rq_put xs q) = rq_contents q @ xs"
proof -
  obtain m clk r where q: "q = (m, clk, r)" by (cases q)
  have c: "length xs = nat (int (length xs))" "0 < int (length xs)" "int (length xs) \<le> ring_empty_count r"
    using assms ring_used_le [of clk r] ring_empty_count_used [of clk r] by (auto simp: q)
  obtain m' clk' r' where "ring_supply_data m clk r xs (int (length xs)) = Some (m', clk', r')"
      "ring_ok clk' r'" "ticks (2 * k) clk'" "ring_contents m' r' = ring_contents m r @ xs"
    using ring_supply_data_effect [OF _ c, of clk "2 * k" m] assms(1) by (auto simp: q)
  then show ?thesis by (simp add: q)
qed

interpretation rq: fifo_queue rq_invar rq_contents rq_room rq_put rq_get
proof
  fix k q and xs :: "byte list"
  assume p: "rq_invar (Suc k) q" "xs \<noteq> []" "length xs \<le> rq_room q"
  show "rq_invar k (rq_put xs q)" "rq_contents (rq_put xs q) = rq_contents q @ xs"
    using rq_put_effect [OF p] by simp_all
next
  fix k q n
  assume p: "rq_invar (Suc k) q" and n: "n \<le> length (rq_contents q)"
  obtain m clk r where q: "q = (m, clk, r)" by (cases q)
  from p have g: "ring_ok clk r" "n \<le> ring_used r" "ticks (Suc (Suc (2 * k))) clk"
    using n by (auto simp: q)
  from ring_consumed_ok [OF g] ticks_Suc [OF g(3)] ticks_mono [OF g(3), of "2 * k"]
  show "rq_invar k (rq_get n q)"
    by (cases "n = 0") (auto simp: q ring_consumed_def Let_def intro: ticks_mono)
  from ring_consumed_contents [OF g] show "rq_contents (rq_get n q) = drop n (rq_contents q)"
    by (cases "ring_consumed clk r (int n)") (simp add: q)
qed

section \<open>Properties\<close>

text \<open>
  (C10) First in, first out.  Over any run of \<open>ring_supply_data\<close> and \<open>ring_consumed\<close> calls on an
  initialised ring, in which every supply fits in \<open>ring_empty_count\<close> and every consumption is
  covered by the bytes held, the bytes consumed followed by the bytes still in the ring are exactly
  the bytes supplied, in order.
\<close>

theorem ring_fifo:
  assumes "0 < buffer" "0 < count" "ticks (2 * length ops) clk"
    and "qlegal rq_contents rq_room rq_put rq_get (m, clk, ring_init buffer count) ops"
  shows "qout rq_contents rq_put rq_get (m, clk, ring_init buffer count) ops
    @ rq_contents (qrun rq_put rq_get (m, clk, ring_init buffer count) ops) = qin ops"
  using rq.run_fifo [of ops "(m, clk, ring_init buffer count)"] assms
  by (simp add: ring_init_ok ring_init_contents)

theorem ring_fifo_witness:
  "qout rq_contents rq_put rq_get (\<lambda>_. 0, 0, ring_init 100 4) [Put [7, 8, 9], Get 2, Put [10, 11]]
    @ rq_contents (qrun rq_put rq_get (\<lambda>_. 0, 0, ring_init 100 4) [Put [7, 8, 9], Get 2, Put [10, 11]])
    = [7, 8, 9, 10, 11]"
proof -
  have "qlegal rq_contents rq_room rq_put rq_get (\<lambda>_. 0, 0, ring_init 100 4)
      [Put [7, 8, 9], Get 2, Put [10, 11]]"
    by (simp add: ring_init_def ring_defs ring_consumed_def ring_supplied_def ring_contents_def
        ring_used_def ring_supply_data.simps Let_def)
  then show ?thesis
    using ring_fifo [of 100 4 "[Put [7, 8, 9], Get 2, Put [10, 11]]" 0 "\<lambda>_. 0"]
    by (simp add: ticks_def)
qed

text \<open>
  The copying loop returns whenever the data fits: \<open>ring_supply_data\<close> stops, keeps the ring
  well formed and appends exactly the given bytes, wrapping round the top of the area if needed.
\<close>

theorem ring_supply_data_returns:
  assumes "ring_ok clk r" "xs \<noteq> []" "int (length xs) \<le> ring_empty_count r" "ticks 2 clk"
  shows "\<exists>m' clk' r'. ring_supply_data m clk r xs (int (length xs)) = Some (m', clk', r')
    \<and> ring_ok clk' r' \<and> ring_contents m' r' = ring_contents m r @ xs
    \<and> ring_empty_count r' = ring_empty_count r - int (length xs)"
proof -
  have "0 < int (length xs)" using assms(2) by simp
  then obtain m' clk' r' where s: "ring_supply_data m clk r xs (int (length xs)) = Some (m', clk', r')"
      "ring_ok clk' r'" "ring_contents m' r' = ring_contents m r @ xs"
    using ring_supply_data_effect [of clk r xs "int (length xs)" 0 m] assms
    by (auto simp: numeral_2_eq_2)
  have "ring_used r' = ring_used r + length xs"
    using arg_cong [OF s(3), of length] by simp
  moreover have "size_r r' = size_r r"
    by (rule ring_supply_data.raw_induct [where P = "\<lambda>m clk r xs c s. size_r (snd (snd s)) = size_r r",
          OF _ s(1), simplified]) (auto simp: Let_def ring_supplied_def split: if_splits)
  ultimately show ?thesis
    using s ring_empty_count_used [OF assms(1)] ring_empty_count_used [OF s(2)] by auto
qed

theorem ring_supply_data_returns_witness:
  "\<exists>m' clk' r'. ring_supply_data (\<lambda>_. 0) 0 (ring_init 100 4) [1, 2, 3] 3 = Some (m', clk', r')
    \<and> ring_ok clk' r' \<and> ring_contents m' r' = [1, 2, 3] \<and> ring_empty_count r' = 1"
proof -
  have "ring_empty_count (ring_init 100 4) = 4" by (simp add: ring_init_def ring_defs)
  then show ?thesis
    using ring_supply_data_returns [of 0 "ring_init 100 4" "[1, 2, 3]" "\<lambda>_. 0"]
    by (simp add: ring_init_ok ring_init_contents ticks_def)
qed

lemma ring_supply_data_full_round:
  assumes "ring_ok clk r" "ring_full r" "0 < count"
  shows "ring_supply_data m clk r buf count
    = ring_supply_data m (clk + 1) (r\<lparr>supplytime := clk + 1\<rparr>) buf count"
proof -
  have "ring_empty_consecutive r = 0"
    using assms by (auto simp: ring_empty_consecutive_def ring_full_def ring_empty_def ring_subtract_def)
  moreover have "ring_supplied clk r 0 = (clk + 1, r\<lparr>supplytime := clk + 1\<rparr>)"
    using assms(1) by (cases r) (simp add: ring_supplied_def ring_increment_def ring_ok_def)
  ultimately show ?thesis
    using assms(3) by (subst ring_supply_data.simps) (simp add: Let_def)
qed

text \<open>
  On a full ring the loop spins: a round of \<open>ring_supply_data\<close> copies nothing and changes
  nothing but the clock, so the call is equal to itself after any number of rounds the clock has
  room for.  Callers must check \<open>ring_empty_count\<close> first.
\<close>

theorem ring_supply_data_full_spins:
  assumes "ring_ok clk r" "ring_full r" "0 < count" "ticks (Suc n) clk"
  shows "ring_supply_data m clk r buf count
    = ring_supply_data m (clk + of_nat (Suc n)) (r\<lparr>supplytime := clk + of_nat (Suc n)\<rparr>) buf count"
  using assms
proof (induction n arbitrary: clk r)
  case 0
  then show ?case by (simp add: ring_supply_data_full_round)
next
  case (Suc n)
  let ?r = "r\<lparr>supplytime := clk + 1\<rparr>"
  have t: "ticks (Suc 0) clk" using ticks_mono [OF Suc.prems(4)] by simp
  have c: "consumetime r < clk + 1"
    using ticks_less [OF t, of "consumetime r"] Suc.prems(1) by (simp add: ring_ok_def)
  have ok: "ring_ok (clk + 1) ?r"
    using Suc.prems(1) c by (auto simp: ring_ok_def less_imp_le)
  have full: "ring_full ?r" using Suc.prems(2) c by (simp add: ring_full_def)
  have "ring_supply_data m clk r buf count = ring_supply_data m (clk + 1) ?r buf count"
    using Suc.prems(1-3) by (rule ring_supply_data_full_round)
  with Suc.IH [OF ok full Suc.prems(3) ticks_Suc [OF Suc.prems(4)]] show ?case
    by (simp add: algebra_simps)
qed

definition ring_full_example :: Ring where
  "ring_full_example = \<lparr>consume = 100, supply_p = 100, bottom = 100, top = 104, mark = 0, size_r = 4,
     consumetime = 0, supplytime = 1\<rparr>"

theorem ring_supply_data_full_spins_witness:
  "ring_supply_data (\<lambda>_. 0) 1 ring_full_example [5] 1
    = ring_supply_data (\<lambda>_. 0) 9 (ring_full_example\<lparr>supplytime := 9\<rparr>) [5] 1"
  using ring_supply_data_full_spins [of 1 ring_full_example 1 7 "\<lambda>_. 0" "[5]"]
  by (simp add: ring_full_example_def ring_ok_def ring_full_def ticks_def)

text \<open>
  The urgent mark.  When the write position is above the bottom of the area \<open>ring_mark\<close> marks
  the byte supplied last; when it has just wrapped round to the bottom, \<open>ring_decrement\<close> subtracts
  the size of the area where it should add it: the mark lies below the area and \<open>ring_full_count\<close>
  is negative.
\<close>

theorem ring_mark_position:
  assumes "ring_ok clk r"
  shows "if supply_p r = bottom r
    then mark (ring_mark r) = bottom r - 1 - size_r r
      \<and> (size_r r + 1 < bottom r \<longrightarrow> ring_full_count (ring_mark r) < 0)
    else ring_increment r (mark (ring_mark r)) 1 = supply_p r \<and> bottom r \<le> mark (ring_mark r)
      \<and> mark (ring_mark r) < top r"
  using assms
  by (auto simp: ring_mark_def ring_decrement_def ring_ok_def ring_increment_def
      ring_full_count_def ring_subtract_def)

theorem ring_mark_position_witness:
  "mark (ring_mark ring_full_example) = 95 \<and> ring_full_count (ring_mark ring_full_example) < 0"
  using ring_mark_position [of 1 ring_full_example]
  by (simp add: ring_full_example_def ring_ok_def)

end
