(* ===== verification/Telnet_Proto.thy ===== *)
theory Telnet_Proto
  imports Prelude
begin

text \<open>
  What the TELNET server and client share: the constants of \<open>arpa/telnet.h\<close>, and the negotiation of one
  option in one direction as an abstract machine, which both programs implement.
\<close>

section \<open>Protocol constants\<close>

abbreviation (input) IAC :: byte where "IAC \<equiv> 255"
abbreviation (input) DONT :: byte where "DONT \<equiv> 254"
abbreviation (input) DO :: byte where "DO \<equiv> 253"
abbreviation (input) WONT :: byte where "WONT \<equiv> 252"
abbreviation (input) WILL :: byte where "WILL \<equiv> 251"
abbreviation (input) SB :: byte where "SB \<equiv> 250"
abbreviation (input) EL :: byte where "EL \<equiv> 248"
abbreviation (input) EC :: byte where "EC \<equiv> 247"
abbreviation (input) AYT :: byte where "AYT \<equiv> 246"
abbreviation (input) AO :: byte where "AO \<equiv> 245"
abbreviation (input) IP :: byte where "IP \<equiv> 244"
abbreviation (input) BREAK :: byte where "BREAK \<equiv> 243"
abbreviation (input) DM :: byte where "DM \<equiv> 242"
abbreviation (input) SE :: byte where "SE \<equiv> 240"
abbreviation (input) EOR :: byte where "EOR \<equiv> 239"
abbreviation (input) ABORT :: byte where "ABORT \<equiv> 238"
abbreviation (input) SUSP :: byte where "SUSP \<equiv> 237"
abbreviation (input) xEOF :: byte where "xEOF \<equiv> 236"

abbreviation (input) TELOPT_BINARY :: byte where "TELOPT_BINARY \<equiv> 0"
abbreviation (input) TELOPT_ECHO :: byte where "TELOPT_ECHO \<equiv> 1"
abbreviation (input) TELOPT_SGA :: byte where "TELOPT_SGA \<equiv> 3"
abbreviation (input) TELOPT_STATUS :: byte where "TELOPT_STATUS \<equiv> 5"
abbreviation (input) TELOPT_TM :: byte where "TELOPT_TM \<equiv> 6"
abbreviation (input) TELOPT_LOGOUT :: byte where "TELOPT_LOGOUT \<equiv> 18"
abbreviation (input) TELOPT_TTYPE :: byte where "TELOPT_TTYPE \<equiv> 24"
abbreviation (input) TELOPT_EOR :: byte where "TELOPT_EOR \<equiv> 25"
abbreviation (input) TELOPT_NAWS :: byte where "TELOPT_NAWS \<equiv> 31"
abbreviation (input) TELOPT_TSPEED :: byte where "TELOPT_TSPEED \<equiv> 32"
abbreviation (input) TELOPT_LFLOW :: byte where "TELOPT_LFLOW \<equiv> 33"
abbreviation (input) TELOPT_LINEMODE :: byte where "TELOPT_LINEMODE \<equiv> 34"
abbreviation (input) TELOPT_XDISPLOC :: byte where "TELOPT_XDISPLOC \<equiv> 35"
abbreviation (input) TELOPT_OLD_ENVIRON :: byte where "TELOPT_OLD_ENVIRON \<equiv> 36"
abbreviation (input) TELOPT_NEW_ENVIRON :: byte where "TELOPT_NEW_ENVIRON \<equiv> 39"
abbreviation (input) NTELOPTS :: nat where "NTELOPTS \<equiv> 40"

abbreviation (input) TELQUAL_IS :: byte where "TELQUAL_IS \<equiv> 0"
abbreviation (input) TELQUAL_SEND :: byte where "TELQUAL_SEND \<equiv> 1"
abbreviation (input) TELQUAL_INFO :: byte where "TELQUAL_INFO \<equiv> 2"

abbreviation (input) LFLOW_OFF :: byte where "LFLOW_OFF \<equiv> 0"
abbreviation (input) LFLOW_ON :: byte where "LFLOW_ON \<equiv> 1"
abbreviation (input) LFLOW_RESTART_ANY :: byte where "LFLOW_RESTART_ANY \<equiv> 2"
abbreviation (input) LFLOW_RESTART_XON :: byte where "LFLOW_RESTART_XON \<equiv> 3"

abbreviation (input) LM_MODE :: byte where "LM_MODE \<equiv> 1"
abbreviation (input) LM_FORWARDMASK :: byte where "LM_FORWARDMASK \<equiv> 2"
abbreviation (input) LM_SLC :: byte where "LM_SLC \<equiv> 3"

abbreviation (input) MODE_EDIT :: byte where "MODE_EDIT \<equiv> 0x01"
abbreviation (input) MODE_TRAPSIG :: byte where "MODE_TRAPSIG \<equiv> 0x02"
abbreviation (input) MODE_ACK :: byte where "MODE_ACK \<equiv> 0x04"
abbreviation (input) MODE_SOFT_TAB :: byte where "MODE_SOFT_TAB \<equiv> 0x08"
abbreviation (input) MODE_LIT_ECHO :: byte where "MODE_LIT_ECHO \<equiv> 0x10"
abbreviation (input) MODE_MASK :: byte where "MODE_MASK \<equiv> 0x1f"

abbreviation (input) SLC_SYNCH :: nat where "SLC_SYNCH \<equiv> 1"
abbreviation (input) SLC_BRK :: nat where "SLC_BRK \<equiv> 2"
abbreviation (input) SLC_IP :: nat where "SLC_IP \<equiv> 3"
abbreviation (input) SLC_AO :: nat where "SLC_AO \<equiv> 4"
abbreviation (input) SLC_AYT :: nat where "SLC_AYT \<equiv> 5"
abbreviation (input) SLC_EOR :: nat where "SLC_EOR \<equiv> 6"
abbreviation (input) SLC_ABORT :: nat where "SLC_ABORT \<equiv> 7"
abbreviation (input) SLC_EOF :: nat where "SLC_EOF \<equiv> 8"
abbreviation (input) SLC_SUSP :: nat where "SLC_SUSP \<equiv> 9"
abbreviation (input) SLC_EC :: nat where "SLC_EC \<equiv> 10"
abbreviation (input) SLC_EL :: nat where "SLC_EL \<equiv> 11"
abbreviation (input) SLC_EW :: nat where "SLC_EW \<equiv> 12"
abbreviation (input) SLC_RP :: nat where "SLC_RP \<equiv> 13"
abbreviation (input) SLC_LNEXT :: nat where "SLC_LNEXT \<equiv> 14"
abbreviation (input) SLC_XON :: nat where "SLC_XON \<equiv> 15"
abbreviation (input) SLC_XOFF :: nat where "SLC_XOFF \<equiv> 16"
abbreviation SLC_FORW1 :: nat where "SLC_FORW1 \<equiv> 17"
abbreviation SLC_FORW2 :: nat where "SLC_FORW2 \<equiv> 18"
abbreviation (input) NSLC :: nat where "NSLC \<equiv> 18"

abbreviation (input) SLC_NOSUPPORT :: byte where "SLC_NOSUPPORT \<equiv> 0"
abbreviation (input) SLC_CANTCHANGE :: byte where "SLC_CANTCHANGE \<equiv> 1"
abbreviation (input) SLC_VARIABLE :: byte where "SLC_VARIABLE \<equiv> 2"
abbreviation (input) SLC_DEFAULT :: byte where "SLC_DEFAULT \<equiv> 3"
abbreviation (input) SLC_LEVELBITS :: byte where "SLC_LEVELBITS \<equiv> 0x03"
abbreviation (input) SLC_FLUSHOUT :: byte where "SLC_FLUSHOUT \<equiv> 0x20"
abbreviation (input) SLC_FLUSHIN :: byte where "SLC_FLUSHIN \<equiv> 0x40"
abbreviation (input) SLC_ACK :: byte where "SLC_ACK \<equiv> 0x80"

abbreviation (input) OLD_ENV_VALUE :: byte where "OLD_ENV_VALUE \<equiv> 0"
abbreviation (input) OLD_ENV_VAR :: byte where "OLD_ENV_VAR \<equiv> 1"
abbreviation (input) NEW_ENV_VAR :: byte where "NEW_ENV_VAR \<equiv> 0"
abbreviation (input) NEW_ENV_VALUE :: byte where "NEW_ENV_VALUE \<equiv> 1"
abbreviation (input) ENV_ESC :: byte where "ENV_ESC \<equiv> 2"
abbreviation (input) ENV_USERVAR :: byte where "ENV_USERVAR \<equiv> 3"

text \<open>\<open>_POSIX_VDISABLE\<close> and \<open>BUFSIZ\<close> of the C library.\<close>

abbreviation (input) VDISABLE :: byte where "VDISABLE \<equiv> 0"
abbreviation (input) BUFSIZ :: nat where "BUFSIZ \<equiv> 8192"

section \<open>The negotiation of an option\<close>

text \<open>
  The comment above \<open>send_do\<close> in \<open>telnetd/state.c\<close> describes the negotiation of one option in one
  direction by three values: the last negotiated state, the state wanted, and the number of requests sent and not yet
  answered (a \<open>char\<close> in the program).
\<close>

record neg =
  n_state :: bool
  n_want :: bool
  n_resp :: byte

definition neg_initiate :: "bool \<Rightarrow> neg \<Rightarrow> neg" where
  "neg_initiate new n =
     (if (n_resp n = 0 \<and> new = n_state n) \<or> n_want n = new then n
      else n\<lparr>n_want := new, n_resp := n_resp n + 1\<rparr>)"

definition neg_answered :: "bool \<Rightarrow> neg \<Rightarrow> byte" where
  "neg_answered new n =
     (if n_resp n \<noteq> 0 then
        let r = n_resp n - 1 in if r \<noteq> 0 \<and> new = n_state n then r - 1 else r
      else 0)"

definition neg_receive :: "bool \<Rightarrow> bool \<Rightarrow> neg \<Rightarrow> neg" where
  "neg_receive ok new n =
     (let r = neg_answered new n;
          n1 = n\<lparr>n_resp := r\<rparr>;
          n2 = (if r = 0 \<and> new \<noteq> n_want n
                then (if ok then n1\<lparr>n_want := new\<rparr> else n1\<lparr>n_resp := r + 1\<rparr>) else n1)
      in n2\<lparr>n_state := new\<rparr>)"

text \<open>What is sent for a request and in answer to a command: \<open>True\<close> for DO or WILL, \<open>False\<close> for DONT or
  WONT.  A negative command is only confirmed when the option was in force.\<close>

definition neg_asks :: "bool \<Rightarrow> neg \<Rightarrow> bool list" where
  "neg_asks new n = (if (n_resp n = 0 \<and> new = n_state n) \<or> n_want n = new then [] else [new])"

definition neg_replies :: "bool \<Rightarrow> bool \<Rightarrow> neg \<Rightarrow> bool list" where
  "neg_replies ok new n =
     (if neg_answered new n = 0 \<and> new \<noteq> n_want n
      then (if new then [ok] else if n_state n then [False] else []) else [])"

text \<open>The bytes of commands.\<close>

definition do_bytes :: "byte \<Rightarrow> bool list \<Rightarrow> byte list" where
  "do_bytes opt vs = concat (map (\<lambda>v. [IAC, if v then DO else DONT, opt]) vs)"

definition will_bytes :: "byte \<Rightarrow> bool list \<Rightarrow> byte list" where
  "will_bytes opt vs = concat (map (\<lambda>v. [IAC, if v then WILL else WONT, opt]) vs)"

lemma bytes_simps [simp]: "do_bytes opt [] = []" "will_bytes opt [] = []"
  "do_bytes opt [v] = [IAC, if v then DO else DONT, opt]" "will_bytes opt [v] = [IAC, if v then WILL else WONT, opt]"
  by (simp_all add: do_bytes_def will_bytes_def)

end
