(* ===== verification/Telnetd_Base.thy ===== *)
theory Telnetd_Base
  imports Telnet_Proto
begin

text \<open>
  The TELNET server's data: the structures of
  \<open>telnetd/telnetd.h\<close> and \<open>term.c\<close>, and one record for the file-scope variables of the program.

  The build modelled is the default one on GNU/Linux: no \<open>AUTHENTICATION\<close>, no \<open>ENCRYPTION\<close>, no
  \<open>ENV_HACK\<close>, no streams pty; \<open>EXTPROC\<close> but not \<open>TIOCEXT\<close>; \<open>TABDLY\<close> and \<open>ECHOCTL\<close> but not
  \<open>OXTABS\<close>; no \<open>VSTATUS\<close>, \<open>VEOF\<close> and \<open>VMIN\<close> distinct, \<open>TCSIG\<close> and \<open>SIGINFO\<close> absent.  Debugging
  output (\<open>DEBUG\<close>) is off.
\<close>

section \<open>Structures\<close>

record telnetd_clocks =
  csystem :: int
  echotoggle :: int
  modenegotiated :: int
  didnetreceive :: int
  ttypesubopt :: int
  tspeedsubopt :: int
  environsubopt :: int
  oenvironsubopt :: int
  xdisplocsubopt :: int
  baseline :: int
  gotDM :: int

record slcent =
  sflag :: byte
  sval :: byte

text \<open>The pointer \<open>sptr\<close> of a \<open>slcfun\<close> is null or points into \<open>termbuf.c_cc\<close>: the index there.\<close>

record slcfun =
  defset :: slcent
  current :: slcent
  sptr :: "nat option"

record termios =
  c_iflag :: u32
  c_oflag :: u32
  c_cflag :: u32
  c_lflag :: u32
  c_cc :: "byte list"
  c_ispeed :: int
  c_ospeed :: int

text \<open>The linemode support states, in decreasing order of importance.\<close>

abbreviation (input) REAL_LINEMODE :: int where "REAL_LINEMODE \<equiv> 4"
abbreviation (input) KLUDGE_OK :: int where "KLUDGE_OK \<equiv> 3"
abbreviation (input) NO_AUTOKLUDGE :: int where "NO_AUTOKLUDGE \<equiv> 2"
abbreviation (input) KLUDGE_LINEMODE :: int where "KLUDGE_LINEMODE \<equiv> 1"
abbreviation (input) NO_LINEMODE :: int where "NO_LINEMODE \<equiv> 0"

text \<open>The states of the receiving machine \<open>telrcv\<close>.\<close>

datatype tstate = TS_DATA | TS_IAC | TS_CR | TS_SB | TS_SE | TS_WILL | TS_WONT | TS_DO | TS_DONT

text \<open>
  What \<open>write\<close> or \<open>send\<close> answers: a number of bytes taken, \<open>EWOULDBLOCK\<close> or \<open>EINTR\<close>, or another
  error; and what \<open>read\<close> answers.
\<close>

datatype wres = Wrote nat | Retry | Failed

datatype rres = Got "byte list" | Rd_again | Rd_error

section \<open>The program state\<close>

text \<open>
  The variables of the server.  The option tables are indexed by the option byte, so no index is out
  of range.  The output buffers are the arrays with their two positions, \<open>netobuf\<close> with \<open>nbackp\<close>
  and \<open>nfrontp\<close>, \<open>ptyobuf\<close> with \<open>pbackp\<close> and \<open>pfrontp\<close>; the input buffers are \<open>netibuf\<close> with
  \<open>netip\<close> and \<open>ncc\<close>, and \<open>ptyibuf\<close> with \<open>ptyip\<close> and \<open>pcc\<close>.  The environment of the process is in the last group: the bytes the network and the pty
  have accepted (\<open>wire\<close>, \<open>ptyin\<close>), the answers their descriptors will give to the coming writes
  (after the list is used up every write is complete), the line discipline's settings \<open>pty_attr\<close>
  and window size, whether urgent data is pending on the socket, the environment variables, and
  whether the process has exited.  An exited process writes nothing.
\<close>

record telnetd =
  options :: "byte \<Rightarrow> byte"
  do_dont_resp :: "byte \<Rightarrow> byte"
  will_wont_resp :: "byte \<Rightarrow> byte"
  linemode :: int
  uselinemode :: int
  editmode :: byte
  useeditmode :: byte
  alwayslinemode :: bool
  lmodetype :: int
  flowmode :: int
  restartany :: int
  SYNCHing :: bool
  not42 :: bool
  clocks :: telnetd_clocks
  slctab :: "nat \<Rightarrow> slcfun"
  terminaltype :: "byte list option"
  termbuf :: termios
  termbuf2 :: termios
  terminit_flag :: bool
  def_tspeed :: int
  def_rspeed :: int
  def_row :: int
  def_col :: int
  def_slcbuf :: "byte list option"
  slcchange :: bool
  slcbuf :: "byte list"
  rcv_state :: tstate
  subbuffer :: "byte list"
  subpointer :: nat
  subend :: nat
  netobuf :: "nat \<Rightarrow> byte"
  nbackp :: nat
  nfrontp :: nat
  neturg :: "nat option"
  ptyobuf :: "nat \<Rightarrow> byte"
  pbackp :: nat
  pfrontp :: nat
  netibuf :: "nat \<Rightarrow> byte"
  netip :: nat
  ncc :: int
  ptyibuf :: "nat \<Rightarrow> byte"
  ptyip :: nat
  pcc :: int
  wire :: "byte list"
  net_wr :: "wres list"
  ptyin :: "byte list"
  pty_wr :: "wres list"
  pty_attr :: termios
  pty_winsize :: "int \<times> int"
  oob_pending :: bool
  penv :: "byte list \<rightharpoonup> byte list"
  exited :: bool

text \<open>The state when the server has set up its buffers, on a pty with the settings \<open>attr\<close>: the
  initialisers of the file-scope variables, zero where there is none.\<close>

definition zero_termios :: termios where
  "zero_termios = \<lparr>c_iflag = 0, c_oflag = 0, c_cflag = 0, c_lflag = 0, c_cc = replicate 32 0,
     c_ispeed = 0, c_ospeed = 0\<rparr>"

definition telnetd_start :: "termios \<Rightarrow> telnetd" where
  "telnetd_start attr =
     (let zero_slc = \<lparr>sflag = 0, sval = 0\<rparr>
      in \<lparr>options = (\<lambda>_. 0), do_dont_resp = (\<lambda>_. 0), will_wont_resp = (\<lambda>_. 0),
          linemode = 0, uselinemode = 0, editmode = 0, useeditmode = 0, alwayslinemode = False,
          lmodetype = 0, flowmode = 0, restartany = 0, SYNCHing = False, not42 = True,
          clocks = \<lparr>csystem = 0, echotoggle = 0, modenegotiated = 0, didnetreceive = 0,
            ttypesubopt = 0, tspeedsubopt = 0, environsubopt = 0, oenvironsubopt = 0, 
            xdisplocsubopt = 0, baseline = 0, gotDM = 0\<rparr>,
          slctab = (\<lambda>_. \<lparr>defset = zero_slc, current = zero_slc, sptr = None\<rparr>),
          terminaltype = None, termbuf = zero_termios, termbuf2 = zero_termios, terminit_flag = False,
          def_tspeed = -1, def_rspeed = -1, def_row = 0, def_col = 0, def_slcbuf = None,
          slcchange = False, slcbuf = [], rcv_state = TS_DATA, subbuffer = replicate 512 0,
          subpointer = 0, subend = 0, netobuf = (\<lambda>_. 0), nbackp = 0, nfrontp = 0, neturg = None,
          ptyobuf = (\<lambda>_. 0), pbackp = 0, pfrontp = 0, netibuf = (\<lambda>_. 0), netip = 0, ncc = 0,
          ptyibuf = (\<lambda>_. 0), ptyip = 0, pcc = 0, wire = [], net_wr = [], ptyin = [], pty_wr = [],
          pty_attr = attr, pty_winsize = (0, 0), oob_pending = False, penv = Map.empty,
          exited = False\<rparr>)"

section \<open>The option bits\<close>

abbreviation (input) MY_STATE_WILL :: byte where "MY_STATE_WILL \<equiv> 0x01"
abbreviation (input) MY_WANT_STATE_WILL :: byte where "MY_WANT_STATE_WILL \<equiv> 0x02"
abbreviation (input) MY_STATE_DO :: byte where "MY_STATE_DO \<equiv> 0x04"
abbreviation (input) MY_WANT_STATE_DO :: byte where "MY_WANT_STATE_DO \<equiv> 0x08"

definition my_state_is_will :: "telnetd \<Rightarrow> byte \<Rightarrow> bool" where
  "my_state_is_will s opt = (options s opt AND MY_STATE_WILL \<noteq> 0)"

definition my_want_state_is_will :: "telnetd \<Rightarrow> byte \<Rightarrow> bool" where
  "my_want_state_is_will s opt = (options s opt AND MY_WANT_STATE_WILL \<noteq> 0)"

definition his_state_is_will :: "telnetd \<Rightarrow> byte \<Rightarrow> bool" where
  "his_state_is_will s opt = (options s opt AND MY_STATE_DO \<noteq> 0)"

definition his_want_state_is_will :: "telnetd \<Rightarrow> byte \<Rightarrow> bool" where
  "his_want_state_is_will s opt = (options s opt AND MY_WANT_STATE_DO \<noteq> 0)"

text \<open>The \<open>set_..._will\<close> macros or a bit into the table, the \<open>set_..._wont\<close> macros mask it out.\<close>

definition set_bits :: "byte \<Rightarrow> byte \<Rightarrow> telnetd \<Rightarrow> telnetd" where
  "set_bits b opt s = s\<lparr>options := (options s)(opt := options s opt OR b)\<rparr>"

definition clear_bits :: "byte \<Rightarrow> byte \<Rightarrow> telnetd \<Rightarrow> telnetd" where
  "clear_bits b opt s = s\<lparr>options := (options s)(opt := options s opt AND NOT b)\<rparr>"

abbreviation set_my_state_will :: "byte \<Rightarrow> telnetd \<Rightarrow> telnetd" where
  "set_my_state_will \<equiv> set_bits MY_STATE_WILL"
abbreviation set_my_state_wont :: "byte \<Rightarrow> telnetd \<Rightarrow> telnetd" where
  "set_my_state_wont \<equiv> clear_bits MY_STATE_WILL"
abbreviation set_my_want_state_will :: "byte \<Rightarrow> telnetd \<Rightarrow> telnetd" where
  "set_my_want_state_will \<equiv> set_bits MY_WANT_STATE_WILL"
abbreviation set_my_want_state_wont :: "byte \<Rightarrow> telnetd \<Rightarrow> telnetd" where
  "set_my_want_state_wont \<equiv> clear_bits MY_WANT_STATE_WILL"
abbreviation set_his_state_will :: "byte \<Rightarrow> telnetd \<Rightarrow> telnetd" where
  "set_his_state_will \<equiv> set_bits MY_STATE_DO"
abbreviation set_his_state_wont :: "byte \<Rightarrow> telnetd \<Rightarrow> telnetd" where
  "set_his_state_wont \<equiv> clear_bits MY_STATE_DO"
abbreviation set_his_want_state_will :: "byte \<Rightarrow> telnetd \<Rightarrow> telnetd" where
  "set_his_want_state_will \<equiv> set_bits MY_WANT_STATE_DO"
abbreviation set_his_want_state_wont :: "byte \<Rightarrow> telnetd \<Rightarrow> telnetd" where
  "set_his_want_state_wont \<equiv> clear_bits MY_WANT_STATE_DO"

text \<open>\<open>my_will_wont_is_changing\<close>: adding the lower of the two adjacent bits sets the upper one
  exactly when they differ.\<close>

definition my_will_wont_is_changing :: "telnetd \<Rightarrow> byte \<Rightarrow> bool" where
  "my_will_wont_is_changing s opt = ((options s opt + MY_STATE_WILL) AND MY_WANT_STATE_WILL \<noteq> 0)"

definition his_will_wont_is_changing :: "telnetd \<Rightarrow> byte \<Rightarrow> bool" where
  "his_will_wont_is_changing s opt = ((options s opt + MY_STATE_DO) AND MY_WANT_STATE_DO \<noteq> 0)"

text \<open>The tests as bits of the table entry.\<close>

lemma and_mask_bit:
  "(x AND 0x01 \<noteq> (0::byte)) = bit x 0" "(x AND 0x02 \<noteq> (0::byte)) = bit x 1"
  "(x AND 0x04 \<noteq> (0::byte)) = bit x 2" "(x AND 0x08 \<noteq> (0::byte)) = bit x 3"
  using and_exp_eq_0_iff_not_bit [of x 0] and_exp_eq_0_iff_not_bit [of x 1]
    and_exp_eq_0_iff_not_bit [of x 2] and_exp_eq_0_iff_not_bit [of x 3]
  by simp_all

lemmas option_bits = my_state_is_will_def my_want_state_is_will_def his_state_is_will_def
  his_want_state_is_will_def and_mask_bit

lemma set_bits_bit:
  "bit (options (set_bits b opt s) o') n = (bit (options s o') n \<or> o' = opt \<and> bit b n)"
  by (simp add: set_bits_def bit_or_iff)

lemma clear_bits_bit:
  "bit (options (clear_bits b opt s) o') n = (bit (options s o') n \<and> (o' = opt \<longrightarrow> \<not> bit b n))"
  using bit_imp_le_length [of "options s opt" n]
  by (auto simp: clear_bits_def bit_and_iff bit_not_iff)

lemma byte_bit_uint: "n < 8 \<Longrightarrow> bit (x::byte) n = odd (uint x div 2 ^ n)"
  using bit_uint_iff [of x n] by (simp add: bit_iff_odd)

lemma byte_plus_bit: "n < 8 \<Longrightarrow> bit (x + y :: byte) n = odd ((uint x + uint y) div 2 ^ n)"
proof -
  assume n: "n < 8"
  have "bit (x + y) n = bit (uint (x + y)) n" using n by (simp add: bit_uint_iff)
  also have "\<dots> = bit (take_bit 8 (uint x + uint y)) n"
    by (simp add: uint_word_ariths take_bit_eq_mod)
  also have "\<dots> = bit (uint x + uint y) n" using n by (simp add: bit_take_bit_iff)
  finally show ?thesis by (simp add: bit_iff_odd)
qed

lemma odd_succ_div2: "odd ((w + 1) div 2) = (odd w \<noteq> odd (w div 2))" for w :: int
  by presburger

lemma changing_byte:
  "bit ((x::byte) + 1) (Suc 0) = (bit x 0 \<noteq> bit x (Suc 0))" "bit ((x::byte) + 4) 3 = (bit x 2 \<noteq> bit x 3)"
proof -
  show "bit (x + 1) (Suc 0) = (bit x 0 \<noteq> bit x (Suc 0))"
    by (simp add: byte_plus_bit byte_bit_uint [of _ x] odd_succ_div2)
  have "(u + 4) div 8 = (u div 4 + 1) div 2" "u div 8 = u div 4 div 2" for u :: int by simp_all
  then show "bit (x + 4) 3 = (bit x 2 \<noteq> bit x 3)"
    by (simp add: byte_plus_bit byte_bit_uint [of _ x] odd_succ_div2)
qed

lemma my_will_wont_is_changing_iff:
  "my_will_wont_is_changing s opt \<longleftrightarrow> my_state_is_will s opt \<noteq> my_want_state_is_will s opt"
  using changing_byte [of "options s opt"] by (simp add: my_will_wont_is_changing_def option_bits)

lemma his_will_wont_is_changing_iff:
  "his_will_wont_is_changing s opt \<longleftrightarrow> his_state_is_will s opt \<noteq> his_want_state_is_will s opt"
  using changing_byte [of "options s opt"] by (simp add: his_will_wont_is_changing_def option_bits)

end
