(* ===== verification/Telnetd_Net.thy ===== *)
theory Telnetd_Net
  imports Telnetd_Base
begin

text \<open>
  The server's buffered I/O, the first part of \<open>telnetd/utility.c\<close>: the network and pty output
  buffers, the network input buffer, and the removal of data from the path to the network
  (\<open>netclear\<close>) that goes with a TELNET Synch.
\<close>

section \<open>Operations\<close>

definition cleanup :: "telnetd \<Rightarrow> telnetd" where
  "cleanup s = s\<lparr>exited := True\<rparr>"

text \<open>A \<open>write\<close> of \<open>n\<close> bytes takes the next answer; no more than \<open>n\<close> bytes are ever taken.\<close>

fun os_write :: "nat \<Rightarrow> wres list \<Rightarrow> wres \<times> wres list" where
  "os_write n [] = (Wrote n, [])"
| "os_write n (Wrote k # ws) = (Wrote (min k n), ws)"
| "os_write n (w # ws) = (w, ws)"

definition set_neturg :: "telnetd \<Rightarrow> telnetd" where
  "set_neturg s = s\<lparr>neturg := Some (nfrontp s - 1)\<rparr>"

text \<open>How much \<open>netflush\<close> hands to \<open>write\<close> or \<open>send\<close>: everything, or with urgent data pending what
  comes before the urgent byte, and then that byte by itself.\<close>

definition netflush_count :: "telnetd \<Rightarrow> nat" where
  "netflush_count s =
     (case neturg s of
        None \<Rightarrow> nfrontp s - nbackp s
      | Some u \<Rightarrow>
          if \<not> not42 s then nfrontp s - nbackp s
          else let n = u - nbackp s in if n > 1 then n - 1 else n)"

definition netflush_advance :: "nat \<Rightarrow> telnetd \<Rightarrow> telnetd" where
  "netflush_advance n s =
     (let s1 = s\<lparr>nbackp := nbackp s + n\<rparr>;
          s2 = (case neturg s1 of
                  None \<Rightarrow> s1
                | Some u \<Rightarrow> if nbackp s1 \<ge> u then s1\<lparr>neturg := None\<rparr> else s1)
      in if nbackp s2 = nfrontp s2 then s2\<lparr>nbackp := 0, nfrontp := 0\<rparr> else s2)"

definition netflush :: "telnetd \<Rightarrow> telnetd" where
  "netflush s =
     (if exited s then s
      else if nfrontp s - nbackp s > 0 then
        (case os_write (netflush_count s) (net_wr s) of
           (Wrote n, ws) \<Rightarrow>
             netflush_advance n
               (s\<lparr>net_wr := ws, wire := wire s @ slice (netobuf s) (nbackp s) (nbackp s + n)\<rparr>)
         | (Retry, ws) \<Rightarrow> s\<lparr>net_wr := ws\<rparr>
         | (Failed, ws) \<Rightarrow> cleanup (s\<lparr>net_wr := ws\<rparr>))
      else netflush_advance 0 s)"

definition net_output_byte :: "byte \<Rightarrow> telnetd \<Rightarrow> telnetd" where
  "net_output_byte c s = s\<lparr>netobuf := (netobuf s)(nfrontp s := c), nfrontp := nfrontp s + 1\<rparr>"

text \<open>\<open>BUFSIZ - (nfrontp - netobuf)\<close> as a \<open>size_t\<close>.\<close>

definition net_remaining :: "telnetd \<Rightarrow> int" where
  "net_remaining s = (int BUFSIZ - int (nfrontp s)) mod 2 ^ 64"

text \<open>
  \<open>net_output_data\<close>, with the formatted bytes \<open>bs\<close> and the length of the format given: \<open>vsnprintf\<close>
  stores at most \<open>remaining - 1\<close> bytes and a NUL, and \<open>nfrontp\<close> moves past the bytes.
\<close>

definition net_output_data :: "nat \<Rightarrow> byte list \<Rightarrow> telnetd \<Rightarrow> telnetd" where
  "net_output_data flen bs s =
     (let s1 = (if int flen > net_remaining s \<or> int (BUFSIZ div 4) > net_remaining s
                then netflush s else s);
          remaining = net_remaining s1;
          ret = int (length bs);
          room = (remaining - 1) mod 2 ^ 64;
          stored = (if remaining = 0 then [] else take (nat room) bs @ [0])
      in s1\<lparr>netobuf := buf_write (netobuf s1) (nfrontp s1) stored,
            nfrontp := nfrontp s1 + nat (if ret < room then ret else room)\<rparr>)"

definition net_output_datalen :: "byte list \<Rightarrow> telnetd \<Rightarrow> int \<times> telnetd" where
  "net_output_datalen bs s =
     (let s1 = (if net_remaining s < int (length bs) then netflush s else s)
      in if net_remaining s1 < int (length bs) then (-1, s1)
         else (int (length bs),
               s1\<lparr>netobuf := buf_write (netobuf s1) (nfrontp s1) bs,
                  nfrontp := nfrontp s1 + length bs\<rparr>))"

definition net_input_level :: "telnetd \<Rightarrow> int" where
  "net_input_level s = ncc s"

definition net_output_level :: "telnetd \<Rightarrow> int" where
  "net_output_level s = int (nfrontp s) - int (nbackp s)"

definition net_buffer_is_full :: "telnetd \<Rightarrow> bool" where
  "net_buffer_is_full s = (int BUFSIZ - int (nfrontp s) < 2)"

definition net_get_char :: "bool \<Rightarrow> telnetd \<Rightarrow> byte \<times> telnetd" where
  "net_get_char peek s =
     (if peek then (netibuf s (netip s), s)
      else if ncc s > 0 then (netibuf s (netip s), s\<lparr>ncc := ncc s - 1, netip := netip s + 1\<rparr>)
      else (0, s))"

text \<open>\<open>net_read\<close>, given the answer of \<open>read\<close>; no bytes are the end of the file.\<close>

definition net_read :: "rres \<Rightarrow> telnetd \<Rightarrow> telnetd" where
  "net_read r s =
     (case r of
        Got bs \<Rightarrow>
          if bs = [] then cleanup (s\<lparr>ncc := 0\<rparr>)
          else s\<lparr>netibuf := buf_write (netibuf s) 0 bs, ncc := int (length bs), netip := 0\<rparr>
      | Rd_again \<Rightarrow> s\<lparr>ncc := 0\<rparr>
      | Rd_error \<Rightarrow> s\<lparr>ncc := -1\<rparr>)"

definition pty_buffer_is_full :: "telnetd \<Rightarrow> bool" where
  "pty_buffer_is_full s = (int BUFSIZ - int (pfrontp s) < 2)"

definition pty_output_byte :: "byte \<Rightarrow> telnetd \<Rightarrow> telnetd" where
  "pty_output_byte c s = s\<lparr>ptyobuf := (ptyobuf s)(pfrontp s := c), pfrontp := pfrontp s + 1\<rparr>"

definition pty_output_level :: "telnetd \<Rightarrow> int" where
  "pty_output_level s = int (pfrontp s) - int (pbackp s)"

definition ptyflush_advance :: "nat \<Rightarrow> telnetd \<Rightarrow> telnetd" where
  "ptyflush_advance n s =
     (let s1 = s\<lparr>pbackp := pbackp s + n\<rparr>
      in if pbackp s1 = pfrontp s1 then s1\<lparr>pbackp := 0, pfrontp := 0\<rparr> else s1)"

definition ptyflush :: "telnetd \<Rightarrow> telnetd" where
  "ptyflush s =
     (if exited s then s
      else if pfrontp s - pbackp s > 0 then
        (case os_write (pfrontp s - pbackp s) (pty_wr s) of
           (Wrote n, ws) \<Rightarrow>
             ptyflush_advance n
               (s\<lparr>pty_wr := ws, ptyin := ptyin s @ slice (ptyobuf s) (pbackp s) (pbackp s + n)\<rparr>)
         | (Retry, ws) \<Rightarrow> s\<lparr>pty_wr := ws\<rparr>
         | (Failed, ws) \<Rightarrow> cleanup (s\<lparr>pty_wr := ws\<rparr>))
      else ptyflush_advance 0 s)"

definition pty_output_datalen :: "byte list \<Rightarrow> telnetd \<Rightarrow> telnetd" where
  "pty_output_datalen bs s =
     (let s1 = (if int BUFSIZ - int (pfrontp s) > int (length bs) then ptyflush s else s)
      in s1\<lparr>ptyobuf := buf_write (ptyobuf s1) (pfrontp s1) bs, pfrontp := pfrontp s1 + length bs\<rparr>)"

section \<open>Items of the output stream\<close>

text \<open>
  The search for \<open>IAC SE\<close> in \<open>nextitem\<close> has no bound: it returns only if the two bytes are there.
\<close>

partial_function (option) look_for_SE :: "(nat \<Rightarrow> byte) \<Rightarrow> nat \<Rightarrow> nat option" where
  "look_for_SE buf look =
     (if buf look = IAC then
        (if buf (look + 1) = SE then Some (look + 2) else look_for_SE buf (look + 2))
      else look_for_SE buf (look + 1))"

definition nextitem :: "(nat \<Rightarrow> byte) \<Rightarrow> nat \<Rightarrow> nat option" where
  "nextitem buf cur =
     (if buf cur \<noteq> IAC then Some (cur + 1)
      else if buf (cur + 1) \<in> {DO, DONT, WILL, WONT} then Some (cur + 3)
      else if buf (cur + 1) = SB then look_for_SE buf (cur + 2)
      else Some (cur + 2))"

definition wewant :: "(nat \<Rightarrow> byte) \<Rightarrow> nat \<Rightarrow> nat \<Rightarrow> bool" where
  "wewant buf front p = (front > p \<and> buf p = IAC \<and> buf (p + 1) \<noteq> EC \<and> buf (p + 1) \<noteq> EL)"

text \<open>The three loops of \<open>netclear\<close>: up to the item at the boundary \<open>nbackp\<close>; over the wanted items;
  over the rest of the buffer, moving the wanted items down to \<open>good\<close>.\<close>

partial_function (option) netclear_skip :: "(nat \<Rightarrow> byte) \<Rightarrow> nat \<Rightarrow> nat \<Rightarrow> nat option" where
  "netclear_skip buf back thisitem =
     (case nextitem buf thisitem of
        None \<Rightarrow> None
      | Some next \<Rightarrow> if next \<le> back then netclear_skip buf back next else Some thisitem)"

partial_function (option) netclear_wanted :: "(nat \<Rightarrow> byte) \<Rightarrow> nat \<Rightarrow> nat \<Rightarrow> nat option" where
  "netclear_wanted buf front next =
     (if wewant buf front next \<and> front > next then
        (case nextitem buf next of None \<Rightarrow> None | Some q \<Rightarrow> netclear_wanted buf front q)
      else Some next)"

partial_function (option) netclear_copy ::
  "(nat \<Rightarrow> byte) \<Rightarrow> nat \<Rightarrow> nat \<Rightarrow> nat \<Rightarrow> ((nat \<Rightarrow> byte) \<times> nat) option" where
  "netclear_copy buf front thisitem good =
     (if front > thisitem then
        (if wewant buf front thisitem then
           (case netclear_wanted buf front thisitem of
              None \<Rightarrow> None
            | Some next \<Rightarrow>
                netclear_copy (buf_write buf good (slice buf thisitem next)) front next
                  (good + (next - thisitem)))
         else
           (case nextitem buf thisitem of
              None \<Rightarrow> None
            | Some next \<Rightarrow> netclear_copy buf front next good))
      else Some (buf, good))"

definition netclear :: "telnetd \<Rightarrow> telnetd option" where
  "netclear s =
     (case netclear_skip (netobuf s) (nbackp s) 0 of
        None \<Rightarrow> None
      | Some thisitem \<Rightarrow>
          (case netclear_copy (netobuf s) (nfrontp s) thisitem 0 of
             None \<Rightarrow> None
           | Some (buf, good) \<Rightarrow>
               Some (s\<lparr>netobuf := buf, nbackp := 0, nfrontp := good, neturg := None\<rparr>)))"

section \<open>What the buffer operations do\<close>

text \<open>The bytes accepted for the network so far, written or still buffered; and for the pty.\<close>

definition net_sent :: "telnetd \<Rightarrow> byte list" where
  "net_sent s = wire s @ slice (netobuf s) (nbackp s) (nfrontp s)"

definition pty_sent :: "telnetd \<Rightarrow> byte list" where
  "pty_sent s = ptyin s @ slice (ptyobuf s) (pbackp s) (pfrontp s)"

definition net_ok :: "telnetd \<Rightarrow> bool" where
  "net_ok s \<longleftrightarrow> nbackp s \<le> nfrontp s \<and> nfrontp s \<le> BUFSIZ
     \<and> (\<forall>u. neturg s = Some u \<longrightarrow> nbackp s < u \<and> u \<le> nfrontp s)"

definition pty_ok :: "telnetd \<Rightarrow> bool" where
  "pty_ok s \<longleftrightarrow> pbackp s \<le> pfrontp s \<and> pfrontp s \<le> BUFSIZ"

text \<open>
  Only the output buffers, the answers they are given and \<open>exited\<close> change in these operations:
  \<open>core s\<close> is the state with that part blanked out.
\<close>

definition core :: "telnetd \<Rightarrow> telnetd" where
  "core s = s\<lparr>netobuf := \<lambda>_. 0, nbackp := 0, nfrontp := 0, neturg := None, ptyobuf := \<lambda>_. 0,
     pbackp := 0, pfrontp := 0, wire := [], net_wr := [], ptyin := [], pty_wr := [], exited := False\<rparr>"

lemma core_fields:
  assumes "core s = core t"
  shows "options s = options t" "do_dont_resp s = do_dont_resp t" "will_wont_resp s = will_wont_resp t"
    "linemode s = linemode t" "uselinemode s = uselinemode t" "editmode s = editmode t"
    "useeditmode s = useeditmode t" "alwayslinemode s = alwayslinemode t" "lmodetype s = lmodetype t"
    "flowmode s = flowmode t" "restartany s = restartany t" "SYNCHing s = SYNCHing t"
    "not42 s = not42 t" "clocks s = clocks t" "slctab s = slctab t" "terminaltype s = terminaltype t"
    "termbuf s = termbuf t" "termbuf2 s = termbuf2 t" "terminit_flag s = terminit_flag t"
    "def_tspeed s = def_tspeed t" "def_rspeed s = def_rspeed t" "def_row s = def_row t"
    "def_col s = def_col t" "def_slcbuf s = def_slcbuf t" "slcchange s = slcchange t"
    "slcbuf s = slcbuf t" "rcv_state s = rcv_state t" "subbuffer s = subbuffer t"
    "subpointer s = subpointer t" "subend s = subend t" "netibuf s = netibuf t" "netip s = netip t"
    "ncc s = ncc t" "ptyibuf s = ptyibuf t" "ptyip s = ptyip t" "pcc s = pcc t" "pty_attr s = pty_attr t" "pty_winsize s = pty_winsize t"
    "oob_pending s = oob_pending t" "penv s = penv t"
  using assms by (cases s; cases t; simp add: core_def)+

lemma netflush_advance_core: "core (netflush_advance n s) = core s"
  by (simp add: netflush_advance_def core_def Let_def split: option.splits)

lemma core_updates [simp]:
  "core (s\<lparr>netobuf := a\<rparr>) = core s" "core (s\<lparr>nbackp := n\<rparr>) = core s" "core (s\<lparr>nfrontp := n\<rparr>) = core s"
  "core (s\<lparr>neturg := u\<rparr>) = core s" "core (s\<lparr>ptyobuf := a\<rparr>) = core s" "core (s\<lparr>pbackp := n\<rparr>) = core s"
  "core (s\<lparr>pfrontp := n\<rparr>) = core s" "core (s\<lparr>wire := bs\<rparr>) = core s" "core (s\<lparr>net_wr := ws\<rparr>) = core s"
  "core (s\<lparr>ptyin := bs\<rparr>) = core s" "core (s\<lparr>pty_wr := ws\<rparr>) = core s" "core (s\<lparr>exited := e\<rparr>) = core s"
  by (simp_all add: core_def)

lemma netflush_core: "core (netflush s) = core s"
  by (simp add: netflush_def netflush_advance_core cleanup_def split: prod.splits wres.splits)

lemma ptyflush_core: "core (ptyflush s) = core s"
  by (simp add: ptyflush_def ptyflush_advance_def cleanup_def Let_def split: prod.splits wres.splits)

lemma net_output_data_core: "core (net_output_data n bs s) = core s"
  by (simp add: net_output_data_def Let_def netflush_core)

lemma net_output_datalen_core: "core (snd (net_output_datalen bs s)) = core s"
  by (simp add: net_output_datalen_def Let_def netflush_core)

lemma pty_output_byte_core: "core (pty_output_byte c s) = core s"
  by (simp add: pty_output_byte_def)

lemma set_neturg_core: "core (set_neturg s) = core s"
  by (simp add: set_neturg_def)

lemma netclear_core: "netclear s = Some s' \<Longrightarrow> core s' = core s"
  by (auto simp: netclear_def split: option.splits)

lemmas io_core = netflush_core ptyflush_core net_output_data_core net_output_datalen_core
  pty_output_byte_core set_neturg_core

text \<open>The fields outside the buffers are untouched.\<close>

lemmas netflush_fields [simp] = core_fields [OF netflush_core]
lemmas ptyflush_fields [simp] = core_fields [OF ptyflush_core]
lemmas net_output_data_fields [simp] = core_fields [OF net_output_data_core]
lemmas net_output_datalen_fields [simp] = core_fields [OF net_output_datalen_core]
lemmas pty_output_byte_fields [simp] = core_fields [OF pty_output_byte_core]
lemmas set_neturg_fields [simp] = core_fields [OF set_neturg_core]

text \<open>The order and completeness of the output.\<close>

lemma os_write_le: "os_write n ws = (Wrote k, ws') \<Longrightarrow> k \<le> n"
  by (cases "(n, ws)" rule: os_write.cases) auto

lemma netflush_count_le: "net_ok s \<Longrightarrow> netflush_count s \<le> nfrontp s - nbackp s"
  by (auto simp: netflush_count_def net_ok_def Let_def split: option.splits)

lemma netflush_advance_sent:
  assumes "net_ok s" "n \<le> nfrontp s - nbackp s"
  shows "wire (netflush_advance n s) = wire s"
    "slice (netobuf (netflush_advance n s)) (nbackp (netflush_advance n s)) (nfrontp (netflush_advance n s))
      = slice (netobuf s) (nbackp s + n) (nfrontp s)"
    "net_ok (netflush_advance n s)" "nfrontp (netflush_advance n s) \<le> nfrontp s"
  using assms by (auto simp: netflush_advance_def net_ok_def Let_def split: option.splits)

text \<open>\<open>netflush\<close> neither loses nor reorders a byte, whatever the socket answers.\<close>

lemma netflush_sent: "net_ok s \<Longrightarrow> net_sent (netflush s) = net_sent s"
  and netflush_ok: "net_ok s \<Longrightarrow> net_ok (netflush s)"
  and netflush_nfrontp: "net_ok s \<Longrightarrow> nfrontp (netflush s) \<le> nfrontp s"
proof -
  assume ok: "net_ok s"
  have "net_sent (netflush s) = net_sent s \<and> net_ok (netflush s) \<and> nfrontp (netflush s) \<le> nfrontp s"
  proof (cases "os_write (netflush_count s) (net_wr s)")
    case (Pair r ws)
    show ?thesis
    proof (cases r)
      case (Wrote n)
      have n: "n \<le> nfrontp s - nbackp s"
        using os_write_le [of "netflush_count s"] netflush_count_le [OF ok] Pair Wrote
        by (meson le_trans)
      let ?s = "s\<lparr>net_wr := ws, wire := wire s @ slice (netobuf s) (nbackp s) (nbackp s + n)\<rparr>"
      have ok': "net_ok ?s" using ok by (simp add: net_ok_def)
      have n': "n \<le> nfrontp ?s - nbackp ?s" using n by simp
      have "slice (netobuf s) (nbackp s) (nbackp s + n) @ slice (netobuf s) (nbackp s + n) (nfrontp s)
          = slice (netobuf s) (nbackp s) (nfrontp s)"
        using n ok by (auto simp: net_ok_def intro!: slice_append)
      then show ?thesis
        using netflush_advance_sent [OF ok' n'] netflush_advance_sent [OF ok, of 0] ok Pair Wrote
        by (simp add: netflush_def net_sent_def)
    qed (use ok Pair netflush_advance_sent [OF ok, of 0] in
        \<open>auto simp: netflush_def net_sent_def net_ok_def cleanup_def\<close>)
  qed
  then show "net_sent (netflush s) = net_sent s" "net_ok (netflush s)" "nfrontp (netflush s) \<le> nfrontp s"
    by simp_all
qed

lemma ptyflush_sent: "pty_ok s \<Longrightarrow> pty_sent (ptyflush s) = pty_sent s"
  and ptyflush_ok: "pty_ok s \<Longrightarrow> pty_ok (ptyflush s)"
proof -
  assume ok: "pty_ok s"
  have "pty_sent (ptyflush s) = pty_sent s \<and> pty_ok (ptyflush s)"
  proof (cases "os_write (pfrontp s - pbackp s) (pty_wr s)")
    case (Pair r ws)
    then show ?thesis
      using ok os_write_le [of "pfrontp s - pbackp s" "pty_wr s"]
      by (cases r) (auto simp: ptyflush_def ptyflush_advance_def pty_sent_def pty_ok_def cleanup_def
          Let_def slice_append)
  qed
  then show "pty_sent (ptyflush s) = pty_sent s" "pty_ok (ptyflush s)" by simp_all
qed

text \<open>\<open>net_room n s\<close>: the network buffer is in order and takes \<open>n\<close> more bytes even if the socket
  takes none.\<close>

definition net_room :: "nat \<Rightarrow> telnetd \<Rightarrow> bool" where
  "net_room n s \<longleftrightarrow> net_ok s \<and> nfrontp s + n < BUFSIZ"

lemma net_output_data_sent:
  assumes "net_room (length bs) s"
  shows "net_sent (net_output_data flen bs s) = net_sent s @ bs"
    and "net_room n s \<Longrightarrow> net_room (n - length bs) (net_output_data flen bs s)"
proof -
  define s1 where "s1 = (if int flen > net_remaining s \<or> int (BUFSIZ div 4) > net_remaining s
    then netflush s else s)"
  have ok: "net_ok s1" and le: "nfrontp s1 \<le> nfrontp s" and sent: "net_sent s1 = net_sent s"
    using assms netflush_ok netflush_nfrontp netflush_sent by (auto simp: s1_def net_room_def)
  have lt: "nfrontp s1 + length bs < BUFSIZ" using assms le by (simp add: net_room_def)
  have rem: "net_remaining s1 = int (BUFSIZ - nfrontp s1)"
    using lt by (simp add: net_remaining_def)
  have eq: "net_output_data flen bs s = s1\<lparr>netobuf := buf_write (netobuf s1) (nfrontp s1) (bs @ [0]),
      nfrontp := nfrontp s1 + length bs\<rparr>"
    using lt unfolding net_output_data_def s1_def [symmetric] Let_def rem by auto
  have "nbackp s1 \<le> nfrontp s1" using ok by (simp add: net_ok_def)
  then have "net_sent (net_output_data flen bs s) = net_sent s1 @ bs"
    unfolding eq by (simp add: net_sent_def slice_buf_write)
  then show "net_sent (net_output_data flen bs s) = net_sent s @ bs" by (simp add: sent)
  show "net_room n s \<Longrightarrow> net_room (n - length bs) (net_output_data flen bs s)"
    unfolding eq using ok lt le by (auto simp: net_room_def net_ok_def)
qed

section \<open>Properties\<close>

text \<open>
  (C32) Output to the network is neither lost nor reordered as long as it fits.  With the buffer in order, \<open>netflush\<close> keeps the stream of bytes
  accepted so far, whatever the socket answers and with urgent data pending or not; and \<open>net_output_data\<close> appends its
  bytes to that stream if they fit into the buffer when the socket takes nothing.  Both keep the buffer in order.
\<close>

theorem net_output_stream:
  assumes "net_ok s"
  shows "net_sent (netflush s) = net_sent s \<and> net_ok (netflush s) \<and> nfrontp (netflush s) \<le> nfrontp s
    \<and> (nfrontp s + length bs < BUFSIZ \<longrightarrow>
         net_sent (net_output_data flen bs s) = net_sent s @ bs \<and> net_ok (net_output_data flen bs s)
         \<and> nfrontp (net_output_data flen bs s) \<le> nfrontp s + length bs)"
proof -
  have "net_sent (net_output_data flen bs s) = net_sent s @ bs \<and> net_ok (net_output_data flen bs s)
      \<and> nfrontp (net_output_data flen bs s) \<le> nfrontp s + length bs" if "nfrontp s + length bs < BUFSIZ"
  proof -
    have r: "net_room (length bs) s" "net_room (BUFSIZ - 1 - nfrontp s) s" using assms that by (simp_all add: net_room_def)
    have o: "net_ok (net_output_data flen bs s)" "nfrontp (net_output_data flen bs s) + (BUFSIZ - 1 - nfrontp s - length bs) < BUFSIZ"
      using net_output_data_sent(2) [OF r, of flen] by (simp_all add: net_room_def)
    have "nfrontp (net_output_data flen bs s) \<le> nfrontp s + length bs" using o(2) that by linarith
    then show ?thesis using net_output_data_sent(1) [OF r(1), of flen] o(1) by blast
  qed
  then show ?thesis using assms netflush_sent netflush_ok netflush_nfrontp by blast
qed

theorem net_output_stream_witness:
  "net_sent (net_output_data 4 [IAC, DO, TELOPT_NAWS]
     (netflush (net_output_data 3 [97, 98, 99] ((telnetd_start zero_termios)\<lparr>net_wr := [Wrote 2, Retry]\<rparr>))))
   = [97, 98, 99, IAC, DO, TELOPT_NAWS]"
proof -
  let ?s = "(telnetd_start zero_termios)\<lparr>net_wr := [Wrote 2, Retry]\<rparr>"
  have s: "net_ok ?s" "net_sent ?s = []" "nfrontp ?s = 0"
    by (simp_all add: net_ok_def net_sent_def telnetd_start_def Let_def)
  let ?t = "net_output_data 3 [97, 98, 99] ?s"
  have t: "net_ok ?t" "net_sent ?t = [97, 98, 99]" "nfrontp ?t \<le> 3"
    using net_output_stream [OF s(1), of "[97, 98, 99]" 3] s(2,3) by simp_all
  have f: "net_sent (netflush ?t) = net_sent ?t" "net_ok (netflush ?t)" "nfrontp (netflush ?t) \<le> nfrontp ?t"
    using net_output_stream [OF t(1), of "[]" 0] by blast+
  have u: "net_ok (netflush ?t)" "net_sent (netflush ?t) = [97, 98, 99]" "nfrontp (netflush ?t) \<le> 3"
    by (fact f(2), simp only: f(1) t(2), rule order_trans [OF f(3) t(3)])
  from net_output_stream [OF u(1), of "[IAC, DO, TELOPT_NAWS]" 4] u(2,3) show ?thesis by simp
qed

text \<open>
  With the buffer exactly full and the socket not ready, \<open>net_output_data\<close> runs past its end:
  the room left is 0, which the program decrements as an unsigned number, so \<open>nfrontp\<close> is advanced by
  the full length although nothing was stored.
\<close>

theorem net_output_data_overrun:
  assumes "nfrontp s = BUFSIZ" "nbackp s < BUFSIZ" "\<not> exited s" "net_wr s = Retry # ws"
    and "bs \<noteq> []" "length bs < 2 ^ 31"
  shows "nfrontp (net_output_data flen bs s) = BUFSIZ + length bs
    \<and> netobuf (net_output_data flen bs s) = netobuf s"
proof -
  have f: "netflush s = s\<lparr>net_wr := ws\<rparr>" using assms by (simp add: netflush_def)
  have z: "net_remaining s = 0" "net_remaining (s\<lparr>net_wr := ws\<rparr>) = 0"
    using assms(1) by (simp_all add: net_remaining_def)
  have e: "buf_write b p [] = b" for b :: "nat \<Rightarrow> byte" and p by (rule ext) (auto simp: buf_write_def)
  have "int (length bs) < 2 ^ 31" using assms(6) by (metis of_nat_less_iff of_nat_numeral of_nat_power)
  then show ?thesis
    using assms(1) by (simp add: net_output_data_def z f e Let_def)
qed

theorem net_output_data_overrun_witness:
  "nfrontp (net_output_data 9 [13, 10, 91, 89, 101, 115, 93, 13, 10]
     ((telnetd_start zero_termios)\<lparr>nfrontp := 8192, net_wr := [Retry]\<rparr>)) = 8201"
proof -
  let ?s = "(telnetd_start zero_termios)\<lparr>nfrontp := 8192, net_wr := [Retry]\<rparr>"
  have "nfrontp ?s = 8192" "nbackp ?s < 8192" "\<not> exited ?s" "net_wr ?s = Retry # []"
    by (simp_all add: telnetd_start_def Let_def)
  from net_output_data_overrun [OF this, of "[13, 10, 91, 89, 101, 115, 93, 13, 10]" 9]
  show ?thesis by simp
qed

end
