(* ===== verification/Telnetd_Term.thy ===== *)
theory Telnetd_Term
  imports Telnetd_Net
begin

text \<open>
  The server's view of the terminal, \<open>telnetd/term.c\<close>: a copy \<open>termbuf\<close> of the line discipline's
  settings, fetched by \<open>init_termbuf\<close> and stored back by \<open>set_termbuf\<close> when it has changed, and the
  tests and changes made in the copy.  The flag values are those of \<open>termios.h\<close> on GNU/Linux.
\<close>

section \<open>Flags\<close>

abbreviation (input) ISTRIP :: u32 where "ISTRIP \<equiv> 0x20"
abbreviation (input) ICRNL :: u32 where "ICRNL \<equiv> 0x100"
abbreviation (input) IXON :: u32 where "IXON \<equiv> 0x400"
abbreviation (input) IXANY :: u32 where "IXANY \<equiv> 0x800"
abbreviation (input) OPOST :: u32 where "OPOST \<equiv> 0x1"
abbreviation (input) TABDLY :: u32 where "TABDLY \<equiv> 0x1800"
abbreviation (input) TAB0 :: u32 where "TAB0 \<equiv> 0x0"
abbreviation (input) TAB3 :: u32 where "TAB3 \<equiv> 0x1800"
abbreviation (input) CSIZE :: u32 where "CSIZE \<equiv> 0x30"
abbreviation (input) CS7 :: u32 where "CS7 \<equiv> 0x20"
abbreviation (input) CS8 :: u32 where "CS8 \<equiv> 0x30"
abbreviation (input) PARENB :: u32 where "PARENB \<equiv> 0x100"
abbreviation (input) ISIG :: u32 where "ISIG \<equiv> 0x1"
abbreviation (input) ICANON :: u32 where "ICANON \<equiv> 0x2"
abbreviation (input) ECHO :: u32 where "ECHO \<equiv> 0x8"
abbreviation (input) ECHOCTL :: u32 where "ECHOCTL \<equiv> 0x200"
abbreviation (input) EXTPROC :: u32 where "EXTPROC \<equiv> 0x10000"

abbreviation (input) VINTR :: nat where "VINTR \<equiv> 0"
abbreviation (input) VQUIT :: nat where "VQUIT \<equiv> 1"
abbreviation (input) VERASE :: nat where "VERASE \<equiv> 2"
abbreviation (input) VKILL :: nat where "VKILL \<equiv> 3"
abbreviation (input) VEOF :: nat where "VEOF \<equiv> 4"
abbreviation (input) VSTART :: nat where "VSTART \<equiv> 8"
abbreviation (input) VSTOP :: nat where "VSTOP \<equiv> 9"
abbreviation (input) VSUSP :: nat where "VSUSP \<equiv> 10"
abbreviation (input) VEOL :: nat where "VEOL \<equiv> 11"
abbreviation (input) VREPRINT :: nat where "VREPRINT \<equiv> 12"
abbreviation (input) VDISCARD :: nat where "VDISCARD \<equiv> 13"
abbreviation (input) VWERASE :: nat where "VWERASE \<equiv> 14"
abbreviation (input) VLNEXT :: nat where "VLNEXT \<equiv> 15"
abbreviation (input) VEOL2 :: nat where "VEOL2 \<equiv> 16"
abbreviation (input) NCCS :: nat where "NCCS \<equiv> 32"

section \<open>Fetching and storing the settings\<close>

definition init_termbuf :: "telnetd \<Rightarrow> telnetd" where
  "init_termbuf s = s\<lparr>termbuf := pty_attr s, termbuf2 := pty_attr s\<rparr>"

definition set_termbuf :: "telnetd \<Rightarrow> telnetd" where
  "set_termbuf s =
     (if \<not> exited s \<and> termbuf s \<noteq> termbuf2 s then s\<lparr>pty_attr := termbuf s\<rparr> else s)"

section \<open>Tests\<close>

definition tty_linemode :: "telnetd \<Rightarrow> int" where
  "tty_linemode s = uint (c_lflag (termbuf s) AND EXTPROC)"

definition tty_isecho :: "telnetd \<Rightarrow> bool" where
  "tty_isecho s = (c_lflag (termbuf s) AND ECHO \<noteq> 0)"

definition tty_flowmode :: "telnetd \<Rightarrow> int" where
  "tty_flowmode s = (if c_iflag (termbuf s) AND IXON \<noteq> 0 then 1 else 0)"

definition tty_restartany :: "telnetd \<Rightarrow> int" where
  "tty_restartany s = (if c_iflag (termbuf s) AND IXANY \<noteq> 0 then 1 else 0)"

definition tty_israw :: "telnetd \<Rightarrow> bool" where
  "tty_israw s = (c_lflag (termbuf s) AND ICANON = 0)"

definition tty_isbinaryin :: "telnetd \<Rightarrow> bool" where
  "tty_isbinaryin s = (c_iflag (termbuf s) AND ISTRIP = 0)"

definition tty_isbinaryout :: "telnetd \<Rightarrow> bool" where
  "tty_isbinaryout s = (c_oflag (termbuf s) AND OPOST = 0)"

definition tty_isediting :: "telnetd \<Rightarrow> bool" where
  "tty_isediting s = (c_lflag (termbuf s) AND ICANON \<noteq> 0)"

definition tty_istrapsig :: "telnetd \<Rightarrow> bool" where
  "tty_istrapsig s = (c_lflag (termbuf s) AND ISIG \<noteq> 0)"

definition tty_issofttab :: "telnetd \<Rightarrow> bool" where
  "tty_issofttab s = (c_oflag (termbuf s) AND TABDLY = TAB3)"

definition tty_islitecho :: "telnetd \<Rightarrow> bool" where
  "tty_islitecho s = (c_lflag (termbuf s) AND ECHOCTL = 0)"

definition tty_iscrnl :: "telnetd \<Rightarrow> bool" where
  "tty_iscrnl s = (c_iflag (termbuf s) AND ICRNL \<noteq> 0)"

section \<open>Changes\<close>

definition upd_lflag :: "(u32 \<Rightarrow> u32) \<Rightarrow> telnetd \<Rightarrow> telnetd" where
  "upd_lflag f s = s\<lparr>termbuf := (termbuf s)\<lparr>c_lflag := f (c_lflag (termbuf s))\<rparr>\<rparr>"

definition upd_iflag :: "(u32 \<Rightarrow> u32) \<Rightarrow> telnetd \<Rightarrow> telnetd" where
  "upd_iflag f s = s\<lparr>termbuf := (termbuf s)\<lparr>c_iflag := f (c_iflag (termbuf s))\<rparr>\<rparr>"

definition upd_oflag :: "(u32 \<Rightarrow> u32) \<Rightarrow> telnetd \<Rightarrow> telnetd" where
  "upd_oflag f s = s\<lparr>termbuf := (termbuf s)\<lparr>c_oflag := f (c_oflag (termbuf s))\<rparr>\<rparr>"

definition upd_cflag :: "(u32 \<Rightarrow> u32) \<Rightarrow> telnetd \<Rightarrow> telnetd" where
  "upd_cflag f s = s\<lparr>termbuf := (termbuf s)\<lparr>c_cflag := f (c_cflag (termbuf s))\<rparr>\<rparr>"

definition tty_setlinemode :: "bool \<Rightarrow> telnetd \<Rightarrow> telnetd" where
  "tty_setlinemode on = upd_lflag (\<lambda>x. if on then x OR EXTPROC else x AND NOT EXTPROC)"

definition tty_setecho :: "bool \<Rightarrow> telnetd \<Rightarrow> telnetd" where
  "tty_setecho on = upd_lflag (\<lambda>x. if on then x OR ECHO else x AND NOT ECHO)"

definition tty_binaryin :: "bool \<Rightarrow> telnetd \<Rightarrow> telnetd" where
  "tty_binaryin on = upd_iflag (\<lambda>x. if on then x AND NOT ISTRIP else x OR ISTRIP)"

definition tty_binaryout :: "bool \<Rightarrow> telnetd \<Rightarrow> telnetd" where
  "tty_binaryout on s =
     (if on then
        upd_oflag (\<lambda>x. x AND NOT OPOST)
          (upd_cflag (\<lambda>x. x OR CS8) (upd_cflag (\<lambda>x. x AND NOT (CSIZE OR PARENB)) s))
      else
        upd_oflag (\<lambda>x. x OR OPOST)
          (upd_cflag (\<lambda>x. x OR (CS7 OR PARENB)) (upd_cflag (\<lambda>x. x AND NOT CSIZE) s)))"

definition tty_setedit :: "bool \<Rightarrow> telnetd \<Rightarrow> telnetd" where
  "tty_setedit on = upd_lflag (\<lambda>x. if on then x OR ICANON else x AND NOT ICANON)"

definition tty_setsig :: "bool \<Rightarrow> telnetd \<Rightarrow> telnetd" where
  "tty_setsig on = upd_lflag (\<lambda>x. if on then x OR ISIG else x AND NOT ISIG)"

definition tty_setsofttab :: "bool \<Rightarrow> telnetd \<Rightarrow> telnetd" where
  "tty_setsofttab on =
     upd_oflag (\<lambda>x. if on then (x AND NOT TABDLY) OR TAB3 else (x AND NOT TABDLY) OR TAB0)"

definition tty_setlitecho :: "bool \<Rightarrow> telnetd \<Rightarrow> telnetd" where
  "tty_setlitecho on = upd_lflag (\<lambda>x. if on then x AND NOT ECHOCTL else x OR ECHOCTL)"

section \<open>Speeds\<close>

text \<open>The table of terminal speeds with their codes.\<close>

definition termspeeds :: "(int \<times> int) list" where
  "termspeeds = [(0, 0), (50, 1), (75, 2), (110, 3), (134, 4), (150, 5), (200, 6), (300, 7), (600, 8),
     (1200, 9), (1800, 10), (2400, 11), (4800, 12), (9600, 13), (19200, 14), (38400, 15),
     (57600, 4097), (115200, 4098), (230400, 4099)]"

text \<open>The first entry that is not below the requested speed, or the last one.\<close>

fun find_speed :: "int \<Rightarrow> (int \<times> int) list \<Rightarrow> int \<Rightarrow> int" where
  "find_speed v [] prev = prev"
| "find_speed v ((sp, code) # tp) prev = (if v > sp then find_speed v tp code else code)"

definition tty_tspeed :: "int \<Rightarrow> telnetd \<Rightarrow> telnetd" where
  "tty_tspeed v s = s\<lparr>termbuf := (termbuf s)\<lparr>c_ospeed := find_speed v termspeeds 0\<rparr>\<rparr>"

definition tty_rspeed :: "int \<Rightarrow> telnetd \<Rightarrow> telnetd" where
  "tty_rspeed v s = s\<lparr>termbuf := (termbuf s)\<lparr>c_ispeed := find_speed v termspeeds 0\<rparr>\<rparr>"

section \<open>Special characters\<close>

text \<open>\<open>spcset\<close>: the level of support for a function, the current value of its character and the
  place in \<open>termbuf.c_cc\<close> where that value is kept.\<close>

definition setval :: "telnetd \<Rightarrow> nat \<Rightarrow> byte \<Rightarrow> byte \<times> byte \<times> nat option" where
  "setval s i level = (level, c_cc (termbuf s) ! i, Some i)"

definition defval :: "byte \<Rightarrow> byte \<times> byte \<times> nat option" where
  "defval v = (SLC_DEFAULT, v, None)"

definition spcset :: "telnetd \<Rightarrow> nat \<Rightarrow> byte \<times> byte \<times> nat option" where
  "spcset s func =
     (if func = SLC_EOF then setval s VEOF SLC_VARIABLE
      else if func = SLC_EC then setval s VERASE SLC_VARIABLE
      else if func = SLC_EL then setval s VKILL SLC_VARIABLE
      else if func = SLC_IP then setval s VINTR (SLC_VARIABLE OR SLC_FLUSHIN OR SLC_FLUSHOUT)
      else if func = SLC_ABORT then setval s VQUIT (SLC_VARIABLE OR SLC_FLUSHIN OR SLC_FLUSHOUT)
      else if func = SLC_XON then setval s VSTART SLC_VARIABLE
      else if func = SLC_XOFF then setval s VSTOP SLC_VARIABLE
      else if func = SLC_EW then setval s VWERASE SLC_VARIABLE
      else if func = SLC_RP then setval s VREPRINT SLC_VARIABLE
      else if func = SLC_LNEXT then setval s VLNEXT SLC_VARIABLE
      else if func = SLC_AO then setval s VDISCARD (SLC_VARIABLE OR SLC_FLUSHOUT)
      else if func = SLC_SUSP then setval s VSUSP (SLC_VARIABLE OR SLC_FLUSHIN)
      else if func = SLC_FORW1 then setval s VEOL SLC_VARIABLE
      else if func = SLC_FORW2 then setval s VEOL2 SLC_VARIABLE
      else if func = SLC_AYT then defval 0
      else if func = SLC_BRK \<or> func = SLC_SYNCH \<or> func = SLC_EOR then defval 0
      else (SLC_NOSUPPORT, 0, None))"

text \<open>With \<open>VEOF\<close> and \<open>VMIN\<close> in different places these two do nothing.\<close>

definition term_send_eof :: "telnetd \<Rightarrow> telnetd" where
  "term_send_eof s = s"

definition term_change_eof :: "telnetd \<Rightarrow> bool" where
  "term_change_eof s = False"

section \<open>Each change is seen by its test\<close>

lemma and_flag_bit32:
  "(x AND 0x1 = (0::u32)) = (\<not> bit x 0)" "(x AND 0x2 = (0::u32)) = (\<not> bit x 1)"
  "(x AND 0x8 = (0::u32)) = (\<not> bit x 3)" "(x AND 0x20 = (0::u32)) = (\<not> bit x 5)"
  "(x AND 0x200 = (0::u32)) = (\<not> bit x 9)" "(x AND 0x10000 = (0::u32)) = (\<not> bit x 16)"
  using and_exp_eq_0_iff_not_bit [of x 0] and_exp_eq_0_iff_not_bit [of x 1]
    and_exp_eq_0_iff_not_bit [of x 3] and_exp_eq_0_iff_not_bit [of x 5]
    and_exp_eq_0_iff_not_bit [of x 9] and_exp_eq_0_iff_not_bit [of x 16]
  by simp_all

lemmas tty_defs = tty_isecho_def tty_isbinaryin_def tty_isbinaryout_def tty_isediting_def
  tty_istrapsig_def tty_islitecho_def tty_setecho_def tty_binaryin_def tty_binaryout_def
  tty_setedit_def tty_setsig_def tty_setlitecho_def upd_lflag_def upd_iflag_def upd_oflag_def
  upd_cflag_def

lemma tty_round_trips:
  "tty_isecho (tty_setecho on s) = on" "tty_isbinaryin (tty_binaryin on s) = on"
  "tty_isbinaryout (tty_binaryout on s) = on" "tty_isediting (tty_setedit on s) = on"
  "tty_istrapsig (tty_setsig on s) = on" "tty_islitecho (tty_setlitecho on s) = on"
  by (simp_all add: tty_defs and_flag_bit32 bit_or_iff bit_and_iff bit_not_iff)

lemma and_not_and: "((x::u32) AND NOT m) AND m = 0" and or_and: "(y OR m) AND m = (m::u32)"
  by (rule bit_word_eqI, auto simp: bit_and_iff bit_not_iff bit_or_iff)+

lemma tty_issofttab_set: "tty_issofttab (tty_setsofttab on s) = on"
  using and_not_and [of _ "0x1800"] or_and [of _ "0x1800"]
  by (simp add: tty_issofttab_def tty_setsofttab_def upd_oflag_def)

end
