(* ===== verification/Telnetd_Slc.thy ===== *)
theory Telnetd_Slc
  imports Telnetd_Term
begin

text \<open>
  Negotiation of the special characters (SLC), \<open>telnetd/slc.c\<close>.  The reply is collected in
  \<open>slcbuf\<close>; in the model \<open>slcbuf\<close> is the list of the bytes stored so far, so that \<open>slcptr\<close> is its
  length.  The array of the program has \<open>NSLC * 6\<close> bytes and no operation checks that bound.
\<close>

section \<open>Operations\<close>

definition upd_current :: "nat \<Rightarrow> (slcent \<Rightarrow> slcent) \<Rightarrow> telnetd \<Rightarrow> telnetd" where
  "upd_current i f s =
     s\<lparr>slctab := (slctab s)(i := (slctab s i)\<lparr>current := f (current (slctab s i))\<rparr>)\<rparr>"

text \<open>\<open>*(slctab[i].sptr)\<close>, read and written; a write through the null pointer is not made.\<close>

definition sptr_get :: "telnetd \<Rightarrow> nat \<Rightarrow> byte" where
  "sptr_get s i = (case sptr (slctab s i) of None \<Rightarrow> 0 | Some k \<Rightarrow> c_cc (termbuf s) ! k)"

definition sptr_put :: "nat \<Rightarrow> byte \<Rightarrow> telnetd \<Rightarrow> telnetd" where
  "sptr_put i v s =
     (case sptr (slctab s i) of
        None \<Rightarrow> s
      | Some k \<Rightarrow> s\<lparr>termbuf := (termbuf s)\<lparr>c_cc := (c_cc (termbuf s))[k := v]\<rparr>\<rparr>)"

text \<open>One byte of the reply, doubled when it is \<open>IAC\<close>.\<close>

definition slc_byte :: "byte \<Rightarrow> byte list" where
  "slc_byte c = (if c = 0xff then [0xff, 0xff] else [c])"

definition add_slc :: "byte \<Rightarrow> byte \<Rightarrow> byte \<Rightarrow> telnetd \<Rightarrow> telnetd" where
  "add_slc func flg v s = s\<lparr>slcbuf := slcbuf s @ slc_byte func @ slc_byte flg @ slc_byte v\<rparr>"

definition slc_funcs :: "nat list" where
  "slc_funcs = [1..<NSLC + 1]"

definition send_slc_one :: "nat \<Rightarrow> telnetd \<Rightarrow> telnetd" where
  "send_slc_one i s =
     (if sflag (defset (slctab s i)) AND SLC_LEVELBITS = SLC_NOSUPPORT then s
      else add_slc (of_nat i) (sflag (current (slctab s i))) (sval (current (slctab s i))) s)"

definition send_slc :: "telnetd \<Rightarrow> telnetd" where
  "send_slc s = fold send_slc_one slc_funcs s"

definition default_slc_one :: "nat \<Rightarrow> telnetd \<Rightarrow> telnetd" where
  "default_slc_one i s =
     (let d = defset (slctab s i);
          fl = (if sval d = VDISABLE then SLC_NOSUPPORT else sflag d)
      in sptr_put i (sval d) (upd_current i (\<lambda>_. \<lparr>sflag = fl, sval = sval d\<rparr>) s))"

definition default_slc :: "telnetd \<Rightarrow> telnetd" where
  "default_slc s = (fold default_slc_one slc_funcs s)\<lparr>slcchange := True\<rparr>"

definition get_slc_default_one :: "nat \<Rightarrow> telnetd \<Rightarrow> telnetd" where
  "get_slc_default_one i s =
     (case spcset s i of
        (level, v, p) \<Rightarrow>
          s\<lparr>slctab := (slctab s)(i := \<lparr>defset = \<lparr>sflag = level, sval = v\<rparr>,
                                      current = \<lparr>sflag = SLC_NOSUPPORT, sval = 0\<rparr>, sptr = p\<rparr>)\<rparr>)"

definition get_slc_defaults :: "telnetd \<Rightarrow> telnetd" where
  "get_slc_defaults s = fold get_slc_default_one slc_funcs (init_termbuf s)"

definition start_slc :: "bool \<Rightarrow> telnetd \<Rightarrow> telnetd" where
  "start_slc getit s =
     (let s1 = s\<lparr>slcchange := False\<rparr>;
          s2 = (if getit then init_termbuf s1 else s1)
      in s2\<lparr>slcbuf := [IAC, SB, TELOPT_LINEMODE, LM_SLC]\<rparr>)"

definition terminit :: "telnetd \<Rightarrow> bool" where
  "terminit s = terminit_flag s"

text \<open>\<open>end_slc (&cp)\<close> hands the triplets to its caller, \<open>end_slc (0)\<close> sends them.\<close>

definition end_slc :: "bool \<Rightarrow> telnetd \<Rightarrow> byte list \<times> telnetd" where
  "end_slc bufp s =
     (let s1 = (if slcchange s then set_termbuf s else s)
      in if def_slcbuf s1 \<noteq> None \<and> \<not> terminit s1 then ([], s1)
         else if length (slcbuf s1) > 4 then
           (if bufp then (drop 4 (slcbuf s1), s1)
            else
              let s2 = s1\<lparr>slcbuf := slcbuf s1 @ [IAC, SE]\<rparr>;
                  s3 = snd (net_output_datalen (slcbuf s2) s2)
              in ([], netflush s3))
         else ([], s1))"

definition change_slc :: "byte \<Rightarrow> byte \<Rightarrow> byte \<Rightarrow> telnetd \<Rightarrow> telnetd" where
  "change_slc func flg v s =
     (let i = unat func;
          hislevel = flg AND SLC_LEVELBITS;
          mylevel = sflag (defset (slctab s i)) AND SLC_LEVELBITS
      in if hislevel = SLC_NOSUPPORT then
           add_slc func (flg OR SLC_ACK) v
             (upd_current i (\<lambda>_. \<lparr>sflag = flg, sval = VDISABLE\<rparr>) s)
         else if hislevel = SLC_DEFAULT then
           let fl = (if mylevel = SLC_DEFAULT then SLC_NOSUPPORT else sflag (defset (slctab s i)));
               dv = sval (defset (slctab s i))
           in add_slc func fl dv (upd_current i (\<lambda>_. \<lparr>sflag = fl, sval = dv\<rparr>) s)
         else if sptr (slctab s i) \<noteq> None then
           add_slc func (flg OR SLC_ACK) v
             ((sptr_put i v (upd_current i (\<lambda>_. \<lparr>sflag = flg, sval = v\<rparr>) s))\<lparr>slcchange := True\<rparr>)
         else if mylevel = SLC_DEFAULT then
           add_slc func (flg OR SLC_ACK) v (upd_current i (\<lambda>_. \<lparr>sflag = flg, sval = v\<rparr>) s)
         else if hislevel = SLC_CANTCHANGE \<and> mylevel = SLC_CANTCHANGE then
           let fl = (flg AND NOT SLC_LEVELBITS) OR SLC_NOSUPPORT
           in add_slc func fl v (upd_current i (\<lambda>e. e\<lparr>sflag := fl\<rparr>) s)
         else
           let fl = (flg AND NOT SLC_LEVELBITS) OR mylevel;
               s1 = upd_current i (\<lambda>e. e\<lparr>sflag := fl\<rparr>) s
           in if mylevel = SLC_CANTCHANGE then
                let dv = sval (defset (slctab s i))
                in add_slc func fl dv (upd_current i (\<lambda>e. e\<lparr>sval := dv\<rparr>) s1)
              else add_slc func fl v s1)"

definition process_slc :: "byte \<Rightarrow> byte \<Rightarrow> byte \<Rightarrow> telnetd \<Rightarrow> telnetd" where
  "process_slc func flg v s =
     (if unat func > NSLC then add_slc func SLC_NOSUPPORT 0 s
      else if func = 0 then
        (let fl = flg AND SLC_LEVELBITS
         in if fl = SLC_DEFAULT then send_slc (default_slc s)
            else if fl = SLC_VARIABLE then send_slc s
            else s)
      else
        let hislevel = flg AND SLC_LEVELBITS;
            cur = current (slctab s (unat func));
            mylevel = sflag cur AND SLC_LEVELBITS;
            ack = (flg AND SLC_ACK \<noteq> 0)
        in if hislevel = mylevel \<and> (v = sval cur \<or> ack) then s
           else if ack then s
           else change_slc func flg v s)"

definition check_slc_one :: "nat \<Rightarrow> telnetd \<Rightarrow> telnetd" where
  "check_slc_one i s =
     (if i = SLC_EOF \<and> term_change_eof s then s
      else if sptr (slctab s i) \<noteq> None \<and> sptr_get s i \<noteq> sval (current (slctab s i)) then
        let v = sptr_get s i;
            fl = (if v = VDISABLE then SLC_NOSUPPORT else sflag (defset (slctab s i)))
        in add_slc (of_nat i) fl v (upd_current i (\<lambda>_. \<lparr>sflag = fl, sval = v\<rparr>) s)
      else s)"

definition check_slc :: "telnetd \<Rightarrow> telnetd" where
  "check_slc s = fold check_slc_one slc_funcs s"

text \<open>The loop over the triplets; an incomplete one at the end is dropped.\<close>

fun process_slcs :: "byte list \<Rightarrow> telnetd \<Rightarrow> telnetd" where
  "process_slcs (func # flg # v # rest) s = process_slcs rest (process_slc func flg v s)"
| "process_slcs _ s = s"

definition do_opt_slc :: "byte list \<Rightarrow> telnetd \<Rightarrow> telnetd" where
  "do_opt_slc bs s =
     (if terminit s then process_slcs bs s
      else if def_slcbuf s = None then s\<lparr>def_slcbuf := Some bs\<rparr>
      else s)"

definition deferslc :: "telnetd \<Rightarrow> telnetd" where
  "deferslc s =
     (case def_slcbuf s of
        None \<Rightarrow> s
      | Some bs \<Rightarrow> (snd (end_slc False (do_opt_slc bs (start_slc True s))))\<lparr>def_slcbuf := None\<rparr>)"

section \<open>Properties\<close>

lemma process_unknown:
  "unat c > NSLC \<Longrightarrow> c \<noteq> IAC \<Longrightarrow>
   slcbuf (process_slcs (concat (replicate n [c, 0, 0])) s) = slcbuf s @ concat (replicate n [c, 0, 0])"
proof (induction n arbitrary: s)
  case (Suc n)
  then show ?case by (simp add: process_slc_def add_slc_def slc_byte_def)
qed simp

text \<open>
  The reply to a list of special characters is collected in \<open>slcbuf\<close> without a check of its
  size.  Every triplet for a function the server does not know is answered by three bytes, so that
  \<open>n\<close> of them make a reply of \<open>4 + 3 * n\<close> bytes; a suboption has room for 169 triplets, and 35 are
  more than the \<open>NSLC * 6\<close> bytes of the array.
\<close>

theorem slc_reply_unbounded:
  assumes "terminit s" "unat c > NSLC" "c \<noteq> IAC" "35 \<le> n"
  shows "length (slcbuf (do_opt_slc (concat (replicate n [c, 0, 0])) (start_slc True s))) = 4 + 3 * n
    \<and> length (slcbuf (do_opt_slc (concat (replicate n [c, 0, 0])) (start_slc True s))) > NSLC * 6"
proof -
  have t: "terminit (start_slc True s)" using assms(1) by (simp add: terminit_def start_slc_def init_termbuf_def Let_def)
  have "length (slcbuf (do_opt_slc (concat (replicate n [c, 0, 0])) (start_slc True s))) = 4 + 3 * n"
    using t process_unknown [OF assms(2,3), of n "start_slc True s"]
    by (simp add: do_opt_slc_def start_slc_def Let_def length_concat sum_list_replicate)
  then show ?thesis using assms(4) by simp
qed

theorem slc_reply_unbounded_witness:
  "length (slcbuf (do_opt_slc (concat (replicate 100 [100, 0, 0]))
     (start_slc True ((telnetd_start zero_termios)\<lparr>terminit_flag := True\<rparr>)))) = 304"
proof -
  have "terminit ((telnetd_start zero_termios)\<lparr>terminit_flag := True\<rparr>)" by (simp add: terminit_def)
  from slc_reply_unbounded [OF this, of 100 100] show ?thesis by simp
qed

text \<open>
  The negotiation of the special characters comes to an end: an acknowledged triplet, and one
  that repeats the values in force, changes nothing and is not answered.
\<close>

theorem slc_no_answer:
  assumes "0 < unat func" "unat func \<le> NSLC"
    and "flg AND SLC_ACK \<noteq> 0 \<or> flg AND SLC_LEVELBITS = sflag (current (slctab s (unat func))) AND SLC_LEVELBITS
      \<and> v = sval (current (slctab s (unat func)))"
  shows "process_slc func flg v s = s"
  using assms by (auto simp: process_slc_def Let_def)

theorem slc_no_answer_witness:
  "process_slc 3 (SLC_ACK OR SLC_VARIABLE) 7 (telnetd_start zero_termios) = telnetd_start zero_termios"
  by (rule slc_no_answer) simp_all

end
