(* ===== verification/Telnetd_Linemode.thy ===== *)
theory Telnetd_Linemode
  imports Telnetd_Slc
begin

text \<open>
  Requests for options (\<open>send_do\<close>, \<open>send_dont\<close>, \<open>send_will\<close>, \<open>send_wont\<close> of \<open>telnetd/state.c\<close>) and
  the management of linemode and of the terminal modes, \<open>telnetd/termstat.c\<close>.
\<close>

section \<open>Requesting an option\<close>

definition resp_incr :: "(byte \<Rightarrow> byte) \<Rightarrow> byte \<Rightarrow> (byte \<Rightarrow> byte)" where
  "resp_incr r opt = r(opt := r opt + 1)"

definition resp_decr :: "(byte \<Rightarrow> byte) \<Rightarrow> byte \<Rightarrow> (byte \<Rightarrow> byte)" where
  "resp_decr r opt = r(opt := r opt - 1)"

text \<open>The format strings \<open>doopt\<close>, \<open>dont\<close>, \<open>will\<close> and \<open>wont\<close> are four characters long.\<close>

definition send_do :: "byte \<Rightarrow> bool \<Rightarrow> telnetd \<Rightarrow> telnetd" where
  "send_do opt init s =
     (if init then
        (if (do_dont_resp s opt = 0 \<and> his_state_is_will s opt) \<or> his_want_state_is_will s opt then s
         else
           let s1 = (if opt = TELOPT_TM then set_his_want_state_wont opt s
                     else set_his_want_state_will opt s);
               s2 = s1\<lparr>do_dont_resp := resp_incr (do_dont_resp s1) opt\<rparr>
           in net_output_data 4 [IAC, DO, opt] s2)
      else net_output_data 4 [IAC, DO, opt] s)"

definition send_dont :: "byte \<Rightarrow> bool \<Rightarrow> telnetd \<Rightarrow> telnetd" where
  "send_dont opt init s =
     (if init then
        (if (do_dont_resp s opt = 0 \<and> \<not> his_state_is_will s opt) \<or> \<not> his_want_state_is_will s opt
         then s
         else
           let s1 = set_his_want_state_wont opt s;
               s2 = s1\<lparr>do_dont_resp := resp_incr (do_dont_resp s1) opt\<rparr>
           in net_output_data 4 [IAC, DONT, opt] s2)
      else net_output_data 4 [IAC, DONT, opt] s)"

definition send_will :: "byte \<Rightarrow> bool \<Rightarrow> telnetd \<Rightarrow> telnetd" where
  "send_will opt init s =
     (if init then
        (if (will_wont_resp s opt = 0 \<and> my_state_is_will s opt) \<or> my_want_state_is_will s opt then s
         else
           let s1 = set_my_want_state_will opt s;
               s2 = s1\<lparr>will_wont_resp := resp_incr (will_wont_resp s1) opt\<rparr>
           in net_output_data 4 [IAC, WILL, opt] s2)
      else net_output_data 4 [IAC, WILL, opt] s)"

definition send_wont :: "byte \<Rightarrow> bool \<Rightarrow> telnetd \<Rightarrow> telnetd" where
  "send_wont opt init s =
     (if init then
        (if (will_wont_resp s opt = 0 \<and> \<not> my_state_is_will s opt) \<or> \<not> my_want_state_is_will s opt
         then s
         else
           let s1 = set_my_want_state_wont opt s;
               s2 = s1\<lparr>will_wont_resp := resp_incr (will_wont_resp s1) opt\<rparr>
           in net_output_data 4 [IAC, WONT, opt] s2)
      else net_output_data 4 [IAC, WONT, opt] s)"

section \<open>Flow control\<close>

definition flowstat :: "telnetd \<Rightarrow> telnetd" where
  "flowstat s =
     (if his_state_is_will s TELOPT_LFLOW then
        let s1 = (if tty_flowmode s \<noteq> flowmode s then
                    let t = s\<lparr>flowmode := tty_flowmode s\<rparr>
                    in net_output_data 12 [IAC, SB, TELOPT_LFLOW,
                         if flowmode t \<noteq> 0 then LFLOW_ON else LFLOW_OFF, IAC, SE] t
                  else s)
        in (if tty_restartany s1 \<noteq> restartany s1 then
              let t = s1\<lparr>restartany := tty_restartany s1\<rparr>
              in net_output_data 12 [IAC, SB, TELOPT_LFLOW,
                   if restartany t \<noteq> 0 then LFLOW_RESTART_ANY else LFLOW_RESTART_XON, IAC, SE] t
            else s1)
      else s)"

section \<open>Requests from the client\<close>

text \<open>The edit modes the pty is in.\<close>

definition tty_editmodes :: "telnetd \<Rightarrow> byte" where
  "tty_editmodes s =
     (if tty_isediting s then MODE_EDIT else 0) OR (if tty_istrapsig s then MODE_TRAPSIG else 0)
     OR (if tty_issofttab s then MODE_SOFT_TAB else 0) OR (if tty_islitecho s then MODE_LIT_ECHO else 0)"

text \<open>The mode mask sent in a \<open>LINEMODE MODE\<close> suboption.\<close>

definition output_mode :: "byte \<Rightarrow> telnetd \<Rightarrow> telnetd" where
  "output_mode m = net_output_data 14 [IAC, SB, TELOPT_LINEMODE, LM_MODE, m, IAC, SE]"

text \<open>\<open>clientstat (TELOPT_LINEMODE, parm1, 0)\<close>: the client asks for linemode on or off.\<close>

definition clientstat_linemode :: "byte \<Rightarrow> telnetd \<Rightarrow> telnetd" where
  "clientstat_linemode parm1 s0 =
     (let s = init_termbuf s0;
          s1 = s\<lparr>uselinemode := (if parm1 = WILL then 1 else 0)\<rparr>
      in if uselinemode s1 \<noteq> linemode s1 then
           let s2 = (if lmodetype s1 = KLUDGE_LINEMODE \<and> alwayslinemode s1 \<and> tty_isediting s1
                     then s1\<lparr>uselinemode := 1\<rparr> else s1)
           in if uselinemode s2 = linemode s2 then s2
              else
                let s3 = (if lmodetype s2 = REAL_LINEMODE \<and> uselinemode s2 \<noteq> 0 then
                            let t = output_mode (tty_editmodes s2) (s2\<lparr>useeditmode := tty_editmodes s2\<rparr>)
                            in t\<lparr>editmode := useeditmode t\<rparr>
                          else s2);
                    s4 = tty_setlinemode (uselinemode s3 \<noteq> 0) s3;
                    s5 = s4\<lparr>linemode := uselinemode s4\<rparr>;
                    s6 = (if linemode s5 = 0 then send_will TELOPT_ECHO True s5 else s5)
                in netflush s6
         else netflush s1)"

text \<open>\<open>clientstat (TELOPT_NAWS, parm1, parm2)\<close>; \<open>winsize\<close> holds unsigned shorts.\<close>

definition set_winsize :: "int \<Rightarrow> int \<Rightarrow> telnetd \<Rightarrow> telnetd" where
  "set_winsize col row s =
     (if exited s then s else s\<lparr>pty_winsize := (col mod 2 ^ 16, row mod 2 ^ 16)\<rparr>)"

definition clientstat_naws :: "int \<Rightarrow> int \<Rightarrow> telnetd \<Rightarrow> telnetd" where
  "clientstat_naws parm1 parm2 s0 =
     (let s = (init_termbuf s0)\<lparr>def_col := parm1, def_row := parm2\<rparr>
      in if \<not> terminit s then s else netflush (set_winsize parm1 parm2 s))"

text \<open>\<open>clientstat (TELOPT_TSPEED, parm1, parm2)\<close>.\<close>

definition clientstat_tspeed :: "int \<Rightarrow> int \<Rightarrow> telnetd \<Rightarrow> telnetd" where
  "clientstat_tspeed parm1 parm2 s0 =
     (let s = (init_termbuf s0)\<lparr>def_tspeed := parm1, def_rspeed := parm2\<rparr>
      in if \<not> terminit s then s
         else netflush (set_termbuf (tty_tspeed parm1 (tty_rspeed parm2 s))))"

section \<open>Deferred settings\<close>

definition defer_terminit :: "telnetd \<Rightarrow> telnetd" where
  "defer_terminit s =
     (let s1 = (if def_tspeed s \<noteq> -1
                then (clientstat_tspeed (def_tspeed s) (def_rspeed s) s)\<lparr>def_tspeed := 0, def_rspeed := 0\<rparr>
                else s);
          s2 = (if def_col s1 \<noteq> 0 \<or> def_row s1 \<noteq> 0
                then set_winsize (def_col s1) (def_row s1) s1 else s1)
      in deferslc s2)"

section \<open>Changes made on the pty side\<close>

text \<open>The state of the BINARY options follows the pty.\<close>

definition localstat_binary :: "telnetd \<Rightarrow> telnetd" where
  "localstat_binary s =
     (let s1 = (if tty_isbinaryin s
                then (if \<not> his_want_state_is_will s TELOPT_BINARY
                      then send_do TELOPT_BINARY True s else s)
                else (if his_want_state_is_will s TELOPT_BINARY
                      then send_dont TELOPT_BINARY True s else s))
      in (if tty_isbinaryout s1
          then (if \<not> my_want_state_is_will s1 TELOPT_BINARY
                then send_will TELOPT_BINARY True s1 else s1)
          else (if my_want_state_is_will s1 TELOPT_BINARY
                then send_wont TELOPT_BINARY True s1 else s1)))"

text \<open>The desired linemode; with \<open>alwayslinemode\<close> it is not turned off.\<close>

definition localstat_uselinemode :: "telnetd \<Rightarrow> telnetd" where
  "localstat_uselinemode s =
     (let s1 = s\<lparr>uselinemode := tty_linemode s\<rparr>
      in if alwayslinemode s1 \<and> linemode s1 \<noteq> 0 \<and> uselinemode s1 = 0
         then tty_setlinemode True (s1\<lparr>uselinemode := 1\<rparr>)
         else s1)"

text \<open>Echo handling; the result says whether a WILL ECHO has to follow at the end.\<close>

definition localstat_echo :: "telnetd \<Rightarrow> bool \<times> telnetd" where
  "localstat_echo s =
     (if uselinemode s \<noteq> 0 then
        let need_will_echo = \<not> tty_isecho s;
            s1 = (if tty_isecho s then send_wont TELOPT_ECHO True s else s)
        in (need_will_echo, if lmodetype s1 = KLUDGE_OK then s1\<lparr>lmodetype := KLUDGE_LINEMODE\<rparr> else s1)
      else (False, s))"

definition localstat_off :: "telnetd \<Rightarrow> telnetd" where
  "localstat_off s =
     (let s1 = (if lmodetype s = REAL_LINEMODE then send_dont TELOPT_LINEMODE True s
                else if lmodetype s = KLUDGE_LINEMODE then send_will TELOPT_SGA True s
                else s);
          s2 = send_will TELOPT_ECHO True s1
      in s2\<lparr>linemode := uselinemode s2\<rparr>)"

definition localstat_modes :: "telnetd \<Rightarrow> telnetd" where
  "localstat_modes s =
     (if lmodetype s = REAL_LINEMODE then s\<lparr>useeditmode := tty_editmodes s\<rparr>
      else if lmodetype s = KLUDGE_LINEMODE then
        (if tty_isediting s \<and> uselinemode s \<noteq> 0
         then send_wont TELOPT_SGA True s else send_will TELOPT_SGA True s)
      else s)"

definition localstat_on :: "telnetd \<Rightarrow> telnetd" where
  "localstat_on s =
     (let s1 = (if lmodetype s = KLUDGE_LINEMODE then send_wont TELOPT_SGA True s
                else if lmodetype s = REAL_LINEMODE then
                  let t = send_do TELOPT_LINEMODE True s;
                      u = output_mode (useeditmode t) t
                  in u\<lparr>editmode := useeditmode u\<rparr>
                else s)
      in s1\<lparr>linemode := uselinemode s1\<rparr>)"

definition localstat_edit :: "telnetd \<Rightarrow> telnetd" where
  "localstat_edit s =
     (if lmodetype s < REAL_LINEMODE then s
      else if linemode s \<noteq> 0 \<and> his_state_is_will s TELOPT_LINEMODE then
        let s1 = (if useeditmode s \<noteq> editmode s then
                    let t = output_mode (useeditmode s) s in t\<lparr>editmode := useeditmode t\<rparr>
                  else s)
        in snd (end_slc False (check_slc (start_slc False s1)))
      else s)"

definition localstat_done :: "bool \<Rightarrow> telnetd \<Rightarrow> telnetd" where
  "localstat_done need_will_echo s =
     (let s1 = (if need_will_echo then send_will TELOPT_ECHO True s else s);
          s2 = (if \<not> terminit_flag s1 then defer_terminit (s1\<lparr>terminit_flag := True\<rparr>) else s1)
      in set_termbuf (netflush s2))"

definition localstat :: "telnetd \<Rightarrow> telnetd" where
  "localstat s =
     (let s1 = localstat_uselinemode (flowstat (localstat_binary s));
          (need_will_echo, s2) = localstat_echo s1
      in if uselinemode s2 = 0 \<and> linemode s2 \<noteq> 0 then localstat_done need_will_echo (localstat_off s2)
         else
           let s3 = localstat_modes s2
           in if uselinemode s3 \<noteq> 0 \<and> linemode s3 = 0
              then localstat_done need_will_echo (localstat_on s3)
              else localstat_done need_will_echo (localstat_edit s3))"

text \<open>\<open>clientstat (LM_MODE, 0, 0)\<close>: the client has sent a mode mask, in \<open>useeditmode\<close>.\<close>

definition clientstat_mode_set :: "byte \<Rightarrow> byte \<Rightarrow> telnetd \<Rightarrow> telnetd" where
  "clientstat_mode_set changed mode s =
     (let s1 = (if changed AND MODE_EDIT \<noteq> 0 then tty_setedit (mode AND MODE_EDIT \<noteq> 0) s else s);
          s2 = (if changed AND MODE_TRAPSIG \<noteq> 0 then tty_setsig (mode AND MODE_TRAPSIG \<noteq> 0) s1 else s1);
          s3 = (if changed AND MODE_SOFT_TAB \<noteq> 0
                then tty_setsofttab (mode AND MODE_SOFT_TAB \<noteq> 0) s2 else s2);
          s4 = (if changed AND MODE_LIT_ECHO \<noteq> 0
                then tty_setlitecho (mode AND MODE_LIT_ECHO \<noteq> 0) s3 else s3)
      in set_termbuf s4)"

definition clientstat_mode :: "telnetd \<Rightarrow> telnetd" where
  "clientstat_mode s0 =
     (let s = init_termbuf s0;
          ack = (useeditmode s AND MODE_MASK AND MODE_ACK \<noteq> 0);
          s1 = s\<lparr>useeditmode := (useeditmode s AND MODE_MASK) AND NOT MODE_ACK\<rparr>;
          changed = useeditmode s1 XOR editmode s1
      in if changed \<noteq> 0 then
           let s2 = (if ack then localstat s1 else s1);
               s3 = clientstat_mode_set changed (useeditmode s2) s2;
               s4 = (if \<not> ack then output_mode (useeditmode s3 OR MODE_ACK) s3 else s3)
           in netflush (s4\<lparr>editmode := useeditmode s4\<rparr>)
         else netflush s1)"

end
