(* ===== verification/Telnetd_Options.thy ===== *)
theory Telnetd_Options
  imports Telnetd_Linemode
begin

text \<open>
  The option state machines of \<open>telnetd/state.c\<close>: what the server does on WILL, WONT, DO and DONT.
\<close>

section \<open>Receiving an option command\<close>

definition settimer :: "((int \<Rightarrow> int) \<Rightarrow> telnetd_clocks \<Rightarrow> telnetd_clocks) \<Rightarrow> telnetd \<Rightarrow> telnetd" where
  "settimer fld s =
     (let t = csystem (clocks s) + 1
      in s\<lparr>clocks := fld (\<lambda>_. t) ((clocks s)\<lparr>csystem := t\<rparr>)\<rparr>)"

text \<open>\<open>slctab[i].defset.flag\<close> with its level bits replaced.\<close>

definition set_slc_level :: "nat \<Rightarrow> byte \<Rightarrow> telnetd \<Rightarrow> telnetd" where
  "set_slc_level i level s =
     s\<lparr>slctab := (slctab s)(i := (slctab s i)\<lparr>defset :=
         (defset (slctab s i))\<lparr>sflag := (sflag (defset (slctab s i)) AND NOT SLC_LEVELBITS) OR level\<rparr>\<rparr>)\<rparr>"

definition doclientstat :: "telnetd \<Rightarrow> telnetd" where
  "doclientstat = clientstat_linemode WILL"

text \<open>The count of outstanding requests goes down with every answer, by two when the answer repeats
  the state already reached.\<close>

definition resp_answer :: "(byte \<Rightarrow> byte) \<Rightarrow> byte \<Rightarrow> bool \<Rightarrow> (byte \<Rightarrow> byte)" where
  "resp_answer r opt same =
     (if r opt \<noteq> 0 then
        let r1 = resp_decr r opt in if r1 opt \<noteq> 0 \<and> same then resp_decr r1 opt else r1
      else r)"

text \<open>What the switch over the option decides on a request: the command is dealt with there and then,
  or the change is accepted or refused and a function is to be called at the end.\<close>

datatype verdict = Consumed telnetd | Decide bool "(telnetd \<Rightarrow> telnetd) option" telnetd

text \<open>A WILL that was not asked for.\<close>

definition willoption_offer :: "byte \<Rightarrow> telnetd \<Rightarrow> verdict" where
  "willoption_offer opt s =
     (if opt = TELOPT_BINARY then
        Decide True None (set_termbuf (tty_binaryin True (init_termbuf s)))
      else if opt = TELOPT_ECHO then Decide False None (s\<lparr>not42 := False\<rparr>)
      else if opt = TELOPT_TM then
        Consumed
          (if lmodetype s < KLUDGE_LINEMODE then
             send_wont TELOPT_SGA True (clientstat_linemode WILL (s\<lparr>lmodetype := KLUDGE_LINEMODE\<rparr>))
           else if lmodetype s = NO_AUTOKLUDGE then s\<lparr>lmodetype := KLUDGE_OK\<rparr>
           else s)
      else if opt = TELOPT_LFLOW then
        Decide True None (set_slc_level SLC_XOFF SLC_DEFAULT (set_slc_level SLC_XON SLC_DEFAULT s))
      else if opt \<in> {TELOPT_TTYPE, TELOPT_SGA, TELOPT_NAWS, TELOPT_TSPEED, TELOPT_XDISPLOC,
                     TELOPT_NEW_ENVIRON, TELOPT_OLD_ENVIRON} then Decide True None s
      else if opt = TELOPT_LINEMODE then
        Decide True (Some doclientstat) (s\<lparr>lmodetype := REAL_LINEMODE\<rparr>)
      else Decide False None s)"

text \<open>A WILL that confirms a request of ours.\<close>

definition willoption_confirm :: "byte \<Rightarrow> telnetd \<Rightarrow> (telnetd \<Rightarrow> telnetd) option \<times> telnetd" where
  "willoption_confirm opt s =
     (if opt = TELOPT_ECHO then (None, send_dont opt True (s\<lparr>not42 := False\<rparr>))
      else if opt = TELOPT_LINEMODE then (Some doclientstat, s\<lparr>lmodetype := REAL_LINEMODE\<rparr>)
      else if opt = TELOPT_LFLOW then (Some flowstat, s)
      else (None, s))"

definition willoption_end :: "byte \<Rightarrow> (telnetd \<Rightarrow> telnetd) option \<Rightarrow> telnetd \<Rightarrow> telnetd" where
  "willoption_end opt func s =
     (let s1 = set_his_state_will opt s
      in case func of None \<Rightarrow> s1 | Some f \<Rightarrow> f s1)"

definition willoption :: "byte \<Rightarrow> telnetd \<Rightarrow> telnetd" where
  "willoption opt s0 =
     (let s = s0\<lparr>do_dont_resp := resp_answer (do_dont_resp s0) opt (his_state_is_will s0 opt)\<rparr>
      in if do_dont_resp s opt = 0 then
           (if \<not> his_want_state_is_will s opt then
              (case willoption_offer opt s of
                 Consumed s1 \<Rightarrow> s1
               | Decide changeok func s1 \<Rightarrow>
                   (if changeok then
                      willoption_end opt func (send_do opt False (set_his_want_state_will opt s1))
                    else
                      willoption_end opt func
                        (send_dont opt False
                           (s1\<lparr>do_dont_resp := resp_incr (do_dont_resp s1) opt\<rparr>))))
            else
              (case willoption_confirm opt s of
                 (func, s1) \<Rightarrow> willoption_end opt func s1))
         else willoption_end opt None s)"

text \<open>The change to the negative state is always accepted.  A WONT TM ends here.\<close>

definition wontoption_off :: "byte \<Rightarrow> telnetd \<Rightarrow> telnetd" where
  "wontoption_off opt s =
     (if opt = TELOPT_ECHO then s\<lparr>not42 := True\<rparr>
      else if opt = TELOPT_BINARY then set_termbuf (tty_binaryin False (init_termbuf s))
      else if opt = TELOPT_LINEMODE then
        (if lmodetype s \<noteq> REAL_LINEMODE then s else clientstat_linemode WONT s)
      else if opt = TELOPT_LFLOW then
        set_slc_level SLC_XOFF SLC_CANTCHANGE (set_slc_level SLC_XON SLC_CANTCHANGE s)
      else if opt = TELOPT_TTYPE then settimer ttypesubopt_update s
      else if opt = TELOPT_TSPEED then settimer tspeedsubopt_update s
      else if opt = TELOPT_XDISPLOC then settimer xdisplocsubopt_update s
      else if opt = TELOPT_OLD_ENVIRON then settimer oenvironsubopt_update s
      else if opt = TELOPT_NEW_ENVIRON then settimer environsubopt_update s
      else s)"

definition wontoption :: "byte \<Rightarrow> telnetd \<Rightarrow> telnetd" where
  "wontoption opt s0 =
     (let s = s0\<lparr>do_dont_resp := resp_answer (do_dont_resp s0) opt (\<not> his_state_is_will s0 opt)\<rparr>
      in if do_dont_resp s opt = 0 then
           (if his_want_state_is_will s opt then
              (if opt = TELOPT_TM then set_his_want_state_wont TELOPT_TM s
               else
                 let s1 = set_his_want_state_wont opt (wontoption_off opt s);
                     s2 = (if his_state_is_will s1 opt then send_dont opt False s1 else s1)
                 in set_his_state_wont opt s2)
            else
              let s1 = (if opt = TELOPT_TM \<and> lmodetype s < NO_AUTOKLUDGE then
                          send_will TELOPT_ECHO True
                            (send_will TELOPT_SGA True
                               (clientstat_linemode WONT (s\<lparr>lmodetype := NO_LINEMODE\<rparr>)))
                        else s)
              in set_his_state_wont opt s1)
         else set_his_state_wont opt s)"

text \<open>A DO we have not offered: TM and LOGOUT are dealt with at once.\<close>

definition dooption_ask :: "byte \<Rightarrow> telnetd \<Rightarrow> verdict" where
  "dooption_ask opt s =
     (if opt = TELOPT_ECHO then
        Decide True None
          (if lmodetype s = NO_LINEMODE then set_termbuf (tty_setecho True (init_termbuf s)) else s)
      else if opt = TELOPT_BINARY then
        Decide True None (set_termbuf (tty_binaryout True (init_termbuf s)))
      else if opt = TELOPT_SGA then
        (if lmodetype s = KLUDGE_LINEMODE then
           let s1 = clientstat_linemode WONT s in Decide (linemode s1 = 0) None s1
         else Decide True None s)
      else if opt = TELOPT_STATUS then Decide True None s
      else if opt = TELOPT_TM then
        Consumed (set_my_state_wont opt (set_my_want_state_wont opt (send_will opt False s)))
      else if opt = TELOPT_LOGOUT then
        Consumed
          (cleanup (netflush (set_my_state_will TELOPT_LOGOUT
             (send_will TELOPT_LOGOUT False (set_my_want_state_will TELOPT_LOGOUT s)))))
      else Decide False None s)"

definition dooption :: "byte \<Rightarrow> telnetd \<Rightarrow> telnetd" where
  "dooption opt s0 =
     (let s = s0\<lparr>will_wont_resp := resp_answer (will_wont_resp s0) opt (my_state_is_will s0 opt)\<rparr>
      in if will_wont_resp s opt = 0 \<and> \<not> my_want_state_is_will s opt then
           (case dooption_ask opt s of
              Consumed s1 \<Rightarrow> s1
            | Decide changeok _ s1 \<Rightarrow>
                (if changeok then
                   set_my_state_will opt (send_will opt False (set_my_want_state_will opt s1))
                 else
                   set_my_state_will opt
                     (send_wont opt False
                        (s1\<lparr>will_wont_resp := resp_incr (will_wont_resp s1) opt\<rparr>))))
         else set_my_state_will opt s)"

definition dontoption_off :: "byte \<Rightarrow> telnetd \<Rightarrow> telnetd" where
  "dontoption_off opt s =
     (if opt = TELOPT_BINARY then set_termbuf (tty_binaryout False (init_termbuf s))
      else if opt = TELOPT_ECHO then
        (if lmodetype s \<noteq> REAL_LINEMODE \<and> lmodetype s \<noteq> KLUDGE_LINEMODE
         then set_termbuf (tty_setecho False (init_termbuf s)) else s)
      else if opt = TELOPT_SGA then
        (if lmodetype s = KLUDGE_LINEMODE \<or> lmodetype s = KLUDGE_OK
         then clientstat_linemode WILL (s\<lparr>lmodetype := KLUDGE_LINEMODE\<rparr>) else s)
      else s)"

definition dontoption :: "byte \<Rightarrow> telnetd \<Rightarrow> telnetd" where
  "dontoption opt s0 =
     (let s = s0\<lparr>will_wont_resp := resp_answer (will_wont_resp s0) opt (\<not> my_state_is_will s0 opt)\<rparr>
      in if will_wont_resp s opt = 0 \<and> my_want_state_is_will s opt then
           let s1 = set_my_want_state_wont opt (dontoption_off opt s);
               s2 = (if my_state_is_will s1 opt then send_wont opt False s1 else s1)
           in set_my_state_wont opt s2
         else set_my_state_wont opt s)"

section \<open>The abstract machine\<close>

text \<open>The program's tables read as that machine, for the client's side of an option and for ours.\<close>

definition his_neg :: "byte \<Rightarrow> telnetd \<Rightarrow> neg" where
  "his_neg opt s = \<lparr>n_state = his_state_is_will s opt, n_want = his_want_state_is_will s opt,
     n_resp = do_dont_resp s opt\<rparr>"

definition my_neg :: "byte \<Rightarrow> telnetd \<Rightarrow> neg" where
  "my_neg opt s = \<lparr>n_state = my_state_is_will s opt, n_want = my_want_state_is_will s opt,
     n_resp = will_wont_resp s opt\<rparr>"

subsection \<open>What leaves the tables alone\<close>

text \<open>\<open>tables s\<close> is the part of the state the negotiation is about.\<close>

definition tables :: "telnetd \<Rightarrow> (byte \<Rightarrow> byte) \<times> (byte \<Rightarrow> byte) \<times> (byte \<Rightarrow> byte)" where
  "tables s = (options s, do_dont_resp s, will_wont_resp s)"

lemma tables_core: "core s = core t \<Longrightarrow> tables s = tables t"
  by (simp add: tables_def core_fields [of s t])

lemma neg_tables: "tables s = tables t \<Longrightarrow> his_neg o' s = his_neg o' t \<and> my_neg o' s = my_neg o' t"
  by (simp add: tables_def his_neg_def my_neg_def option_bits)

lemma tables_term [simp]:
  "tables (init_termbuf s) = tables s" "tables (set_termbuf s) = tables s"
  "tables (tty_setlinemode b s) = tables s" "tables (tty_binaryin b s) = tables s"
  "tables (tty_binaryout b s) = tables s" "tables (tty_setecho b s) = tables s"
  "tables (set_slc_level i l s) = tables s" "tables (settimer f s) = tables s"
  by (simp_all add: tables_def init_termbuf_def set_termbuf_def tty_setlinemode_def tty_binaryin_def
      tty_binaryout_def tty_setecho_def upd_lflag_def upd_iflag_def upd_oflag_def upd_cflag_def
      set_slc_level_def settimer_def Let_def)

lemma tables_io [simp]:
  "tables (netflush s) = tables s" "tables (net_output_data n bs s) = tables s"
  "tables (output_mode m s) = tables s" "tables (cleanup s) = tables s"
  by (simp_all add: tables_def output_mode_def cleanup_def)

lemma tables_flowstat [simp]: "tables (flowstat s) = tables s"
  by (simp add: tables_def flowstat_def Let_def)

lemma neg_io [simp]:
  "his_neg o' (netflush s) = his_neg o' s" "my_neg o' (netflush s) = my_neg o' s"
  "his_neg o' (net_output_data n bs s) = his_neg o' s" "my_neg o' (net_output_data n bs s) = my_neg o' s"
  "his_neg o' (output_mode m s) = his_neg o' s" "my_neg o' (output_mode m s) = my_neg o' s"
  "his_neg o' (flowstat s) = his_neg o' s" "my_neg o' (flowstat s) = my_neg o' s"
  "his_neg o' (cleanup s) = his_neg o' s" "my_neg o' (cleanup s) = my_neg o' s"
  by (simp_all add: neg_tables [OF tables_io(1)] neg_tables [OF tables_io(2)] neg_tables [OF tables_io(3)]
      neg_tables [OF tables_io(4)] neg_tables [OF tables_flowstat])

lemma neg_term [simp]:
  "his_neg o' (init_termbuf s) = his_neg o' s" "my_neg o' (init_termbuf s) = my_neg o' s"
  "his_neg o' (set_termbuf s) = his_neg o' s" "my_neg o' (set_termbuf s) = my_neg o' s"
  "his_neg o' (tty_setlinemode b s) = his_neg o' s" "my_neg o' (tty_setlinemode b s) = my_neg o' s"
  "his_neg o' (tty_binaryin b s) = his_neg o' s" "my_neg o' (tty_binaryin b s) = my_neg o' s"
  "his_neg o' (tty_binaryout b s) = his_neg o' s" "my_neg o' (tty_binaryout b s) = my_neg o' s"
  "his_neg o' (tty_setecho b s) = his_neg o' s" "my_neg o' (tty_setecho b s) = my_neg o' s"
  "his_neg o' (set_slc_level i l s) = his_neg o' s" "my_neg o' (set_slc_level i l s) = my_neg o' s"
  "his_neg o' (settimer f s) = his_neg o' s" "my_neg o' (settimer f s) = my_neg o' s"
  by (simp_all add: neg_tables [OF tables_term(1)] neg_tables [OF tables_term(2)]
      neg_tables [OF tables_term(3)] neg_tables [OF tables_term(4)] neg_tables [OF tables_term(5)]
      neg_tables [OF tables_term(6)] neg_tables [OF tables_term(7)] neg_tables [OF tables_term(8)])

lemma neg_fields [simp]:
  "his_neg o' (s\<lparr>lmodetype := x\<rparr>) = his_neg o' s" "my_neg o' (s\<lparr>lmodetype := x\<rparr>) = my_neg o' s"
  "his_neg o' (s\<lparr>not42 := b\<rparr>) = his_neg o' s" "my_neg o' (s\<lparr>not42 := b\<rparr>) = my_neg o' s"
  "his_neg o' (s\<lparr>linemode := x\<rparr>) = his_neg o' s" "my_neg o' (s\<lparr>linemode := x\<rparr>) = my_neg o' s"
  "his_neg o' (s\<lparr>uselinemode := x\<rparr>) = his_neg o' s" "my_neg o' (s\<lparr>uselinemode := x\<rparr>) = my_neg o' s"
  "his_neg o' (s\<lparr>editmode := m\<rparr>) = his_neg o' s" "my_neg o' (s\<lparr>editmode := m\<rparr>) = my_neg o' s"
  "his_neg o' (s\<lparr>useeditmode := m\<rparr>) = his_neg o' s" "my_neg o' (s\<lparr>useeditmode := m\<rparr>) = my_neg o' s"
  "his_neg o' (s\<lparr>do_dont_resp := r\<rparr>) = (his_neg o' s)\<lparr>n_resp := r o'\<rparr>"
  "my_neg o' (s\<lparr>do_dont_resp := r\<rparr>) = my_neg o' s"
  "his_neg o' (s\<lparr>will_wont_resp := r\<rparr>) = his_neg o' s"
  "my_neg o' (s\<lparr>will_wont_resp := r\<rparr>) = (my_neg o' s)\<lparr>n_resp := r o'\<rparr>"
  by (simp_all add: his_neg_def my_neg_def option_bits)

lemma his_neg_bits [simp]:
  "his_neg o' (set_his_want_state_will opt s)
    = (if o' = opt then (his_neg o' s)\<lparr>n_want := True\<rparr> else his_neg o' s)"
  "his_neg o' (set_his_want_state_wont opt s)
    = (if o' = opt then (his_neg o' s)\<lparr>n_want := False\<rparr> else his_neg o' s)"
  "his_neg o' (set_his_state_will opt s)
    = (if o' = opt then (his_neg o' s)\<lparr>n_state := True\<rparr> else his_neg o' s)"
  "his_neg o' (set_his_state_wont opt s)
    = (if o' = opt then (his_neg o' s)\<lparr>n_state := False\<rparr> else his_neg o' s)"
  "his_neg o' (set_my_want_state_will opt s) = his_neg o' s"
  "his_neg o' (set_my_want_state_wont opt s) = his_neg o' s"
  "his_neg o' (set_my_state_will opt s) = his_neg o' s"
  "his_neg o' (set_my_state_wont opt s) = his_neg o' s"
  by (simp_all add: his_neg_def option_bits set_bits_bit clear_bits_bit)
    (simp_all add: set_bits_def clear_bits_def)

lemma my_neg_bits [simp]:
  "my_neg o' (set_my_want_state_will opt s)
    = (if o' = opt then (my_neg o' s)\<lparr>n_want := True\<rparr> else my_neg o' s)"
  "my_neg o' (set_my_want_state_wont opt s)
    = (if o' = opt then (my_neg o' s)\<lparr>n_want := False\<rparr> else my_neg o' s)"
  "my_neg o' (set_my_state_will opt s)
    = (if o' = opt then (my_neg o' s)\<lparr>n_state := True\<rparr> else my_neg o' s)"
  "my_neg o' (set_my_state_wont opt s)
    = (if o' = opt then (my_neg o' s)\<lparr>n_state := False\<rparr> else my_neg o' s)"
  "my_neg o' (set_his_want_state_will opt s) = my_neg o' s"
  "my_neg o' (set_his_want_state_wont opt s) = my_neg o' s"
  "my_neg o' (set_his_state_will opt s) = my_neg o' s"
  "my_neg o' (set_his_state_wont opt s) = my_neg o' s"
  by (simp_all add: my_neg_def option_bits set_bits_bit clear_bits_bit)
    (simp_all add: set_bits_def clear_bits_def)

text \<open>The tests in terms of the abstract machine.\<close>

lemma neg_tests:
  "his_state_is_will s opt = n_state (his_neg opt s)"
  "his_want_state_is_will s opt = n_want (his_neg opt s)"
  "do_dont_resp s opt = n_resp (his_neg opt s)"
  "my_state_is_will s opt = n_state (my_neg opt s)"
  "my_want_state_is_will s opt = n_want (my_neg opt s)"
  "will_wont_resp s opt = n_resp (my_neg opt s)"
  by (simp_all add: his_neg_def my_neg_def)

subsection \<open>Requests refine \<open>neg_initiate\<close>\<close>

lemma his_neg_send [simp]:
  "his_neg o' (send_will opt init s) = his_neg o' s" "his_neg o' (send_wont opt init s) = his_neg o' s"
  "his_neg o' (send_do opt False s) = his_neg o' s" "his_neg o' (send_dont opt False s) = his_neg o' s"
  "opt \<noteq> TELOPT_TM \<Longrightarrow> his_neg o' (send_do opt True s)
    = (if o' = opt then neg_initiate True (his_neg o' s) else his_neg o' s)"
  "his_neg o' (send_dont opt True s)
    = (if o' = opt then neg_initiate False (his_neg o' s) else his_neg o' s)"
  by (simp_all add: send_will_def send_wont_def send_do_def send_dont_def Let_def)
    (simp_all add: neg_tests neg_initiate_def resp_incr_def)

lemma my_neg_send [simp]:
  "my_neg o' (send_do opt init s) = my_neg o' s" "my_neg o' (send_dont opt init s) = my_neg o' s"
  "my_neg o' (send_will opt False s) = my_neg o' s" "my_neg o' (send_wont opt False s) = my_neg o' s"
  "my_neg o' (send_will opt True s)
    = (if o' = opt then neg_initiate True (my_neg o' s) else my_neg o' s)"
  "my_neg o' (send_wont opt True s)
    = (if o' = opt then neg_initiate False (my_neg o' s) else my_neg o' s)"
  by (simp_all add: send_will_def send_wont_def send_do_def send_dont_def Let_def)
    (simp_all add: neg_tests neg_initiate_def resp_incr_def)

lemma his_neg_clientstat [simp]: "his_neg o' (clientstat_linemode p s) = his_neg o' s"
  by (simp add: clientstat_linemode_def Let_def)

lemma my_neg_clientstat [simp]: "o' \<noteq> TELOPT_ECHO \<Longrightarrow> my_neg o' (clientstat_linemode p s) = my_neg o' s"
  by (simp add: clientstat_linemode_def Let_def)

subsection \<open>Commands refine \<open>neg_receive\<close>\<close>

text \<open>The options the server accepts from the client, and the ones it agrees to perform.\<close>

definition will_ok :: "byte \<Rightarrow> bool" where
  "will_ok opt \<longleftrightarrow> opt \<in> {TELOPT_BINARY, TELOPT_LFLOW, TELOPT_TTYPE, TELOPT_SGA, TELOPT_NAWS,
     TELOPT_TSPEED, TELOPT_XDISPLOC, TELOPT_NEW_ENVIRON, TELOPT_OLD_ENVIRON, TELOPT_LINEMODE}"

definition do_ok :: "byte \<Rightarrow> telnetd \<Rightarrow> bool" where
  "do_ok opt s \<longleftrightarrow> opt \<in> {TELOPT_ECHO, TELOPT_BINARY, TELOPT_STATUS, TELOPT_LOGOUT}
     \<or> opt = TELOPT_SGA \<and> (lmodetype s = KLUDGE_LINEMODE \<longrightarrow> linemode (clientstat_linemode WONT s) = 0)"

lemma resp_answer_his: "resp_answer (do_dont_resp s) opt (his_state_is_will s opt = new) opt
    = neg_answered new (his_neg opt s)"
  by (auto simp: resp_answer_def neg_answered_def neg_tests resp_decr_def Let_def)

lemma resp_answer_my: "resp_answer (will_wont_resp s) opt (my_state_is_will s opt = new) opt
    = neg_answered new (my_neg opt s)"
  by (auto simp: resp_answer_def neg_answered_def neg_tests resp_decr_def Let_def)

lemma resp_answer_other: "o' \<noteq> opt \<Longrightarrow> resp_answer r opt b o' = r o'"
  by (simp add: resp_answer_def resp_decr_def Let_def)

lemmas resp_answer_his_simps [simp] =
  resp_answer_his [of _ _ True, simplified] resp_answer_his [of _ _ False, simplified]
  resp_answer_my [of _ _ True, simplified] resp_answer_my [of _ _ False, simplified]

lemma his_neg_doclientstat [simp]: "his_neg o' (doclientstat s) = his_neg o' s"
  by (simp add: doclientstat_def)

lemma neg_update_same [simp]:
  "(his_neg o' s)\<lparr>n_resp := do_dont_resp s o'\<rparr> = his_neg o' s"
  "(my_neg o' s)\<lparr>n_resp := will_wont_resp s o'\<rparr> = my_neg o' s"
  by (simp_all add: his_neg_def my_neg_def)

definition keeps_his :: "(telnetd \<Rightarrow> telnetd) option \<Rightarrow> bool" where
  "keeps_his func \<longleftrightarrow> (\<forall>f o' t. func = Some f \<longrightarrow> his_neg o' (f t) = his_neg o' t)"

lemma keeps_his_simps [simp]:
  "keeps_his None" "keeps_his (Some doclientstat)" "keeps_his (Some flowstat)"
  by (simp_all add: keeps_his_def)

lemma willoption_offer_his:
  assumes "opt \<noteq> TELOPT_TM"
  obtains func s1 where "willoption_offer opt s = Decide (will_ok opt) func s1" "keeps_his func"
    "\<And>o'. his_neg o' s1 = his_neg o' s" "do_dont_resp s1 = do_dont_resp s"
proof -
  have "\<exists>func s1. willoption_offer opt s = Decide (will_ok opt) func s1 \<and> keeps_his func
    \<and> (\<forall>o'. his_neg o' s1 = his_neg o' s)"
    using assms by (auto simp: willoption_offer_def will_ok_def)
  then obtain func s1 where w: "willoption_offer opt s = Decide (will_ok opt) func s1" "keeps_his func"
    "\<forall>o'. his_neg o' s1 = his_neg o' s" by blast
  then have "do_dont_resp s1 = do_dont_resp s" by (auto simp: fun_eq_iff neg_tests)
  with w that show thesis by blast
qed

lemma willoption_end_his:
  "keeps_his func \<Longrightarrow> his_neg o' (willoption_end opt func s)
    = (if o' = opt then (his_neg o' s)\<lparr>n_state := True\<rparr> else his_neg o' s)"
  by (cases func) (auto simp: willoption_end_def keeps_his_def Let_def)

lemma willoption_confirm_his:
  assumes "opt \<noteq> TELOPT_ECHO"
  obtains func s1 where "willoption_confirm opt s = (func, s1)" "keeps_his func"
    "\<And>o'. his_neg o' s1 = his_neg o' s"
proof -
  have "\<exists>func s1. willoption_confirm opt s = (func, s1) \<and> keeps_his func
    \<and> (\<forall>o'. his_neg o' s1 = his_neg o' s)"
    using assms by (auto simp: willoption_confirm_def)
  with that show thesis by blast
qed

lemma willoption_his:
  assumes "opt \<noteq> TELOPT_TM" "opt \<noteq> TELOPT_ECHO"
  shows "his_neg o' (willoption opt s)
    = (if o' = opt then neg_receive (will_ok opt) True (his_neg opt s) else his_neg o' s)"
proof -
  define t where "t = s\<lparr>do_dont_resp := resp_answer (do_dont_resp s) opt (his_state_is_will s opt)\<rparr>"
  have t: "his_neg opt t = (his_neg opt s)\<lparr>n_resp := neg_answered True (his_neg opt s)\<rparr>"
    "o' \<noteq> opt \<Longrightarrow> his_neg o' t = his_neg o' s"
    by (simp_all add: t_def resp_answer_other)
  obtain f1 s1 where o1: "willoption_offer opt t = Decide (will_ok opt) f1 s1" "keeps_his f1"
    "\<And>o'. his_neg o' s1 = his_neg o' t" "do_dont_resp s1 = do_dont_resp t"
    using willoption_offer_his [OF assms(1)] by blast
  obtain f2 s2 where o2: "willoption_confirm opt t = (f2, s2)" "keeps_his f2"
    "\<And>o'. his_neg o' s2 = his_neg o' t"
    using willoption_confirm_his [OF assms(2)] by blast
  have w: "willoption opt s =
     (if n_resp (his_neg opt t) = 0 then
        (if \<not> n_want (his_neg opt t) then
           (if will_ok opt then willoption_end opt f1 (send_do opt False (set_his_want_state_will opt s1))
            else willoption_end opt f1 (send_dont opt False
                   (s1\<lparr>do_dont_resp := resp_incr (do_dont_resp s1) opt\<rparr>)))
         else willoption_end opt f2 s2)
      else willoption_end opt None t)"
    unfolding willoption_def Let_def t_def [symmetric] neg_tests [symmetric] by (simp add: o1 o2)
  show ?thesis
    by (auto simp: w willoption_end_his o1 o2 t neg_receive_def Let_def resp_incr_def neg_tests)
qed
lemma wontoption_off_his [simp]: "his_neg o' (wontoption_off opt s) = his_neg o' s"
  by (simp add: wontoption_off_def)

lemma wontoption_his:
  assumes "opt \<noteq> TELOPT_TM"
  shows "his_neg o' (wontoption opt s)
    = (if o' = opt then neg_receive True False (his_neg opt s) else his_neg o' s)"
proof -
  define t where "t = s\<lparr>do_dont_resp := resp_answer (do_dont_resp s) opt (\<not> his_state_is_will s opt)\<rparr>"
  have t: "his_neg opt t = (his_neg opt s)\<lparr>n_resp := neg_answered False (his_neg opt s)\<rparr>"
    "o' \<noteq> opt \<Longrightarrow> his_neg o' t = his_neg o' s"
    by (simp_all add: t_def resp_answer_other)
  define s1 where "s1 = set_his_want_state_wont opt (wontoption_off opt t)"
  have w: "wontoption opt s =
     set_his_state_wont opt
       (if n_resp (his_neg opt t) = 0 \<and> n_want (his_neg opt t)
        then (if his_state_is_will s1 opt then send_dont opt False s1 else s1) else t)"
    unfolding wontoption_def Let_def t_def [symmetric] neg_tests [symmetric]
    using assms by (simp add: s1_def)
  show ?thesis
    by (auto simp: w s1_def t neg_receive_def Let_def)
qed

lemma linemode_clientstat:
  "linemode (clientstat_linemode p s) =
     (let u = (if p = WILL then 1 else 0)
      in if u = linemode s then linemode s
         else if lmodetype s = KLUDGE_LINEMODE \<and> alwayslinemode s \<and> c_lflag (pty_attr s) AND ICANON \<noteq> 0
         then 1 else u)"
proof -
  have [simp]: "linemode (send_will opt init t) = linemode t" for opt init t
    by (simp add: send_will_def set_bits_def Let_def)
  show ?thesis
    by (simp add: clientstat_linemode_def Let_def tty_isediting_def init_termbuf_def output_mode_def
        tty_setlinemode_def upd_lflag_def)
qed

lemma do_ok_resp [simp]: "do_ok opt (s\<lparr>will_wont_resp := r\<rparr>) = do_ok opt s"
  by (simp add: do_ok_def linemode_clientstat)

lemma dooption_ask_my:
  assumes "opt \<noteq> TELOPT_TM" "opt \<noteq> TELOPT_LOGOUT"
  obtains f s1 where "dooption_ask opt s = Decide (do_ok opt s) f s1"
    "\<And>o'. o' = opt \<or> o' \<noteq> TELOPT_ECHO \<Longrightarrow> my_neg o' s1 = my_neg o' s"
proof -
  have "\<exists>f s1. dooption_ask opt s = Decide (do_ok opt s) f s1
    \<and> (\<forall>o'. o' = opt \<or> o' \<noteq> TELOPT_ECHO \<longrightarrow> my_neg o' s1 = my_neg o' s)"
    using assms by (auto simp: dooption_ask_def do_ok_def Let_def)
  with that show thesis by blast
qed

lemma dooption_my:
  assumes "opt \<noteq> TELOPT_TM" "opt \<noteq> TELOPT_LOGOUT" "o' = opt \<or> o' \<noteq> TELOPT_ECHO"
  shows "my_neg o' (dooption opt s)
    = (if o' = opt then neg_receive (do_ok opt s) True (my_neg opt s) else my_neg o' s)"
proof -
  define t where "t = s\<lparr>will_wont_resp := resp_answer (will_wont_resp s) opt (my_state_is_will s opt)\<rparr>"
  have t: "my_neg opt t = (my_neg opt s)\<lparr>n_resp := neg_answered True (my_neg opt s)\<rparr>"
    "o' \<noteq> opt \<Longrightarrow> my_neg o' t = my_neg o' s" "do_ok opt t = do_ok opt s"
    by (simp_all add: t_def resp_answer_other)
  from dooption_ask_my [OF assms(1,2), of t]
  obtain f s1 where d: "dooption_ask opt t = Decide (do_ok opt t) f s1"
    "\<And>o'. o' = opt \<or> o' \<noteq> TELOPT_ECHO \<Longrightarrow> my_neg o' s1 = my_neg o' t"
    by blast
  have s1: "my_neg opt s1 = my_neg opt t" "my_neg o' s1 = my_neg o' t" using d(2) assms(3) by auto
  have w: "dooption opt s = set_my_state_will opt
     (if n_resp (my_neg opt t) = 0 \<and> \<not> n_want (my_neg opt t) then
        (if do_ok opt s then send_will opt False (set_my_want_state_will opt s1)
         else send_wont opt False (s1\<lparr>will_wont_resp := resp_incr (will_wont_resp s1) opt\<rparr>))
      else t)"
    unfolding dooption_def Let_def t_def [symmetric] neg_tests [symmetric] by (simp add: d t(3))
  show ?thesis
    by (auto simp: w s1 t neg_receive_def Let_def resp_incr_def neg_tests)
qed

lemma dontoption_off_my [simp]:
  "o' = opt \<or> o' \<noteq> TELOPT_ECHO \<Longrightarrow> my_neg o' (dontoption_off opt s) = my_neg o' s"
  by (auto simp: dontoption_off_def)

lemma dontoption_my:
  assumes "o' = opt \<or> o' \<noteq> TELOPT_ECHO"
  shows "my_neg o' (dontoption opt s)
    = (if o' = opt then neg_receive True False (my_neg opt s) else my_neg o' s)"
proof -
  define t where "t = s\<lparr>will_wont_resp := resp_answer (will_wont_resp s) opt (\<not> my_state_is_will s opt)\<rparr>"
  have t: "my_neg opt t = (my_neg opt s)\<lparr>n_resp := neg_answered False (my_neg opt s)\<rparr>"
    "o' \<noteq> opt \<Longrightarrow> my_neg o' t = my_neg o' s"
    by (simp_all add: t_def resp_answer_other)
  define s1 where "s1 = set_my_want_state_wont opt (dontoption_off opt t)"
  have w: "dontoption opt s = set_my_state_wont opt
     (if n_resp (my_neg opt t) = 0 \<and> n_want (my_neg opt t)
      then (if my_state_is_will s1 opt then send_wont opt False s1 else s1) else t)"
    unfolding dontoption_def Let_def t_def [symmetric] neg_tests [symmetric] by (simp add: s1_def)
  show ?thesis
    using assms by (auto simp: w s1_def t neg_receive_def Let_def)
qed

subsection \<open>Settled options\<close>

definition neg_settled :: "neg \<Rightarrow> bool" where
  "neg_settled n \<longleftrightarrow> (n_resp n = 0 \<longrightarrow> n_state n = n_want n)"

lemma neg_receive_settled [simp]: "neg_settled (neg_receive ok new n)"
  by (auto simp: neg_settled_def neg_receive_def Let_def)

lemma byte_succ_zero: "(x + 1 = (0::byte)) = (x = 255)"
proof -
  have "(255::byte) = -1" by simp
  show ?thesis unfolding \<open>255 = - 1\<close> eq_neg_iff_add_eq_0 ..
qed

lemma neg_initiate_settled: "neg_settled n \<Longrightarrow> n_resp n \<noteq> 255 \<Longrightarrow> neg_settled (neg_initiate new n)"
  by (auto simp: neg_settled_def neg_initiate_def byte_succ_zero)

lemma neg_initiate_again [simp]: "neg_initiate new (neg_initiate new n) = neg_initiate new n"
  by (auto simp: neg_initiate_def)

definition my_req :: "telnetd \<Rightarrow> telnetd \<Rightarrow> byte \<Rightarrow> bool" where
  "my_req s t o' \<longleftrightarrow> my_neg o' t = my_neg o' s 
     \<or> o' \<in> {TELOPT_ECHO, TELOPT_SGA} \<and> (\<exists>new. my_neg o' t = neg_initiate new (my_neg o' s))"

lemma my_req_settled:
  assumes "my_req s t o'" "neg_settled (my_neg o' s)"
    "will_wont_resp s TELOPT_ECHO \<noteq> 255" "will_wont_resp s TELOPT_SGA \<noteq> 255"
  shows "neg_settled (my_neg o' t)"
  using assms by (auto simp: my_req_def neg_tests intro: neg_initiate_settled)

lemma my_neg_clientstat_echo:
  "my_neg o' (clientstat_linemode p s) = my_neg o' s
   \<or> o' = TELOPT_ECHO \<and> my_neg o' (clientstat_linemode p s) = neg_initiate True (my_neg o' s)"
  by (auto simp: clientstat_linemode_def Let_def)

lemma my_req_clientstat:
  "my_neg o' t = my_neg o' s \<Longrightarrow> my_req s (clientstat_linemode p t) o'"
  using my_neg_clientstat_echo [of o' p t] by (auto simp: my_req_def)

lemmas willoption_unfold = willoption_def willoption_offer_def willoption_confirm_def willoption_end_def

lemma willoption_my: "my_req s (willoption opt s) o'"
proof -
  have tm: "my_req s (send_wont TELOPT_SGA True (clientstat_linemode WILL t)) o'"
    if "my_neg o' t = my_neg o' s" for t
    using my_neg_clientstat_echo [of o' WILL t] that by (auto simp: my_req_def)
  consider "opt = TELOPT_TM" | "opt = TELOPT_LINEMODE" | "opt \<noteq> TELOPT_TM" "opt \<noteq> TELOPT_LINEMODE" by blast
  then show ?thesis
  proof cases
    case 1
    then show ?thesis
      by (simp add: willoption_unfold Let_def my_req_clientstat tm) (simp add: my_req_def)
  next
    case 2
    then show ?thesis
      by (simp add: willoption_unfold doclientstat_def Let_def my_req_clientstat) (simp add: my_req_def)
  next
    case 3
    then show ?thesis by (simp add: willoption_unfold Let_def my_req_def)
  qed
qed

lemma my_req_cong [simp]:
  "my_req s (set_his_want_state_wont opt t) o' = my_req s t o'"
  "my_req s (set_his_state_wont opt t) o' = my_req s t o'"
  "my_req s (send_dont opt b t) o' = my_req s t o'"
  by (simp_all add: my_req_def)

lemma wontoption_off_req: "my_neg o' t = my_neg o' s \<Longrightarrow> my_req s (wontoption_off opt t) o'"
  by (simp add: wontoption_off_def my_req_clientstat) (simp add: my_req_def)

lemma wontoption_tm_req:
  assumes "my_neg o' t = my_neg o' s"
  shows "my_req s (send_will TELOPT_ECHO True (send_will TELOPT_SGA True (clientstat_linemode WONT t))) o'"
  using my_neg_clientstat_echo [of o' WONT t] assms by (auto simp: my_req_def)

lemma wontoption_my: "my_req s (wontoption opt s) o'"
  by (simp add: wontoption_def Let_def wontoption_off_req wontoption_tm_req) (simp add: my_req_def)

lemma dooption_his: "his_neg o' (dooption opt s) = his_neg o' s"
  by (simp add: dooption_def dooption_ask_def Let_def)

lemma dontoption_his: "his_neg o' (dontoption opt s) = his_neg o' s"
  by (simp add: dontoption_def dontoption_off_def Let_def)

lemma my_neg_other:
  assumes "o' \<noteq> opt"
  shows "my_neg o' (set_bits b opt t) = my_neg o' t" "my_neg o' (clear_bits b opt t) = my_neg o' t"
    "my_neg o' (send_will opt i t) = my_neg o' t" "my_neg o' (send_wont opt i t) = my_neg o' t"
    "my_neg o' (t\<lparr>will_wont_resp := resp_incr (will_wont_resp t) opt\<rparr>) = my_neg o' t"
proof -
  show "my_neg o' (set_bits b opt t) = my_neg o' t" "my_neg o' (clear_bits b opt t) = my_neg o' t"
    using assms by (simp_all add: my_neg_def option_bits set_bits_def clear_bits_def)
  show "my_neg o' (send_will opt i t) = my_neg o' t" "my_neg o' (send_wont opt i t) = my_neg o' t"
    using assms by (cases i; simp)+
  show "my_neg o' (t\<lparr>will_wont_resp := resp_incr (will_wont_resp t) opt\<rparr>) = my_neg o' t"
    using assms by (simp add: resp_incr_def)
qed

lemma my_req_other [simp]:
  assumes "o' \<noteq> opt"
  shows "my_req s (set_bits b opt t) o' = my_req s t o'" "my_req s (clear_bits b opt t) o' = my_req s t o'"
    "my_req s (send_will opt i t) o' = my_req s t o'" "my_req s (send_wont opt i t) o' = my_req s t o'"
    "my_req s (t\<lparr>will_wont_resp := resp_incr (will_wont_resp t) opt\<rparr>) o' = my_req s t o'"
  unfolding my_req_def my_neg_other [OF assms] by (rule refl)+

lemma my_req_io [simp]:
  "my_req s (netflush t) o' = my_req s t o'" "my_req s (cleanup t) o' = my_req s t o'"
  by (simp_all add: my_req_def)

lemma dooption_ask_req:
  assumes "o' \<noteq> opt" "my_neg o' t = my_neg o' s"
  shows "case dooption_ask opt t of Consumed s1 \<Rightarrow> my_req s s1 o' | Decide _ _ s1 \<Rightarrow> my_req s s1 o'"
proof -
  have t: "my_req s t o'" using assms by (simp add: my_req_def)
  have u: "my_req s (set_termbuf u) o'" if "my_neg o' u = my_neg o' s" for u
    using that by (simp add: my_req_def)
  show ?thesis
    using assms by (simp add: dooption_ask_def Let_def t u my_req_clientstat)
qed

lemma dooption_req: "o' \<noteq> opt \<Longrightarrow> my_req s (dooption opt s) o'"
proof -
  assume o: "o' \<noteq> opt"
  define t where "t = s\<lparr>will_wont_resp := resp_answer (will_wont_resp s) opt (my_state_is_will s opt)\<rparr>"
  have t: "my_neg o' t = my_neg o' s" using o by (simp add: t_def resp_answer_other)
  have "my_req s t o'" using t by (simp add: my_req_def)
  then show ?thesis
    unfolding dooption_def Let_def t_def [symmetric]
    using o dooption_ask_req [OF o t] by (auto split: verdict.splits)
qed

lemma dontoption_req: "o' \<noteq> opt \<Longrightarrow> my_req s (dontoption opt s) o'"
proof -
  assume o: "o' \<noteq> opt"
  define t where "t = s\<lparr>will_wont_resp := resp_answer (will_wont_resp s) opt (\<not> my_state_is_will s opt)\<rparr>"
  have t: "my_neg o' t = my_neg o' s" using o by (simp add: t_def resp_answer_other)
  have t': "my_req s t o'" using t by (simp add: my_req_def)
  have u: "my_req s (set_termbuf u) o'" if "my_neg o' u = my_neg o' s" for u
    using that by (simp add: my_req_def)
  have "my_req s (dontoption_off opt t) o'"
    using t t' by (simp add: dontoption_off_def my_req_clientstat u)
  then show ?thesis
    unfolding dontoption_def Let_def t_def [symmetric]
    using o t' by auto
qed

lemma dooption_my_settled: "neg_settled (my_neg opt (dooption opt s))"
proof (cases "opt = TELOPT_TM \<or> opt = TELOPT_LOGOUT")
  case False
  then show ?thesis by (simp add: dooption_my)
next
  case True
  define t where "t = s\<lparr>will_wont_resp := resp_answer (will_wont_resp s) opt (my_state_is_will s opt)\<rparr>"
  from True show ?thesis
    unfolding dooption_def Let_def t_def [symmetric]
    by (elim disjE) (auto simp: dooption_ask_def neg_settled_def neg_tests)
qed

lemma willoption_echo_settled:
  "neg_settled (his_neg TELOPT_ECHO (willoption TELOPT_ECHO s))"
  by (auto simp: willoption_def willoption_offer_def willoption_confirm_def willoption_end_def
      neg_settled_def neg_initiate_def neg_tests resp_incr_def Let_def)

text \<open>The TM option on the client's side is a mere probe, and not kept in the tables.\<close>

definition options_settled :: "telnetd \<Rightarrow> bool" where
  "options_settled s \<longleftrightarrow>
     (\<forall>opt. (opt \<noteq> TELOPT_TM \<longrightarrow> neg_settled (his_neg opt s)) \<and> neg_settled (my_neg opt s))"

inductive negotiates :: "telnetd \<Rightarrow> telnetd \<Rightarrow> bool" where
  got: "will_wont_resp s TELOPT_ECHO \<noteq> 255 \<Longrightarrow> will_wont_resp s TELOPT_SGA \<noteq> 255
    \<Longrightarrow> f \<in> {willoption, wontoption, dooption, dontoption} \<Longrightarrow> negotiates s (f opt s)"
| ask_his: "do_dont_resp s opt \<noteq> 255 \<Longrightarrow> f \<in> {send_do, send_dont} \<Longrightarrow> negotiates s (f opt True s)"
| ask_my: "will_wont_resp s opt \<noteq> 255 \<Longrightarrow> f \<in> {send_will, send_wont} \<Longrightarrow> negotiates s (f opt True s)"
| other: "tables t = tables s \<Longrightarrow> negotiates s t"


lemma his_neg_frame:
  assumes "o' \<noteq> opt"
  shows "his_neg o' (willoption opt s) = his_neg o' s" "his_neg o' (wontoption opt s) = his_neg o' s"
proof -
  have r: "his_neg o' (t\<lparr>do_dont_resp := resp_answer (do_dont_resp t) opt b\<rparr>) = his_neg o' t" for t b
    using assms by (simp add: resp_answer_other)
  show "his_neg o' (willoption opt s) = his_neg o' s"
  proof (cases "opt = TELOPT_TM \<or> opt = TELOPT_ECHO")
    case True
    then show ?thesis
      using assms r
      by (elim disjE) (simp_all add: willoption_def willoption_offer_def willoption_confirm_def
          willoption_end_def resp_incr_def Let_def)
  qed (use assms in \<open>simp add: willoption_his\<close>)
  show "his_neg o' (wontoption opt s) = his_neg o' s"
    using assms r by (cases "opt = TELOPT_TM") (simp_all add: wontoption_his, simp add: wontoption_def Let_def)
qed

lemma received_his_settled:
  assumes "o' \<noteq> TELOPT_TM" "neg_settled (his_neg o' s)"
  shows "neg_settled (his_neg o' (willoption opt s))" "neg_settled (his_neg o' (wontoption opt s))"
  using assms willoption_echo_settled
  by (cases "o' = opt"; cases "o' = TELOPT_ECHO"; simp add: his_neg_frame willoption_his wontoption_his)+

lemma asked_his_settled:
  assumes "do_dont_resp s opt \<noteq> 255" "neg_settled (his_neg o' s)" "o' \<noteq> TELOPT_TM"
  shows "neg_settled (his_neg o' (send_do opt True s))" "neg_settled (his_neg o' (send_dont opt True s))"
proof -
  have "do_dont_resp (clear_bits b TELOPT_TM s) = do_dont_resp s" for b by (simp add: clear_bits_def)
  then have "his_neg o' (send_do TELOPT_TM True s) = his_neg o' s"
    using assms(3) by (simp add: send_do_def resp_incr_def Let_def)
  then show "neg_settled (his_neg o' (send_do opt True s))" 
    using assms by (cases "opt = TELOPT_TM") (auto simp: neg_tests intro: neg_initiate_settled)
  show "neg_settled (his_neg o' (send_dont opt True s))"
    using assms by (auto simp: neg_tests intro: neg_initiate_settled)
qed

lemma negotiates_settled: "negotiates s t \<Longrightarrow> options_settled s \<Longrightarrow> options_settled t"
proof (induction rule: negotiates.induct)
  case (got s f opt)
  have m: "neg_settled (my_neg o' (f opt s))" for o'
  proof (cases "f = dooption \<or> f = dontoption")
    case True
    then show ?thesis
      using got dooption_req [of o' opt s] dontoption_req [of o' opt s] my_req_settled [of s "f opt s" o']
        dooption_my_settled [of opt s] dontoption_my [of opt opt s]
      by (cases "o' = opt") (auto simp: options_settled_def)
  next
    case False
    then show ?thesis
      using got willoption_my [of s opt o'] wontoption_my [of s opt o'] my_req_settled [of s "f opt s" o']
      by (auto simp: options_settled_def)
  qed
  have "o' \<noteq> TELOPT_TM \<Longrightarrow> neg_settled (his_neg o' (f opt s))" for o'
    using got received_his_settled [of o' s opt]
    by (auto simp: options_settled_def dooption_his dontoption_his)
  then show ?case using m by (simp add: options_settled_def)
next
  case (ask_his s opt f)
  then show ?case using asked_his_settled by (auto simp: options_settled_def)
next
  case (ask_my s opt f)
  then show ?case
    using neg_initiate_settled [of "my_neg opt s"] by (auto simp: options_settled_def neg_tests)
next
  case (other t s)
  then show ?case using neg_tables [OF other(1)] by (simp add: options_settled_def)
qed

subsection \<open>What is sent\<close>

lemma net_sent_updates [simp]:
  "net_sent (s\<lparr>do_dont_resp := r\<rparr>) = net_sent s" "net_sent (s\<lparr>will_wont_resp := r\<rparr>) = net_sent s"
  "net_sent (set_bits b opt s) = net_sent s" "net_sent (clear_bits b opt s) = net_sent s"
  "net_sent (s\<lparr>not42 := n\<rparr>) = net_sent s" "net_sent (s\<lparr>lmodetype := x\<rparr>) = net_sent s"
  "net_sent (set_termbuf s) = net_sent s" "net_sent (init_termbuf s) = net_sent s"
  "net_sent (tty_binaryin b' s) = net_sent s" "net_sent (tty_binaryout b' s) = net_sent s"
  "net_sent (tty_setecho b' s) = net_sent s" "net_sent (set_slc_level i l s) = net_sent s"
  "net_sent (settimer f s) = net_sent s"
  by (simp_all add: net_sent_def set_bits_def clear_bits_def set_termbuf_def init_termbuf_def
      tty_binaryin_def tty_binaryout_def tty_setecho_def upd_lflag_def upd_iflag_def upd_oflag_def
      upd_cflag_def set_slc_level_def settimer_def Let_def)

lemma net_room_updates [simp]:
  "net_room n (s\<lparr>do_dont_resp := r\<rparr>) = net_room n s" "net_room n (s\<lparr>will_wont_resp := r\<rparr>) = net_room n s"
  "net_room n (set_bits b opt s) = net_room n s" "net_room n (clear_bits b opt s) = net_room n s"
  "net_room n (s\<lparr>not42 := m\<rparr>) = net_room n s" "net_room n (s\<lparr>lmodetype := x\<rparr>) = net_room n s"
  "net_room n (set_termbuf s) = net_room n s" "net_room n (init_termbuf s) = net_room n s"
  "net_room n (tty_binaryin b' s) = net_room n s" "net_room n (tty_binaryout b' s) = net_room n s"
  "net_room n (tty_setecho b' s) = net_room n s" "net_room n (set_slc_level i l s) = net_room n s"
  "net_room n (settimer f s) = net_room n s"
  by (simp_all add: net_room_def net_ok_def set_bits_def clear_bits_def set_termbuf_def init_termbuf_def
      tty_binaryin_def tty_binaryout_def tty_setecho_def upd_lflag_def upd_iflag_def upd_oflag_def
      upd_cflag_def set_slc_level_def settimer_def Let_def)

lemma send_option_sent:
  assumes "net_room 3 s"
  shows "net_sent (send_do opt False s) = net_sent s @ [IAC, DO, opt]"
    "net_sent (send_dont opt False s) = net_sent s @ [IAC, DONT, opt]"
    "net_sent (send_will opt False s) = net_sent s @ [IAC, WILL, opt]"
    "net_sent (send_wont opt False s) = net_sent s @ [IAC, WONT, opt]"
  using net_output_data_sent(1) [of "[IAC, _, opt]" s 4] assms
  by (simp_all add: send_do_def send_dont_def send_will_def send_wont_def numeral_3_eq_3)

lemma resp_answer_idle [simp]: "r opt = 0 \<Longrightarrow> resp_answer r opt b = r"
  by (simp add: resp_answer_def)

lemma or_bit_absorb: "bit (x::byte) n \<Longrightarrow> x OR 2 ^ n = x"
  by (rule bit_word_eqI) (auto simp: bit_or_iff bit_exp_iff)

lemma and_not_bit_absorb: "\<not> bit (x::byte) n \<Longrightarrow> x AND NOT (2 ^ n) = x"
  by (rule bit_word_eqI) (auto simp: bit_and_iff bit_not_iff bit_exp_iff)

lemma set_bits_same:
  "my_state_is_will s opt \<Longrightarrow> set_my_state_will opt s = s"
  "his_state_is_will s opt \<Longrightarrow> set_his_state_will opt s = s"
  "\<not> my_state_is_will s opt \<Longrightarrow> set_my_state_wont opt s = s"
  "\<not> his_state_is_will s opt \<Longrightarrow> set_his_state_wont opt s = s"
  using or_bit_absorb [of "options s opt" 0] or_bit_absorb [of "options s opt" 2]
    and_not_bit_absorb [of "options s opt" 0] and_not_bit_absorb [of "options s opt" 2]
  by (simp_all add: option_bits set_bits_def clear_bits_def)


lemma telnetd_start_fields [simp]:
  "options (telnetd_start attr) = (\<lambda>_. 0)" "do_dont_resp (telnetd_start attr) = (\<lambda>_. 0)"
  "will_wont_resp (telnetd_start attr) = (\<lambda>_. 0)" "lmodetype (telnetd_start attr) = 0"
  "linemode (telnetd_start attr) = 0"
  by (simp_all add: telnetd_start_def Let_def)

lemma telnetd_start_neg [simp]:
  "his_neg opt (telnetd_start attr) = \<lparr>n_state = False, n_want = False, n_resp = 0\<rparr>"
  "my_neg opt (telnetd_start attr) = \<lparr>n_state = False, n_want = False, n_resp = 0\<rparr>"
  by (simp_all add: his_neg_def my_neg_def option_bits)

lemma telnetd_start_net [simp]:
  "net_room n (telnetd_start attr) = (n < BUFSIZ)" "net_sent (telnetd_start attr) = []"
  by (simp_all add: net_room_def net_ok_def net_sent_def telnetd_start_def Let_def)

lemma options_settled_start: "options_settled (telnetd_start attr)"
  by (simp add: options_settled_def neg_settled_def)

section \<open>Properties\<close>

text \<open>
  (C6) In every state reached from the start by the client's commands and the server's own requests,
  in any order, an option with no request outstanding is not changing, on either side.  The counters
  are single bytes, so a request is only allowed while its counter is not about to wrap around.
\<close>

theorem options_settle:
  assumes "negotiates\<^sup>*\<^sup>* (telnetd_start attr) t"
  shows "(do_dont_resp t opt = 0 \<and> opt \<noteq> TELOPT_TM \<longrightarrow> \<not> his_will_wont_is_changing t opt)
    \<and> (will_wont_resp t opt = 0 \<longrightarrow> \<not> my_will_wont_is_changing t opt)"
proof -
  from assms have "options_settled t"
    by (induction rule: rtranclp_induct) (auto simp: options_settled_start intro: negotiates_settled)
  then show ?thesis
    by (auto simp: options_settled_def neg_settled_def neg_tests his_will_wont_is_changing_iff
        my_will_wont_is_changing_iff)
qed

theorem options_settle_witness:
  "\<not> his_will_wont_is_changing (willoption TELOPT_NAWS (send_do TELOPT_NAWS True (telnetd_start zero_termios)))
     TELOPT_NAWS"
proof -
  let ?s = "telnetd_start zero_termios"
  let ?t = "send_do TELOPT_NAWS True ?s"
  have "negotiates ?s ?t" by (rule ask_his) simp_all
  moreover have "negotiates ?t (willoption TELOPT_NAWS ?t)"
    by (rule got) (simp_all add: neg_tests(6))
  ultimately have r: "negotiates\<^sup>*\<^sup>* ?s (willoption TELOPT_NAWS ?t)" by auto
  have "do_dont_resp (willoption TELOPT_NAWS ?t) TELOPT_NAWS = 0"
    by (simp add: neg_tests(3) willoption_his neg_receive_def neg_answered_def neg_initiate_def Let_def)
  then show ?thesis using options_settle [OF r, of TELOPT_NAWS] by simp
qed

text \<open>
  No acknowledgement loops: a command that repeats the state already in force, with no request
  outstanding, leaves the whole program state as it was, so nothing is sent.
\<close>

theorem steady_commands_ignored:
  shows "(do_dont_resp s opt = 0 \<and> his_state_is_will s opt \<and> his_want_state_is_will s opt
        \<and> opt \<notin> {TELOPT_ECHO, TELOPT_LINEMODE, TELOPT_LFLOW} \<longrightarrow> willoption opt s = s)
    \<and> (do_dont_resp s opt = 0 \<and> \<not> his_state_is_will s opt \<and> \<not> his_want_state_is_will s opt
        \<and> opt \<noteq> TELOPT_TM \<longrightarrow> wontoption opt s = s)
    \<and> (will_wont_resp s opt = 0 \<and> my_state_is_will s opt \<and> my_want_state_is_will s opt
        \<longrightarrow> dooption opt s = s)
    \<and> (will_wont_resp s opt = 0 \<and> \<not> my_state_is_will s opt \<and> \<not> my_want_state_is_will s opt
        \<longrightarrow> dontoption opt s = s)"
  by (simp add: willoption_def willoption_confirm_def willoption_end_def wontoption_def dooption_def
      dontoption_def set_bits_same Let_def)

theorem steady_commands_ignored_witness:
  "wontoption TELOPT_ECHO (telnetd_start zero_termios) = telnetd_start zero_termios
   \<and> dontoption TELOPT_SGA (telnetd_start zero_termios) = telnetd_start zero_termios"
  using steady_commands_ignored [of "telnetd_start zero_termios" TELOPT_ECHO]
    steady_commands_ignored [of "telnetd_start zero_termios" TELOPT_SGA]
  by (simp add: option_bits)

text \<open>
  The bytes that answer a command.  An offer that was not asked for is answered by DO or DONT, a
  request that was not expected by WILL or WONT, and the end of an option in force is confirmed by
  DONT or WONT; each answer is exactly the three bytes of the command, with nothing before or after.
  (LINEMODE on the client's side and SGA on ours may be followed by a change of modes, and LOGOUT and
  TM are treated apart.)
\<close>

theorem command_answers:
  assumes "net_room 3 s"
  shows "(do_dont_resp s opt = 0 \<and> \<not> his_want_state_is_will s opt \<and> opt \<notin> {TELOPT_TM, TELOPT_LINEMODE}
        \<longrightarrow> net_sent (willoption opt s) = net_sent s @ [IAC, if will_ok opt then DO else DONT, opt])
    \<and> (do_dont_resp s opt = 0 \<and> his_want_state_is_will s opt \<and> his_state_is_will s opt
        \<and> opt \<notin> {TELOPT_TM, TELOPT_LINEMODE} \<longrightarrow> net_sent (wontoption opt s) = net_sent s @ [IAC, DONT, opt])
    \<and> (will_wont_resp s opt = 0 \<and> \<not> my_want_state_is_will s opt
        \<and> opt \<notin> {TELOPT_TM, TELOPT_LOGOUT, TELOPT_SGA}
        \<longrightarrow> net_sent (dooption opt s) = net_sent s @ [IAC, if do_ok opt s then WILL else WONT, opt])
    \<and> (will_wont_resp s opt = 0 \<and> my_want_state_is_will s opt \<and> my_state_is_will s opt \<and> opt \<noteq> TELOPT_SGA
        \<longrightarrow> net_sent (dontoption opt s) = net_sent s @ [IAC, WONT, opt])"
proof (intro conjI impI; elim conjE)
  assume *: "do_dont_resp s opt = 0" "\<not> his_want_state_is_will s opt" "opt \<notin> {TELOPT_TM, TELOPT_LINEMODE}"
  show "net_sent (willoption opt s) = net_sent s @ [IAC, if will_ok opt then DO else DONT, opt]"
    using * assms by (auto simp: willoption_unfold will_ok_def send_option_sent Let_def)
next
  assume *: "do_dont_resp s opt = 0" "his_want_state_is_will s opt" "his_state_is_will s opt"
    "opt \<notin> {TELOPT_TM, TELOPT_LINEMODE}"
  then have "his_state_is_will (set_his_want_state_wont opt (wontoption_off opt s)) opt"
    by (simp add: neg_tests)
  with * show "net_sent (wontoption opt s) = net_sent s @ [IAC, DONT, opt]"
    using assms by (simp add: wontoption_def send_option_sent Let_def) (simp add: wontoption_off_def send_option_sent)
next
  assume *: "will_wont_resp s opt = 0" "\<not> my_want_state_is_will s opt"
    "opt \<notin> {TELOPT_TM, TELOPT_LOGOUT, TELOPT_SGA}"
  show "net_sent (dooption opt s) = net_sent s @ [IAC, if do_ok opt s then WILL else WONT, opt]"
    using * assms by (auto simp: dooption_def dooption_ask_def do_ok_def send_option_sent Let_def)
next
  assume *: "will_wont_resp s opt = 0" "my_want_state_is_will s opt" "my_state_is_will s opt"
    "opt \<noteq> TELOPT_SGA"
  then have "my_state_is_will (set_my_want_state_wont opt (dontoption_off opt s)) opt"
    by (simp add: neg_tests)
  with * show "net_sent (dontoption opt s) = net_sent s @ [IAC, WONT, opt]"
    using assms by (simp add: dontoption_def send_option_sent Let_def) (simp add: dontoption_off_def send_option_sent)
qed

theorem command_answers_witness:
  "net_sent (willoption TELOPT_NAWS (telnetd_start zero_termios)) = [IAC, DO, TELOPT_NAWS]
   \<and> net_sent (dooption TELOPT_NAWS (telnetd_start zero_termios)) = [IAC, WONT, TELOPT_NAWS]"
  using command_answers [of "telnetd_start zero_termios" TELOPT_NAWS]
  by (simp add: option_bits will_ok_def do_ok_def)

text \<open>
  The answer WILL ECHO to the server's own DO ECHO, which marks a 4.2BSD client, is not turned
  off at once: \<open>willoption\<close> calls \<open>send_dont\<close> before it records the new state, so \<open>send_dont\<close> sees
  nothing to change, no DONT ECHO is sent, and the option ends in the state WILL.
\<close>

theorem will_echo_not_turned_off:
  assumes "his_neg TELOPT_ECHO s = \<lparr>n_state = False, n_want = True, n_resp = 1\<rparr>"
  shows "net_sent (willoption TELOPT_ECHO s) = net_sent s
    \<and> his_neg TELOPT_ECHO (willoption TELOPT_ECHO s) = \<lparr>n_state = True, n_want = True, n_resp = 0\<rparr>"
proof -
  define t where "t = s\<lparr>do_dont_resp := resp_answer (do_dont_resp s) TELOPT_ECHO (his_state_is_will s TELOPT_ECHO)\<rparr>"
  have t: "his_neg TELOPT_ECHO t = \<lparr>n_state = False, n_want = True, n_resp = 0\<rparr>"
    using assms by (simp add: t_def neg_answered_def)
  have "willoption TELOPT_ECHO s = set_his_state_will TELOPT_ECHO (t\<lparr>not42 := False\<rparr>)"
    unfolding willoption_unfold Let_def t_def [symmetric]
    by (simp add: neg_tests t send_dont_def)
  then show ?thesis using t by (simp add: t_def)
qed

theorem will_echo_not_turned_off_witness:
  "his_neg TELOPT_ECHO (willoption TELOPT_ECHO (send_do TELOPT_ECHO True (telnetd_start zero_termios)))
     = \<lparr>n_state = True, n_want = True, n_resp = 0\<rparr>"
  using will_echo_not_turned_off [of "send_do TELOPT_ECHO True (telnetd_start zero_termios)"]
  by (simp add: neg_initiate_def)

end
