(* ===== verification/Telnetd_Commands.thy ===== *)
theory Telnetd_Commands
  imports Telnetd_Options
begin

text \<open>
  The negotiation of the server as a refinement: for every option, those treated apart included, the functions that ask for
  an option and those that receive a command are steps of the machine described above \<open>send_do\<close> in
  \<open>telnetd/state.c\<close>, on the tables and on the bytes that are sent.
\<close>

section \<open>The machine\<close>

text \<open>A request of the server, or a command of the client; \<open>True\<close> is for DO and WILL.\<close>

datatype neg_event = Request bool | Command bool

text \<open>
  The step and what is sent, for an option of the client.  A DO TIMING-MARK is sent without being wanted, so that it can be sent
  again; a WILL TIMING-MARK that was not asked for leaves the option alone, and so does the WONT that ends it.  When
  the client agrees to echo, the server turns at once against it.
\<close>

fun his_spec :: "byte \<Rightarrow> neg_event \<Rightarrow> neg \<Rightarrow> neg \<times> bool list" where
  "his_spec opt (Request v) n =
     (if opt = TELOPT_TM \<and> v \<and> neg_asks True n \<noteq> [] then (n\<lparr>n_want := False, n_resp := n_resp n + 1\<rparr>, [True])
      else (neg_initiate v n, neg_asks v n))"
| "his_spec opt (Command v) n =
     (let m = n\<lparr>n_resp := neg_answered v n\<rparr>
      in if opt = TELOPT_TM \<and> n_resp m = 0 \<and> n_want n \<noteq> v then (if v then m else m\<lparr>n_want := False\<rparr>, [])
         else if opt = TELOPT_ECHO \<and> v \<and> n_resp m = 0 \<and> n_want n then ((neg_initiate False m)\<lparr>n_state := True\<rparr>, neg_asks False m)
         else (neg_receive (v \<longrightarrow> will_ok opt) v n, neg_replies (v \<longrightarrow> will_ok opt) v n))"

text \<open>For an option of the server, where \<open>ok\<close> says whether it agrees: a DO TIMING-MARK is answered and forgotten.\<close>

fun my_spec :: "bool \<Rightarrow> byte \<Rightarrow> neg_event \<Rightarrow> neg \<Rightarrow> neg \<times> bool list" where
  "my_spec ok opt (Request v) n = (neg_initiate v n, neg_asks v n)"
| "my_spec ok opt (Command v) n =
     (if opt = TELOPT_TM \<and> v \<and> neg_answered v n = 0 \<and> \<not> n_want n
      then (n\<lparr>n_resp := 0, n_want := False, n_state := False\<rparr>, [True])
      else (neg_receive (v \<longrightarrow> ok) v n, neg_replies (v \<longrightarrow> ok) v n))"

definition his_code :: "byte \<Rightarrow> neg_event \<Rightarrow> telnetd \<Rightarrow> telnetd" where
  "his_code opt ev = (case ev of Request v \<Rightarrow> if v then send_do opt True else send_dont opt True
     | Command v \<Rightarrow> if v then willoption opt else wontoption opt)"

definition my_code :: "byte \<Rightarrow> neg_event \<Rightarrow> telnetd \<Rightarrow> telnetd" where
  "my_code opt ev = (case ev of Request v \<Rightarrow> if v then send_will opt True else send_wont opt True
     | Command v \<Rightarrow> if v then dooption opt else dontoption opt)"

section \<open>Other output\<close>

text \<open>
  What a command may make the server send besides the answer: a linemode mask, the state of flow control, WILL ECHO; after
  a timing mark also WILL or WONT SGA.
\<close>

definition mode_output :: "byte \<Rightarrow> byte list set" where
  "mode_output opt = {[IAC, SB, TELOPT_LINEMODE, LM_MODE, m, IAC, SE] | m. True} \<union> {[IAC, SB, TELOPT_LFLOW, x, IAC, SE] | x. True}
     \<union> {[IAC, WILL, TELOPT_ECHO]} \<union> (if opt = TELOPT_TM then {[IAC, WILL, TELOPT_SGA], [IAC, WONT, TELOPT_SGA]} else {})"

text \<open>\<open>t\<close> is \<open>s\<close> after at most \<open>k\<close> bytes of output from \<open>X\<close>.\<close>

definition emits :: "byte list set \<Rightarrow> nat \<Rightarrow> telnetd \<Rightarrow> telnetd \<Rightarrow> bool" where
  "emits X k s t \<longleftrightarrow> (\<forall>n. net_room (n + k) s \<longrightarrow>
     net_room n t \<and> (\<exists>ps. set ps \<subseteq> X \<and> net_sent t = net_sent s @ concat ps))"

lemma emits_same:
  assumes "net_sent t = net_sent s" "\<And>n. net_room n t = net_room n s"
  shows "emits X k s t"
  unfolding emits_def
proof (intro allI impI conjI)
  fix n assume "net_room (n + k) s"
  then show "net_room n t" using assms(2) by (simp add: net_room_def)
  show "\<exists>ps. set ps \<subseteq> X \<and> net_sent t = net_sent s @ concat ps" using assms(1) by (intro exI [of _ "[]"]) simp
qed

lemma emits_refl [simp]: "emits X k s s"
  by (rule emits_same) simp_all

lemma emits_trans: "emits X j s t \<Longrightarrow> emits X k t u \<Longrightarrow> emits X (j + k) s u"
  unfolding emits_def
proof (intro allI impI)
  fix n
  assume a: "\<forall>n. net_room (n + j) s \<longrightarrow> net_room n t \<and> (\<exists>ps. set ps \<subseteq> X \<and> net_sent t = net_sent s @ concat ps)"
    "\<forall>n. net_room (n + k) t \<longrightarrow> net_room n u \<and> (\<exists>ps. set ps \<subseteq> X \<and> net_sent u = net_sent t @ concat ps)"
    "net_room (n + (j + k)) s"
  then obtain ps where p: "net_room (n + k) t" "set ps \<subseteq> X" "net_sent t = net_sent s @ concat ps"
    by (metis add.assoc add.commute)
  then obtain qs where "net_room n u" "set qs \<subseteq> X" "net_sent u = net_sent t @ concat qs" using a(2) by blast
  with p show "net_room n u \<and> (\<exists>ps. set ps \<subseteq> X \<and> net_sent u = net_sent s @ concat ps)"
    by (intro conjI exI [of _ "ps @ qs"]) auto
qed

lemma net_room_less: "net_room n s \<Longrightarrow> m \<le> n \<Longrightarrow> net_room m s"
  by (simp add: net_room_def)

lemma emits_more: "emits X j s t \<Longrightarrow> j \<le> k \<Longrightarrow> emits X k s t"
  unfolding emits_def using net_room_less by (metis add_le_cancel_left)

lemma emits_output: "bs \<in> X \<Longrightarrow> emits X (length bs) s (net_output_data n bs s)"
  unfolding emits_def
proof (intro allI impI)
  fix k assume X: "bs \<in> X" "net_room (k + length bs) s"
  then have r: "net_room (length bs) s" by (auto intro: net_room_less)
  show "net_room k (net_output_data n bs s) \<and> (\<exists>ps. set ps \<subseteq> X \<and> net_sent (net_output_data n bs s) = net_sent s @ concat ps)"
    using X net_output_data_sent [OF r, of n] net_output_data_sent(2) [OF r, of "k + length bs" n]
    by (intro conjI exI [of _ "[bs]"]) auto
qed

text \<open>Only the buffer matters.\<close>

definition same_net :: "(telnetd \<Rightarrow> telnetd) \<Rightarrow> bool" where
  "same_net f \<longleftrightarrow> (\<forall>s n. net_sent (f s) = net_sent s \<and> net_room n (f s) = net_room n s)"

lemma same_net_emits:
  assumes "same_net f"
  shows "emits X k (f s) t = emits X k s t" "emits X k s (f t) = emits X k s t"
  using assms by (simp_all add: emits_def same_net_def)

lemma same_net_fields:
  "same_net (uselinemode_update x1)" "same_net (useeditmode_update x2)" "same_net (editmode_update x3)" "same_net (linemode_update x4)"
  "same_net (flowmode_update x5)" "same_net (restartany_update x6)" "same_net (lmodetype_update x7)" "same_net (not42_update x8)"
  "same_net (do_dont_resp_update x9)" "same_net (will_wont_resp_update x10)" "same_net (tty_setlinemode b)"
  "same_net (set_bits m opt)" "same_net (clear_bits m opt)" "same_net init_termbuf" "same_net set_termbuf" "same_net (tty_binaryin b)"
  "same_net (tty_binaryout b)" "same_net (tty_setecho b)" "same_net (set_slc_level i l)" "same_net (settimer g)"
  by (simp_all add: same_net_def net_sent_def net_room_def net_ok_def set_bits_def clear_bits_def set_termbuf_def init_termbuf_def
      tty_setlinemode_def tty_binaryin_def tty_binaryout_def tty_setecho_def upd_lflag_def upd_iflag_def upd_oflag_def
      upd_cflag_def set_slc_level_def settimer_def Let_def)

lemmas emits_fields [simp] =
  same_net_emits [OF same_net_fields(1)]
  same_net_emits [OF same_net_fields(2)]
  same_net_emits [OF same_net_fields(3)]
  same_net_emits [OF same_net_fields(4)]
  same_net_emits [OF same_net_fields(5)]
  same_net_emits [OF same_net_fields(6)]
  same_net_emits [OF same_net_fields(7)]
  same_net_emits [OF same_net_fields(8)]
  same_net_emits [OF same_net_fields(9)]
  same_net_emits [OF same_net_fields(10)]
  same_net_emits [OF same_net_fields(11)]
  same_net_emits [OF same_net_fields(12)]
  same_net_emits [OF same_net_fields(13)]
  same_net_emits [OF same_net_fields(14)]
  same_net_emits [OF same_net_fields(15)]
  same_net_emits [OF same_net_fields(16)]
  same_net_emits [OF same_net_fields(17)]
  same_net_emits [OF same_net_fields(18)]
  same_net_emits [OF same_net_fields(19)]
  same_net_emits [OF same_net_fields(20)]

lemma emits_netflush:
  assumes "emits X k s t"
  shows "emits X k s (netflush t)"
  unfolding emits_def
proof (intro allI impI)
  fix n assume "net_room (n + k) s"
  then have t: "net_room n t" "\<exists>ps. set ps \<subseteq> X \<and> net_sent t = net_sent s @ concat ps" using assms by (auto simp: emits_def)
  then have "net_ok t" "nfrontp t + n < BUFSIZ" by (simp_all add: net_room_def)
  then show "net_room n (netflush t) \<and> (\<exists>ps. set ps \<subseteq> X \<and> net_sent (netflush t) = net_sent s @ concat ps)"
    using t netflush_sent [of t] netflush_ok [of t] netflush_nfrontp [of t] by (simp add: net_room_def)
qed

lemma emits_command: "[IAC, c, opt] \<in> X \<Longrightarrow> emits X 3 s (net_output_data 4 [IAC, c, opt] s)"
  using emits_output [of "[IAC, c, opt]" X s 4] by (simp add: numeral_3_eq_3)

lemma request_emits:
  assumes "[IAC, WILL, opt] \<in> X"
  shows "emits X 3 s (send_will opt init s)"
proof -
  let ?t = "set_my_want_state_will opt s"
  let ?u = "?t\<lparr>will_wont_resp := resp_incr (will_wont_resp ?t) opt\<rparr>"
  have "emits X 3 s (net_output_data 4 [IAC, WILL, opt] ?u)" using emits_command [OF assms, of ?u] by simp
  then show ?thesis using emits_command [OF assms, of s] by (simp add: send_will_def Let_def)
qed

lemma refusal_emits:
  assumes "[IAC, WONT, opt] \<in> X"
  shows "emits X 3 s (send_wont opt init s)"
proof -
  let ?t = "set_my_want_state_wont opt s"
  let ?u = "?t\<lparr>will_wont_resp := resp_incr (will_wont_resp ?t) opt\<rparr>"
  have "emits X 3 s (net_output_data 4 [IAC, WONT, opt] ?u)" using emits_command [OF assms, of ?u] by simp
  then show ?thesis using emits_command [OF assms, of s] by (simp add: send_wont_def Let_def)
qed

lemma output_mode_emits: "emits (mode_output opt) 7 t (output_mode x t)"
  using emits_output [of "[IAC, SB, TELOPT_LINEMODE, LM_MODE, x, IAC, SE]" "mode_output opt" t 14]
  by (simp add: output_mode_def mode_output_def eval_nat_numeral)

lemma clientstat_emits: "emits (mode_output opt) 10 s (clientstat_linemode p s)"
proof -
  let ?X = "mode_output opt"
  define s1 where "s1 = (init_termbuf s)\<lparr>uselinemode := (if p = WILL then 1 else 0)\<rparr>"
  define s2 where "s2 = (if lmodetype s1 = KLUDGE_LINEMODE \<and> alwayslinemode s1 \<and> tty_isediting s1
    then s1\<lparr>uselinemode := 1\<rparr> else s1)"
  define s3 where "s3 = (if lmodetype s2 = REAL_LINEMODE \<and> uselinemode s2 \<noteq> 0
    then (let t = output_mode (tty_editmodes s2) (s2\<lparr>useeditmode := tty_editmodes s2\<rparr>) in t\<lparr>editmode := useeditmode t\<rparr>) else s2)"
  define s5 where "s5 = (let s4 = tty_setlinemode (uselinemode s3 \<noteq> 0) s3 in s4\<lparr>linemode := uselinemode s4\<rparr>)"
  define s6 where "s6 = (if linemode s5 = 0 then send_will TELOPT_ECHO True s5 else s5)"
  have 1: "emits ?X k s s1" "emits ?X k s s2" for k by (simp_all add: s1_def s2_def)
  have "emits ?X 7 s (output_mode x (s2\<lparr>useeditmode := x\<rparr>))" for x
    using emits_trans [of ?X 0 s "s2\<lparr>useeditmode := x\<rparr>" 7] output_mode_emits [of opt "s2\<lparr>useeditmode := x\<rparr>" x] 1(2) by simp
  then have "emits ?X 7 s s3" using 1(2) by (simp add: s3_def Let_def)
  then have "emits ?X 7 s s5" by (simp add: s5_def Let_def)
  from emits_trans [OF this request_emits, of TELOPT_ECHO True] emits_more [OF this, of 10] have 6: "emits ?X 10 s s6"
    by (simp add: s6_def mode_output_def)
  have "clientstat_linemode p s = (if uselinemode s1 \<noteq> linemode s1 then (if uselinemode s2 = linemode s2 then s2 else netflush s6) else netflush s1)"
    unfolding clientstat_linemode_def Let_def s1_def [symmetric] s2_def [symmetric] s3_def [symmetric, unfolded Let_def]
      s5_def [symmetric, unfolded Let_def] s6_def [symmetric] ..
  then show ?thesis using 1 6 by (simp add: emits_netflush)
qed

lemma flowstat_emits: "emits (mode_output opt) 12 s (flowstat s)"
proof -
  let ?X = "mode_output opt"
  have o: "emits ?X 6 t (net_output_data 12 [IAC, SB, TELOPT_LFLOW, x, IAC, SE] t)" for x t
    using emits_output [of "[IAC, SB, TELOPT_LFLOW, x, IAC, SE]" ?X t 12] by (simp add: mode_output_def eval_nat_numeral)
  have a: "emits ?X 6 t (if c then net_output_data 12 [IAC, SB, TELOPT_LFLOW, x, IAC, SE] (t\<lparr>flowmode := y\<rparr>) else t)" for c x y t
    using o [of "t\<lparr>flowmode := y\<rparr>" x] by simp
  have b: "emits ?X 6 t (if c then net_output_data 12 [IAC, SB, TELOPT_LFLOW, x, IAC, SE] (t\<lparr>restartany := y\<rparr>) else t)" for c x y t
    using o [of "t\<lparr>restartany := y\<rparr>" x] by simp
  have ab: "emits ?X 12 s (if c' then net_output_data 12 [IAC, SB, TELOPT_LFLOW, x', IAC, SE] (t\<lparr>restartany := y'\<rparr>) else t)"
    if "t = (if c then net_output_data 12 [IAC, SB, TELOPT_LFLOW, x, IAC, SE] (s\<lparr>flowmode := y\<rparr>) else s)" for c x y c' x' y' t
    unfolding that using emits_trans [OF a [where c = c and x = x and y = y and t = s] b [where c = c' and x = x' and y = y']] by simp
  show ?thesis unfolding flowstat_def Let_def by (simp only: ab [OF refl] if_True if_False emits_refl split: if_split) simp
qed

section \<open>Answers\<close>

text \<open>\<open>t\<close> is \<open>s\<close> after the bytes \<open>bs\<close> were sent, with output from \<open>X\<close> before and after them, at most \<open>k\<close> bytes in all.\<close>

definition says :: "byte list set \<Rightarrow> nat \<Rightarrow> byte list \<Rightarrow> telnetd \<Rightarrow> telnetd \<Rightarrow> bool" where
  "says X k bs s t \<longleftrightarrow> (\<forall>n. net_room (n + k) s \<longrightarrow> net_room n t
     \<and> (\<exists>ps qs. set ps \<subseteq> X \<and> set qs \<subseteq> X \<and> net_sent t = net_sent s @ concat ps @ bs @ concat qs))"

lemma says_emits: "emits X k s t \<Longrightarrow> says X k [] s t"
  unfolding says_def emits_def by (metis append_Nil append_Nil2 concat.simps(1) empty_set empty_subsetI)

lemma says_pre:
  assumes "emits X j s t" "says X k bs t u"
  shows "says X (j + k) bs s u"
  unfolding says_def
proof (intro allI impI)
  fix n assume "net_room (n + (j + k)) s"
  then have "net_room ((n + k) + j) s" by (simp add: ac_simps)
  then obtain rs where r: "net_room (n + k) t" "set rs \<subseteq> X" "net_sent t = net_sent s @ concat rs"
    using assms(1) unfolding emits_def by blast
  then obtain ps qs where "net_room n u" "set ps \<subseteq> X" "set qs \<subseteq> X" "net_sent u = net_sent t @ concat ps @ bs @ concat qs"
    using assms(2) unfolding says_def by blast
  then show "net_room n u \<and> (\<exists>ps qs. set ps \<subseteq> X \<and> set qs \<subseteq> X \<and> net_sent u = net_sent s @ concat ps @ bs @ concat qs)"
    using r by (intro conjI exI [of _ "rs @ ps"] exI [of _ qs]) auto
qed

lemma says_post:
  assumes "says X j bs s t" "emits X k t u"
  shows "says X (j + k) bs s u"
  unfolding says_def
proof (intro allI impI)
  fix n assume "net_room (n + (j + k)) s"
  then have "net_room ((n + k) + j) s" by (simp add: ac_simps)
  then obtain ps qs where r: "net_room (n + k) t" "set ps \<subseteq> X" "set qs \<subseteq> X" "net_sent t = net_sent s @ concat ps @ bs @ concat qs"
    using assms(1) unfolding says_def by blast
  then obtain rs where "net_room n u" "set rs \<subseteq> X" "net_sent u = net_sent t @ concat rs"
    using assms(2) unfolding emits_def by blast
  then show "net_room n u \<and> (\<exists>ps qs. set ps \<subseteq> X \<and> set qs \<subseteq> X \<and> net_sent u = net_sent s @ concat ps @ bs @ concat qs)"
    using r by (intro conjI exI [of _ ps] exI [of _ "qs @ rs"]) auto
qed

lemma says_more: "says X j bs s t \<Longrightarrow> j \<le> k \<Longrightarrow> says X k bs s t"
  unfolding says_def using net_room_less by (metis add_le_cancel_left)

lemma same_net_says:
  assumes "same_net f"
  shows "says X k bs (f s) t = says X k bs s t" "says X k bs s (f t) = says X k bs s t"
  using assms by (simp_all add: says_def same_net_def)

lemmas says_fields [simp] =
  same_net_says [OF same_net_fields(1)]
  same_net_says [OF same_net_fields(2)]
  same_net_says [OF same_net_fields(3)]
  same_net_says [OF same_net_fields(4)]
  same_net_says [OF same_net_fields(5)]
  same_net_says [OF same_net_fields(6)]
  same_net_says [OF same_net_fields(7)]
  same_net_says [OF same_net_fields(8)]
  same_net_says [OF same_net_fields(9)]
  same_net_says [OF same_net_fields(10)]
  same_net_says [OF same_net_fields(11)]
  same_net_says [OF same_net_fields(12)]
  same_net_says [OF same_net_fields(13)]
  same_net_says [OF same_net_fields(14)]
  same_net_says [OF same_net_fields(15)]
  same_net_says [OF same_net_fields(16)]
  same_net_says [OF same_net_fields(17)]
  same_net_says [OF same_net_fields(18)]
  same_net_says [OF same_net_fields(19)]
  same_net_says [OF same_net_fields(20)]

lemma command_says: "says X 3 [IAC, c, opt] s (net_output_data 4 [IAC, c, opt] s)"
  unfolding says_def
proof (intro allI impI)
  fix n assume r: "net_room (n + 3) s"
  then have l: "net_room (length [IAC, c, opt]) s" by (auto intro: net_room_less)
  show "net_room n (net_output_data 4 [IAC, c, opt] s) \<and> (\<exists>ps qs. set ps \<subseteq> X \<and> set qs \<subseteq> X
      \<and> net_sent (net_output_data 4 [IAC, c, opt] s) = net_sent s @ concat ps @ [IAC, c, opt] @ concat qs)"
    using net_output_data_sent(1) [OF l, of 4] net_output_data_sent(2) [OF l, of "n + 3" 4] r
    by (intro conjI exI [of _ "[]"]) (simp_all add: numeral_3_eq_3)
qed

lemma answer_says:
  "says X 3 (do_bytes opt [True]) s (send_do opt False s)" "says X 3 (do_bytes opt [False]) s (send_dont opt False s)"
  "says X 3 (will_bytes opt [True]) s (send_will opt False s)" "says X 3 (will_bytes opt [False]) s (send_wont opt False s)"
  by (simp_all add: send_do_def send_dont_def send_will_def send_wont_def command_says)

lemma ask_says:
  "says X 3 (do_bytes opt (neg_asks True (his_neg opt s))) s (send_do opt True s)"
  "says X 3 (do_bytes opt (neg_asks False (his_neg opt s))) s (send_dont opt True s)"
  "says X 3 (will_bytes opt (neg_asks True (my_neg opt s))) s (send_will opt True s)"
  "says X 3 (will_bytes opt (neg_asks False (my_neg opt s))) s (send_wont opt True s)"
proof -
  have c: "says X 3 [IAC, c, q] s (net_output_data 4 [IAC, c, q] ((set_bits m q s)\<lparr>do_dont_resp := r\<rparr>))"
    "says X 3 [IAC, c, q] s (net_output_data 4 [IAC, c, q] ((clear_bits m q s)\<lparr>do_dont_resp := r\<rparr>))"
    "says X 3 [IAC, c, q] s (net_output_data 4 [IAC, c, q] ((set_bits m q s)\<lparr>will_wont_resp := r\<rparr>))"
    "says X 3 [IAC, c, q] s (net_output_data 4 [IAC, c, q] ((clear_bits m q s)\<lparr>will_wont_resp := r\<rparr>))" for c m q r
    using command_says [of X c q "(set_bits m q s)\<lparr>do_dont_resp := r\<rparr>"] command_says [of X c q "(clear_bits m q s)\<lparr>do_dont_resp := r\<rparr>"]
      command_says [of X c q "(set_bits m q s)\<lparr>will_wont_resp := r\<rparr>"] command_says [of X c q "(clear_bits m q s)\<lparr>will_wont_resp := r\<rparr>"]
    by simp_all
  note n = says_emits [OF emits_refl]
  show "says X 3 (do_bytes opt (neg_asks True (his_neg opt s))) s (send_do opt True s)"
    "says X 3 (do_bytes opt (neg_asks False (his_neg opt s))) s (send_dont opt True s)"
    "says X 3 (will_bytes opt (neg_asks True (my_neg opt s))) s (send_will opt True s)"
    "says X 3 (will_bytes opt (neg_asks False (my_neg opt s))) s (send_wont opt True s)"
    by (simp_all add: send_do_def send_dont_def send_will_def send_wont_def neg_asks_def his_neg_def my_neg_def Let_def n c)
qed

section \<open>Commands about the client's options\<close>

definition his_extra :: "byte \<Rightarrow> byte list set" where
  "his_extra opt = (if opt \<in> {TELOPT_TM, TELOPT_LINEMODE, TELOPT_LFLOW} then mode_output opt else {})"

definition my_extra :: "byte \<Rightarrow> byte list set" where
  "my_extra opt = (if opt = TELOPT_SGA then mode_output opt else {})"

lemma offer_net:
  assumes "opt \<noteq> TELOPT_TM" "willoption_offer opt s = Decide ok f u"
  shows "says X k bs s u = says X k bs s s" "says X k bs u t = says X k bs s t" "f = None \<or> opt = TELOPT_LINEMODE \<and> f = Some doclientstat"
  using assms by (auto simp: willoption_offer_def split: if_splits)

lemma end_says:
  assumes "says (his_extra opt) k bs s t"
    "f = None \<or> opt = TELOPT_LINEMODE \<and> f = Some doclientstat \<or> opt = TELOPT_LFLOW \<and> f = Some flowstat"
  shows "says (his_extra opt) (k + 12) bs s (willoption_end opt f t)"
proof -
  have t: "says (his_extra opt) k bs s (set_his_state_will opt t)" using assms(1) by simp
  consider "f = None" | "opt = TELOPT_LINEMODE" "f = Some doclientstat" | "opt = TELOPT_LFLOW" "f = Some flowstat" using assms(2) by blast
  then show ?thesis
  proof cases
    case 1
    then show ?thesis using says_more [OF assms(1), of "k + 12"] by (simp add: willoption_end_def)
  next
    case 2
    have "emits (his_extra opt) 12 u (doclientstat u)" for u
      using emits_more [OF clientstat_emits, of 12 opt u WILL] 2 by (simp add: his_extra_def doclientstat_def)
    from says_post [OF t this] show ?thesis using 2 by (simp add: willoption_end_def)
  next
    case 3
    have "emits (his_extra opt) 12 u (flowstat u)" for u using flowstat_emits [of opt u] 3 by (simp add: his_extra_def)
    from says_post [OF t this] show ?thesis using 3 by (simp add: willoption_end_def)
  qed
qed

lemma confirm_says:
  assumes "willoption_confirm opt s = (f, u)"
  shows "says (his_extra opt) 3 (do_bytes opt (if opt = TELOPT_ECHO then neg_asks False (his_neg opt s) else [])) s u"
    "f = None \<or> opt = TELOPT_LINEMODE \<and> f = Some doclientstat \<or> opt = TELOPT_LFLOW \<and> f = Some flowstat"
proof -
  have "says X 3 (do_bytes TELOPT_ECHO (neg_asks False (his_neg TELOPT_ECHO s))) s (send_dont TELOPT_ECHO True (s\<lparr>not42 := False\<rparr>))" for X
    using ask_says(2) [of X TELOPT_ECHO "s\<lparr>not42 := False\<rparr>"] by simp
  then show "says (his_extra opt) 3 (do_bytes opt (if opt = TELOPT_ECHO then neg_asks False (his_neg opt s) else [])) s u"
    using assms by (auto simp: willoption_confirm_def says_emits split: if_splits)
  show "f = None \<or> opt = TELOPT_LINEMODE \<and> f = Some doclientstat \<or> opt = TELOPT_LFLOW \<and> f = Some flowstat"
    using assms by (auto simp: willoption_confirm_def split: if_splits)
qed

text \<open>WILL.\<close>

lemma offer_tm_emits:
  assumes "willoption_offer TELOPT_TM s = Consumed u"
  shows "emits (his_extra TELOPT_TM) 13 s u"
proof -
  let ?X = "his_extra TELOPT_TM"
  have "emits ?X 13 s (send_wont TELOPT_SGA True (clientstat_linemode WILL (s\<lparr>lmodetype := KLUDGE_LINEMODE\<rparr>)))"
    using emits_trans [OF clientstat_emits [of TELOPT_TM "s\<lparr>lmodetype := KLUDGE_LINEMODE\<rparr>" WILL] refusal_emits [of TELOPT_SGA _ _ True]]
    by (simp add: his_extra_def mode_output_def)
  then show ?thesis using assms by (auto simp: willoption_offer_def split: if_splits)
qed

lemma willoption_says:
  "says (his_extra opt) 15 (do_bytes opt (snd (his_spec opt (Command True) (his_neg opt s)))) s (willoption opt s)"
proof -
  define t where "t = s\<lparr>do_dont_resp := resp_answer (do_dont_resp s) opt (his_state_is_will s opt)\<rparr>"
  have t: "his_neg opt t = (his_neg opt s)\<lparr>n_resp := neg_answered True (his_neg opt s)\<rparr>" by (simp add: t_def)
  have st: "says X k bs s u = says X k bs t u" "emits X k s u = emits X k t u" for X k bs u by (simp_all add: t_def)
  let ?X = "his_extra opt"
  consider (offer) "n_resp (his_neg opt t) = 0" "\<not> n_want (his_neg opt t)"
    | (confirm) "n_resp (his_neg opt t) = 0" "n_want (his_neg opt t)" | (count) "n_resp (his_neg opt t) \<noteq> 0" by blast
  then show ?thesis
  proof cases
    case offer
    have o': "neg_answered True (his_neg opt s) = 0" "\<not> n_want (his_neg opt s)" using offer by (simp_all add: t)
    show ?thesis
    proof (cases "willoption_offer opt t")
      case (Consumed u)
      then have tm: "opt = TELOPT_TM" by (auto simp: willoption_offer_def split: if_splits)
      then have "says ?X 15 [] t u" using says_emits [OF emits_more [OF offer_tm_emits, of t u 15]] Consumed by simp
      moreover have "willoption opt s = u" unfolding willoption_def Let_def t_def [symmetric] using offer Consumed by (simp add: neg_tests)
      ultimately show ?thesis using tm o' by (simp add: st Let_def)
    next
      case (Decide ok f u)
      then have tm: "opt \<noteq> TELOPT_TM" by (auto simp: willoption_offer_def)
      have ok: "ok = will_ok opt" using willoption_offer_his [OF tm, of t] Decide by auto
      note o = offer_net [OF tm Decide]
      let ?v = "if ok then send_do opt False (set_his_want_state_will opt u)
        else send_dont opt False (u\<lparr>do_dont_resp := resp_incr (do_dont_resp u) opt\<rparr>)"
      have "says ?X 3 (do_bytes opt [ok]) t ?v"
        using answer_says(1) [of ?X opt "set_his_want_state_will opt u"]
          answer_says(2) [of ?X opt "u\<lparr>do_dont_resp := resp_incr (do_dont_resp u) opt\<rparr>"] by (cases ok) (simp_all add: o(2))
      from end_says [OF this, of f] o(3) have "says ?X 15 (do_bytes opt [ok]) t (willoption_end opt f ?v)" by auto
      moreover have "willoption opt s = willoption_end opt f ?v"
        unfolding willoption_def Let_def t_def [symmetric] using offer Decide by (simp add: neg_tests)
      moreover have "neg_replies (will_ok opt) True (his_neg opt s) = [ok]" using offer ok by (simp add: t neg_replies_def)
      ultimately show ?thesis using tm offer by (simp add: st t Let_def)
    qed
  next
    case confirm
    obtain f u where c: "willoption_confirm opt t = (f, u)" by fastforce
    note k = confirm_says [OF c]
    have "willoption opt s = willoption_end opt f u"
      unfolding willoption_def Let_def t_def [symmetric] using confirm c by (simp add: neg_tests)
    moreover have "says ?X 15 (do_bytes opt (if opt = TELOPT_ECHO then neg_asks False (his_neg opt t) else [])) t (willoption_end opt f u)"
      using end_says [OF k] by simp
    moreover have "neg_replies (will_ok opt) True (his_neg opt s) = []" using confirm by (simp add: t neg_replies_def)
    ultimately show ?thesis using confirm t by (cases "opt = TELOPT_ECHO") (simp_all add: st Let_def)
  next
    case count
    have "willoption opt s = willoption_end opt None t"
      unfolding willoption_def Let_def t_def [symmetric] using count by (simp add: neg_tests)
    moreover have "says ?X 15 [] t t" by (simp add: says_emits)
    ultimately show ?thesis using count by (simp add: st t willoption_end_def neg_replies_def Let_def)
  qed
qed

text \<open>WONT.\<close>

lemma off_emits: "emits (his_extra opt) 10 s (wontoption_off opt s)"
  using clientstat_emits [of opt s WONT] by (auto simp: wontoption_off_def his_extra_def)

lemma wont_tm_emits:
  "emits (his_extra TELOPT_TM) 16 s
     (send_will TELOPT_ECHO True (send_will TELOPT_SGA True (clientstat_linemode WONT (s\<lparr>lmodetype := x\<rparr>))))"
  using emits_trans [OF emits_trans [OF clientstat_emits [of TELOPT_TM "s\<lparr>lmodetype := x\<rparr>" WONT] request_emits [of TELOPT_SGA _ _ True]]
      request_emits [of TELOPT_ECHO _ _ True]]
  by (simp add: his_extra_def mode_output_def)

lemma wontoption_says:
  "says (his_extra opt) 16 (do_bytes opt (snd (his_spec opt (Command False) (his_neg opt s)))) s (wontoption opt s)"
proof -
  define t where "t = s\<lparr>do_dont_resp := resp_answer (do_dont_resp s) opt (\<not> his_state_is_will s opt)\<rparr>"
  have t: "his_neg opt t = (his_neg opt s)\<lparr>n_resp := neg_answered False (his_neg opt s)\<rparr>" by (simp add: t_def)
  have st: "says X k bs s u = says X k bs t u" for X k bs u by (simp add: t_def)
  let ?X = "his_extra opt"
  consider (tm) "n_resp (his_neg opt t) = 0" "n_want (his_neg opt t)" "opt = TELOPT_TM"
    | (off) "n_resp (his_neg opt t) = 0" "n_want (his_neg opt t)" "opt \<noteq> TELOPT_TM"
    | (not_wanted) "n_resp (his_neg opt t) = 0" "\<not> n_want (his_neg opt t)" | (count) "n_resp (his_neg opt t) \<noteq> 0" by blast
  then show ?thesis
  proof cases
    case tm
    have "wontoption opt s = set_his_want_state_wont TELOPT_TM t"
      unfolding wontoption_def Let_def t_def [symmetric] using tm by (simp add: neg_tests)
    then show ?thesis using tm t by (simp add: st Let_def says_emits)
  next
    case off
    define u where "u = set_his_want_state_wont opt (wontoption_off opt t)"
    have u: "emits ?X 10 t u" using off_emits by (simp add: u_def)
    have w: "wontoption opt s = set_his_state_wont opt (if n_state (his_neg opt t) then send_dont opt False u else u)"
      unfolding wontoption_def Let_def t_def [symmetric] using off by (simp add: u_def neg_tests)
    have "says ?X 13 (do_bytes opt [False]) t (send_dont opt False u)" using says_pre [OF u answer_says(2)] by simp
    then have "says ?X 16 (do_bytes opt [False]) t (send_dont opt False u)" "says ?X 16 [] t u"
      using says_more [of _ 13 _ _ _ 16] says_emits [OF emits_more [OF u, of 16]] by simp_all
    then show ?thesis using off w by (simp add: st t Let_def neg_replies_def)
  next
    case not_wanted
    have n: "neg_replies True False (his_neg opt s) = []" using not_wanted by (simp add: t neg_replies_def)
    have "wontoption opt s = set_his_state_wont opt (if opt = TELOPT_TM \<and> lmodetype t < NO_AUTOKLUDGE
        then send_will TELOPT_ECHO True (send_will TELOPT_SGA True (clientstat_linemode WONT (t\<lparr>lmodetype := NO_LINEMODE\<rparr>))) else t)"
      unfolding wontoption_def Let_def t_def [symmetric] using not_wanted by (simp add: neg_tests)
    then have "says ?X 16 [] t (wontoption opt s)"
      using says_emits [OF wont_tm_emits [of t NO_LINEMODE]] says_emits [OF emits_refl, of ?X 16 t] by simp
    then show ?thesis using not_wanted t n by (simp add: st Let_def)
  next
    case count
    have "wontoption opt s = set_his_state_wont opt t"
      unfolding wontoption_def Let_def t_def [symmetric] using count by (simp add: neg_tests)
    then show ?thesis using count t by (simp add: st Let_def neg_replies_def says_emits)
  qed
qed

section \<open>Commands about the server's options\<close>

lemma says_netflush:
  assumes "says X k bs s t"
  shows "says X k bs s (netflush t)"
  using says_post [OF assms emits_netflush [OF emits_refl], of 0] by simp

lemma cleanup_says [simp]: "says X k bs s (cleanup t) = says X k bs s t"
  by (simp add: says_def cleanup_def net_sent_def net_room_def net_ok_def)

lemma dooption_says:
  "says (my_extra opt) 13 (will_bytes opt (snd (my_spec (do_ok opt s) opt (Command True) (my_neg opt s)))) s (dooption opt s)"
proof -
  define t where "t = s\<lparr>will_wont_resp := resp_answer (will_wont_resp s) opt (my_state_is_will s opt)\<rparr>"
  have t: "my_neg opt t = (my_neg opt s)\<lparr>n_resp := neg_answered True (my_neg opt s)\<rparr>" by (simp add: t_def)
  have st: "says X k bs s u = says X k bs t u" "do_ok opt s = do_ok opt t" for X k bs u by (simp_all add: t_def)
  let ?X = "my_extra opt"
  show ?thesis
  proof (cases "n_resp (my_neg opt t) = 0 \<and> \<not> n_want (my_neg opt t)")
    case asked: True
    show ?thesis
    proof (cases "dooption_ask opt t")
      case (Consumed u)
      have d: "dooption opt s = u" unfolding dooption_def Let_def t_def [symmetric] using asked Consumed by (simp add: neg_tests)
      consider "opt = TELOPT_TM" | "opt = TELOPT_LOGOUT" using Consumed by (auto simp: dooption_ask_def Let_def split: if_splits)
      then show ?thesis
      proof cases
        case 1
        then have "says ?X 3 [IAC, WILL, opt] t u" using Consumed answer_says(3) [of ?X TELOPT_TM t] by (auto simp: dooption_ask_def)
        then show ?thesis using d 1 asked t says_more [of ?X 3 _ t u 13] by (simp add: st)
      next
        case 2
        have "says ?X 3 [IAC, WILL, opt] t u"
          using 2 Consumed answer_says(3) [of ?X TELOPT_LOGOUT "set_my_want_state_will TELOPT_LOGOUT t"]
            says_netflush [of ?X 3 "[IAC, WILL, TELOPT_LOGOUT]" t
              "set_my_state_will TELOPT_LOGOUT (send_will TELOPT_LOGOUT False (set_my_want_state_will TELOPT_LOGOUT t))"]
          by (auto simp: dooption_ask_def)
        moreover have "do_ok opt s" using 2 by (simp add: do_ok_def)
        ultimately show ?thesis using d 2 asked t says_more [of ?X 3 _ t u 13] by (simp add: st(1) neg_replies_def)
      qed
    next
      case (Decide ok f u)
      then have n: "opt \<noteq> TELOPT_TM" "opt \<noteq> TELOPT_LOGOUT" by (auto simp: dooption_ask_def)
      have ok: "ok = do_ok opt t" using dooption_ask_my [OF n, of t] Decide by auto
      have u: "emits ?X 10 t u"
        using Decide clientstat_emits [of opt t WONT] by (auto simp: dooption_ask_def my_extra_def Let_def split: if_splits)
      let ?v = "if ok then send_will opt False (set_my_want_state_will opt u)
        else send_wont opt False (u\<lparr>will_wont_resp := resp_incr (will_wont_resp u) opt\<rparr>)"
      have "says ?X 3 (will_bytes opt [ok]) u ?v"
        using answer_says(3) [of ?X opt "set_my_want_state_will opt u"]
          answer_says(4) [of ?X opt "u\<lparr>will_wont_resp := resp_incr (will_wont_resp u) opt\<rparr>"] by (cases ok) simp_all
      from says_pre [OF u this] have "says ?X 13 (will_bytes opt [ok]) t ?v" by simp
      moreover have "dooption opt s = set_my_state_will opt ?v"
        unfolding dooption_def Let_def t_def [symmetric] using asked Decide by (simp add: neg_tests)
      moreover have "neg_replies (do_ok opt s) True (my_neg opt s) = [ok]" using asked ok by (simp add: t st neg_replies_def)
      ultimately show ?thesis using n by (simp add: st(1))
    qed
  next
    case False
    have "dooption opt s = set_my_state_will opt t"
      unfolding dooption_def Let_def t_def [symmetric] using False by (auto simp: neg_tests)
    moreover have "neg_replies (do_ok opt s) True (my_neg opt s) = []" using False by (auto simp: t neg_replies_def)
    moreover have "\<not> (neg_answered True (my_neg opt s) = 0 \<and> \<not> n_want (my_neg opt s))" using False by (simp add: t)
    ultimately show ?thesis by (auto simp: st(1) says_emits)
  qed
qed

lemma dont_off_emits: "emits (my_extra opt) 10 s (dontoption_off opt s)"
  using clientstat_emits [of opt "s\<lparr>lmodetype := KLUDGE_LINEMODE\<rparr>" WILL] by (auto simp: dontoption_off_def my_extra_def)

lemma dontoption_says:
  "says (my_extra opt) 13 (will_bytes opt (snd (my_spec ok opt (Command False) (my_neg opt s)))) s (dontoption opt s)"
proof -
  define t where "t = s\<lparr>will_wont_resp := resp_answer (will_wont_resp s) opt (\<not> my_state_is_will s opt)\<rparr>"
  have t: "my_neg opt t = (my_neg opt s)\<lparr>n_resp := neg_answered False (my_neg opt s)\<rparr>" by (simp add: t_def)
  have st: "says X k bs s u = says X k bs t u" for X k bs u by (simp add: t_def)
  define u where "u = set_my_want_state_wont opt (dontoption_off opt t)"
  let ?X = "my_extra opt"
  have u: "emits ?X 10 t u" using dont_off_emits by (simp add: u_def)
  have w: "dontoption opt s = set_my_state_wont opt (if n_resp (my_neg opt t) = 0 \<and> n_want (my_neg opt t)
      then (if n_state (my_neg opt t) then send_wont opt False u else u) else t)"
    unfolding dontoption_def Let_def t_def [symmetric] by (simp add: u_def neg_tests)
  have "says ?X 13 (will_bytes opt [False]) t (send_wont opt False u)" using says_pre [OF u answer_says(4)] by simp
  then show ?thesis using w says_emits [OF emits_more [OF u, of 13]] says_emits [OF emits_refl, of ?X 13 t] t
    by (auto simp: st neg_replies_def)
qed

section \<open>The tables\<close>

lemma answered_tests:
  "resp_answer (do_dont_resp s) opt (n_state (his_neg opt s)) opt = neg_answered True (his_neg opt s)"
  "resp_answer (do_dont_resp s) opt (\<not> n_state (his_neg opt s)) opt = neg_answered False (his_neg opt s)"
  using resp_answer_his [of s opt True] resp_answer_his [of s opt False] by (simp_all add: neg_tests)

lemma his_tables: "his_neg opt (his_code opt ev s) = fst (his_spec opt ev (his_neg opt s))"
proof (cases ev)
  case (Request v)
  show ?thesis
  proof (cases "opt = TELOPT_TM \<and> v")
    case True
    then show ?thesis
      using Request by (simp add: his_code_def send_do_def neg_asks_def neg_initiate_def neg_tests resp_incr_def Let_def)
  qed (use Request in \<open>auto simp: his_code_def\<close>)
next
  case (Command v)
  show ?thesis
  proof (cases v)
    case True
    consider "opt = TELOPT_TM" | "opt = TELOPT_ECHO" | "opt \<noteq> TELOPT_TM" "opt \<noteq> TELOPT_ECHO" by blast
    then show ?thesis
    proof cases
      case 1
      then show ?thesis
        using Command True by (simp add: his_code_def willoption_unfold neg_receive_def answered_tests neg_tests will_ok_def Let_def)
    next
      case 2
      then show ?thesis
        using Command True by (simp add: his_code_def willoption_unfold neg_receive_def answered_tests neg_tests will_ok_def resp_incr_def Let_def)
    qed (use Command True in \<open>simp add: his_code_def willoption_his Let_def\<close>)
  next
    case False
    show ?thesis
    proof (cases "opt = TELOPT_TM")
      case True
      then show ?thesis using Command False by (simp add: his_code_def wontoption_def neg_receive_def answered_tests neg_tests Let_def)
    qed (use Command False in \<open>simp add: his_code_def wontoption_his Let_def\<close>)
  qed
qed

lemma my_tables: "my_neg opt (my_code opt ev s) = fst (my_spec (do_ok opt s) opt ev (my_neg opt s))"
proof (cases ev)
  case (Request v)
  then show ?thesis by (simp add: my_code_def)
next
  case (Command v)
  show ?thesis
  proof (cases "v \<and> opt \<in> {TELOPT_TM, TELOPT_LOGOUT}")
    case True
    define t where "t = s\<lparr>will_wont_resp := resp_answer (will_wont_resp s) opt (my_state_is_will s opt)\<rparr>"
    have t: "my_neg opt t = (my_neg opt s)\<lparr>n_resp := neg_answered True (my_neg opt s)\<rparr>" by (simp add: t_def)
    have "my_neg opt (dooption opt s) = fst (my_spec (do_ok opt s) opt (Command True) (my_neg opt s))"
      unfolding dooption_def Let_def t_def [symmetric]
      using True t by (auto simp: dooption_ask_def do_ok_def neg_receive_def answered_tests neg_tests Let_def)
    then show ?thesis using Command True by (simp add: my_code_def)
  qed (use Command in \<open>auto simp: my_code_def dooption_my dontoption_my\<close>)
qed

section \<open>Properties\<close>

lemma his_says: "says (his_extra opt) 16 (do_bytes opt (snd (his_spec opt ev (his_neg opt s)))) s (his_code opt ev s)"
proof (cases ev)
  case (Request v)
  have "snd (his_spec opt ev (his_neg opt s)) = neg_asks v (his_neg opt s)" using Request by (auto simp: neg_asks_def)
  then show ?thesis using Request ask_says(1,2) [of "his_extra opt" opt s] says_more [of _ 3 _ _ _ 16] by (simp add: his_code_def)
next
  case (Command v)
  then show ?thesis
    using willoption_says [of opt s] wontoption_says [of opt s] says_more [of _ 15 _ _ _ 16] by (cases v) (simp_all add: his_code_def)
qed

lemma my_says: "says (my_extra opt) 16 (will_bytes opt (snd (my_spec (do_ok opt s) opt ev (my_neg opt s)))) s (my_code opt ev s)"
proof (cases ev)
  case (Request v)
  then show ?thesis using ask_says(3,4) [of "my_extra opt" opt s] says_more [of _ 3 _ _ _ 16] by (simp add: my_code_def)
next
  case (Command v)
  then show ?thesis
    using dooption_says [of opt s] dontoption_says [of opt "do_ok opt s" s] says_more [of _ 13 _ _ _ 16] by (cases v) (simp_all add: my_code_def)
qed

text \<open>
  (C7) The negotiation of the server is that of the machine described in its source, for every option and on either
  side.  A request, \<open>send_do\<close>, \<open>send_dont\<close>, \<open>send_will\<close> or \<open>send_wont\<close>, and a command
  of the client, WILL, WONT, DO or DONT, change the state of the option as the step of the machine says, and the bytes sent are
  the command that this step sends, exactly once; nothing else is sent, except that a
  command about LINEMODE, LFLOW or SGA, or an answer to a timing mark, may also send the modes that result from it.  The buffer has room for
  16 bytes.
\<close>

theorem negotiation_refines:
  assumes "net_room 16 s"
  shows "his_neg opt (his_code opt ev s) = fst (his_spec opt ev (his_neg opt s))
    \<and> my_neg opt (my_code opt ev s) = fst (my_spec (do_ok opt s) opt ev (my_neg opt s))
    \<and> (\<exists>ps qs. set ps \<union> set qs \<subseteq> his_extra opt \<and> net_sent (his_code opt ev s)
          = net_sent s @ concat ps @ do_bytes opt (snd (his_spec opt ev (his_neg opt s))) @ concat qs)
    \<and> (\<exists>ps qs. set ps \<union> set qs \<subseteq> my_extra opt \<and> net_sent (my_code opt ev s)
          = net_sent s @ concat ps @ will_bytes opt (snd (my_spec (do_ok opt s) opt ev (my_neg opt s))) @ concat qs)"
  using his_says [of opt ev s] my_says [of opt s ev] assms his_tables my_tables unfolding says_def Un_subset_iff
  by (metis add_0)

theorem negotiation_refines_witness:
  "net_sent (his_code TELOPT_NAWS (Command True) (telnetd_start zero_termios)) = [IAC, DO, TELOPT_NAWS]
   \<and> net_sent (my_code TELOPT_NAWS (Command True) (telnetd_start zero_termios)) = [IAC, WONT, TELOPT_NAWS]
   \<and> his_neg TELOPT_NAWS (his_code TELOPT_NAWS (Command True) (telnetd_start zero_termios)) = \<lparr>n_state = True, n_want = True, n_resp = 0\<rparr>"
proof -
  have r: "net_room 16 (telnetd_start zero_termios)" by simp
  have e: "his_extra TELOPT_NAWS = {}" "my_extra TELOPT_NAWS = {}" "\<not> do_ok TELOPT_NAWS (telnetd_start zero_termios)" "will_ok TELOPT_NAWS"
    by (simp_all add: his_extra_def my_extra_def do_ok_def will_ok_def)
  show ?thesis
    using negotiation_refines [OF r, of TELOPT_NAWS "Command True"] e
    by (simp add: neg_receive_def neg_replies_def neg_answered_def Let_def)
qed

text \<open>
  The comment in the source also sends the negative answer when a request of the server is refused; the program does not, as the
  option was not in force.
\<close>

theorem refusal_not_confirmed:
  assumes "net_room 16 s" "opt \<notin> {TELOPT_TM, TELOPT_LINEMODE, TELOPT_LFLOW}" "his_neg opt s = \<lparr>n_state = False, n_want = True, n_resp = 1\<rparr>"
  shows "net_sent (wontoption opt s) = net_sent s \<and> his_neg opt (wontoption opt s) = \<lparr>n_state = False, n_want = False, n_resp = 0\<rparr>"
proof -
  have "his_extra opt = {}" "his_code opt (Command False) s = wontoption opt s" using assms(2) by (simp_all add: his_extra_def his_code_def)
  then show ?thesis
    using his_tables [of opt "Command False" s] his_says [of opt "Command False" s] assms unfolding says_def
    by (force simp: neg_receive_def neg_replies_def neg_answered_def Let_def dest: spec [of _ 0])
qed

end
