(* ===== verification/Telnet_Client.thy ===== *)
theory Telnet_Client
  imports Telnet_Proto
begin

text \<open>
  The TELNET client, \<open>telnet/\<close>: its variables as one record, the output rings and the macros that fill
  them (\<open>defines.h\<close>), the option bits (\<open>externs.h\<close>), the mode of the terminal (\<open>terminal.c\<close>) and the
  requests of \<open>telnet.c\<close>.

  A ring is the list of the bytes it holds, which is what \<open>Ring_Buffer\<close> shows it to be.  The macro
  \<open>NETADD\<close> does not look whether there is room: one byte more in a full ring moves the supply pointer past
  the consume pointer, and the ring then counts as holding that byte only.  Input rings are lists of
  the pieces that are consecutive in memory.  \<open>ring_supply_data\<close> is only called after a test of the room.
  Of the terminal only the mode and the bytes written to it are kept, not its \<open>termios\<close> settings; the
  messages to the user are left out.  The build has \<open>KLUDGELINEMODE\<close> and \<open>USE_TERMIO\<close>, and neither \<open>TN3270\<close>,
  \<open>OLD_ENVIRON\<close>, \<open>AUTHENTICATION\<close> nor \<open>ENCRYPTION\<close>.
\<close>

section \<open>State\<close>

record tn_clocks =
  tn_system :: int
  tn_echotoggle :: int
  tn_modenegotiated :: int
  tn_didnetreceive :: int
  tn_gotDM :: int

datatype tn_tstate = TN_DATA | TN_IAC | TN_WILL | TN_WONT | TN_DO | TN_DONT | TN_CR | TN_SB | TN_SE

text \<open>An entry of \<open>spc_data\<close>; \<open>valp\<close> points to a character of the terminal or is null.\<close>

record spc =
  spc_val :: byte
  spc_valp :: bool
  spc_flags :: byte
  spc_mylevel :: byte

record env_lst =
  ev_var :: "byte list"
  ev_value :: "byte list"
  ev_export :: bool
  ev_welldefined :: bool

datatype slc_modes = SLC_IMPORT | SLC_EXPORT | SLC_RVALUE

record telnet =
  tn_options :: "byte \<Rightarrow> byte"
  tn_do_dont_resp :: "byte \<Rightarrow> byte"
  tn_will_wont_resp :: "byte \<Rightarrow> byte"
  netoring :: "byte list"
  tn_wire :: "byte list"
  netmark :: "nat option"
  ttyoring :: "byte list"
  tty_written :: "byte list"
  netiring :: "byte list list"
  ttyiring :: "byte list list"
  telrcv_state :: tn_tstate
  SYNCHing :: bool
  flushout :: bool
  flushline :: bool
  crmod :: bool
  crlf :: bool
  autoflush :: bool
  autosynch :: bool
  localflow :: bool
  restartany :: int
  localchars :: bool
  dontlecho :: bool
  kludgelinemode :: bool
  tn_linemode :: byte
  globalmode :: u32
  prevmode :: u32
  tn_clk :: tn_clocks
  tn_subbuffer :: "byte list"
  tn_subpointer :: nat
  tn_subend :: nat
  spc_data :: "nat \<Rightarrow> spc"
  slc_mode :: slc_modes
  slc_reply :: "byte list"
  old_cc :: "nat \<Rightarrow> byte"
  new_cc :: "nat \<Rightarrow> byte"
  envlist :: "env_lst list"
  want_status_response :: int
  opt_reply :: "byte list"
  opt_cap :: nat
  tnames :: "byte list list"
  tnext :: nat
  escape_c :: byte
  rlogin_c :: byte
  echoc :: byte
  bol :: bool
  tn_local :: bool

section \<open>Rings\<close>

abbreviation (input) NETOBUF :: nat where "NETOBUF \<equiv> 16384"
abbreviation (input) TTYOBUF :: nat where "TTYOBUF \<equiv> 16384"

text \<open>One byte put at the supply pointer of a ring of \<open>n\<close> bytes.\<close>

definition ring_put :: "nat \<Rightarrow> byte \<Rightarrow> byte list \<Rightarrow> byte list" where
  "ring_put n c xs = (if length xs < n then xs @ [c] else [c])"

definition NETADD :: "byte \<Rightarrow> telnet \<Rightarrow> telnet" where
  "NETADD c s = s\<lparr>netoring := ring_put NETOBUF c (netoring s)\<rparr>"

definition NET2ADD :: "byte \<Rightarrow> byte \<Rightarrow> telnet \<Rightarrow> telnet" where
  "NET2ADD c1 c2 s = NETADD c2 (NETADD c1 s)"

definition NETROOM :: "telnet \<Rightarrow> nat" where
  "NETROOM s = NETOBUF - length (netoring s)"

definition TTYADD :: "byte \<Rightarrow> telnet \<Rightarrow> telnet" where
  "TTYADD c s =
     (if SYNCHing s \<or> flushout s then s else s\<lparr>ttyoring := ring_put TTYOBUF c (ttyoring s)\<rparr>)"

definition TTYROOM :: "telnet \<Rightarrow> nat" where
  "TTYROOM s = TTYOBUF - length (ttyoring s)"

text \<open>\<open>ring_supply_data (&netoring, ...)\<close>, where there is room.\<close>

definition net_supply :: "byte list \<Rightarrow> telnet \<Rightarrow> telnet" where
  "net_supply bs s = s\<lparr>netoring := netoring s @ bs\<rparr>"

text \<open>\<open>ttyflush\<close> until the ring is empty: its bytes are written to the terminal, or dropped.\<close>

definition ttyflush :: "bool \<Rightarrow> telnet \<Rightarrow> telnet" where
  "ttyflush drp s =
     s\<lparr>tty_written := (if drp then tty_written s else tty_written s @ ttyoring s), ttyoring := []\<rparr>"

text \<open>\<open>netflush\<close> when the socket takes \<open>n\<close> bytes of the ring; \<open>netmark\<close> is the index of the byte that is
  sent out of band.\<close>

definition tn_netflush :: "nat \<Rightarrow> telnet \<Rightarrow> telnet" where
  "tn_netflush n s =
     s\<lparr>tn_wire := tn_wire s @ take n (netoring s), netoring := drop n (netoring s),
       netmark := (case netmark s of None \<Rightarrow> None | Some m \<Rightarrow> if m < n then None else Some (m - n))\<rparr>"

definition tn_settimer :: "(int \<Rightarrow> tn_clocks \<Rightarrow> tn_clocks) \<Rightarrow> telnet \<Rightarrow> telnet" where
  "tn_settimer upd s =
     (let t = tn_system (tn_clk s) in s\<lparr>tn_clk := upd t ((tn_clk s)\<lparr>tn_system := t + 1\<rparr>)\<rparr>)"

abbreviation (input) modenegotiated_now :: "telnet \<Rightarrow> telnet" where
  "modenegotiated_now \<equiv> tn_settimer (\<lambda>t c. c\<lparr>tn_modenegotiated := t\<rparr>)"

section \<open>Option bits\<close>

abbreviation (input) TN_MY_STATE_WILL :: byte where "TN_MY_STATE_WILL \<equiv> 0x01"
abbreviation (input) TN_MY_WANT_STATE_WILL :: byte where "TN_MY_WANT_STATE_WILL \<equiv> 0x02"
abbreviation (input) TN_MY_STATE_DO :: byte where "TN_MY_STATE_DO \<equiv> 0x04"
abbreviation (input) TN_MY_WANT_STATE_DO :: byte where "TN_MY_WANT_STATE_DO \<equiv> 0x08"

definition tn_is :: "byte \<Rightarrow> byte \<Rightarrow> telnet \<Rightarrow> bool" where
  "tn_is m opt s \<longleftrightarrow> tn_options s opt AND m \<noteq> 0"

definition tn_set :: "byte \<Rightarrow> byte \<Rightarrow> telnet \<Rightarrow> telnet" where
  "tn_set m opt s = s\<lparr>tn_options := (tn_options s)(opt := tn_options s opt OR m)\<rparr>"

definition tn_clear :: "byte \<Rightarrow> byte \<Rightarrow> telnet \<Rightarrow> telnet" where
  "tn_clear m opt s = s\<lparr>tn_options := (tn_options s)(opt := tn_options s opt AND NOT m)\<rparr>"

abbreviation "tn_my_state_is_do opt s \<equiv> tn_is TN_MY_STATE_DO opt s"
abbreviation "tn_my_state_is_will opt s \<equiv> tn_is TN_MY_STATE_WILL opt s"
abbreviation "tn_my_want_state_is_do opt s \<equiv> tn_is TN_MY_WANT_STATE_DO opt s"
abbreviation "tn_my_want_state_is_will opt s \<equiv> tn_is TN_MY_WANT_STATE_WILL opt s"

section \<open>The mode of the connection\<close>

abbreviation (input) TN_MODE_FLOW :: u32 where "TN_MODE_FLOW \<equiv> 0x0100"
abbreviation (input) TN_MODE_ECHO :: u32 where "TN_MODE_ECHO \<equiv> 0x0200"
abbreviation (input) TN_MODE_INBIN :: u32 where "TN_MODE_INBIN \<equiv> 0x0400"
abbreviation (input) TN_MODE_OUTBIN :: u32 where "TN_MODE_OUTBIN \<equiv> 0x0800"
abbreviation (input) TN_MODE_FORCE :: u32 where "TN_MODE_FORCE \<equiv> 0x1000"
abbreviation (input) TN_MODE_EDIT :: u32 where "TN_MODE_EDIT \<equiv> 0x01"
abbreviation (input) TN_MODE_TRAPSIG :: u32 where "TN_MODE_TRAPSIG \<equiv> 0x02"

definition MODE_LOCAL_CHARS :: "u32 \<Rightarrow> bool" where
  "MODE_LOCAL_CHARS m \<longleftrightarrow> m AND (TN_MODE_EDIT OR TN_MODE_TRAPSIG) \<noteq> 0"

definition getconnmode :: "telnet \<Rightarrow> u32" where
  "getconnmode s =
     (let mode = (if \<not> tn_my_want_state_is_do TELOPT_ECHO s then TN_MODE_ECHO else 0)
            OR (if localflow s then TN_MODE_FLOW else 0)
            OR (if tn_my_want_state_is_will TELOPT_BINARY s then TN_MODE_INBIN else 0)
            OR (if tn_my_want_state_is_do TELOPT_BINARY s then TN_MODE_OUTBIN else 0)
      in if kludgelinemode s then
           (if \<not> tn_my_want_state_is_do TELOPT_SGA s then
              let m = mode OR (TN_MODE_TRAPSIG OR TN_MODE_EDIT)
              in if dontlecho s \<and> tn_echotoggle (tn_clk s) > tn_modenegotiated (tn_clk s)
                 then m AND NOT TN_MODE_ECHO else m
            else mode)
         else if tn_my_want_state_is_will TELOPT_LINEMODE s then mode OR ucast (tn_linemode s)
         else mode)"

definition TerminalNewMode :: "u32 \<Rightarrow> telnet \<Rightarrow> telnet" where
  "TerminalNewMode f s =
     (let s1 = s\<lparr>globalmode := f AND NOT TN_MODE_FORCE\<rparr>
      in if prevmode s1 = f then s1
         else (ttyflush (SYNCHing s1 \<or> flushout s1) s1)
           \<lparr>prevmode := f AND NOT TN_MODE_FORCE, localchars := f AND TN_MODE_TRAPSIG \<noteq> 0\<rparr>)"

definition setconnmode :: "bool \<Rightarrow> telnet \<Rightarrow> telnet" where
  "setconnmode frc s = TerminalNewMode (getconnmode s OR (if frc then TN_MODE_FORCE else 0)) s"

definition setcommandmode :: "telnet \<Rightarrow> telnet" where
  "setcommandmode s = TerminalNewMode (- 1) s"

section \<open>Requests\<close>

definition tn_incr :: "(byte \<Rightarrow> byte) \<Rightarrow> byte \<Rightarrow> byte \<Rightarrow> byte" where
  "tn_incr r opt = r(opt := r opt + 1)"

definition tn_send_do :: "byte \<Rightarrow> bool \<Rightarrow> telnet \<Rightarrow> telnet" where
  "tn_send_do c init s =
     (if init then
        if tn_do_dont_resp s c = 0 \<and> tn_my_state_is_do c s \<or> tn_my_want_state_is_do c s then s
        else
          let s1 = tn_set TN_MY_WANT_STATE_DO c s;
              s2 = s1\<lparr>tn_do_dont_resp := tn_incr (tn_do_dont_resp s1) c\<rparr>
          in NETADD c (NET2ADD IAC DO s2)
      else NETADD c (NET2ADD IAC DO s))"

definition tn_send_dont :: "byte \<Rightarrow> bool \<Rightarrow> telnet \<Rightarrow> telnet" where
  "tn_send_dont c init s =
     (if init then
        if tn_do_dont_resp s c = 0 \<and> \<not> tn_my_state_is_do c s \<or> \<not> tn_my_want_state_is_do c s then s
        else
          let s1 = tn_clear TN_MY_WANT_STATE_DO c s;
              s2 = s1\<lparr>tn_do_dont_resp := tn_incr (tn_do_dont_resp s1) c\<rparr>
          in NETADD c (NET2ADD IAC DONT s2)
      else NETADD c (NET2ADD IAC DONT s))"

definition tn_send_will :: "byte \<Rightarrow> bool \<Rightarrow> telnet \<Rightarrow> telnet" where
  "tn_send_will c init s =
     (if init then
        if tn_will_wont_resp s c = 0 \<and> tn_my_state_is_will c s \<or> tn_my_want_state_is_will c s then s
        else
          let s1 = tn_set TN_MY_WANT_STATE_WILL c s;
              s2 = s1\<lparr>tn_will_wont_resp := tn_incr (tn_will_wont_resp s1) c\<rparr>
          in NETADD c (NET2ADD IAC WILL s2)
      else NETADD c (NET2ADD IAC WILL s))"

definition tn_send_wont :: "byte \<Rightarrow> bool \<Rightarrow> telnet \<Rightarrow> telnet" where
  "tn_send_wont c init s =
     (if init then
        if tn_will_wont_resp s c = 0 \<and> \<not> tn_my_state_is_will c s \<or> \<not> tn_my_want_state_is_will c s then s
        else
          let s1 = tn_clear TN_MY_WANT_STATE_WILL c s;
              s2 = s1\<lparr>tn_will_wont_resp := tn_incr (tn_will_wont_resp s1) c\<rparr>
          in NETADD c (NET2ADD IAC WONT s2)
      else NETADD c (NET2ADD IAC WONT s))"

definition tel_enter_binary :: "bool \<Rightarrow> bool \<Rightarrow> telnet \<Rightarrow> telnet" where
  "tel_enter_binary r w s =
     (let s1 = (if r then tn_send_do TELOPT_BINARY True s else s)
      in if w then tn_send_will TELOPT_BINARY True s1 else s1)"

definition tel_leave_binary :: "bool \<Rightarrow> bool \<Rightarrow> telnet \<Rightarrow> telnet" where
  "tel_leave_binary r w s =
     (let s1 = (if r then tn_send_dont TELOPT_BINARY True s else s)
      in if w then tn_send_wont TELOPT_BINARY True s1 else s1)"

text \<open>The variables at the start (\<open>init_telnet\<close> and the initialisers), with the characters of the terminal
  and the environment.\<close>

definition telnet_start :: "(nat \<Rightarrow> byte) \<Rightarrow> env_lst list \<Rightarrow> telnet" where
  "telnet_start cc env =
     \<lparr>tn_options = \<lambda>_. 0, tn_do_dont_resp = \<lambda>_. 0, tn_will_wont_resp = \<lambda>_. 0, netoring = [], tn_wire = [],
      netmark = None, ttyoring = [], tty_written = [], netiring = [], ttyiring = [], telrcv_state = TN_DATA,
      SYNCHing = False, flushout = False, flushline = True, crmod = False, crlf = False, autoflush = True,
      autosynch = False, localflow = False, restartany = -1, localchars = False, dontlecho = False,
      kludgelinemode = True, tn_linemode = 0, globalmode = 0, prevmode = 0,
      tn_clk = \<lparr>tn_system = 0, tn_echotoggle = 0, tn_modenegotiated = 0, tn_didnetreceive = 0, tn_gotDM = 0\<rparr>,
      tn_subbuffer = replicate 256 0, tn_subpointer = 0, tn_subend = 0,
      spc_data = \<lambda>_. \<lparr>spc_val = 0, spc_valp = False, spc_flags = 0, spc_mylevel = 0\<rparr>, slc_mode = SLC_EXPORT,
      slc_reply = [], old_cc = cc, new_cc = cc, envlist = env, want_status_response = 0,
      opt_reply = [], opt_cap = 0, tnames = [], tnext = 0, escape_c = 29, rlogin_c = VDISABLE, echoc = 5, bol = True,
      tn_local = False\<rparr>"

end
