(* ===== verification/Telnet_Client_Slc.thy ===== *)
theory Telnet_Client_Slc
  imports Telnet_Client
begin

text \<open>
  Line mode in the TELNET client: the special characters (\<open>slc_*\<close>) and the answers to the LINEMODE
  suboptions (\<open>lm_*\<close>) of \<open>telnet.c\<close>.  The characters of the terminal are \<open>new_cc\<close>, indexed by the function
  they have; \<open>old_cc\<close> are those found at the start.  The reply is collected in the array \<open>slc_reply\<close> of 128
  bytes, whose end the program does not check; here it is the list of the bytes stored.
\<close>

section \<open>The reply\<close>

abbreviation (input) SLC_REPLY_SIZE :: nat where "SLC_REPLY_SIZE \<equiv> 128"

definition slc_start_reply :: "telnet \<Rightarrow> telnet" where
  "slc_start_reply s = s\<lparr>slc_reply := [IAC, SB, TELOPT_LINEMODE, LM_SLC]\<rparr>"

definition slc_store :: "byte \<Rightarrow> byte list \<Rightarrow> byte list" where
  "slc_store c r = (if c = IAC then r @ [c, IAC] else r @ [c])"

definition slc_add_reply :: "byte \<Rightarrow> byte \<Rightarrow> byte \<Rightarrow> telnet \<Rightarrow> telnet" where
  "slc_add_reply func flags val s =
     s\<lparr>slc_reply := slc_store val (slc_store flags (slc_store func (slc_reply s)))\<rparr>"

definition slc_end_reply :: "telnet \<Rightarrow> telnet" where
  "slc_end_reply s =
     (let s1 = s\<lparr>slc_reply := slc_reply s @ [IAC, SE]\<rparr>; len = length (slc_reply s1)
      in if len \<le> 6 then s1
         else if NETROOM s1 > len then net_supply (slc_reply s1) s1
         else s1)"

section \<open>The special characters\<close>

text \<open>The functions with a character of the terminal (\<open>tcval\<close>): all but SYNCH, BRK, AYT and EOR.\<close>

definition tcval :: "nat \<Rightarrow> bool" where
  "tcval func \<longleftrightarrow> func \<in> {SLC_IP, SLC_ABORT, SLC_EOF, SLC_EC, SLC_EL, SLC_XON, SLC_XOFF, SLC_FORW1, SLC_FORW2,
     SLC_AO, SLC_SUSP, SLC_EW, SLC_RP, SLC_LNEXT}"

definition slc_initfunc :: "(nat \<Rightarrow> byte) \<Rightarrow> nat \<Rightarrow> byte \<Rightarrow> (nat \<Rightarrow> spc) \<Rightarrow> nat \<Rightarrow> spc" where
  "slc_initfunc cc func flags d =
     d(func := (if tcval func
       then (d func)\<lparr>spc_valp := True, spc_val := cc func, spc_mylevel := SLC_VARIABLE OR flags\<rparr>
       else (d func)\<lparr>spc_valp := False, spc_val := 0, spc_mylevel := SLC_DEFAULT\<rparr>))"

definition slc_functions :: "(nat \<times> byte) list" where
  "slc_functions =
     [(SLC_SYNCH, 0), (SLC_AO, 0), (SLC_AYT, 0), (SLC_ABORT, SLC_FLUSHIN OR SLC_FLUSHOUT), (SLC_EOF, 0),
      (SLC_SUSP, SLC_FLUSHIN), (SLC_EC, 0), (SLC_EL, 0), (SLC_EW, 0), (SLC_RP, 0), (SLC_LNEXT, 0),
      (SLC_XON, 0), (SLC_XOFF, 0), (SLC_FORW1, 0), (SLC_FORW2, 0), (SLC_IP, SLC_FLUSHIN OR SLC_FLUSHOUT)]"

definition TerminalDefaultChars :: "telnet \<Rightarrow> telnet" where
  "TerminalDefaultChars s = s\<lparr>new_cc := old_cc s\<rparr>"

text \<open>One entry of the loop of \<open>slc_update\<close>: an acknowledged value is put into effect.\<close>

definition slc_update_one :: "nat \<Rightarrow> bool \<times> telnet \<Rightarrow> bool \<times> telnet" where
  "slc_update_one i st =
     (case st of
        (need, s) \<Rightarrow>
          let p = spc_data s i
          in if spc_flags p AND SLC_ACK = 0 then (need, s)
             else
               let s1 = s\<lparr>spc_data := (spc_data s)(i := p\<lparr>spc_flags := spc_flags p AND NOT SLC_ACK\<rparr>)\<rparr>
               in if spc_valp p \<and> new_cc s1 i \<noteq> spc_val p
                  then (True, s1\<lparr>new_cc := (new_cc s1)(i := spc_val p)\<rparr>) else (need, s1))"

definition slc_update :: "telnet \<Rightarrow> bool \<times> telnet" where
  "slc_update s = fold slc_update_one [1..<NSLC + 1] (False, s)"

definition slc_export_one :: "nat \<Rightarrow> telnet \<Rightarrow> telnet" where
  "slc_export_one i s =
     (let p = spc_data s i
      in if spc_mylevel p = SLC_NOSUPPORT then s
         else
           let p1 = p\<lparr>spc_flags := (if spc_val p = VDISABLE then SLC_NOSUPPORT else spc_mylevel p),
                      spc_val := (if spc_valp p then new_cc s i else spc_val p)\<rparr>
           in slc_add_reply (of_nat i) (spc_flags p1) (spc_val p1) (s\<lparr>spc_data := (spc_data s)(i := p1)\<rparr>))"

definition slc_export :: "telnet \<Rightarrow> telnet" where
  "slc_export s =
     (let s1 = slc_start_reply (TerminalDefaultChars s);
          s2 = slc_end_reply (fold slc_export_one [1..<NSLC + 1] s1)
      in setconnmode True (snd (slc_update s2)))"

definition slc_import :: "bool \<Rightarrow> telnet \<Rightarrow> telnet" where
  "slc_import def s =
     (if NETROOM s > 9 then
        net_supply [IAC, SB, TELOPT_LINEMODE, LM_SLC, 0, if def then SLC_DEFAULT else SLC_VARIABLE, 0, IAC, SE] s
      else s)"

definition slc_init :: "telnet \<Rightarrow> telnet" where
  "slc_init s =
     (let d0 = \<lambda>_. \<lparr>spc_val = 0, spc_valp = False, spc_flags = SLC_NOSUPPORT, spc_mylevel = SLC_NOSUPPORT\<rparr>;
          s1 = s\<lparr>localchars := True,
             spc_data := fold (\<lambda>(f, fl). slc_initfunc (new_cc s) f fl) slc_functions d0\<rparr>
      in if slc_mode s1 = SLC_EXPORT then slc_export s1 else slc_import True s1)"

definition slc_mode_export :: "telnet \<Rightarrow> telnet" where
  "slc_mode_export s =
     (let s1 = s\<lparr>slc_mode := SLC_EXPORT\<rparr>
      in if tn_my_state_is_will TELOPT_LINEMODE s1 then slc_export s1 else s1)"

definition slc_mode_import :: "bool \<Rightarrow> telnet \<Rightarrow> telnet" where
  "slc_mode_import def s =
     (let s1 = s\<lparr>slc_mode := (if def then SLC_IMPORT else SLC_RVALUE)\<rparr>
      in if tn_my_state_is_will TELOPT_LINEMODE s1 then slc_import def s1 else s1)"

text \<open>One triplet of an SLC suboption.\<close>

definition slc_triplet :: "byte \<Rightarrow> byte \<Rightarrow> byte \<Rightarrow> telnet \<Rightarrow> telnet" where
  "slc_triplet func fl val s =
     (if func = 0 then s
      else if unat func > NSLC then
        (if fl AND SLC_LEVELBITS \<noteq> SLC_NOSUPPORT then slc_add_reply func SLC_NOSUPPORT 0 s else s)
      else
        let i = unat func; p = spc_data s i; level = fl AND (SLC_LEVELBITS OR SLC_ACK)
        in if val = spc_val p \<and> level AND SLC_LEVELBITS = spc_flags p AND SLC_LEVELBITS then s
           else
             let fl1 = (if level = SLC_DEFAULT OR SLC_ACK then fl AND NOT SLC_ACK else fl)
             in if level = (spc_flags p AND SLC_LEVELBITS) OR SLC_ACK
                then s\<lparr>spc_data := (spc_data s)(i := p\<lparr>spc_val := val, spc_flags := fl1\<rparr>)\<rparr>
                else
                  let level1 = level AND NOT SLC_ACK;
                      p1 = (if level1 \<le> spc_mylevel p AND SLC_LEVELBITS
                            then p\<lparr>spc_flags := fl1 OR SLC_ACK, spc_val := val\<rparr> else p);
                      p2 = (if level1 = SLC_DEFAULT
                            then p1\<lparr>spc_flags := (if spc_mylevel p1 AND SLC_LEVELBITS \<noteq> SLC_DEFAULT
                              then spc_mylevel p1 else SLC_NOSUPPORT)\<rparr> else p1)
                  in slc_add_reply func (spc_flags p2) (spc_val p2) (s\<lparr>spc_data := (spc_data s)(i := p2)\<rparr>))"

fun slc_triplets :: "byte list \<Rightarrow> telnet \<Rightarrow> telnet" where
  "slc_triplets (func # fl # val # bs) s = slc_triplets bs (slc_triplet func fl val s)"
| "slc_triplets _ s = s"

definition tn_slc :: "byte list \<Rightarrow> telnet \<Rightarrow> telnet" where
  "tn_slc bs s =
     (case slc_update (slc_end_reply (slc_triplets bs (slc_start_reply s))) of
        (need, s1) \<Rightarrow> if need then setconnmode True s1 else s1)"

definition slc_check_one :: "nat \<Rightarrow> telnet \<Rightarrow> telnet" where
  "slc_check_one i s =
     (let p = spc_data s i
      in if spc_valp p \<and> spc_val p \<noteq> new_cc s i then
           let v = new_cc s i;
               p1 = p\<lparr>spc_val := v, spc_flags := (if v = VDISABLE then SLC_NOSUPPORT else spc_mylevel p)\<rparr>
           in slc_add_reply (of_nat i) (spc_flags p1) v (s\<lparr>spc_data := (spc_data s)(i := p1)\<rparr>)
         else s)"

definition tn_slc_check :: "telnet \<Rightarrow> telnet" where
  "tn_slc_check s =
     setconnmode True (slc_end_reply (fold slc_check_one [1..<NSLC + 1] (slc_start_reply s)))"

section \<open>LINEMODE suboptions\<close>

text \<open>WILL and DO of a line mode feature are refused, WONT and DONT need no answer.\<close>

definition lm_refuse :: "byte \<Rightarrow> byte list \<Rightarrow> telnet \<Rightarrow> telnet" where
  "lm_refuse answer cmd s =
     (case cmd of
        [] \<Rightarrow> s
      | c # _ \<Rightarrow> if NETROOM s > 7 then net_supply [IAC, SB, TELOPT_LINEMODE, answer, c, IAC, SE] s else s)"

definition lm_will :: "byte list \<Rightarrow> telnet \<Rightarrow> telnet" where
  "lm_will = lm_refuse DONT"

definition lm_do :: "byte list \<Rightarrow> telnet \<Rightarrow> telnet" where
  "lm_do = lm_refuse WONT"

definition lm_mode :: "byte list \<Rightarrow> bool \<Rightarrow> telnet \<Rightarrow> telnet" where
  "lm_mode cmd init s =
     (case cmd of
        [c] \<Rightarrow>
          if tn_linemode s AND MODE_MASK AND NOT MODE_ACK = c \<or> c AND MODE_ACK \<noteq> 0 then s
          else
            let m = c AND (MODE_MASK AND NOT MODE_ACK);
                s1 = s\<lparr>tn_linemode := m\<rparr>;
                out = [IAC, SB, TELOPT_LINEMODE, LM_MODE, if init then m else m OR MODE_ACK, IAC, SE]
            in setconnmode False (if NETROOM s1 > 7 then net_supply out s1 else s1)
      | _ \<Rightarrow> s)"

end
