(* ===== verification/Telnet_Client_Options.thy ===== *)
theory Telnet_Client_Options
  imports Telnet_Client_Slc
begin

text \<open>
  The option commands of the TELNET client (\<open>willoption\<close>, \<open>wontoption\<close>, \<open>dooption\<close>, \<open>dontoption\<close> of
  \<open>telnet.c\<close>) and the requests it makes at the start (\<open>telnet\<close>), with the proof that they implement the
  negotiation machine of \<open>Telnet_Proto\<close>.
\<close>

section \<open>The environment list\<close>

definition env_find :: "byte list \<Rightarrow> telnet \<Rightarrow> env_lst option" where
  "env_find var s = find (\<lambda>ep. ev_var ep = var) (envlist s)"

definition env_getvalue :: "byte list \<Rightarrow> telnet \<Rightarrow> byte list option" where
  "env_getvalue var s = map_option ev_value (env_find var s)"

abbreviation (input) V_DISPLAY :: "byte list" where "V_DISPLAY \<equiv> [68, 73, 83, 80, 76, 65, 89]"

section \<open>Commands\<close>

text \<open>An answer is counted off; a second request that the answer makes superfluous is, too.\<close>

definition tn_answer :: "(byte \<Rightarrow> byte) \<Rightarrow> byte \<Rightarrow> bool \<Rightarrow> byte \<Rightarrow> byte" where
  "tn_answer r opt same =
     (if r opt \<noteq> 0 then
        let r1 = r(opt := r opt - 1)
        in if r1 opt \<noteq> 0 \<and> same then r1(opt := r1 opt - 1) else r1
      else r)"

definition tn_will_ok :: "byte \<Rightarrow> bool" where
  "tn_will_ok opt \<longleftrightarrow> opt \<in> {TELOPT_ECHO, TELOPT_BINARY, TELOPT_SGA, TELOPT_STATUS}"

definition tn_willoption :: "byte \<Rightarrow> telnet \<Rightarrow> telnet" where
  "tn_willoption opt s0 =
     (let s = s0\<lparr>tn_do_dont_resp := tn_answer (tn_do_dont_resp s0) opt (tn_my_state_is_do opt s0)\<rparr>
      in if tn_do_dont_resp s opt = 0 \<and> \<not> tn_my_want_state_is_do opt s then
           if opt = TELOPT_TM then
             tn_clear TN_MY_STATE_DO opt (tn_clear TN_MY_WANT_STATE_DO opt (s\<lparr>flushout := False\<rparr>))
           else
             let s1 = (if opt \<in> {TELOPT_ECHO, TELOPT_BINARY, TELOPT_SGA} then modenegotiated_now s else s)
             in tn_set TN_MY_STATE_DO opt
                  (if tn_will_ok opt
                   then setconnmode False (tn_send_do opt False (tn_set TN_MY_WANT_STATE_DO opt s1))
                   else tn_send_dont opt False (s1\<lparr>tn_do_dont_resp := tn_incr (tn_do_dont_resp s1) opt\<rparr>))
         else tn_set TN_MY_STATE_DO opt s)"

definition tn_wontoption :: "byte \<Rightarrow> telnet \<Rightarrow> telnet" where
  "tn_wontoption opt s0 =
     (let s = s0\<lparr>tn_do_dont_resp := tn_answer (tn_do_dont_resp s0) opt (\<not> tn_my_state_is_do opt s0)\<rparr>
      in if tn_do_dont_resp s opt = 0 \<and> tn_my_want_state_is_do opt s then
           if opt = TELOPT_TM then
             tn_clear TN_MY_STATE_DO opt (tn_clear TN_MY_WANT_STATE_DO opt (s\<lparr>flushout := False\<rparr>))
           else
             let s1 = (if opt = TELOPT_SGA \<and> kludgelinemode s \<or> opt = TELOPT_ECHO then modenegotiated_now s else s);
                 s2 = tn_clear TN_MY_WANT_STATE_DO opt s1;
                 s3 = (if tn_my_state_is_do opt s2 then tn_send_dont opt False s2 else s2)
             in tn_clear TN_MY_STATE_DO opt (setconnmode False s3)
         else if opt = TELOPT_TM then
           tn_clear TN_MY_STATE_DO opt (tn_clear TN_MY_WANT_STATE_DO opt (s\<lparr>flushout := False\<rparr>))
         else tn_clear TN_MY_STATE_DO opt s)"

definition tn_do_ok :: "byte \<Rightarrow> telnet \<Rightarrow> bool" where
  "tn_do_ok opt s \<longleftrightarrow>
     opt \<in> {TELOPT_BINARY, TELOPT_NAWS, TELOPT_TSPEED, TELOPT_LFLOW, TELOPT_TTYPE, TELOPT_SGA, TELOPT_NEW_ENVIRON}
     \<or> opt = TELOPT_XDISPLOC \<and> env_getvalue V_DISPLAY s \<noteq> None"

text \<open>With \<open>KLUDGELINEMODE\<close> the start of line mode asks for SGA.\<close>

definition linemode_on :: "telnet \<Rightarrow> telnet" where
  "linemode_on s = tn_send_do TELOPT_SGA True (s\<lparr>kludgelinemode := False\<rparr>)"

definition tn_dooption :: "byte \<Rightarrow> telnet \<Rightarrow> telnet" where
  "tn_dooption opt s0 =
     (let s = s0\<lparr>tn_will_wont_resp := tn_answer (tn_will_wont_resp s0) opt (tn_my_state_is_will opt s0)\<rparr>
      in if tn_will_wont_resp s opt = 0 then
           if \<not> tn_my_want_state_is_will opt s then
             if opt = TELOPT_TM then
               tn_clear TN_MY_STATE_WILL TELOPT_TM (tn_clear TN_MY_WANT_STATE_WILL TELOPT_TM (tn_send_will opt False s))
             else if opt = TELOPT_LINEMODE then
               slc_init (tn_set TN_MY_STATE_WILL opt
                 (tn_send_will opt False (tn_set TN_MY_WANT_STATE_WILL opt (linemode_on s))))
             else
               tn_set TN_MY_STATE_WILL opt
                 (if tn_do_ok opt s
                  then setconnmode False (tn_send_will opt False (tn_set TN_MY_WANT_STATE_WILL opt s))
                  else tn_send_wont opt False (s\<lparr>tn_will_wont_resp := tn_incr (tn_will_wont_resp s) opt\<rparr>))
           else if opt = TELOPT_LINEMODE then
             tn_send_do TELOPT_SGA False (slc_init (tn_set TN_MY_STATE_WILL opt (linemode_on s)))
           else tn_set TN_MY_STATE_WILL opt s
         else tn_set TN_MY_STATE_WILL opt s)"

definition tn_dontoption :: "byte \<Rightarrow> telnet \<Rightarrow> telnet" where
  "tn_dontoption opt s0 =
     (let s = s0\<lparr>tn_will_wont_resp := tn_answer (tn_will_wont_resp s0) opt (\<not> tn_my_state_is_will opt s0)\<rparr>
      in if tn_will_wont_resp s opt = 0 \<and> tn_my_want_state_is_will opt s then
           let s1 = (if opt = TELOPT_LINEMODE then s\<lparr>tn_linemode := 0\<rparr> else s);
               s2 = tn_clear TN_MY_WANT_STATE_WILL opt s1;
               s3 = (if tn_my_state_is_will opt s2 then tn_send_wont opt False s2 else s2)
           in tn_clear TN_MY_STATE_WILL opt (setconnmode False s3)
         else tn_clear TN_MY_STATE_WILL opt s)"

text \<open>The requests at the start of a connection to the telnet port; \<open>eight\<close> are the directions the user
  wants binary.\<close>

definition tn_start_requests :: "bool \<Rightarrow> bool \<Rightarrow> telnet \<Rightarrow> telnet" where
  "tn_start_requests eight_r eight_w s =
     (let s1 = tn_send_do TELOPT_STATUS True (tn_send_will TELOPT_NEW_ENVIRON True
            (tn_send_will TELOPT_LINEMODE True (tn_send_will TELOPT_LFLOW True (tn_send_will TELOPT_TSPEED True
            (tn_send_will TELOPT_NAWS True (tn_send_will TELOPT_TTYPE True (tn_send_do TELOPT_SGA True s)))))));
          s2 = (if env_getvalue V_DISPLAY s1 \<noteq> None then tn_send_will TELOPT_XDISPLOC True s1 else s1)
      in tel_enter_binary eight_r eight_w s2)"

section \<open>The machine\<close>

definition tn_his_neg :: "byte \<Rightarrow> telnet \<Rightarrow> neg" where
  "tn_his_neg opt s = \<lparr>n_state = tn_my_state_is_do opt s, n_want = tn_my_want_state_is_do opt s,
     n_resp = tn_do_dont_resp s opt\<rparr>"

definition tn_my_neg :: "byte \<Rightarrow> telnet \<Rightarrow> neg" where
  "tn_my_neg opt s = \<lparr>n_state = tn_my_state_is_will opt s, n_want = tn_my_want_state_is_will opt s,
     n_resp = tn_will_wont_resp s opt\<rparr>"

text \<open>All that was sent to the server.\<close>

definition tn_sent :: "telnet \<Rightarrow> byte list" where
  "tn_sent s = tn_wire s @ netoring s"

definition tn_tables :: "telnet \<Rightarrow> (byte \<Rightarrow> byte) \<times> (byte \<Rightarrow> byte) \<times> (byte \<Rightarrow> byte)" where
  "tn_tables s = (tn_options s, tn_do_dont_resp s, tn_will_wont_resp s)"

lemma bit_cases [simp]:
  "tn_is m opt (tn_set m' opt' s) = (if opt = opt' then (tn_is m opt s \<or> m' AND m \<noteq> 0) else tn_is m opt s)"
  by (auto simp: tn_is_def tn_set_def bit.conj_disj_distrib2 or_eq_0_iff)

lemma bit_clear [simp]:
  "tn_is m opt (tn_clear m' opt' s) =
     (if opt = opt' then tn_options s opt AND (NOT m' AND m) \<noteq> 0 else tn_is m opt s)"
  by (auto simp: tn_is_def tn_clear_def and.assoc)

lemma tables_frame [simp]:
  "tn_tables (NETADD c s) = tn_tables s" "tn_tables (NET2ADD c1 c2 s) = tn_tables s"
  "tn_tables (net_supply bs s) = tn_tables s" "tn_tables (ttyflush d s) = tn_tables s"
  "tn_tables (TerminalNewMode f s) = tn_tables s" "tn_tables (setconnmode b s) = tn_tables s"
  "tn_tables (tn_settimer u s) = tn_tables s"
  "tn_tables (slc_end_reply s) = tn_tables s" "tn_tables (slc_start_reply s) = tn_tables s"
  "tn_tables (slc_add_reply fn fl v s) = tn_tables s"
  by (simp_all add: tn_tables_def NETADD_def NET2ADD_def net_supply_def ttyflush_def TerminalNewMode_def
      setconnmode_def tn_settimer_def slc_end_reply_def slc_start_reply_def slc_add_reply_def Let_def)

lemma tables_fold: "(\<And>i s. tn_tables (f i s) = tn_tables s) \<Longrightarrow> tn_tables (fold f is s) = tn_tables s"
  by (induction "is" arbitrary: s) simp_all

lemma tables_slc [simp]: "tn_tables (slc_init s) = tn_tables s"
proof -
  have u: "tn_tables (snd (fold slc_update_one is (b, t))) = tn_tables t" for "is" b t
  proof (induction "is" arbitrary: b t)
    case (Cons i "is")
    obtain b' t' where p: "slc_update_one i (b, t) = (b', t')" by force
    then have "tn_tables t' = tn_tables t"
      by (auto simp: slc_update_one_def tn_tables_def Let_def split: if_splits)
    then show ?case using Cons.IH [of b' t'] by (simp add: p)
  qed simp
  have "tn_tables (slc_export_one i t) = tn_tables t" for i t
    by (simp add: slc_export_one_def tn_tables_def slc_add_reply_def Let_def)
  note e = tables_fold [of slc_export_one, OF this]
  show ?thesis
    by (simp add: slc_init_def slc_export_def slc_import_def slc_update_def u e TerminalDefaultChars_def Let_def)
      (simp add: tn_tables_def)
qed

lemma neg_of_tables: "tn_tables s = tn_tables t \<Longrightarrow> tn_his_neg opt s = tn_his_neg opt t \<and> tn_my_neg opt s = tn_my_neg opt t
    \<and> tn_is m opt s = tn_is m opt t"
  by (simp add: tn_tables_def tn_his_neg_def tn_my_neg_def tn_is_def)

lemma fields_of_tables:
  assumes "\<And>s. tn_tables (f s) = tn_tables s"
  shows "tn_options (f s) = tn_options s" "tn_do_dont_resp (f s) = tn_do_dont_resp s"
    "tn_will_wont_resp (f s) = tn_will_wont_resp s" "tn_is m opt (f s) = tn_is m opt s"
  using assms [of s] by (simp_all add: tn_tables_def tn_is_def)

lemmas client_frame [simp] =
  fields_of_tables [of "NETADD c" for c, OF tables_frame(1)]
  fields_of_tables [of "NET2ADD c1 c2" for c1 c2, OF tables_frame(2)]
  fields_of_tables [of "setconnmode b" for b, OF tables_frame(6)]
  fields_of_tables [of "tn_settimer u" for u, OF tables_frame(7)]
  fields_of_tables [of slc_init, OF tables_slc]

lemma bit_other_fields [simp]:
  "tn_do_dont_resp (tn_set m opt s) = tn_do_dont_resp s" "tn_will_wont_resp (tn_set m opt s) = tn_will_wont_resp s"
  "tn_do_dont_resp (tn_clear m opt s) = tn_do_dont_resp s" "tn_will_wont_resp (tn_clear m opt s) = tn_will_wont_resp s"
  "tn_is m opt (s\<lparr>tn_do_dont_resp := r\<rparr>) = tn_is m opt s" "tn_is m opt (s\<lparr>tn_will_wont_resp := r\<rparr>) = tn_is m opt s"
  "tn_is m opt (s\<lparr>kludgelinemode := b\<rparr>) = tn_is m opt s" "tn_is m opt (s\<lparr>tn_linemode := l\<rparr>) = tn_is m opt s"
  "tn_is m opt (s\<lparr>flushout := b\<rparr>) = tn_is m opt s"
  by (simp_all add: tn_set_def tn_clear_def tn_is_def)

lemma tn_requests_refine:
  "tn_his_neg o' (tn_send_do opt True s) = (if o' = opt then neg_initiate True (tn_his_neg o' s) else tn_his_neg o' s)"
  "tn_his_neg o' (tn_send_dont opt True s) = (if o' = opt then neg_initiate False (tn_his_neg o' s) else tn_his_neg o' s)"
  "tn_my_neg o' (tn_send_will opt True s) = (if o' = opt then neg_initiate True (tn_my_neg o' s) else tn_my_neg o' s)"
  "tn_my_neg o' (tn_send_wont opt True s) = (if o' = opt then neg_initiate False (tn_my_neg o' s) else tn_my_neg o' s)"
  "tn_my_neg o' (tn_send_do opt True s) = tn_my_neg o' s" "tn_my_neg o' (tn_send_dont opt True s) = tn_my_neg o' s"
  "tn_his_neg o' (tn_send_will opt True s) = tn_his_neg o' s" "tn_his_neg o' (tn_send_wont opt True s) = tn_his_neg o' s"
  by (auto simp: tn_his_neg_def tn_my_neg_def neg_initiate_def tn_send_do_def tn_send_dont_def tn_send_will_def
      tn_send_wont_def tn_incr_def tn_is_def [symmetric] Let_def)

lemma tn_send_no_init [simp]:
  "tn_tables (tn_send_do opt False s) = tn_tables s" "tn_tables (tn_send_dont opt False s) = tn_tables s"
  "tn_tables (tn_send_will opt False s) = tn_tables s" "tn_tables (tn_send_wont opt False s) = tn_tables s"
  by (simp_all add: tn_send_do_def tn_send_dont_def tn_send_will_def tn_send_wont_def)

lemmas client_frame2 [simp] =
  fields_of_tables [of "tn_send_do opt False" for opt, OF tn_send_no_init(1)]
  fields_of_tables [of "tn_send_dont opt False" for opt, OF tn_send_no_init(2)]
  fields_of_tables [of "tn_send_will opt False" for opt, OF tn_send_no_init(3)]
  fields_of_tables [of "tn_send_wont opt False" for opt, OF tn_send_no_init(4)]

lemma tn_will_refine:
  assumes "opt \<noteq> TELOPT_TM"
  shows "tn_his_neg opt (tn_willoption opt s) = neg_receive (tn_will_ok opt) True (tn_his_neg opt s)"
    "tn_his_neg opt (tn_wontoption opt s) = neg_receive True False (tn_his_neg opt s)"
  using assms
  by (auto simp: tn_his_neg_def neg_receive_def neg_answered_def tn_willoption_def tn_wontoption_def tn_answer_def
      tn_incr_def tn_is_def [symmetric] Let_def)

lemma linemode_on_frame [simp]:
  "tn_will_wont_resp (linemode_on s) = tn_will_wont_resp s" "tn_my_state_is_will opt (linemode_on s) = tn_my_state_is_will opt s"
  "tn_my_want_state_is_will opt (linemode_on s) = tn_my_want_state_is_will opt s"
  by (auto simp: linemode_on_def tn_send_do_def Let_def)

lemma tn_do_refine:
  assumes "opt \<noteq> TELOPT_TM"
  shows "tn_my_neg opt (tn_dooption opt s) = neg_receive (opt = TELOPT_LINEMODE \<or> tn_do_ok opt s) True (tn_my_neg opt s)"
    "tn_my_neg opt (tn_dontoption opt s) = neg_receive True False (tn_my_neg opt s)"
proof -
  have ok: "tn_do_ok opt (s\<lparr>tn_will_wont_resp := r\<rparr>) = tn_do_ok opt s" for r
    by (simp add: tn_do_ok_def env_getvalue_def env_find_def)
  show "tn_my_neg opt (tn_dooption opt s) = neg_receive (opt = TELOPT_LINEMODE \<or> tn_do_ok opt s) True (tn_my_neg opt s)"
    using assms
    by (auto simp: tn_my_neg_def neg_receive_def neg_answered_def tn_dooption_def tn_answer_def ok
        tn_incr_def tn_is_def [symmetric] Let_def)
  show "tn_my_neg opt (tn_dontoption opt s) = neg_receive True False (tn_my_neg opt s)"
    by (auto simp: tn_my_neg_def neg_receive_def neg_answered_def tn_dontoption_def tn_answer_def
        tn_incr_def tn_is_def [symmetric] Let_def)
qed

section \<open>What is sent\<close>

definition tn_room :: "nat \<Rightarrow> telnet \<Rightarrow> bool" where
  "tn_room n s \<longleftrightarrow> length (netoring s) + n \<le> NETOBUF"

lemma NETADD_sent [simp]: "tn_room (Suc n) s \<Longrightarrow> tn_sent (NETADD c s) = tn_sent s @ [c] \<and> tn_room n (NETADD c s)"
  by (simp add: tn_room_def tn_sent_def NETADD_def ring_put_def)

lemma command_sent:
  assumes "tn_room 3 s"
  shows "tn_sent (NETADD c (NET2ADD a b s)) = tn_sent s @ [a, b, c]"
proof -
  have "tn_room (Suc (Suc (Suc 0))) s" using assms by (simp add: numeral_3_eq_3)
  note r1 = NETADD_sent [OF this, of a]
  note r2 = NETADD_sent [OF conjunct2 [OF r1], of b]
  show ?thesis using r1 r2 NETADD_sent [OF conjunct2 [OF r2], of c] by (simp add: NET2ADD_def)
qed

lemma sent_frame [simp]:
  "tn_sent (setconnmode b s) = tn_sent s" "tn_sent (tn_settimer u s) = tn_sent s"
  "tn_sent (tn_set m opt s) = tn_sent s" "tn_sent (tn_clear m opt s) = tn_sent s"
  "tn_sent (s\<lparr>tn_do_dont_resp := r\<rparr>) = tn_sent s" "tn_sent (s\<lparr>tn_will_wont_resp := r\<rparr>) = tn_sent s"
  "tn_room n (setconnmode b s) = tn_room n s" "tn_room n (tn_settimer u s) = tn_room n s"
  "tn_room n (tn_set m opt s) = tn_room n s" "tn_room n (tn_clear m opt s) = tn_room n s"
  "tn_room n (s\<lparr>tn_do_dont_resp := r\<rparr>) = tn_room n s" "tn_room n (s\<lparr>tn_will_wont_resp := r\<rparr>) = tn_room n s"
  by (simp_all add: tn_sent_def tn_room_def setconnmode_def TerminalNewMode_def ttyflush_def tn_settimer_def
      tn_set_def tn_clear_def Let_def)

lemma sends_sent:
  assumes "tn_room 3 s"
  shows "tn_sent (tn_send_do opt False s) = tn_sent s @ [IAC, DO, opt]"
    "tn_sent (tn_send_dont opt False s) = tn_sent s @ [IAC, DONT, opt]"
    "tn_sent (tn_send_will opt False s) = tn_sent s @ [IAC, WILL, opt]"
    "tn_sent (tn_send_wont opt False s) = tn_sent s @ [IAC, WONT, opt]"
  using command_sent [OF assms]
  by (simp_all add: tn_send_do_def tn_send_dont_def tn_send_will_def tn_send_wont_def)

lemma tn_requests_sent:
  assumes "tn_room 3 s"
  shows "tn_sent (tn_send_do opt True s) = tn_sent s @ do_bytes opt (neg_asks True (tn_his_neg opt s))"
    "tn_sent (tn_send_dont opt True s) = tn_sent s @ do_bytes opt (neg_asks False (tn_his_neg opt s))"
    "tn_sent (tn_send_will opt True s) = tn_sent s @ will_bytes opt (neg_asks True (tn_my_neg opt s))"
    "tn_sent (tn_send_wont opt True s) = tn_sent s @ will_bytes opt (neg_asks False (tn_my_neg opt s))"
  using assms
  by (auto simp: tn_send_do_def tn_send_dont_def tn_send_will_def tn_send_wont_def neg_asks_def tn_his_neg_def
      tn_my_neg_def command_sent Let_def)

lemma tn_will_sent:
  assumes "tn_room 3 s" "opt \<noteq> TELOPT_TM"
  shows "tn_sent (tn_willoption opt s) = tn_sent s @ do_bytes opt (neg_replies (tn_will_ok opt) True (tn_his_neg opt s))"
    "tn_sent (tn_wontoption opt s) = tn_sent s @ do_bytes opt (neg_replies True False (tn_his_neg opt s))"
proof -
  have c: "tn_sent (if P then tn_settimer u t else t) = tn_sent t" "tn_room 3 (if P then tn_settimer u t else t) = tn_room 3 t"
    "tn_is m o' (if P then tn_settimer u t else t) = tn_is m o' t" for P u t m o' by simp_all
  show "tn_sent (tn_willoption opt s) = tn_sent s @ do_bytes opt (neg_replies (tn_will_ok opt) True (tn_his_neg opt s))"
    using assms by (simp add: tn_willoption_def neg_replies_def neg_answered_def tn_his_neg_def tn_answer_def
      sends_sent c Let_def)
  show "tn_sent (tn_wontoption opt s) = tn_sent s @ do_bytes opt (neg_replies True False (tn_his_neg opt s))"
    using assms by (simp add: tn_wontoption_def neg_replies_def neg_answered_def tn_his_neg_def tn_answer_def
      sends_sent c tn_is_def [symmetric] Let_def)
qed

lemma tn_do_sent:
  assumes "tn_room 3 s" "opt \<notin> {TELOPT_TM, TELOPT_LINEMODE}"
  shows "tn_sent (tn_dooption opt s) = tn_sent s @ will_bytes opt (neg_replies (tn_do_ok opt s) True (tn_my_neg opt s))"
    "tn_sent (tn_dontoption opt s) = tn_sent s @ will_bytes opt (neg_replies True False (tn_my_neg opt s))"
proof -
  have ok: "tn_do_ok opt (s\<lparr>tn_will_wont_resp := r\<rparr>) = tn_do_ok opt s" for r
    by (simp add: tn_do_ok_def env_getvalue_def env_find_def)
  show "tn_sent (tn_dooption opt s) = tn_sent s @ will_bytes opt (neg_replies (tn_do_ok opt s) True (tn_my_neg opt s))"
    "tn_sent (tn_dontoption opt s) = tn_sent s @ will_bytes opt (neg_replies True False (tn_my_neg opt s))"
    using assms
    by (auto simp: tn_dooption_def tn_dontoption_def neg_replies_def neg_answered_def tn_my_neg_def tn_answer_def ok
        sends_sent tn_is_def [symmetric] Let_def)
qed

end
