(* ===== verification/Telnet_Agree.thy ===== *)
theory Telnet_Agree
  imports Telnet_Proto
begin

text \<open>
  Two implementations of the negotiation machine, one for each end of a connection.  The interface is the
  locale \<open>negotiator\<close>; two negotiators that both accept the option and exchange their commands in order
  agree as soon as no command is under way, and the exchange comes to an end.
\<close>

section \<open>The interface\<close>

text \<open>
  \<open>view\<close> reads the state of the option out of a program's state, \<open>ready\<close> says that the program can send (its
  buffer has room), \<open>request\<close> and \<open>receive\<close> give what is sent and the new state.
\<close>

locale negotiator =
  fixes view :: "'s \<Rightarrow> neg"
    and ready :: "'s \<Rightarrow> bool"
    and request :: "bool \<Rightarrow> 's \<Rightarrow> bool list \<times> 's"
    and receive :: "bool \<Rightarrow> 's \<Rightarrow> bool list \<times> 's"
  assumes request_view: "ready s \<Longrightarrow> request v s = (ms, s') \<Longrightarrow>
      view s' = neg_initiate v (view s) \<and> ms = neg_asks v (view s)"
    and receive_view: "ready s \<Longrightarrow> receive v s = (ms, s') \<Longrightarrow>
      view s' = neg_receive True v (view s) \<and> ms = neg_replies True v (view s)"

section \<open>The connection\<close>

text \<open>The two programs, and the commands on their way from the first to the second and back.  A
  program may do anything else that leaves the option alone, such as flushing its buffer.\<close>

type_synonym ('a, 'b) conn = "'a \<times> 'b \<times> bool list \<times> bool list"

inductive deliver ::
  "('a \<Rightarrow> bool) \<Rightarrow> (bool \<Rightarrow> 'a \<Rightarrow> bool list \<times> 'a) \<Rightarrow> ('b \<Rightarrow> bool) \<Rightarrow> (bool \<Rightarrow> 'b \<Rightarrow> bool list \<times> 'b) \<Rightarrow>
   ('a, 'b) conn \<Rightarrow> ('a, 'b) conn \<Rightarrow> bool"
  for a_ready a_receive b_ready b_receive where
  a_gets: "a_ready a \<Longrightarrow> a_receive v a = (ms, a') \<Longrightarrow>
    deliver a_ready a_receive b_ready b_receive (a, b, ab, v # ba) (a', b, ab @ ms, ba)"
| b_gets: "b_ready b \<Longrightarrow> b_receive v b = (ms, b') \<Longrightarrow>
    deliver a_ready a_receive b_ready b_receive (a, b, v # ab, ba) (a, b', ab, ba @ ms)"

inductive exchange ::
  "('a \<Rightarrow> neg) \<Rightarrow> ('a \<Rightarrow> bool) \<Rightarrow> (bool \<Rightarrow> 'a \<Rightarrow> bool list \<times> 'a) \<Rightarrow> (bool \<Rightarrow> 'a \<Rightarrow> bool list \<times> 'a) \<Rightarrow>
   ('b \<Rightarrow> neg) \<Rightarrow> ('b \<Rightarrow> bool) \<Rightarrow> (bool \<Rightarrow> 'b \<Rightarrow> bool list \<times> 'b) \<Rightarrow> (bool \<Rightarrow> 'b \<Rightarrow> bool list \<times> 'b) \<Rightarrow>
   ('a, 'b) conn \<Rightarrow> ('a, 'b) conn \<Rightarrow> bool"
  for a_view a_ready a_request a_receive b_view b_ready b_request b_receive where
  delivery: "deliver a_ready a_receive b_ready b_receive x y \<Longrightarrow>
    exchange a_view a_ready a_request a_receive b_view b_ready b_request b_receive x y"
| a_asks: "a_ready a \<Longrightarrow> n_resp (a_view a) \<noteq> 255 \<Longrightarrow> a_request v a = (ms, a') \<Longrightarrow>
    exchange a_view a_ready a_request a_receive b_view b_ready b_request b_receive (a, b, ab, ba) (a', b, ab @ ms, ba)"
| b_asks: "b_ready b \<Longrightarrow> n_resp (b_view b) \<noteq> 255 \<Longrightarrow> b_request v b = (ms, b') \<Longrightarrow>
    exchange a_view a_ready a_request a_receive b_view b_ready b_request b_receive (a, b, ab, ba) (a, b', ab, ba @ ms)"
| a_other: "a_view a' = a_view a \<Longrightarrow>
    exchange a_view a_ready a_request a_receive b_view b_ready b_request b_receive (a, b, ab, ba) (a', b, ab, ba)"
| b_other: "b_view b' = b_view b \<Longrightarrow>
    exchange a_view a_ready a_request a_receive b_view b_ready b_request b_receive (a, b, ab, ba) (a, b', ab, ba)"

section \<open>The invariant\<close>

fun alt :: "bool \<Rightarrow> nat \<Rightarrow> bool list" where
  "alt v 0 = []"
| "alt v (Suc n) = v # alt (\<not> v) n"

lemma length_alt [simp]: "length (alt v n) = n"
  by (induction n arbitrary: v) auto

lemma alt_snoc: "alt v n @ [v = even n] = alt v (Suc n)"
proof (induction n arbitrary: v)
  case (Suc n)
  show ?case using Suc.IH [of "\<not> v"] by (cases v) simp_all
qed simp

text \<open>
  The commands under way alternate, starting from the opposite of what the receiver holds and ending at
  what the sender wants; the requests that are not yet answered are exactly the commands under way.
\<close>

definition in_step :: "neg \<Rightarrow> neg \<Rightarrow> bool list \<Rightarrow> bool list \<Rightarrow> bool" where
  "in_step a b ab ba \<longleftrightarrow>
     alt (\<not> n_state b) (length ab) = ab \<and> alt (\<not> n_state a) (length ba) = ba
     \<and> n_want a = (n_state b = even (length ab)) \<and> n_want b = (n_state a = even (length ba))
     \<and> unat (n_resp a) + unat (n_resp b) = length ab + length ba
     \<and> (n_state a = n_want a) = even (unat (n_resp a)) \<and> (n_state b = n_want b) = even (unat (n_resp b))"

lemma in_step_sym: "in_step a b ab ba = in_step b a ba ab"
  by (auto simp: in_step_def add.commute)

lemma resp_incr_unat: "(r::byte) \<noteq> 255 \<Longrightarrow> unat (r + 1) = unat r + 1"
proof -
  assume "r \<noteq> 255"
  then have "unat r \<noteq> 255" by (simp add: word_unat_eq_iff)
  moreover have "unat r < 2 ^ LENGTH(8)" by (rule unsigned_less)
  ultimately show ?thesis by (simp add: unat_word_ariths)
qed

lemma resp_decr_unat: "(r::byte) \<noteq> 0 \<Longrightarrow> unat (r - 1) = unat r - 1"
  by (simp add: unat_minus_one)

lemma in_step_asks:
  assumes "in_step a b ab ba" "n_resp a \<noteq> 255"
  shows "in_step (neg_initiate v a) b (ab @ neg_asks v a) ba"
proof (cases "(n_resp a = 0 \<and> v = n_state a) \<or> n_want a = v")
  case True
  then show ?thesis using assms by (simp add: neg_initiate_def neg_asks_def)
next
  case False
  have ab: "alt (\<not> n_state b) (length ab) = ab" using assms(1) by (simp add: in_step_def)
  have "((\<not> n_state b) = even (length ab)) = v" using assms(1) False by (auto simp: in_step_def)
  then have "ab @ [v] = alt (\<not> n_state b) (Suc (length ab))"
    using alt_snoc [of "\<not> n_state b" "length ab"] ab by simp
  then show ?thesis
    using False assms resp_incr_unat [OF assms(2)] by (auto simp: neg_initiate_def neg_asks_def in_step_def)
qed

text \<open>A command that is news to its receiver: either nothing was asked, and it is accepted and confirmed,
  or it is counted as an answer.\<close>

lemma received_unasked:
  assumes "in_step a b ab (v # ba)" "n_resp a = 0"
  shows "neg_receive True v a = a\<lparr>n_want := v, n_state := v\<rparr>" "neg_replies True v a = [v]"
    "n_want a = (\<not> v)" "n_state a = (\<not> v)"
proof -
  show v: "n_want a = (\<not> v)" "n_state a = (\<not> v)" using assms by (auto simp: in_step_def)
  show "neg_receive True v a = a\<lparr>n_want := v, n_state := v\<rparr>" "neg_replies True v a = [v]"
    using v assms(2) by (auto simp: neg_receive_def neg_replies_def neg_answered_def Let_def)
qed

lemma received_answer:
  assumes "in_step a b ab (v # ba)" "n_resp a \<noteq> 0"
  shows "\<exists>m. neg_receive True v a = a\<lparr>n_resp := m, n_state := v\<rparr> \<and> neg_replies True v a = []
    \<and> n_state a = (\<not> v) \<and> unat (n_resp a) = Suc (unat m)"
proof -
  define m where "m = n_resp a - 1"
  have v: "n_state a = (\<not> v)" using assms by (auto simp: in_step_def)
  have r: "unat (n_resp a) = Suc (unat m)"
    using assms(2) resp_decr_unat [OF assms(2)] unat_gt_0 [of "n_resp a"] by (simp add: m_def)
  have w: "n_want a = v" if "m = 0"
  proof -
    have "n_state a \<noteq> n_want a" using assms(1) r that by (simp add: in_step_def)
    then show ?thesis using v by auto
  qed
  have n: "neg_answered v a = m" using assms(2) v by (simp add: neg_answered_def m_def [symmetric] Let_def)
  have "neg_receive True v a = a\<lparr>n_resp := m, n_state := v\<rparr> \<and> neg_replies True v a = []"
    by (cases "m = 0") (simp_all add: neg_receive_def neg_replies_def n w Let_def)
  then show ?thesis using v r by blast
qed

lemma in_step_gets:
  assumes "in_step a b ab (v # ba)"
  shows "in_step (neg_receive True v a) b (ab @ neg_replies True v a) ba"
proof (cases "n_resp a = 0")
  case True
  note u = received_unasked [OF assms True]
  have "((\<not> n_state b) = even (length ab)) = v" "alt (\<not> n_state b) (length ab) = ab"
    using assms u(3) by (auto simp: in_step_def)
  then have "ab @ [v] = alt (\<not> n_state b) (Suc (length ab))"
    using alt_snoc [of "\<not> n_state b" "length ab"] by simp
  then show ?thesis using assms True u by (auto simp: in_step_def)
next
  case False
  then obtain m where u: "neg_receive True v a = a\<lparr>n_resp := m, n_state := v\<rparr>" "neg_replies True v a = []"
    "n_state a = (\<not> v)" "unat (n_resp a) = Suc (unat m)" using received_answer [OF assms] by blast
  from assms have i: "alt (\<not> n_state b) (length ab) = ab" "alt (\<not> n_state a) (length (v # ba)) = v # ba"
    "n_want a = (n_state b = even (length ab))" "n_want b = (n_state a = even (length (v # ba)))"
    "unat (n_resp a) + unat (n_resp b) = length ab + length (v # ba)"
    "(n_state a = n_want a) = even (unat (n_resp a))" "(n_state b = n_want b) = even (unat (n_resp b))"
    unfolding in_step_def by blast+
  have "alt (\<not> v) (length ba) = ba" using i(2) u(3) by simp
  moreover have "n_want b = (v = even (length ba))" using i(4) u(3) by auto
  moreover have "unat m + unat (n_resp b) = length ab + length ba" using i(5) u(4) by simp
  moreover have "(v = n_want a) = even (unat m)" using i(6) u(3,4) by auto
  ultimately show ?thesis unfolding in_step_def u(1,2) using i(1,3,7) by simp
qed

text \<open>Every delivery brings the exchange nearer to its end.\<close>

definition to_go :: "neg \<Rightarrow> bool list \<Rightarrow> bool list \<Rightarrow> nat" where
  "to_go a ab ba = length ab + length ba + (length ba - unat (n_resp a)) + (unat (n_resp a) - length ba)"

lemma to_go_sym: "in_step a b ab ba \<Longrightarrow> to_go a ab ba = to_go b ba ab"
  by (auto simp: to_go_def in_step_def)

lemma to_go_gets:
  assumes "in_step a b ab (v # ba)"
  shows "to_go (neg_receive True v a) (ab @ neg_replies True v a) ba < to_go a ab (v # ba)"
proof (cases "n_resp a = 0")
  case True
  then show ?thesis using received_unasked [OF assms True] by (simp add: to_go_def)
next
  case False
  then show ?thesis using received_answer [OF assms] by (auto simp: to_go_def)
qed

lemma in_step_quiet: "in_step a b [] [] \<Longrightarrow> a = b \<and> n_resp a = 0 \<and> n_state a = n_want a"
  by (cases a; cases b) (simp add: in_step_def unat_eq_0)

section \<open>Two negotiators\<close>

locale negotiation =
  A: negotiator a_view a_ready a_request a_receive + B: negotiator b_view b_ready b_request b_receive
  for a_view :: "'a \<Rightarrow> neg" and a_ready a_request a_receive
    and b_view :: "'b \<Rightarrow> neg" and b_ready b_request b_receive
begin

abbreviation steps where
  "steps \<equiv> exchange a_view a_ready a_request a_receive b_view b_ready b_request b_receive"

abbreviation deliveries where
  "deliveries \<equiv> deliver a_ready a_receive b_ready b_receive"

definition joint :: "('a, 'b) conn \<Rightarrow> bool" where
  "joint x = (case x of (a, b, ab, ba) \<Rightarrow> in_step (a_view a) (b_view b) ab ba)"

definition rest :: "('a, 'b) conn \<Rightarrow> nat" where
  "rest x = (case x of (a, b, ab, ba) \<Rightarrow> to_go (a_view a) ab ba)"

lemma deliver_inv: "deliveries x y \<Longrightarrow> joint x \<Longrightarrow> joint y \<and> rest y < rest x"
proof (induction rule: deliver.induct)
  case (a_gets a v ms a' b ab ba)
  then show ?case
    using A.receive_view [OF a_gets(1,2)] in_step_gets [of "a_view a" "b_view b" ab v ba]
      to_go_gets [of "a_view a" "b_view b" ab v ba] by (simp add: joint_def rest_def)
next
  case (b_gets b v ms b' a ab ba)
  have i: "in_step (b_view b) (a_view a) ba (v # ab)" using b_gets(3) by (simp add: joint_def in_step_sym)
  have i': "in_step (b_view b') (a_view a) (ba @ ms) ab"
    using B.receive_view [OF b_gets(1,2)] in_step_gets [OF i] by simp
  have "to_go (b_view b') (ba @ ms) ab < to_go (b_view b) ba (v # ab)"
    using B.receive_view [OF b_gets(1,2)] to_go_gets [OF i] by simp
  then show ?case
    using to_go_sym [OF i] to_go_sym [OF i'] i' by (simp add: joint_def rest_def in_step_sym)
qed

lemma step_inv: "steps x y \<Longrightarrow> joint x \<Longrightarrow> joint y"
proof (induction rule: exchange.induct)
  case (delivery x y)
  then show ?case using deliver_inv by blast
next
  case (a_asks a v ms a' b ab ba)
  then show ?case
    using A.request_view [OF a_asks(1,3)] in_step_asks [of "a_view a" "b_view b" ab ba v] by (simp add: joint_def)
next
  case (b_asks b v ms b' a ab ba)
  then show ?case
    using B.request_view [OF b_asks(1,3)] in_step_asks [of "b_view b" "a_view a" ba ab v]
    by (simp add: joint_def in_step_sym)
qed (simp_all add: joint_def)

lemma reach_inv: "steps\<^sup>*\<^sup>* x y \<Longrightarrow> joint x \<Longrightarrow> joint y"
  by (induction rule: rtranclp_induct) (auto intro: step_inv)

lemma agreement:
  assumes "steps\<^sup>*\<^sup>* x (a, b, [], [])" "joint x"
  shows "a_view a = b_view b \<and> n_resp (a_view a) = 0 \<and> n_state (a_view a) = n_want (a_view a)"
  using reach_inv [OF assms] in_step_quiet by (auto simp: joint_def)

lemma deliveries_end: "(deliveries ^^ n) x y \<Longrightarrow> joint x \<Longrightarrow> joint y \<and> n + rest y \<le> rest x"
proof (induction n arbitrary: y)
  case (Suc n)
  from Suc.prems(1) obtain z where "(deliveries ^^ n) x z" "deliveries z y" by auto
  then show ?case using Suc.IH Suc.prems(2) deliver_inv [of z y] by fastforce
qed simp

end

end
