(* ===== verification/Telnet_Session.thy ===== *)
theory Telnet_Session
  imports Telnetd_Options Telnet_Client_Options Telnet_Agree
begin

text \<open>
  The TELNET server and client connected to each other.  Both implement the interface \<open>negotiator\<close> of
  \<open>Telnet_Agree\<close>, for the options of either side that both accept and whose commands have no other output.
\<close>

section \<open>What the server sends\<close>

definition his_plain :: "byte \<Rightarrow> bool" where
  "his_plain opt \<longleftrightarrow> opt \<in> {TELOPT_BINARY, TELOPT_TTYPE, TELOPT_SGA, TELOPT_NAWS, TELOPT_TSPEED, TELOPT_NEW_ENVIRON}"

definition my_plain :: "byte \<Rightarrow> bool" where
  "my_plain opt \<longleftrightarrow> opt \<in> {TELOPT_ECHO, TELOPT_BINARY, TELOPT_STATUS}"

lemma server_requests_sent:
  assumes "net_room 3 s" "opt \<noteq> TELOPT_TM"
  shows "net_sent (send_do opt True s) = net_sent s @ do_bytes opt (neg_asks True (his_neg opt s))"
    "net_sent (send_dont opt True s) = net_sent s @ do_bytes opt (neg_asks False (his_neg opt s))"
    "net_sent (send_will opt True s) = net_sent s @ will_bytes opt (neg_asks True (my_neg opt s))"
    "net_sent (send_wont opt True s) = net_sent s @ will_bytes opt (neg_asks False (my_neg opt s))"
  using assms net_output_data_sent(1) [of "[IAC, _, opt]" _ 4]
  by (auto simp: send_do_def send_dont_def send_will_def send_wont_def neg_asks_def his_neg_def my_neg_def Let_def numeral_3_eq_3)

lemma plain_offer:
  assumes "his_plain opt"
  shows "\<exists>t. willoption_offer opt s = Decide True None t \<and> net_sent t = net_sent s \<and> net_room 3 t = net_room 3 s"
    "willoption_confirm opt s = (None, s)"
  using assms by (auto simp: his_plain_def willoption_offer_def willoption_confirm_def)

lemma plain_off:
  assumes "his_plain opt"
  shows "net_room n (wontoption_off opt t) = net_room n t" "net_sent (wontoption_off opt t) = net_sent t"
    "his_state_is_will (wontoption_off opt t) opt = his_state_is_will t opt" "opt \<noteq> TELOPT_TM"
  using assms by (auto simp: wontoption_off_def his_plain_def neg_tests)

lemma server_will_sent:
  assumes "net_room 3 s" "his_plain opt"
  shows "net_sent (willoption opt s) = net_sent s @ do_bytes opt (neg_replies True True (his_neg opt s))"
proof -
  define t where "t = s\<lparr>do_dont_resp := resp_answer (do_dont_resp s) opt (his_state_is_will s opt)\<rparr>"
  have t: "net_sent t = net_sent s" "net_room 3 t" "do_dont_resp t opt = neg_answered True (his_neg opt s)"
    "his_want_state_is_will t opt = n_want (his_neg opt s)"
    using resp_answer_his [of s opt True] assms(1) by (simp_all add: t_def neg_tests)
  obtain u where u: "willoption_offer opt t = Decide True None u" "net_sent u = net_sent t" "net_room 3 u = net_room 3 t"
    using plain_offer(1) [OF assms(2)] by blast
  show ?thesis
    unfolding willoption_def t_def [symmetric] Let_def
    using t u plain_offer(2) [OF assms(2), of t]
    by (simp add: neg_replies_def willoption_end_def send_option_sent)
qed

lemma server_wont_sent:
  assumes "net_room 3 s" "his_plain opt"
  shows "net_sent (wontoption opt s) = net_sent s @ do_bytes opt (neg_replies True False (his_neg opt s))"
proof -
  define t where "t = s\<lparr>do_dont_resp := resp_answer (do_dont_resp s) opt (\<not> his_state_is_will s opt)\<rparr>"
  have t: "net_sent t = net_sent s" "net_room 3 t" "do_dont_resp t opt = neg_answered False (his_neg opt s)"
    "his_want_state_is_will t opt = n_want (his_neg opt s)" "his_state_is_will t opt = n_state (his_neg opt s)"
    using resp_answer_his [of s opt False] assms(1) by (simp_all add: t_def neg_tests)
  have "his_state_is_will (set_his_want_state_wont opt (wontoption_off opt t)) opt = his_state_is_will t opt"
    using plain_off(3) [OF assms(2), of t] by (simp add: neg_tests)
  then show ?thesis
    unfolding wontoption_def t_def [symmetric] Let_def
    using t plain_off [OF assms(2)] by (simp add: neg_replies_def send_option_sent)
qed

lemma plain_ask:
  assumes "my_plain opt"
  shows "\<exists>t. dooption_ask opt s = Decide True None t \<and> net_sent t = net_sent s \<and> net_room 3 t = net_room 3 s"
  using assms by (auto simp: my_plain_def dooption_ask_def)

lemma plain_dont_off:
  assumes "my_plain opt"
  shows "net_room n (dontoption_off opt t) = net_room n t" "net_sent (dontoption_off opt t) = net_sent t"
    "my_state_is_will (dontoption_off opt t) opt = my_state_is_will t opt"
  using assms by (auto simp: dontoption_off_def my_plain_def neg_tests)

lemma server_do_sent:
  assumes "net_room 3 s" "my_plain opt"
  shows "net_sent (dooption opt s) = net_sent s @ will_bytes opt (neg_replies True True (my_neg opt s))"
proof -
  define t where "t = s\<lparr>will_wont_resp := resp_answer (will_wont_resp s) opt (my_state_is_will s opt)\<rparr>"
  have t: "net_sent t = net_sent s" "net_room 3 t" "will_wont_resp t opt = neg_answered True (my_neg opt s)"
    "my_want_state_is_will t opt = n_want (my_neg opt s)"
    using resp_answer_my [of s opt True] assms(1) by (simp_all add: t_def neg_tests)
  obtain u where u: "dooption_ask opt t = Decide True None u" "net_sent u = net_sent t" "net_room 3 u = net_room 3 t"
    using plain_ask [OF assms(2)] by blast
  show ?thesis
    unfolding dooption_def t_def [symmetric] Let_def using t u by (simp add: neg_replies_def send_option_sent)
qed

lemma server_dont_sent:
  assumes "net_room 3 s" "my_plain opt"
  shows "net_sent (dontoption opt s) = net_sent s @ will_bytes opt (neg_replies True False (my_neg opt s))"
proof -
  define t where "t = s\<lparr>will_wont_resp := resp_answer (will_wont_resp s) opt (\<not> my_state_is_will s opt)\<rparr>"
  have t: "net_sent t = net_sent s" "net_room 3 t" "will_wont_resp t opt = neg_answered False (my_neg opt s)"
    "my_want_state_is_will t opt = n_want (my_neg opt s)" "my_state_is_will t opt = n_state (my_neg opt s)"
    using resp_answer_my [of s opt False] assms(1) by (simp_all add: t_def neg_tests)
  have "my_state_is_will (set_my_want_state_wont opt (dontoption_off opt t)) opt = my_state_is_will t opt"
    using plain_dont_off(3) [OF assms(2), of t] by (simp add: neg_tests)
  then show ?thesis
    unfolding dontoption_def t_def [symmetric] Let_def
    using t plain_dont_off [OF assms(2)] by (simp add: neg_replies_def send_option_sent)
qed

section \<open>The two programs as negotiators\<close>

text \<open>The commands about an option in a piece of what was sent; \<open>yes\<close> is DO or WILL.\<close>

fun commands :: "byte \<Rightarrow> byte \<Rightarrow> byte list \<Rightarrow> bool list" where
  "commands yes opt (a # c # x # bs) = (if a = IAC \<and> x = opt then [c = yes] else []) @ commands yes opt bs"
| "commands yes opt _ = []"

lemma commands_bytes [simp]: "commands DO opt (do_bytes opt vs) = vs" "commands WILL opt (will_bytes opt vs) = vs"
  by (induction vs) (simp_all add: do_bytes_def will_bytes_def)

definition server_does :: "byte \<Rightarrow> byte \<Rightarrow> (telnetd \<Rightarrow> telnetd) \<Rightarrow> telnetd \<Rightarrow> bool list \<times> telnetd" where
  "server_does yes opt f s = (commands yes opt (drop (length (net_sent s)) (net_sent (f s))), f s)"

definition client_does :: "byte \<Rightarrow> byte \<Rightarrow> (telnet \<Rightarrow> telnet) \<Rightarrow> telnet \<Rightarrow> bool list \<times> telnet" where
  "client_does yes opt f c = (commands yes opt (drop (length (tn_sent c)) (tn_sent (f c))), f c)"

text \<open>An option of the client: the server says DO and DONT, the client WILL and WONT.\<close>

definition his_ask :: "byte \<Rightarrow> bool \<Rightarrow> telnetd \<Rightarrow> bool list \<times> telnetd" where
  "his_ask opt v = server_does DO opt (if v then send_do opt True else send_dont opt True)"

definition his_get :: "byte \<Rightarrow> bool \<Rightarrow> telnetd \<Rightarrow> bool list \<times> telnetd" where
  "his_get opt v = server_does DO opt (if v then willoption opt else wontoption opt)"

definition tn_my_ask :: "byte \<Rightarrow> bool \<Rightarrow> telnet \<Rightarrow> bool list \<times> telnet" where
  "tn_my_ask opt v = client_does WILL opt (if v then tn_send_will opt True else tn_send_wont opt True)"

definition tn_my_get :: "byte \<Rightarrow> bool \<Rightarrow> telnet \<Rightarrow> bool list \<times> telnet" where
  "tn_my_get opt v = client_does WILL opt (if v then tn_dooption opt else tn_dontoption opt)"

text \<open>An option of the server.\<close>

definition my_ask :: "byte \<Rightarrow> bool \<Rightarrow> telnetd \<Rightarrow> bool list \<times> telnetd" where
  "my_ask opt v = server_does WILL opt (if v then send_will opt True else send_wont opt True)"

definition my_get :: "byte \<Rightarrow> bool \<Rightarrow> telnetd \<Rightarrow> bool list \<times> telnetd" where
  "my_get opt v = server_does WILL opt (if v then dooption opt else dontoption opt)"

definition tn_his_ask :: "byte \<Rightarrow> bool \<Rightarrow> telnet \<Rightarrow> bool list \<times> telnet" where
  "tn_his_ask opt v = client_does DO opt (if v then tn_send_do opt True else tn_send_dont opt True)"

definition tn_his_get :: "byte \<Rightarrow> bool \<Rightarrow> telnet \<Rightarrow> bool list \<times> telnet" where
  "tn_his_get opt v = client_does DO opt (if v then tn_willoption opt else tn_wontoption opt)"

lemmas session_defs = server_does_def client_does_def his_ask_def his_get_def tn_my_ask_def tn_my_get_def
  my_ask_def my_get_def tn_his_ask_def tn_his_get_def

lemma plain_opts:
  "his_plain opt \<Longrightarrow> opt \<noteq> TELOPT_TM \<and> opt \<noteq> TELOPT_LINEMODE \<and> opt \<noteq> TELOPT_ECHO \<and> will_ok opt \<and> tn_do_ok opt c"
  "my_plain opt \<Longrightarrow> opt \<noteq> TELOPT_TM \<and> opt \<noteq> TELOPT_LOGOUT \<and> do_ok opt s \<and> tn_will_ok opt"
  by (auto simp: his_plain_def my_plain_def will_ok_def tn_do_ok_def do_ok_def tn_will_ok_def)

interpretation server_his: negotiator "his_neg opt" "\<lambda>s. his_plain opt \<and> net_room 3 s" "his_ask opt" "his_get opt"
  for opt
  by unfold_locales
    (auto simp: session_defs server_requests_sent server_will_sent server_wont_sent plain_opts(1) willoption_his wontoption_his
      split: if_splits)

interpretation client_my: negotiator "tn_my_neg opt" "\<lambda>s. his_plain opt \<and> tn_room 3 s" "tn_my_ask opt" "tn_my_get opt"
  for opt
  by unfold_locales
    (auto simp: session_defs tn_requests_refine tn_requests_sent tn_do_refine tn_do_sent plain_opts(1) split: if_splits)

interpretation server_my: negotiator "my_neg opt" "\<lambda>s. my_plain opt \<and> net_room 3 s" "my_ask opt" "my_get opt"
  for opt
  by unfold_locales
    (auto simp: session_defs server_requests_sent server_do_sent server_dont_sent plain_opts(2) dooption_my dontoption_my
      split: if_splits)

interpretation client_his: negotiator "tn_his_neg opt" "\<lambda>s. my_plain opt \<and> tn_room 3 s" "tn_his_ask opt" "tn_his_get opt"
  for opt
  by unfold_locales
    (auto simp: session_defs tn_requests_refine tn_requests_sent tn_will_refine tn_will_sent plain_opts(2) split: if_splits)

interpretation client_option: negotiation "his_neg opt" "\<lambda>s. his_plain opt \<and> net_room 3 s" "his_ask opt" "his_get opt"
    "tn_my_neg opt" "\<lambda>s. his_plain opt \<and> tn_room 3 s" "tn_my_ask opt" "tn_my_get opt"
  for opt ..

interpretation server_option: negotiation "my_neg opt" "\<lambda>s. my_plain opt \<and> net_room 3 s" "my_ask opt" "my_get opt"
    "tn_his_neg opt" "\<lambda>s. my_plain opt \<and> tn_room 3 s" "tn_his_ask opt" "tn_his_get opt"
  for opt ..

section \<open>Sessions\<close>

abbreviation client_option_steps where
  "client_option_steps opt \<equiv> exchange (his_neg opt) (\<lambda>s. his_plain opt \<and> net_room 3 s) (his_ask opt) (his_get opt)
     (tn_my_neg opt) (\<lambda>s. his_plain opt \<and> tn_room 3 s) (tn_my_ask opt) (tn_my_get opt)"

abbreviation client_option_deliver where
  "client_option_deliver opt \<equiv> deliver (\<lambda>s. his_plain opt \<and> net_room 3 s) (his_get opt)
     (\<lambda>s. his_plain opt \<and> tn_room 3 s) (tn_my_get opt)"

abbreviation server_option_steps where
  "server_option_steps opt \<equiv> exchange (my_neg opt) (\<lambda>s. my_plain opt \<and> net_room 3 s) (my_ask opt) (my_get opt)
     (tn_his_neg opt) (\<lambda>s. my_plain opt \<and> tn_room 3 s) (tn_his_ask opt) (tn_his_get opt)"

abbreviation server_option_deliver where
  "server_option_deliver opt \<equiv> deliver (\<lambda>s. my_plain opt \<and> net_room 3 s) (my_get opt)
     (\<lambda>s. my_plain opt \<and> tn_room 3 s) (tn_his_get opt)"

lemma client_start_neg [simp]:
  "tn_my_neg opt (telnet_start cc env) = \<lparr>n_state = False, n_want = False, n_resp = 0\<rparr>"
  "tn_his_neg opt (telnet_start cc env) = \<lparr>n_state = False, n_want = False, n_resp = 0\<rparr>"
  "tn_room n (telnet_start cc env) = (n \<le> NETOBUF)"
  by (simp_all add: tn_my_neg_def tn_his_neg_def tn_is_def telnet_start_def tn_room_def)

lemma in_step_start: "in_step \<lparr>n_state = False, n_want = False, n_resp = 0\<rparr> \<lparr>n_state = False, n_want = False, n_resp = 0\<rparr> [] []"
  by (simp add: in_step_def)

lemma sessions_start:
  "client_option.joint opt (telnetd_start attr, telnet_start cc env, [], [])"
  "server_option.joint opt (telnetd_start attr, telnet_start cc env, [], [])"
  by (simp_all add: client_option.joint_def server_option.joint_def in_step_start telnetd_start_neg)

lemma rest_bound: "in_step a b ab ba \<Longrightarrow> to_go a ab ba \<le> 2 * (length ab + length ba)"
  by (auto simp: to_go_def in_step_def)

text \<open>
  (C2) Server and client agree on an option.  Whatever the two programs ask of each other, in any order and
  with their commands crossing on the way, once no command about the option is under way both programs
  hold it in the same state, neither waits for an answer and neither wants it changed.  The first part is
  about the options of the client that both sides accept (BINARY, TTYPE, SGA, NAWS, TSPEED,
  NEW-ENVIRON), the second about those of the server (ECHO, BINARY, STATUS).  Requests are only made while
  their counter, a single byte, is not about to wrap around, and commands are only handled while the
  output buffer has room for the answer.
\<close>

theorem negotiation_agrees:
  "(his_plain opt \<and> (client_option_steps opt)\<^sup>*\<^sup>* (telnetd_start attr, telnet_start cc env, [], []) (s, c, [], [])
      \<longrightarrow> his_state_is_will s opt = tn_my_state_is_will opt c \<and> his_want_state_is_will s opt = his_state_is_will s opt
        \<and> tn_my_want_state_is_will opt c = tn_my_state_is_will opt c
        \<and> do_dont_resp s opt = 0 \<and> tn_will_wont_resp c opt = 0)
   \<and> (my_plain opt \<and> (server_option_steps opt)\<^sup>*\<^sup>* (telnetd_start attr, telnet_start cc env, [], []) (s, c, [], [])
      \<longrightarrow> my_state_is_will s opt = tn_my_state_is_do opt c \<and> my_want_state_is_will s opt = my_state_is_will s opt
        \<and> tn_my_want_state_is_do opt c = tn_my_state_is_do opt c
        \<and> will_wont_resp s opt = 0 \<and> tn_do_dont_resp c opt = 0)"
  using client_option.agreement [OF _ sessions_start(1), of opt attr cc env s c]
    server_option.agreement [OF _ sessions_start(2), of opt attr cc env s c]
  by (auto simp: his_neg_def my_neg_def tn_his_neg_def tn_my_neg_def)

lemma naws_session:
  defines "s0 \<equiv> telnetd_start zero_termios" and "c0 \<equiv> telnet_start (\<lambda>_. 0) []"
  shows "his_plain TELOPT_NAWS"
    "(client_option_steps TELOPT_NAWS) (s0, c0, [], []) (send_do TELOPT_NAWS True s0, c0, [True], [])"
    "(client_option_deliver TELOPT_NAWS) (send_do TELOPT_NAWS True s0, c0, [True], [])
       (send_do TELOPT_NAWS True s0, tn_dooption TELOPT_NAWS c0, [], [True])"
    "(client_option_deliver TELOPT_NAWS) (send_do TELOPT_NAWS True s0, tn_dooption TELOPT_NAWS c0, [], [True])
       (willoption TELOPT_NAWS (send_do TELOPT_NAWS True s0), tn_dooption TELOPT_NAWS c0, [], [])"
    "his_state_is_will (willoption TELOPT_NAWS (send_do TELOPT_NAWS True s0)) TELOPT_NAWS"
proof -
  show p: "his_plain TELOPT_NAWS" by (simp add: his_plain_def)
  have r: "net_room 3 s0" "net_room 6 s0" "tn_room 3 c0" by (simp_all add: s0_def c0_def)
  have n: "his_neg TELOPT_NAWS s0 = \<lparr>n_state = False, n_want = False, n_resp = 0\<rparr>"
    "tn_my_neg TELOPT_NAWS c0 = \<lparr>n_state = False, n_want = False, n_resp = 0\<rparr>"
    by (simp_all add: s0_def c0_def telnetd_start_neg)
  have n1: "his_neg TELOPT_NAWS (send_do TELOPT_NAWS True s0) = \<lparr>n_state = False, n_want = True, n_resp = 1\<rparr>"
    by (simp add: n neg_initiate_def)
  have r1: "net_room 3 (send_do TELOPT_NAWS True s0)"
    using net_output_data_sent(2) [of "[IAC, DO, TELOPT_NAWS]" _ 6 4] r n by (simp add: send_do_def numeral_3_eq_3 Let_def)
  have a: "his_ask TELOPT_NAWS True s0 = ([True], send_do TELOPT_NAWS True s0)"
    using server_requests_sent(1) [OF r(1), of TELOPT_NAWS] by (simp add: session_defs n neg_asks_def)
  have g: "tn_my_get TELOPT_NAWS True c0 = ([True], tn_dooption TELOPT_NAWS c0)"
    using tn_do_sent(1) [OF r(3), of TELOPT_NAWS]
    by (simp add: session_defs n neg_replies_def neg_answered_def tn_do_ok_def)
  have h: "his_get TELOPT_NAWS True (send_do TELOPT_NAWS True s0) = ([], willoption TELOPT_NAWS (send_do TELOPT_NAWS True s0))"
    using server_will_sent [OF r1 p] by (simp add: session_defs n1 neg_replies_def neg_answered_def)
  show "(client_option_steps TELOPT_NAWS) (s0, c0, [], []) (send_do TELOPT_NAWS True s0, c0, [True], [])"
    using exchange.a_asks [where a_request = "his_ask TELOPT_NAWS" and a_ready = "\<lambda>s. his_plain TELOPT_NAWS \<and> net_room 3 s"
      and a_view = "his_neg TELOPT_NAWS" and ab = "[]" and ba = "[]", OF _ _ a] p r n by simp
  show "(client_option_deliver TELOPT_NAWS) (send_do TELOPT_NAWS True s0, c0, [True], [])
       (send_do TELOPT_NAWS True s0, tn_dooption TELOPT_NAWS c0, [], [True])"
    using deliver.b_gets [where b_receive = "tn_my_get TELOPT_NAWS" and b_ready = "\<lambda>s. his_plain TELOPT_NAWS \<and> tn_room 3 s"
      and ab = "[]" and ba = "[]", OF _ g] p r by simp
  show "(client_option_deliver TELOPT_NAWS) (send_do TELOPT_NAWS True s0, tn_dooption TELOPT_NAWS c0, [], [True])
       (willoption TELOPT_NAWS (send_do TELOPT_NAWS True s0), tn_dooption TELOPT_NAWS c0, [], [])"
    using deliver.a_gets [where a_receive = "his_get TELOPT_NAWS" and a_ready = "\<lambda>s. his_plain TELOPT_NAWS \<and> net_room 3 s"
      and ab = "[]" and ba = "[]", OF _ h] p r1 by simp
  show "his_state_is_will (willoption TELOPT_NAWS (send_do TELOPT_NAWS True s0)) TELOPT_NAWS"
    by (simp add: neg_tests(1) willoption_his n1 neg_receive_def Let_def)
qed

theorem negotiation_agrees_witness:
  "tn_my_state_is_will TELOPT_NAWS (tn_dooption TELOPT_NAWS (telnet_start (\<lambda>_. 0) []))"
proof -
  let ?s = "telnetd_start zero_termios" and ?c = "telnet_start (\<lambda>_. 0) []"
  have "(client_option_steps TELOPT_NAWS)\<^sup>*\<^sup>* (?s, ?c, [], [])
      (willoption TELOPT_NAWS (send_do TELOPT_NAWS True ?s), tn_dooption TELOPT_NAWS ?c, [], [])"
    using naws_session(2) exchange.delivery [OF naws_session(3)] exchange.delivery [OF naws_session(4)]
    by (meson converse_rtranclp_into_rtranclp rtranclp.rtrancl_refl)
  then show ?thesis
    using negotiation_agrees [of TELOPT_NAWS zero_termios "\<lambda>_. 0" "[]"] naws_session(1,5) by blast
qed

text \<open>
  (C3) The exchange comes to an end: from a state with \<open>n\<close> commands about an option under way, no more than
  twice \<open>n\<close> commands are delivered, answers included, unless a program makes a new request.
\<close>

theorem negotiation_ends:
  "(his_plain opt \<and> (client_option_steps opt)\<^sup>*\<^sup>* (telnetd_start attr, telnet_start cc env, [], []) (s, c, ab, ba)
      \<and> ((client_option_deliver opt) ^^ n) (s, c, ab, ba) y \<longrightarrow> n \<le> 2 * (length ab + length ba))
   \<and> (my_plain opt \<and> (server_option_steps opt)\<^sup>*\<^sup>* (telnetd_start attr, telnet_start cc env, [], []) (s, c, ab, ba)
      \<and> ((server_option_deliver opt) ^^ n) (s, c, ab, ba) y \<longrightarrow> n \<le> 2 * (length ab + length ba))"
proof (intro conjI impI; elim conjE)
  assume r: "(client_option_steps opt)\<^sup>*\<^sup>* (telnetd_start attr, telnet_start cc env, [], []) (s, c, ab, ba)"
    and d: "((client_option_deliver opt) ^^ n) (s, c, ab, ba) y"
  note j = client_option.reach_inv [OF r sessions_start(1)]
  show "n \<le> 2 * (length ab + length ba)"
    using client_option.deliveries_end [OF d j] rest_bound [of "his_neg opt s" "tn_my_neg opt c" ab ba] j
    by (simp add: client_option.joint_def client_option.rest_def)
next
  assume r: "(server_option_steps opt)\<^sup>*\<^sup>* (telnetd_start attr, telnet_start cc env, [], []) (s, c, ab, ba)"
    and d: "((server_option_deliver opt) ^^ n) (s, c, ab, ba) y"
  note j = server_option.reach_inv [OF r sessions_start(2)]
  show "n \<le> 2 * (length ab + length ba)"
    using server_option.deliveries_end [OF d j] rest_bound [of "my_neg opt s" "tn_his_neg opt c" ab ba] j
    by (simp add: server_option.joint_def server_option.rest_def)
qed

theorem negotiation_ends_witness:
  "\<exists>y. ((client_option_deliver TELOPT_NAWS) ^^ 2)
     (send_do TELOPT_NAWS True (telnetd_start zero_termios), telnet_start (\<lambda>_. 0) [], [True], []) y \<and> (2::nat) \<le> 2 * 1"
proof -
  let ?s = "telnetd_start zero_termios" and ?c = "telnet_start (\<lambda>_. 0) []"
  let ?y = "(willoption TELOPT_NAWS (send_do TELOPT_NAWS True ?s), tn_dooption TELOPT_NAWS ?c, [], [])"
  have d: "((client_option_deliver TELOPT_NAWS) ^^ 2) (send_do TELOPT_NAWS True ?s, ?c, [True], []) ?y"
    using naws_session(3,4) by (auto simp: numeral_2_eq_2)
  moreover have "2 \<le> 2 * (length [True] + length ([] :: bool list))"
    using negotiation_ends [of TELOPT_NAWS zero_termios "\<lambda>_. 0" "[]" "send_do TELOPT_NAWS True ?s" ?c "[True]" "[]" 2 ?y]
      naws_session(1) r_into_rtranclp [of "client_option_steps TELOPT_NAWS", OF naws_session(2)] d by blast
  ultimately show ?thesis by fastforce
qed

end
