(* ===== verification/Telnetd_Subopt.thy ===== *)
theory Telnetd_Subopt
  imports Telnetd_Options
begin

text \<open>
  Suboptions, \<open>suboption\<close> and \<open>send_status\<close> of \<open>telnetd/state.c\<close>: what the server does with the bytes
  the client sends between \<open>IAC SB\<close> and \<open>IAC SE\<close>.  They are in the array \<open>subbuffer\<close>, read through
  \<open>subpointer\<close> up to \<open>subend\<close>.
\<close>

section \<open>The suboption buffer\<close>

abbreviation (input) SUBBUFSIZ :: nat where "SUBBUFSIZ \<equiv> 512"

definition SB_CLEAR :: "telnetd \<Rightarrow> telnetd" where
  "SB_CLEAR s = s\<lparr>subpointer := 0\<rparr>"

definition SB_TERM :: "telnetd \<Rightarrow> telnetd" where
  "SB_TERM s = SB_CLEAR (s\<lparr>subend := subpointer s\<rparr>)"

definition SB_ACCUM :: "byte \<Rightarrow> telnetd \<Rightarrow> telnetd" where
  "SB_ACCUM c s =
     (if subpointer s < SUBBUFSIZ
      then s\<lparr>subbuffer := (subbuffer s)[subpointer s := c], subpointer := subpointer s + 1\<rparr>
      else s)"

definition SB_GET :: "telnetd \<Rightarrow> byte \<times> telnetd" where
  "SB_GET s = (subbuffer s ! subpointer s, s\<lparr>subpointer := subpointer s + 1\<rparr>)"

definition SB_EOF :: "telnetd \<Rightarrow> bool" where
  "SB_EOF s = (subpointer s \<ge> subend s)"

text \<open>The bytes of the suboption not yet read, and the C string that starts at a place in the array.\<close>

definition sb_rest :: "telnetd \<Rightarrow> byte list" where
  "sb_rest s = drop (subpointer s) (take (subend s) (subbuffer s))"

definition cstr :: "byte list \<Rightarrow> nat \<Rightarrow> byte list" where
  "cstr buf i = takeWhile (\<lambda>c. c \<noteq> 0) (drop i buf)"

section \<open>Library functions\<close>

text \<open>\<open>atoi\<close> of the C library: blanks, a sign and digits; \<open>strtol\<close> saturates at 64 bits and its result
  is cut to an \<open>int\<close>.\<close>

definition c_isspace :: "byte \<Rightarrow> bool" where
  "c_isspace c = (c = 32 \<or> 9 \<le> c \<and> c \<le> 13)"

definition c_isdigit :: "byte \<Rightarrow> bool" where
  "c_isdigit c = (48 \<le> c \<and> c \<le> 57)"

fun digits_value :: "byte list \<Rightarrow> int \<Rightarrow> int" where
  "digits_value [] acc = acc"
| "digits_value (c # cs) acc =
     (if c_isdigit c then digits_value cs (acc * 10 + (uint c - 48)) else acc)"

definition to_int32 :: "int \<Rightarrow> int" where
  "to_int32 x = (x + 2 ^ 31) mod 2 ^ 32 - 2 ^ 31"

definition atoi :: "byte list \<Rightarrow> int" where
  "atoi cs =
     (let t = dropWhile c_isspace cs;
          (neg, ds) = (case t of
             [] \<Rightarrow> (False, [])
           | c # r \<Rightarrow> if c = 45 then (True, r) else if c = 43 then (False, r) else (False, c # r));
          v = digits_value ds 0
      in to_int32 (if neg then max (- v) (- (2 ^ 63)) else min v (2 ^ 63 - 1)))"

definition c_tolower :: "byte \<Rightarrow> byte" where
  "c_tolower c = (if 65 \<le> c \<and> c \<le> 90 then c + 32 else c)"

text \<open>\<open>setenv\<close> with overwriting, and \<open>unsetenv\<close>: a name that is empty or has an \<open>=\<close> is refused.\<close>

definition env_name_ok :: "byte list \<Rightarrow> bool" where
  "env_name_ok n = (n \<noteq> [] \<and> 61 \<notin> set n)"

definition c_setenv :: "byte list \<Rightarrow> byte list \<Rightarrow> (byte list \<rightharpoonup> byte list) \<Rightarrow> (byte list \<rightharpoonup> byte list)" where
  "c_setenv n v e = (if env_name_ok n then e(n \<mapsto> v) else e)"

definition c_unsetenv :: "byte list \<Rightarrow> (byte list \<rightharpoonup> byte list) \<Rightarrow> (byte list \<rightharpoonup> byte list)" where
  "c_unsetenv n e = (if env_name_ok n then e(n := None) else e)"

section \<open>STATUS\<close>

text \<open>One byte of data in the report, doubled when it is \<open>SE\<close> or \<open>IAC\<close>.\<close>

definition ADD_DATA :: "byte \<Rightarrow> byte list" where
  "ADD_DATA c = (if c = SE \<or> c = IAC then [c, c] else [c])"

definition status_option :: "telnetd \<Rightarrow> byte \<Rightarrow> byte list" where
  "status_option s i =
     (if my_want_state_is_will s i then WILL # ADD_DATA i else [])
     @ (if his_want_state_is_will s i then DO # ADD_DATA i else [])"

definition status_lflow :: "telnetd \<Rightarrow> byte list" where
  "status_lflow s =
     (if his_want_state_is_will s TELOPT_LFLOW then
        [SB, TELOPT_LFLOW, if flowmode s \<noteq> 0 then LFLOW_ON else LFLOW_OFF, SE]
        @ (if restartany s \<ge> 0 then
             [SB, TELOPT_LFLOW, if restartany s \<noteq> 0 then LFLOW_RESTART_ANY else LFLOW_RESTART_XON, SE]
           else [])
      else [])"

definition status_head :: "telnetd \<Rightarrow> byte list" where
  "status_head s =
     [IAC, SB, TELOPT_STATUS, TELQUAL_IS]
     @ concat (map (\<lambda>i. status_option s (of_nat i)) [0..<NTELOPTS]) @ status_lflow s
     @ (if his_want_state_is_will s TELOPT_LINEMODE
        then [SB, TELOPT_LINEMODE, LM_MODE] @ ADD_DATA (editmode s)
             @ [SE, SB, TELOPT_LINEMODE, LM_SLC] else [])"

text \<open>A report that does not fit into the 256 bytes of \<open>statusbuf\<close> is given up.\<close>

definition send_status :: "telnetd \<Rightarrow> telnetd" where
  "send_status s0 =
     (let s = netflush s0;
          head = status_head s
      in if length head > 256 then s
         else
           let (body, s1) =
                 (if his_want_state_is_will s TELOPT_LINEMODE then
                    (case end_slc True (send_slc (start_slc False s)) of
                       (cp, t) \<Rightarrow> (concat (map ADD_DATA cp) @ [SE], t))
                  else ([], s));
               bytes = head @ body @ [IAC, SE]
           in if length bytes > 256 then s1
              else netflush (snd (net_output_datalen bytes s1)))"

section \<open>Environment variables\<close>

text \<open>The search for the first variable.\<close>

function env_skip :: "byte \<Rightarrow> telnetd \<Rightarrow> telnetd" where
  "env_skip var s =
     (if SB_EOF s then s
      else case SB_GET s of (c, s1) \<Rightarrow> if c = var \<or> c = ENV_USERVAR then s1 else env_skip var s1)"
  by pat_completeness auto
termination
  by (relation "measure (\<lambda>(_, s). subend s - subpointer s)") (auto simp: SB_EOF_def SB_GET_def)

text \<open>A variable is complete: it is set, or removed when no value was given.\<close>

definition env_store :: "nat \<Rightarrow> nat option \<Rightarrow> telnetd \<Rightarrow> telnetd" where
  "env_store varp valp s =
     (case valp of
        Some v \<Rightarrow> s\<lparr>penv := c_setenv (cstr (subbuffer s) varp) (cstr (subbuffer s) v) (penv s)\<rparr>
      | None \<Rightarrow> s\<lparr>penv := c_unsetenv (cstr (subbuffer s) varp) (penv s)\<rparr>)"

definition sb_put :: "nat \<Rightarrow> byte \<Rightarrow> telnetd \<Rightarrow> telnetd" where
  "sb_put cp c s = s\<lparr>subbuffer := (subbuffer s)[cp := c]\<rparr>"

text \<open>
  The loop over the variables and values.  They are unescaped in place: \<open>cp\<close> is where the next byte
  goes, \<open>varp\<close> and \<open>valp\<close> where the current name and value start.  The codes for variable and value
  are exchanged in the old option.
\<close>

function env_loop :: "bool \<Rightarrow> nat \<Rightarrow> nat \<Rightarrow> nat option \<Rightarrow> telnetd \<Rightarrow> telnetd" where
  "env_loop old cp varp valp s =
     (if SB_EOF s then env_store varp valp (sb_put cp 0 s)
      else
        case SB_GET s of
          (c0, s1) \<Rightarrow>
            let c = (if old then
                       (if c0 = OLD_ENV_VAR then NEW_ENV_VAR
                        else if c0 = OLD_ENV_VALUE then NEW_ENV_VALUE else c0)
                     else c0)
            in if c = NEW_ENV_VALUE then
                 env_loop old (subpointer s1) varp (Some (subpointer s1)) (sb_put cp 0 s1)
               else if c = NEW_ENV_VAR \<or> c = ENV_USERVAR then
                 env_loop old (subpointer s1) (subpointer s1) None
                   (env_store varp valp (sb_put cp 0 s1))
               else if c = ENV_ESC then
                 (if SB_EOF s1 then env_loop old cp varp valp s1
                  else case SB_GET s1 of (c', s2) \<Rightarrow> env_loop old (cp + 1) varp valp (sb_put cp c' s2))
               else env_loop old (cp + 1) varp valp (sb_put cp c s1))"
  by pat_completeness auto
termination
  by (relation "measure (\<lambda>(_, _, _, _, s). subend s - subpointer s)")
    (auto simp: SB_EOF_def SB_GET_def sb_put_def env_store_def split: option.splits)

declare env_skip.simps [simp del] env_loop.simps [simp del]

definition suboption_environ :: "bool \<Rightarrow> telnetd \<Rightarrow> telnetd" where
  "suboption_environ old s =
     (if SB_EOF s then s
      else case SB_GET s of
        (c, s1) \<Rightarrow>
          if c \<noteq> TELQUAL_IS \<and> c \<noteq> TELQUAL_INFO then s1
          else
            let s2 = (if c = TELQUAL_IS
                      then settimer (if old then oenvironsubopt_update else environsubopt_update) s1
                      else s1);
                s3 = env_skip (if old then OLD_ENV_VAR else NEW_ENV_VAR) s2
            in if SB_EOF s3 then s3
               else env_loop old (subpointer s3) (subpointer s3) None s3)"

section \<open>The other suboptions\<close>

text \<open>\<open>while (SB_GET () != ',' && !SB_EOF ())\<close>.\<close>

function skip_to_comma :: "telnetd \<Rightarrow> telnetd" where
  "skip_to_comma s =
     (case SB_GET s of (c, s1) \<Rightarrow> if c = 44 \<or> SB_EOF s1 then s1 else skip_to_comma s1)"
  by pat_completeness auto
termination
  by (relation "measure (\<lambda>s. subend s - subpointer s)") (auto simp: SB_EOF_def SB_GET_def)

declare skip_to_comma.simps [simp del]

definition suboption_tspeed :: "telnetd \<Rightarrow> telnetd" where
  "suboption_tspeed s0 =
     (if \<not> his_state_is_will s0 TELOPT_TSPEED then s0
      else
        let s = settimer tspeedsubopt_update s0
        in if SB_EOF s then s
           else case SB_GET s of
             (c, s1) \<Rightarrow>
               if c \<noteq> TELQUAL_IS then s1
               else
                 let xspeed = atoi (drop (subpointer s1) (subbuffer s1));
                     s2 = skip_to_comma s1
                 in if SB_EOF s2 then s2
                    else clientstat_tspeed xspeed (atoi (drop (subpointer s2) (subbuffer s2))) s2)"

definition suboption_ttype :: "telnetd \<Rightarrow> telnetd" where
  "suboption_ttype s0 =
     (if \<not> his_state_is_will s0 TELOPT_TTYPE then s0
      else
        let s = settimer ttypesubopt_update s0
        in if SB_EOF s then s
           else case SB_GET s of
             (c, s1) \<Rightarrow>
               if c \<noteq> TELQUAL_IS then s1
               else s1\<lparr>terminaltype := Some (takeWhile (\<lambda>c. c \<noteq> 0) (map c_tolower (sb_rest s1))),
                      subpointer := max (subpointer s1) (subend s1)\<rparr>)"

definition suboption_naws :: "telnetd \<Rightarrow> telnetd" where
  "suboption_naws s =
     (if \<not> his_state_is_will s TELOPT_NAWS \<or> SB_EOF s then s
      else case SB_GET s of
        (x1, s1) \<Rightarrow>
          if SB_EOF s1 then s1
          else case SB_GET s1 of
            (x0, s2) \<Rightarrow>
              if SB_EOF s2 then s2
              else case SB_GET s2 of
                (y1, s3) \<Rightarrow>
                  if SB_EOF s3 then s3
                  else case SB_GET s3 of
                    (y0, s4) \<Rightarrow>
                      clientstat_naws (uint x1 * 256 + uint x0) (uint y1 * 256 + uint y0) s4)"

definition suboption_linemode :: "telnetd \<Rightarrow> telnetd" where
  "suboption_linemode s =
     (if \<not> his_state_is_will s TELOPT_LINEMODE \<or> SB_EOF s then s
      else case SB_GET s of
        (request, s1) \<Rightarrow>
          if SB_EOF s1 then s1
          else if request = LM_SLC then
            snd (end_slc False (do_opt_slc (sb_rest s1) (start_slc True s1)))
          else if request = LM_MODE then
            (case SB_GET s1 of (m, s2) \<Rightarrow> clientstat_mode (s2\<lparr>useeditmode := m\<rparr>))
          else snd (SB_GET s1))"

definition suboption_status :: "telnetd \<Rightarrow> telnetd" where
  "suboption_status s =
     (if SB_EOF s then s
      else case SB_GET s of
        (mode, s1) \<Rightarrow>
          if mode = TELQUAL_SEND \<and> my_state_is_will s1 TELOPT_STATUS then send_status s1 else s1)"

definition DISPLAY :: "byte list" where
  "DISPLAY = [68, 73, 83, 80, 76, 65, 89]"

definition suboption_xdisploc :: "telnetd \<Rightarrow> telnetd" where
  "suboption_xdisploc s =
     (if SB_EOF s then s
      else case SB_GET s of
        (c, s1) \<Rightarrow>
          if c \<noteq> TELQUAL_IS then s1
          else
            let s2 = sb_put (subend s1) 0 (settimer xdisplocsubopt_update s1)
            in s2\<lparr>penv := c_setenv DISPLAY (cstr (subbuffer s2) (subpointer s2)) (penv s2)\<rparr>)"

definition suboption :: "telnetd \<Rightarrow> telnetd" where
  "suboption s =
     (case SB_GET s of
        (subchar, s1) \<Rightarrow>
          if subchar = TELOPT_TSPEED then suboption_tspeed s1
          else if subchar = TELOPT_TTYPE then suboption_ttype s1
          else if subchar = TELOPT_NAWS then suboption_naws s1
          else if subchar = TELOPT_LINEMODE then suboption_linemode s1
          else if subchar = TELOPT_STATUS then suboption_status s1
          else if subchar = TELOPT_XDISPLOC then suboption_xdisploc s1
          else if subchar = TELOPT_NEW_ENVIRON then suboption_environ False s1
          else if subchar = TELOPT_OLD_ENVIRON then suboption_environ True s1
          else s1)"

section \<open>In-place unescaping\<close>

text \<open>\<open>str_at buf i bs\<close>: the bytes \<open>bs\<close> are in the array at \<open>i\<close>.\<close>

definition str_at :: "byte list \<Rightarrow> nat \<Rightarrow> byte list \<Rightarrow> bool" where
  "str_at buf i bs \<longleftrightarrow> i + length bs \<le> length buf \<and> take (length bs) (drop i buf) = bs"

lemma str_at_update:
  "str_at buf i bs \<Longrightarrow> p < i \<or> p \<ge> i + length bs \<Longrightarrow> str_at (buf[p := c]) i bs"
  by (auto simp: str_at_def drop_update_swap take_update_swap list_update_beyond)

lemma str_at_append:
  "str_at buf i bs \<Longrightarrow> i + length bs < length buf \<Longrightarrow> str_at (buf[i + length bs := c]) i (bs @ [c])"
  by (auto simp: str_at_def drop_update_swap take_Suc_conv_app_nth take_update_swap)

lemma cstr_at: "str_at buf i (bs @ [0]) \<Longrightarrow> cstr buf i = takeWhile (\<lambda>c. c \<noteq> 0) bs"
proof -
  assume "str_at buf i (bs @ [0])"
  then have "take (Suc (length bs)) (drop i buf) = bs @ [0]" by (simp add: str_at_def)
  then obtain r where "drop i buf = bs @ 0 # r"
    by (metis append.assoc append_Cons append_Nil append_take_drop_id)
  moreover have "takeWhile (\<lambda>c. c \<noteq> 0) (bs @ 0 # r) = takeWhile (\<lambda>c. c \<noteq> 0) bs" by (induction bs) auto
  ultimately show ?thesis by (simp add: cstr_def)
qed

text \<open>The meaning of the suboption, on the bytes as they came: the variables in order with their
  values, unescaped.\<close>

definition env_append :: "byte \<Rightarrow> byte list \<times> byte list option \<Rightarrow> byte list \<times> byte list option" where
  "env_append c item = (case item of (var, None) \<Rightarrow> (var @ [c], None) | (var, Some v) \<Rightarrow> (var, Some (v @ [c])))"

definition env_code :: "bool \<Rightarrow> byte \<Rightarrow> byte" where
  "env_code old c =
     (if old then (if c = OLD_ENV_VAR then NEW_ENV_VAR else if c = OLD_ENV_VALUE then NEW_ENV_VALUE else c)
      else c)"

fun env_items :: "bool \<Rightarrow> byte list \<times> byte list option \<Rightarrow> byte list \<Rightarrow> (byte list \<times> byte list option) list" where
  "env_items old item [] = [item]"
| "env_items old item (c0 # cs) =
     (let c = env_code old c0
      in if c = NEW_ENV_VALUE then env_items old (fst item, Some []) cs
         else if c = NEW_ENV_VAR \<or> c = ENV_USERVAR then item # env_items old ([], None) cs
         else if c = ENV_ESC then
           (case cs of [] \<Rightarrow> [item] | c' # cs' \<Rightarrow> env_items old (env_append c' item) cs')
         else env_items old (env_append c item) cs)"

definition env_apply :: "byte list \<times> byte list option \<Rightarrow> (byte list \<rightharpoonup> byte list) \<Rightarrow> (byte list \<rightharpoonup> byte list)" where
  "env_apply item e =
     (case item of
        (var, None) \<Rightarrow> c_unsetenv (takeWhile (\<lambda>c. c \<noteq> 0) var) e
      | (var, Some v) \<Rightarrow> c_setenv (takeWhile (\<lambda>c. c \<noteq> 0) var) (takeWhile (\<lambda>c. c \<noteq> 0) v) e)"

definition env_inv :: "nat \<Rightarrow> nat \<Rightarrow> nat option \<Rightarrow> byte list \<times> byte list option \<Rightarrow> telnetd \<Rightarrow> bool" where
  "env_inv cp varp valp item s \<longleftrightarrow>
     subend s < length (subbuffer s) \<and> subpointer s \<le> subend s \<and> cp \<le> subpointer s \<and>
     (case (valp, item) of
        (None, (var, None)) \<Rightarrow> str_at (subbuffer s) varp var \<and> cp = varp + length var
      | (Some v, (var, Some bs)) \<Rightarrow>
          str_at (subbuffer s) varp (var @ [0]) \<and> varp + length var < v
          \<and> str_at (subbuffer s) v bs \<and> cp = v + length bs
      | _ \<Rightarrow> False)"

lemma env_inv_cases:
  assumes "env_inv cp varp valp item s"
  obtains (var) var where "valp = None" "item = (var, None)" "str_at (subbuffer s) varp var"
      "cp = varp + length var"
  | (val) v var bs where "valp = Some v" "item = (var, Some bs)" "str_at (subbuffer s) varp (var @ [0])"
      "varp + length var < v" "str_at (subbuffer s) v bs" "cp = v + length bs"
  using assms by (auto simp: env_inv_def split: option.splits prod.splits)

lemma env_inv_bounds:
  "env_inv cp varp valp item s \<Longrightarrow> subend s < length (subbuffer s)"
  "env_inv cp varp valp item s \<Longrightarrow> subpointer s \<le> subend s"
  "env_inv cp varp valp item s \<Longrightarrow> cp \<le> subpointer s"
  by (simp_all add: env_inv_def)

lemma sb_put_fields [simp]:
  "subpointer (sb_put cp c s) = subpointer s" "subend (sb_put cp c s) = subend s"
  "subbuffer (sb_put cp c s) = (subbuffer s)[cp := c]" "penv (sb_put cp c s) = penv s"
  by (simp_all add: sb_put_def)

lemma env_store_fields [simp]:
  "subpointer (env_store varp valp s) = subpointer s" "subend (env_store varp valp s) = subend s"
  "subbuffer (env_store varp valp s) = subbuffer s"
  by (simp_all add: env_store_def split: option.splits)

lemma env_store_apply:
  assumes "env_inv cp varp valp item s"
  shows "penv (env_store varp valp (sb_put cp 0 s)) = env_apply item (penv s)"
  using assms
proof (cases rule: env_inv_cases)
  case (var var)
  then have "str_at ((subbuffer s)[cp := 0]) varp (var @ [0])"
    using env_inv_bounds [OF assms] by (auto intro!: str_at_append)
  from cstr_at [OF this] show ?thesis using var by (simp add: env_store_def env_apply_def)
next
  case (val v var bs)
  then have "str_at ((subbuffer s)[cp := 0]) v (bs @ [0])"
    using env_inv_bounds [OF assms] by (auto intro!: str_at_append)
  moreover have "str_at ((subbuffer s)[cp := 0]) varp (var @ [0])"
    using val by (auto intro!: str_at_update)
  ultimately show ?thesis using val by (simp add: env_store_def env_apply_def cstr_at)
qed

text \<open>What each step makes of the invariant; \<open>s1\<close> is the state after the byte was read.\<close>

lemma env_inv_get:
  "env_inv cp varp valp item s \<Longrightarrow> \<not> SB_EOF s \<Longrightarrow> env_inv cp varp valp item (snd (SB_GET s))
    \<and> cp < subpointer (snd (SB_GET s)) \<and> sb_rest s = fst (SB_GET s) # sb_rest (snd (SB_GET s))"
  by (auto simp: env_inv_def SB_EOF_def SB_GET_def sb_rest_def Cons_nth_drop_Suc
     split: option.splits prod.splits) (simp_all add: Cons_nth_drop_Suc [symmetric])

lemma sb_rest_put: "cp < subpointer s \<Longrightarrow> sb_rest (sb_put cp c s) = sb_rest s"
  by (simp add: sb_rest_def take_update_swap drop_update_swap)

lemma env_inv_put:
  assumes "env_inv cp varp valp item s" "cp < subpointer s"
  shows "env_inv (cp + 1) varp valp (env_append c item) (sb_put cp c s)"
  using assms(1)
proof (cases rule: env_inv_cases)
  case (var var)
  then show ?thesis
    using env_inv_bounds [OF assms(1)] assms(2) str_at_append [of "subbuffer s" varp var c]
    by (simp add: env_inv_def env_append_def)
next
  case (val v var bs)
  then show ?thesis
    using env_inv_bounds [OF assms(1)] assms(2) str_at_append [of "subbuffer s" v bs c]
    by (simp add: env_inv_def env_append_def str_at_update)
qed

lemma env_inv_value:
  assumes "env_inv cp varp valp item s" "cp < subpointer s"
  shows "env_inv (subpointer s) varp (Some (subpointer s)) (fst item, Some []) (sb_put cp 0 s)"
  using assms(1)
proof (cases rule: env_inv_cases)
  case (var var)
  then show ?thesis
    using env_inv_bounds [OF assms(1)] assms(2) str_at_append [of "subbuffer s" varp var 0]
    by (simp add: env_inv_def) (simp add: str_at_def)
next
  case (val v var bs)
  then show ?thesis
    using env_inv_bounds [OF assms(1)] assms(2)
    by (simp add: env_inv_def str_at_update) (simp add: str_at_def)
qed

lemma env_inv_new:
  assumes "subend s < length (subbuffer s)" "subpointer s \<le> subend s"
  shows "env_inv (subpointer s) (subpointer s) None ([], None) s"
  using assms by (simp add: env_inv_def str_at_def)

lemma env_loop_items:
  "env_inv cp varp valp item s \<Longrightarrow>
   penv (env_loop old cp varp valp s) = fold env_apply (env_items old item (sb_rest s)) (penv s)"
proof (induction old cp varp valp s arbitrary: item rule: env_loop.induct)
  case (1 old cp varp valp s)
  show ?case
  proof (cases "SB_EOF s")
    case True
    then have "sb_rest s = []" by (simp add: sb_rest_def SB_EOF_def)
    with True show ?thesis by (simp add: env_loop.simps [of old cp] env_store_apply [OF 1(6)])
  next
    case False
    obtain c0 s1 where g: "SB_GET s = (c0, s1)" by force
    note i = env_inv_get [OF 1(6) False, unfolded g fst_conv snd_conv]
    have p: "penv s1 = penv s" using g by (auto simp: SB_GET_def)
    let ?c = "env_code old c0"
    note unf = env_loop.simps [of old cp varp valp s] g prod.case env_code_def [symmetric] Let_def
    consider "?c = 1" | "?c \<noteq> 1" "?c = 0 \<or> ?c = 3" | "?c = 2" | "?c \<notin> {0, 1, 2, 3}" by blast
    then show ?thesis
    proof cases
      case c: 1
      have "penv (env_loop old (subpointer s1) varp (Some (subpointer s1)) (sb_put cp 0 s1))
          = fold env_apply (env_items old (fst item, Some []) (sb_rest (sb_put cp 0 s1))) (penv s1)"
        using "1.IH"(1) [OF False g [symmetric] refl c [unfolded env_code_def] env_inv_value [of cp varp valp item]] i by simp
      then show ?thesis using False c i p by (simp add: unf sb_rest_put)
    next
      case c: 2
      let ?t = "env_store varp valp (sb_put cp 0 s1)"
      have t: "env_inv (subpointer s1) (subpointer s1) None ([], None) ?t"
        using env_inv_new [of ?t] env_inv_bounds [OF conjunct1 [OF i]] by simp
      have "penv (env_loop old (subpointer s1) (subpointer s1) None ?t)
          = fold env_apply (env_items old ([], None) (sb_rest ?t)) (penv ?t)"
        using "1.IH"(2) [OF False g [symmetric] refl _ _ t] c unfolding env_code_def by blast
      moreover have "sb_rest ?t = sb_rest s1" using i sb_rest_put [of cp s1 0] by (simp add: sb_rest_def)
      ultimately show ?thesis using False c i p by (auto simp: unf env_store_apply)
    next
      case c: 3
      show ?thesis
      proof (cases "SB_EOF s1")
        case True
        then have "sb_rest s1 = []" by (simp add: sb_rest_def SB_EOF_def)
        then show ?thesis
          using True False c i p env_store_apply [of cp varp valp item s1]
          by (simp add: unf env_loop.simps [of old cp varp valp s1])
      next
        case F: False
        obtain c' s2 where g2: "SB_GET s1 = (c', s2)" by force
        note i2 = env_inv_get [OF conjunct1 [OF i] F, unfolded g2 fst_conv snd_conv]
        have p2: "penv s2 = penv s1" using g2 by (auto simp: SB_GET_def)
        have "penv (env_loop old (cp + 1) varp valp (sb_put cp c' s2))
          = fold env_apply (env_items old (env_append c' item) (sb_rest (sb_put cp c' s2))) (penv s2)"
          using "1.IH"(4) [OF False g [symmetric] refl _ _ _ F g2 [symmetric] env_inv_put] c i2
          unfolding env_code_def by simp
        then show ?thesis using False F c i i2 p p2 g2 by (simp add: unf sb_rest_put)
      qed
    next
      case c: 4
      have "penv (env_loop old (cp + 1) varp valp (sb_put cp ?c s1))
          = fold env_apply (env_items old (env_append ?c item) (sb_rest (sb_put cp ?c s1))) (penv s1)"
        using "1.IH"(5) [OF False g [symmetric] refl _ _ _ env_inv_put] c i
        unfolding env_code_def by simp
      then show ?thesis using False c i p by (simp add: unf sb_rest_put)
    qed
  qed
qed


lemma sb_get_rest:
  assumes "sb_rest s = c # cs" "subend s < length (subbuffer s)"
  shows "\<not> SB_EOF s" "fst (SB_GET s) = c" "sb_rest (snd (SB_GET s)) = cs"
    "subend (snd (SB_GET s)) = subend s" "subbuffer (snd (SB_GET s)) = subbuffer s"
    "subpointer (snd (SB_GET s)) \<le> subend s"
proof -
  have lt: "subpointer s < subend s"
  proof (rule ccontr)
    assume "\<not> subpointer s < subend s"
    then have "sb_rest s = []" by (simp add: sb_rest_def)
    then show False using assms by simp
  qed
  then show "\<not> SB_EOF s" "subpointer (snd (SB_GET s)) \<le> subend s" by (simp_all add: SB_EOF_def SB_GET_def)
  have "sb_rest s = subbuffer s ! subpointer s # sb_rest (snd (SB_GET s))"
    using lt assms(2) by (simp add: sb_rest_def SB_GET_def Cons_nth_drop_Suc [symmetric])
  then show "fst (SB_GET s) = c" "sb_rest (snd (SB_GET s)) = cs"
    using assms(1) by (simp_all add: SB_GET_def)
  show "subend (snd (SB_GET s)) = subend s" "subbuffer (snd (SB_GET s)) = subbuffer s"
    by (simp_all add: SB_GET_def)
qed

lemma sb_rest_empty: "subend s < length (subbuffer s) \<Longrightarrow> SB_EOF s = (sb_rest s = [])"
  by (auto simp: sb_rest_def SB_EOF_def)

lemma sb_get_keeps [simp]: "penv (snd (SB_GET s)) = penv s"
  by (simp add: SB_GET_def)

lemma env_skip_rest:
  "subend s < length (subbuffer s) \<Longrightarrow> subpointer s \<le> subend s \<Longrightarrow>
   sb_rest (env_skip var s) = tl (dropWhile (\<lambda>c. c \<noteq> var \<and> c \<noteq> ENV_USERVAR) (sb_rest s))
   \<and> subbuffer (env_skip var s) = subbuffer s \<and> subend (env_skip var s) = subend s
   \<and> subpointer (env_skip var s) \<le> subend s \<and> penv (env_skip var s) = penv s"
proof (induction var s rule: env_skip.induct)
  case (1 var s)
  show ?case
  proof (cases "sb_rest s")
    case Nil
    then show ?thesis using 1 by (simp add: env_skip.simps [of var s] sb_rest_empty)
  next
    case (Cons c cs)
    note g = sb_get_rest [OF Cons 1(2)]
    show ?thesis
      using 1(1) [OF g(1) prod.collapse] 1(2) g Cons
      by (simp add: env_skip.simps [of var s] case_prod_beta)
  qed
qed


lemma settimer_sb [simp]:
  "sb_rest (settimer f s) = sb_rest s" "subbuffer (settimer f s) = subbuffer s"
  "subend (settimer f s) = subend s" "subpointer (settimer f s) = subpointer s"
  "penv (settimer f s) = penv s"
  by (simp_all add: settimer_def sb_rest_def Let_def)

text \<open>The bytes after the code of the first variable.\<close>

definition env_first :: "bool \<Rightarrow> byte list \<Rightarrow> byte list" where
  "env_first old bs =
     tl (dropWhile (\<lambda>c. c \<noteq> (if old then OLD_ENV_VAR else NEW_ENV_VAR) \<and> c \<noteq> ENV_USERVAR) bs)"

lemma suboption_environ_meaning:
  assumes r: "sb_rest s = q # bs" and e: "subend s < length (subbuffer s)" and q: "q \<in> {TELQUAL_IS, TELQUAL_INFO}"
  shows "penv (suboption_environ old s)
    = (if env_first old bs = [] then penv s
       else fold env_apply (env_items old ([], None) (env_first old bs)) (penv s))"
proof -
  note g = sb_get_rest [OF r e]
  define s2 where "s2 = (if q = TELQUAL_IS
    then settimer (if old then oenvironsubopt_update else environsubopt_update) (snd (SB_GET s))
    else snd (SB_GET s))"
  have s2: "sb_rest s2 = bs" "subbuffer s2 = subbuffer s" "subend s2 = subend s" "subpointer s2 \<le> subend s"
    "penv s2 = penv s"
    using g by (simp_all add: s2_def)
  define s3 where "s3 = env_skip (if old then OLD_ENV_VAR else NEW_ENV_VAR) s2"
  have s3: "sb_rest s3 = env_first old bs" "subbuffer s3 = subbuffer s" "subend s3 = subend s"
    "subpointer s3 \<le> subend s" "penv s3 = penv s"
    using env_skip_rest [of s2 "if old then OLD_ENV_VAR else NEW_ENV_VAR"] s2 e
    by (simp_all add: s3_def env_first_def)
  have "suboption_environ old s
      = (if SB_EOF s3 then s3 else env_loop old (subpointer s3) (subpointer s3) None s3)"
    unfolding suboption_environ_def s3_def s2_def using g q
    by (cases "SB_GET s") (auto simp: Let_def)
  moreover have "env_inv (subpointer s3) (subpointer s3) None ([], None) s3"
    by (rule env_inv_new) (use s3 e in simp_all)
  ultimately show ?thesis
    using s3 e sb_rest_empty [of s3] by (simp add: env_loop_items)
qed

lemma suboption_naws_size:
  assumes "subpointer s = 0" "subend s < length (subbuffer s)"
    and "take (subend s) (subbuffer s) = TELOPT_NAWS # bs"
  shows "def_col (suboption s) = (if his_state_is_will s TELOPT_NAWS \<and> length bs \<ge> 4
      then uint (bs ! 0) * 256 + uint (bs ! 1) else def_col s)
    \<and> def_row (suboption s) = (if his_state_is_will s TELOPT_NAWS \<and> length bs \<ge> 4
      then uint (bs ! 2) * 256 + uint (bs ! 3) else def_row s)
    \<and> pty_winsize (suboption s) = (if his_state_is_will s TELOPT_NAWS \<and> length bs \<ge> 4
        \<and> terminit s \<and> \<not> exited s
      then (uint (bs ! 0) * 256 + uint (bs ! 1), uint (bs ! 2) * 256 + uint (bs ! 3)) else pty_winsize s)"
proof -
  have len: "subend s = Suc (length bs)"
    using arg_cong [OF assms(3), of length] assms(2) by simp
  have nth: "subbuffer s ! Suc i = bs ! i" if "i < length bs" for i
    using arg_cong [OF assms(3), of "\<lambda>l. l ! Suc i"] that len by simp
  have z: "subbuffer s ! 0 = TELOPT_NAWS" using arg_cong [OF assms(3), of "\<lambda>l. l ! 0"] len by simp
  have b: "uint x * 256 + uint y < 65536" "0 \<le> uint x * 256 + uint y" for x y :: byte
    using uint_lt2p [of x] uint_lt2p [of y] by simp_all
  have his: "his_state_is_will (s\<lparr>subpointer := n\<rparr>) opt = his_state_is_will s opt" for n opt
    by (simp add: his_state_is_will_def)
  have n: "0 < length bs \<Longrightarrow> subbuffer s ! Suc 0 = bs ! 0" "Suc 0 < length bs \<Longrightarrow> subbuffer s ! Suc (Suc 0) = bs ! 1"
    "2 < length bs \<Longrightarrow> subbuffer s ! Suc (Suc (Suc 0)) = bs ! 2"
    "3 < length bs \<Longrightarrow> subbuffer s ! Suc (Suc (Suc (Suc 0))) = bs ! 3"
    using nth [of 0] nth [of 1] nth [of 2] nth [of 3] by (simp_all add: eval_nat_numeral)
  have sub: "suboption s = suboption_naws (s\<lparr>subpointer := 1\<rparr>)"
    using assms(1) z by (simp add: suboption_def SB_GET_def)
  have keep: "f (suboption_naws (s\<lparr>subpointer := 1\<rparr>)) = f s"
    if "\<not> (his_state_is_will s TELOPT_NAWS \<and> length bs \<ge> 4)" "\<And>n. f (s\<lparr>subpointer := n\<rparr>) = f s"
    for f :: "telnetd \<Rightarrow> 'a"
    using that by (auto simp: suboption_naws_def SB_EOF_def SB_GET_def len his)
  have set: "suboption_naws (s\<lparr>subpointer := 1\<rparr>)
      = clientstat_naws (uint (bs ! 0) * 256 + uint (bs ! 1)) (uint (bs ! 2) * 256 + uint (bs ! 3))
          (s\<lparr>subpointer := 5\<rparr>)" if "his_state_is_will s TELOPT_NAWS \<and> length bs \<ge> 4"
    using that n
    by (cases "bs = []") (simp_all add: suboption_naws_def SB_EOF_def SB_GET_def len his eval_nat_numeral)
  show ?thesis
  proof (cases "his_state_is_will s TELOPT_NAWS \<and> length bs \<ge> 4")
    case True
    then show ?thesis
      unfolding sub set [OF True]
      by (simp add: clientstat_naws_def init_termbuf_def terminit_def set_winsize_def Let_def b)
  next
    case False
    then show ?thesis
      unfolding sub using keep [OF False, of def_col] keep [OF False, of def_row]
        keep [OF False, of pty_winsize] by (auto simp del: One_nat_def)
  qed
qed

section \<open>Properties\<close>

text \<open>
  (C14) The ENVIRON suboption does what its bytes mean: although the names and values are unescaped
  in place, in the buffer they are read from, the environment afterwards is the one obtained by
  applying the variables one after the other, in the order they came, each with its escapes removed.
  This holds for the new option and for the old one with its exchanged codes.
\<close>

theorem environ_suboption:
  assumes "subpointer s = 0" "subend s < length (subbuffer s)"
    and "take (subend s) (subbuffer s) = (if old then TELOPT_OLD_ENVIRON else TELOPT_NEW_ENVIRON) # q # bs"
    and "q \<in> {TELQUAL_IS, TELQUAL_INFO}"
  shows "penv (suboption s)
    = (if env_first old bs = [] then penv s
       else fold env_apply (env_items old ([], None) (env_first old bs)) (penv s))"
proof -
  have r: "sb_rest s = (if old then TELOPT_OLD_ENVIRON else TELOPT_NEW_ENVIRON) # q # bs"
    using assms by (simp add: sb_rest_def)
  note g = sb_get_rest [OF r assms(2)]
  have "suboption s = suboption_environ old (snd (SB_GET s))"
    using g(2) by (cases "SB_GET s") (simp add: suboption_def split: if_splits)
  then show ?thesis
    using suboption_environ_meaning [OF g(3) _ assms(4), of old] g(4,5) assms(2) by simp
qed

theorem environ_suboption_witness:
  "penv (suboption ((telnetd_start zero_termios)
      \<lparr>subbuffer := [39, 0, 0, 85, 83, 2, 1, 1, 114, 0, 65, 1, 66, 255, 240], subend := 13\<rparr>))
   = [[85, 83, 1] \<mapsto> [114], [65] \<mapsto> [66]]"
proof -
  let ?s = "(telnetd_start zero_termios)
      \<lparr>subbuffer := [39, 0, 0, 85, 83, 2, 1, 1, 114, 0, 65, 1, 66, 255, 240], subend := 13\<rparr>"
  have "subpointer ?s = 0" "penv ?s = Map.empty" by (simp_all add: telnetd_start_def Let_def)
  then show ?thesis
    using environ_suboption [of ?s False 0 "[0, 85, 83, 2, 1, 1, 114, 0, 65, 1, 66]"]
    by (simp add: env_first_def env_code_def env_append_def env_apply_def c_setenv_def env_name_ok_def)
qed

text \<open>
  A window size report is complete or ignored: with the option in force, four bytes give the
  size in network byte order, set on the pty once the terminal is set up and kept for then before.
  With fewer bytes, or the option not in force, neither changes.
\<close>

theorem naws_suboption:
  assumes "subpointer s = 0" "subend s < length (subbuffer s)"
    and "take (subend s) (subbuffer s) = TELOPT_NAWS # bs"
  shows "def_col (suboption s) = (if his_state_is_will s TELOPT_NAWS \<and> length bs \<ge> 4
      then uint (bs ! 0) * 256 + uint (bs ! 1) else def_col s)
    \<and> def_row (suboption s) = (if his_state_is_will s TELOPT_NAWS \<and> length bs \<ge> 4
      then uint (bs ! 2) * 256 + uint (bs ! 3) else def_row s)
    \<and> pty_winsize (suboption s) = (if his_state_is_will s TELOPT_NAWS \<and> length bs \<ge> 4
        \<and> terminit s \<and> \<not> exited s
      then (uint (bs ! 0) * 256 + uint (bs ! 1), uint (bs ! 2) * 256 + uint (bs ! 3)) else pty_winsize s)"
  using assms by (rule suboption_naws_size)

theorem naws_suboption_witness:
  "pty_winsize (suboption ((set_his_state_will TELOPT_NAWS (telnetd_start zero_termios))
      \<lparr>subbuffer := [31, 0, 80, 1, 24, 255, 240], subend := 5, terminit_flag := True\<rparr>)) = (80, 280)"
proof -
  let ?s = "(set_his_state_will TELOPT_NAWS (telnetd_start zero_termios))
      \<lparr>subbuffer := [31, 0, 80, 1, 24, 255, 240], subend := 5, terminit_flag := True\<rparr>"
  have "subpointer ?s = 0" "terminit ?s" "\<not> exited ?s" "his_state_is_will ?s TELOPT_NAWS"
    by (simp_all add: telnetd_start_def set_bits_def terminit_def his_state_is_will_def Let_def)
  then show ?thesis
    using naws_suboption [of ?s "[0, 80, 1, 24]"] by simp
qed

end
