(* ===== verification/Telnetd_Receive.thy ===== *)
theory Telnetd_Receive
  imports Telnetd_Subopt
begin

text \<open>
  The receiving machine of the server, \<open>telrcv\<close> of \<open>telnetd/state.c\<close>: the bytes from the network are
  split into data for the pty, commands, option negotiations and suboptions.
\<close>

section \<open>Operations\<close>

text \<open>
  The two ways in which handling a byte can go wrong: a null pointer is followed, or the search of
  \<open>netclear\<close> does not come to an end.
\<close>

datatype fault = Null_deref | Netclear_scan

text \<open>A special character of the terminal, or a default when it has none.\<close>

definition slc_char :: "nat \<Rightarrow> byte \<Rightarrow> telnetd \<Rightarrow> byte" where
  "slc_char i dflt s = (case sptr (slctab s i) of None \<Rightarrow> dflt | Some k \<Rightarrow> c_cc (termbuf s) ! k)"

definition send_eof :: "telnetd \<Rightarrow> telnetd" where
  "send_eof s = (let s1 = term_send_eof (init_termbuf s) in pty_output_byte (slc_char SLC_EOF 4 s1) s1)"

definition recv_ayt :: "telnetd \<Rightarrow> telnetd" where
  "recv_ayt s = net_output_data 9 [13, 10, 91, 89, 101, 115, 93, 13, 10] s"

definition send_susp :: "telnetd \<Rightarrow> telnetd" where
  "send_susp s = (let s1 = ptyflush s in pty_output_byte (slc_char SLC_SUSP 26 s1) s1)"

definition send_brk :: "telnetd \<Rightarrow> telnetd" where
  "send_brk s = (let s1 = init_termbuf (ptyflush s) in pty_output_byte (slc_char SLC_ABORT 28 s1) s1)"

definition send_intr :: "telnetd \<Rightarrow> telnetd" where
  "send_intr s = (let s1 = init_termbuf (ptyflush s) in pty_output_byte (slc_char SLC_IP 127 s1) s1)"

text \<open>Abort Output: a data mark is sent as urgent data after the buffer has been cleared.\<close>

definition recv_ao :: "telnetd \<Rightarrow> fault + telnetd" where
  "recv_ao s =
     (let s1 = init_termbuf (ptyflush s)
      in if exited s1 then Inr s1
         else
           let s2 = (if sptr (slctab s1 SLC_AO) \<noteq> None \<and> sptr_get s1 SLC_AO \<noteq> VDISABLE
                     then pty_output_byte (sptr_get s1 SLC_AO) s1 else s1)
           in case netclear s2 of
                None \<Rightarrow> Inl Netclear_scan
              | Some s3 \<Rightarrow> Inr (set_neturg (net_output_data 4 [IAC, DM] s3)))"

text \<open>Erase Character and Erase Line take the character without a look at the pointer.\<close>

definition recv_erase :: "nat \<Rightarrow> telnetd \<Rightarrow> fault + telnetd" where
  "recv_erase i s =
     (let s1 = init_termbuf (ptyflush s)
      in if exited s1 then Inr s1
         else case sptr (slctab s1 i) of
             None \<Rightarrow> Inl Null_deref
           | Some k \<Rightarrow>
               let ch = c_cc (termbuf s1) ! k
               in Inr (if ch \<noteq> VDISABLE then pty_output_byte ch s1 else s1))"

definition recv_dm :: "telnetd \<Rightarrow> telnetd" where
  "recv_dm s = settimer gotDM_update (s\<lparr>SYNCHing := oob_pending s\<rparr>)"

definition goto_state :: "tstate \<Rightarrow> telnetd \<Rightarrow> telnetd" where
  "goto_state t s = s\<lparr>rcv_state := t\<rparr>"

text \<open>The byte after an \<open>IAC\<close>.\<close>

definition gotiac :: "byte \<Rightarrow> telnetd \<Rightarrow> fault + telnetd" where
  "gotiac c s =
     (if c = AO then map_sum id (goto_state TS_DATA) (recv_ao s)
      else if c = EC then map_sum id (goto_state TS_DATA) (recv_erase SLC_EC s)
      else if c = EL then map_sum id (goto_state TS_DATA) (recv_erase SLC_EL s)
      else Inr
        (if c = SB then SB_CLEAR (goto_state TS_SB s)
         else if c = WILL then goto_state TS_WILL s
         else if c = WONT then goto_state TS_WONT s
         else if c = DO then goto_state TS_DO s
         else if c = DONT then goto_state TS_DONT s
         else goto_state TS_DATA
           (if c = IP then send_intr s
            else if c = BREAK then send_brk s
            else if c = AYT then recv_ayt s
            else if c = DM then recv_dm s
            else if c = EOR then (if his_state_is_will s TELOPT_EOR then send_eof s else s)
            else if c = xEOF then send_eof s
            else if c = SUSP then send_susp s
            else if c = ABORT then send_brk s
            else if c = IAC then pty_output_byte c s
            else s)))"

text \<open>A byte of data.  A carriage return swallows the following newline or null.\<close>

definition telrcv_data :: "byte \<Rightarrow> telnetd \<Rightarrow> telnetd" where
  "telrcv_data c s =
     (if c = IAC then goto_state TS_IAC s
      else if c = 13 \<and> \<not> his_state_is_will s TELOPT_BINARY then
        let nc = fst (net_get_char True s)
        in if linemode s \<noteq> 0 \<and> net_input_level s > 0 \<and> (nc = 10 \<or> nc = 0 \<and> tty_iscrnl s)
           then pty_output_byte 10 (snd (net_get_char False s))
           else pty_output_byte c (goto_state TS_CR s)
      else pty_output_byte c s)"

text \<open>The end of a suboption: two more bytes are stored for diagnostics and taken back.\<close>

definition sb_ready :: "byte \<Rightarrow> telnetd \<Rightarrow> telnetd" where
  "sb_ready c s =
     (let s1 = SB_ACCUM c (SB_ACCUM IAC s) in SB_TERM (s1\<lparr>subpointer := subpointer s1 - 2\<rparr>))"

definition sb_finish :: "byte \<Rightarrow> telnetd \<Rightarrow> telnetd" where
  "sb_finish c s = suboption (sb_ready c s)"

definition telrcv_char :: "byte \<Rightarrow> telnetd \<Rightarrow> fault + telnetd" where
  "telrcv_char c s =
     (case rcv_state s of
        TS_CR \<Rightarrow>
          let s1 = goto_state TS_DATA s in Inr (if c = 0 \<or> c = 10 then s1 else telrcv_data c s1)
      | TS_DATA \<Rightarrow> Inr (telrcv_data c s)
      | TS_IAC \<Rightarrow> gotiac c s
      | TS_SB \<Rightarrow> Inr (if c = IAC then goto_state TS_SE s else SB_ACCUM c s)
      | TS_SE \<Rightarrow>
          if c \<noteq> SE then
            (if c \<noteq> IAC then
               let s1 = goto_state TS_IAC (sb_finish c s)
               in if exited s1 then Inr s1 else gotiac c s1
             else Inr (goto_state TS_SB (SB_ACCUM c s)))
          else Inr (goto_state TS_DATA (sb_finish SE s))
      | TS_WILL \<Rightarrow> Inr (goto_state TS_DATA (willoption c s))
      | TS_WONT \<Rightarrow> Inr (goto_state TS_DATA (wontoption c s))
      | TS_DO \<Rightarrow> Inr (goto_state TS_DATA (dooption c s))
      | TS_DONT \<Rightarrow> Inr (goto_state TS_DATA (dontoption c s)))"

definition telrcv_step :: "telnetd \<Rightarrow> fault + telnetd" where
  "telrcv_step s = (case net_get_char False s of (c, s1) \<Rightarrow> telrcv_char c s1)"

section \<open>What the operations leave alone\<close>

text \<open>The network input, the state of the machine, the output to the pty, the size of the suboption
  buffer and the pointers to the special characters.\<close>

definition outer :: "telnetd \<Rightarrow> (nat \<Rightarrow> byte) \<times> nat \<times> int \<times> tstate
    \<times> (nat \<Rightarrow> byte) \<times> nat \<times> nat \<times> byte list \<times> wres list \<times> nat \<times> (nat \<Rightarrow> nat option)" where
  "outer s = (netibuf s, netip s, ncc s, rcv_state s, ptyobuf s, pbackp s, pfrontp s, ptyin s, pty_wr s,
     length (subbuffer s), \<lambda>i. sptr (slctab s i))"

lemma outer_fields:
  assumes "outer s = outer t"
  shows "netibuf s = netibuf t" "netip s = netip t" "ncc s = ncc t" "rcv_state s = rcv_state t"
    "ptyobuf s = ptyobuf t" "pbackp s = pbackp t" "pfrontp s = pfrontp t" "ptyin s = ptyin t"
    "pty_wr s = pty_wr t" "length (subbuffer s) = length (subbuffer t)" "sptr (slctab s i) = sptr (slctab t i)"
  using assms by (simp_all add: outer_def fun_eq_iff)

lemma outer_updates [simp]:
  "outer (s\<lparr>options := x\<rparr>) = outer s" "outer (s\<lparr>do_dont_resp := r\<rparr>) = outer s" "outer (s\<lparr>will_wont_resp := r\<rparr>) = outer s"
  "outer (s\<lparr>linemode := i\<rparr>) = outer s" "outer (s\<lparr>uselinemode := i\<rparr>) = outer s" "outer (s\<lparr>editmode := b\<rparr>) = outer s"
  "outer (s\<lparr>useeditmode := b\<rparr>) = outer s" "outer (s\<lparr>lmodetype := i\<rparr>) = outer s" "outer (s\<lparr>flowmode := i\<rparr>) = outer s"
  "outer (s\<lparr>restartany := i\<rparr>) = outer s" "outer (s\<lparr>SYNCHing := p\<rparr>) = outer s" "outer (s\<lparr>not42 := p\<rparr>) = outer s"
  "outer (s\<lparr>clocks := c\<rparr>) = outer s" "outer (s\<lparr>terminaltype := tt\<rparr>) = outer s" "outer (s\<lparr>termbuf := tb\<rparr>) = outer s"
  "outer (s\<lparr>termbuf2 := tb\<rparr>) = outer s" "outer (s\<lparr>terminit_flag := p\<rparr>) = outer s" "outer (s\<lparr>def_tspeed := i\<rparr>) = outer s"
  "outer (s\<lparr>def_rspeed := i\<rparr>) = outer s" "outer (s\<lparr>def_row := i\<rparr>) = outer s" "outer (s\<lparr>def_col := i\<rparr>) = outer s"
  "outer (s\<lparr>def_slcbuf := db\<rparr>) = outer s" "outer (s\<lparr>slcchange := p\<rparr>) = outer s" "outer (s\<lparr>slcbuf := bl\<rparr>) = outer s"
  "outer (s\<lparr>subpointer := n\<rparr>) = outer s" "outer (s\<lparr>subend := n\<rparr>) = outer s" "outer (s\<lparr>netobuf := nb\<rparr>) = outer s"
  "outer (s\<lparr>nbackp := n\<rparr>) = outer s" "outer (s\<lparr>nfrontp := n\<rparr>) = outer s" "outer (s\<lparr>neturg := nu\<rparr>) = outer s"
  "outer (s\<lparr>wire := bl\<rparr>) = outer s" "outer (s\<lparr>net_wr := ws\<rparr>) = outer s" "outer (s\<lparr>pty_attr := tb\<rparr>) = outer s"
  "outer (s\<lparr>pty_winsize := wz\<rparr>) = outer s" "outer (s\<lparr>penv := pe\<rparr>) = outer s" "outer (s\<lparr>exited := p\<rparr>) = outer s"
  "outer (s\<lparr>subbuffer := (subbuffer s)[n := b]\<rparr>) = outer s"
  by (simp_all add: outer_def)

lemma outer_slctab [simp]:
  "sptr e = sptr (slctab s i) \<Longrightarrow> outer (s\<lparr>slctab := (slctab s)(i := e)\<rparr>) = outer s"
  by (auto simp: outer_def)

lemma outer_fold: "(\<And>x s. outer (f x s) = outer s) \<Longrightarrow> outer (fold f xs s) = outer s"
  by (induction xs arbitrary: s) simp_all

lemma outer_net [simp]:
  "outer (netflush_advance n s) = outer s" "outer (cleanup s) = outer s"
  by (simp_all add: netflush_advance_def cleanup_def Let_def split: option.splits)

lemma outer_netflush [simp]: "outer (netflush s) = outer s"
  by (simp add: netflush_def split: prod.splits wres.splits)

lemma outer_net_output [simp]:
  "outer (net_output_data n bs s) = outer s" "outer (snd (net_output_datalen bs s)) = outer s"
  by (simp_all add: net_output_data_def net_output_datalen_def Let_def)

lemma outer_term [simp]:
  "outer (init_termbuf s) = outer s" "outer (set_termbuf s) = outer s"
  "outer (tty_setlinemode p s) = outer s" "outer (tty_setecho p s) = outer s"
  "outer (tty_binaryin p s) = outer s" "outer (tty_binaryout p s) = outer s"
  "outer (tty_setedit p s) = outer s" "outer (tty_setsig p s) = outer s"
  "outer (tty_setsofttab p s) = outer s" "outer (tty_setlitecho p s) = outer s"
  "outer (tty_tspeed v s) = outer s" "outer (tty_rspeed v s) = outer s"
  by (simp_all add: init_termbuf_def set_termbuf_def tty_setlinemode_def tty_setecho_def tty_binaryin_def
      tty_binaryout_def tty_setedit_def tty_setsig_def tty_setsofttab_def tty_setlitecho_def
      tty_tspeed_def tty_rspeed_def upd_lflag_def upd_iflag_def upd_oflag_def upd_cflag_def)

lemma outer_slc_basic [simp]:
  "outer (upd_current i f s) = outer s" "outer (sptr_put i v s) = outer s"
  "outer (add_slc a b c s) = outer s" "outer (start_slc g s) = outer s"
  by (simp_all add: upd_current_def sptr_put_def add_slc_def start_slc_def Let_def split: option.splits)

lemma outer_slc [simp]:
  "outer (send_slc s) = outer s" "outer (default_slc s) = outer s" "outer (check_slc s) = outer s"
  "outer (snd (end_slc g s)) = outer s" "outer (process_slc a b c s) = outer s"
proof -
  show *: "outer (send_slc s) = outer s" for s
    by (simp add: send_slc_def send_slc_one_def outer_fold)
  show **: "outer (default_slc s) = outer s" for s
    by (simp add: default_slc_def default_slc_one_def Let_def outer_fold)
  show "outer (check_slc s) = outer s"
    by (simp add: check_slc_def check_slc_one_def Let_def outer_fold)
  show "outer (snd (end_slc g s)) = outer s"
    by (simp add: end_slc_def Let_def)
  show "outer (process_slc a b c s) = outer s"
    by (simp add: process_slc_def change_slc_def Let_def * **)
qed

lemma outer_process_slcs [simp]: "outer (process_slcs bs s) = outer s"
  by (induction bs s rule: process_slcs.induct) simp_all

lemma outer_do_opt_slc [simp]: "outer (do_opt_slc bs s) = outer s" "outer (deferslc s) = outer s"
  by (simp_all add: do_opt_slc_def deferslc_def split: option.splits)

lemma outer_bits [simp]:
  "outer (set_bits b opt s) = outer s" "outer (clear_bits b opt s) = outer s"
  "outer (settimer f s) = outer s" "outer (set_slc_level k l s) = outer s"
  by (simp_all add: set_bits_def clear_bits_def settimer_def set_slc_level_def Let_def)

lemma outer_send [simp]:
  "outer (send_do opt init s) = outer s" "outer (send_dont opt init s) = outer s"
  "outer (send_will opt init s) = outer s" "outer (send_wont opt init s) = outer s"
  "outer (flowstat s) = outer s" "outer (output_mode m s) = outer s"
  by (simp_all add: send_do_def send_dont_def send_will_def send_wont_def flowstat_def output_mode_def Let_def)

lemma outer_clientstat [simp]:
  "outer (clientstat_linemode p s) = outer s" "outer (set_winsize c r s) = outer s"
  "outer (clientstat_naws c r s) = outer s" "outer (clientstat_tspeed c r s) = outer s"
  by (simp_all add: clientstat_linemode_def set_winsize_def clientstat_naws_def clientstat_tspeed_def Let_def)

lemma outer_defer [simp]: "outer (defer_terminit s) = outer s"
  by (simp add: defer_terminit_def Let_def)

lemma outer_localstat_parts [simp]:
  "outer (localstat_binary s) = outer s" "outer (localstat_uselinemode s) = outer s"
  "outer (snd (localstat_echo s)) = outer s" "outer (localstat_off s) = outer s"
  "outer (localstat_modes s) = outer s" "outer (localstat_on s) = outer s"
  "outer (localstat_edit s) = outer s" "outer (localstat_done n s) = outer s"
  by (simp_all add: localstat_binary_def localstat_uselinemode_def localstat_echo_def localstat_off_def
      localstat_modes_def localstat_on_def localstat_edit_def localstat_done_def Let_def)

lemma outer_localstat [simp]: "outer (localstat s) = outer s"
  by (simp add: localstat_def case_prod_beta Let_def)

lemma outer_clientstat_mode [simp]: "outer (clientstat_mode s) = outer s"
  by (simp add: clientstat_mode_def clientstat_mode_set_def Let_def)

lemma outer_willoption [simp]: "outer (willoption opt s) = outer s"
  by (simp add: willoption_unfold doclientstat_def Let_def)

lemma outer_wontoption [simp]: "outer (wontoption opt s) = outer s"
  by (simp add: wontoption_def wontoption_off_def Let_def)

lemma outer_dooption [simp]: "outer (dooption opt s) = outer s"
  by (simp add: dooption_def dooption_ask_def Let_def)

lemma outer_dontoption [simp]: "outer (dontoption opt s) = outer s"
  by (simp add: dontoption_def dontoption_off_def Let_def)

lemma outer_sb [simp]:
  "outer (SB_CLEAR s) = outer s" "outer (SB_TERM s) = outer s" "outer (SB_ACCUM c s) = outer s"
  "outer (snd (SB_GET s)) = outer s" "outer (sb_put n c s) = outer s" "outer (env_store v w s) = outer s"
  by (simp_all add: SB_CLEAR_def SB_TERM_def SB_ACCUM_def SB_GET_def sb_put_def env_store_def
      split: option.splits)

lemma outer_send_status [simp]: "outer (send_status s) = outer s"
  by (simp add: send_status_def case_prod_beta Let_def)

lemma sb_loops_frame:
  fixes f :: "telnetd \<Rightarrow> 'a"
  assumes get: "\<And>s. f (snd (SB_GET s)) = f s" and put: "\<And>n c s. f (sb_put n c s) = f s"
    and store: "\<And>v w s. f (env_store v w s) = f s"
  shows env_skip_frame: "f (env_skip var s) = f s"
    and skip_to_comma_frame: "f (skip_to_comma s) = f s"
    and env_loop_frame: "f (env_loop old cp varp valp s) = f s"
proof -
  show "f (env_skip var s) = f s"
  proof (induction var s rule: env_skip.induct)
    case (1 var s)
    then show ?case using get [of s] by (cases "SB_GET s") (subst env_skip.simps, simp)
  qed
  show "f (skip_to_comma s) = f s"
  proof (induction s rule: skip_to_comma.induct)
    case (1 s)
    then show ?case using get [of s] by (cases "SB_GET s") (subst skip_to_comma.simps, simp)
  qed
  show "f (env_loop old cp varp valp s) = f s"
  proof (induction old cp varp valp s rule: env_loop.induct)
    case (1 old cp varp valp s)
    obtain c0 s1 where g: "SB_GET s = (c0, s1)" by force
    obtain c1 s2 where g2: "SB_GET s1 = (c1, s2)" by force
    have [simp]: "f s1 = f s" "f s2 = f s" using get [of s] get [of s1] g g2 by simp_all
    show ?case
      using 1 by (subst env_loop.simps) (auto simp: g g2 Let_def put store)
  qed
qed

lemmas outer_loops [simp] = sb_loops_frame [where f = outer, OF outer_sb(4-6)]

lemma outer_suboption [simp]: "outer (suboption s) = outer s"
  by (simp add: suboption_def suboption_tspeed_def suboption_ttype_def suboption_naws_def
      suboption_linemode_def suboption_status_def suboption_xdisploc_def suboption_environ_def
      case_prod_beta Let_def)

section \<open>The loop\<close>

lemma goto_state_fields [simp]:
  "ncc (goto_state t s) = ncc s" "netip (goto_state t s) = netip s" "netibuf (goto_state t s) = netibuf s"
  "pbackp (goto_state t s) = pbackp s" "pfrontp (goto_state t s) = pfrontp s"
  "ptyobuf (goto_state t s) = ptyobuf s" "ptyin (goto_state t s) = ptyin s"
  "subbuffer (goto_state t s) = subbuffer s" "subpointer (goto_state t s) = subpointer s"
  "slctab (goto_state t s) = slctab s" "rcv_state (goto_state t s) = t" "exited (goto_state t s) = exited s"
  "linemode (goto_state t s) = linemode s" "options (goto_state t s) = options s"
  "termbuf (goto_state t s) = termbuf s"
  by (simp_all add: goto_state_def)

lemma init_termbuf_fields [simp]:
  "ncc (init_termbuf s) = ncc s" "pbackp (init_termbuf s) = pbackp s" "pfrontp (init_termbuf s) = pfrontp s"
  "ptyobuf (init_termbuf s) = ptyobuf s" "subbuffer (init_termbuf s) = subbuffer s"
  "subpointer (init_termbuf s) = subpointer s" "slctab (init_termbuf s) = slctab s"
  "exited (init_termbuf s) = exited s" "rcv_state (init_termbuf s) = rcv_state s"
  by (simp_all add: init_termbuf_def)

text \<open>The operations that write to the pty put at most one byte into its buffer, in which there is
  room for two.  \<open>pty_step s t\<close> collects what they all have in common.\<close>

definition pty_step :: "telnetd \<Rightarrow> telnetd \<Rightarrow> bool" where
  "pty_step s t \<longleftrightarrow> ncc t = ncc s \<and> length (subbuffer t) = length (subbuffer s)
     \<and> (\<lambda>i. sptr (slctab t i)) = (\<lambda>i. sptr (slctab s i))
     \<and> (pty_ok s \<and> \<not> pty_buffer_is_full s \<longrightarrow> pty_ok t)"

lemma ptyflush_pfrontp: "pty_ok s \<Longrightarrow> pfrontp (ptyflush s) \<le> pfrontp s"
  by (auto simp: ptyflush_def ptyflush_advance_def pty_ok_def cleanup_def Let_def split: prod.splits wres.splits)

lemma outer_step: "outer t = outer s \<Longrightarrow> pty_step s t"
  by (simp add: pty_step_def outer_def pty_ok_def)

lemma pty_output_step:
  assumes "outer t = outer s \<or> t = init_termbuf (ptyflush s) \<or> t = ptyflush s"
  shows "pty_step s (pty_output_byte c t)" "pty_step s t"
proof -
  have "ncc t = ncc s \<and> length (subbuffer t) = length (subbuffer s)
    \<and> (\<lambda>i. sptr (slctab t i)) = (\<lambda>i. sptr (slctab s i)) \<and> (pty_ok s \<longrightarrow> pty_ok t \<and> pfrontp t \<le> pfrontp s)"
    using assms ptyflush_ok [of s] ptyflush_pfrontp [of s]
    by (elim disjE) (auto simp: pty_ok_def outer_def)
  then show "pty_step s (pty_output_byte c t)" "pty_step s t"
    by (auto simp: pty_step_def pty_output_byte_def pty_ok_def pty_buffer_is_full_def)
qed

lemma goto_step [simp]: "pty_step s (goto_state x t) = pty_step s t"
  by (simp add: pty_step_def pty_ok_def)

lemma pty_step_refl [simp]: "pty_step s s" by (simp add: pty_step_def)

lemma send_step:
  "pty_step s (send_eof s)" "pty_step s (send_susp s)" "pty_step s (send_brk s)" "pty_step s (send_intr s)"
  "pty_step s (recv_ayt s)" "pty_step s (recv_dm s)"
  using pty_output_step(1) [of "ptyflush s" s] pty_output_step(1) [of "init_termbuf (ptyflush s)" s]
    pty_output_step(1) [of "init_termbuf s" s] outer_step [of "recv_ayt s" s] outer_step [of "recv_dm s" s]
  by (simp_all add: send_eof_def send_susp_def send_brk_def send_intr_def term_send_eof_def recv_ayt_def
      recv_dm_def Let_def)

lemma recv_erase_step: "recv_erase i s = Inr t \<Longrightarrow> pty_step s t"
  using pty_output_step [of "init_termbuf (ptyflush s)" s]
  by (auto simp: recv_erase_def Let_def split: option.splits if_splits)

lemma recv_ao_step: "recv_ao s = Inr t \<Longrightarrow> pty_step s t"
proof -
  assume a: "recv_ao s = Inr t"
  define s1 where "s1 = init_termbuf (ptyflush s)"
  define s2 where "s2 = (if sptr (slctab s1 SLC_AO) \<noteq> None \<and> sptr_get s1 SLC_AO \<noteq> VDISABLE
                     then pty_output_byte (sptr_get s1 SLC_AO) s1 else s1)"
  have s: "pty_step s s1" "pty_step s s2"
    using pty_output_step [of s1 s] by (simp_all add: s2_def s1_def)
  have nc: "outer s3 = outer s2" if "netclear s2 = Some s3" for s3
    using that by (auto simp: netclear_def split: option.splits)
  from a consider "t = s1" | s3 where "netclear s2 = Some s3" "t = set_neturg (net_output_data 4 [IAC, DM] s3)"
    unfolding recv_ao_def Let_def s1_def [symmetric] s2_def [symmetric]
    by (auto split: if_splits option.splits)
  then show ?thesis
  proof cases
    case 1
    then show ?thesis using s by simp
  next
    case 2
    then have "outer t = outer s2" using nc by (simp add: set_neturg_def)
    then show ?thesis using s(2) by (auto simp: pty_step_def outer_def pty_ok_def)
  qed
qed

lemma gotiac_step: "gotiac c s = Inr t \<Longrightarrow> pty_step s t"
proof -
  assume g: "gotiac c s = Inr t"
  consider "c = AO" | "c = EC \<or> c = EL" | "c \<notin> {AO, EC, EL}" by blast
  then show ?thesis
  proof cases
    case 1
    then show ?thesis using g recv_ao_step by (cases "recv_ao s") (auto simp: gotiac_def)
  next
    case 2
    then show ?thesis
      using g recv_erase_step [of SLC_EC s] recv_erase_step [of SLC_EL s]
      by (cases "recv_erase SLC_EC s"; cases "recv_erase SLC_EL s") (auto simp: gotiac_def)
  next
    case 3
    have "pty_step s (SB_CLEAR (goto_state TS_SB s))"
      by (simp add: pty_step_def SB_CLEAR_def pty_ok_def)
    with 3 g show ?thesis
      by (auto simp: gotiac_def send_step pty_output_step split: if_splits)
  qed
qed


lemma sb_finish_outer [simp]: "outer (sb_finish c s) = outer s"
  by (simp add: sb_finish_def sb_ready_def Let_def)

lemma telrcv_data_step: "pty_step s (telrcv_data c s) \<or> c = 13 \<and> ncc s > 0
    \<and> pty_step (s\<lparr>ncc := ncc s - 1\<rparr>) (telrcv_data c s)"
proof -
  have g: "snd (net_get_char False s) = s\<lparr>ncc := ncc s - 1, netip := netip s + 1\<rparr>" if "ncc s > 0"
    using that by (simp add: net_get_char_def)
  have "pty_step (s\<lparr>ncc := ncc s - 1\<rparr>) (pty_output_byte 10 (s\<lparr>ncc := ncc s - 1, netip := netip s + 1\<rparr>))"
    by (auto simp: pty_step_def pty_output_byte_def pty_ok_def pty_buffer_is_full_def)
  moreover have "pty_step s (pty_output_byte c (goto_state TS_CR s))"
    by (auto simp: pty_step_def pty_output_byte_def pty_ok_def pty_buffer_is_full_def)
  moreover have "pty_step s (pty_output_byte c s)" "pty_step s (goto_state TS_IAC s)"
    using pty_output_step(1) [of s s c] by simp_all
  ultimately show ?thesis
    using g by (cases "c = 13") (simp_all add: telrcv_data_def net_input_level_def Let_def)
qed

lemma telrcv_char_step:
  assumes "telrcv_char c s = Inr t"
  shows "pty_step s t \<or> ncc s > 0 \<and> pty_step (s\<lparr>ncc := ncc s - 1\<rparr>) t"
proof (cases "rcv_state s")
  case TS_DATA
  then show ?thesis using assms telrcv_data_step [of s c] by (auto simp: telrcv_char_def)
next
  case TS_CR
  have "pty_step (goto_state TS_DATA s) u = pty_step s u" 
     "pty_step ((goto_state TS_DATA s)\<lparr>ncc := n\<rparr>) u = pty_step (s\<lparr>ncc := n\<rparr>) u" for u n
    by (simp_all add: pty_step_def pty_ok_def pty_buffer_is_full_def)
  then show ?thesis
    using assms telrcv_data_step [of "goto_state TS_DATA s" c] TS_CR
    by (auto simp: telrcv_char_def Let_def split: if_splits)
next
  case TS_IAC
  then show ?thesis using assms gotiac_step by (auto simp: telrcv_char_def)
next
  case TS_SB
  then show ?thesis using assms by (auto simp: telrcv_char_def outer_step split: if_splits)
next
  case TS_SE
  have "pty_step (goto_state TS_IAC (sb_finish c s)) t \<Longrightarrow> pty_step s t"
    using outer_step [of "sb_finish c s" s] sb_finish_outer [of c s]
    by (auto simp: pty_step_def pty_ok_def pty_buffer_is_full_def outer_def)
  then show ?thesis
    using assms TS_SE gotiac_step [of c "goto_state TS_IAC (sb_finish c s)" t]
    by (auto simp: telrcv_char_def Let_def outer_step split: if_splits)
qed (use assms in \<open>auto simp: telrcv_char_def outer_step\<close>)

lemma telrcv_step_ncc: "telrcv_step s = Inr t \<Longrightarrow> ncc s > 0 \<Longrightarrow> ncc t < ncc s"
  using telrcv_char_step [of "fst (net_get_char False s)" "snd (net_get_char False s)" t]
  by (auto simp: telrcv_step_def net_get_char_def pty_step_def)

function telrcv :: "telnetd \<Rightarrow> fault + telnetd" where
  "telrcv s =
     (if net_input_level s > 0 \<and> \<not> pty_buffer_is_full s \<and> \<not> exited s then
        (case telrcv_step s of Inl f \<Rightarrow> Inl f | Inr t \<Rightarrow> telrcv t)
      else Inr s)"
  by pat_completeness auto
termination
  by (relation "measure (\<lambda>s. nat (ncc s))") (auto simp: net_input_level_def telrcv_step_ncc)

declare telrcv.simps [simp del]

lemma telrcv_induct [consumes 1, case_names stop step]:
  assumes "telrcv s = Inr t"
    and "\<And>s. P s s"
    and "\<And>s u t. net_input_level s > 0 \<Longrightarrow> \<not> pty_buffer_is_full s \<Longrightarrow> \<not> exited s \<Longrightarrow> telrcv_step s = Inr u
      \<Longrightarrow> telrcv u = Inr t \<Longrightarrow> P u t \<Longrightarrow> P s t"
  shows "P s t"
  using assms(1)
proof (induction s rule: telrcv.induct)
  case (1 s)
  show ?case
  proof (cases "net_input_level s > 0 \<and> \<not> pty_buffer_is_full s \<and> \<not> exited s")
    case True
    then obtain u where u: "telrcv_step s = Inr u" "telrcv u = Inr t"
      using 1(2) telrcv.simps [of s] by (auto split: sum.splits)
    then show ?thesis using assms(3) [of s u t] 1(1) [OF True u] True by simp
  next
    case False
    then have "t = s" using 1(2) telrcv.simps [of s] by (auto split: if_splits)
    then show ?thesis by (simp add: assms(2))
  qed
qed


section \<open>The invariant\<close>

definition telrcv_ok :: "telnetd \<Rightarrow> bool" where
  "telrcv_ok s \<longleftrightarrow> pty_ok s \<and> length (subbuffer s) = SUBBUFSIZ
     \<and> (rcv_state s = TS_SB \<or> rcv_state s = TS_SE \<longrightarrow> subpointer s \<le> SUBBUFSIZ)"

lemma gotiac_state:
  "gotiac c s = Inr t \<Longrightarrow> rcv_state t \<noteq> TS_SE \<and> (rcv_state t = TS_SB \<longrightarrow> subpointer t = 0)"
  by (cases "recv_ao s"; cases "recv_erase SLC_EC s"; cases "recv_erase SLC_EL s")
    (auto simp: gotiac_def SB_CLEAR_def split: if_splits)

lemma telrcv_data_state:
  "rcv_state s \<notin> {TS_SB, TS_SE} \<Longrightarrow> rcv_state (telrcv_data c s) \<notin> {TS_SB, TS_SE}"
  by (auto simp: telrcv_data_def net_get_char_def Let_def)

lemma telrcv_char_sb:
  assumes "telrcv_char c s = Inr t" "rcv_state s = TS_SB \<or> rcv_state s = TS_SE \<longrightarrow> subpointer s \<le> SUBBUFSIZ"
  shows "rcv_state t = TS_SB \<or> rcv_state t = TS_SE \<longrightarrow> subpointer t \<le> SUBBUFSIZ"
proof (cases "rcv_state s")
  case TS_DATA
  then show ?thesis using assms telrcv_data_state [of s c] by (auto simp: telrcv_char_def)
next
  case TS_CR
  then show ?thesis
    using assms telrcv_data_state [of "goto_state TS_DATA s" c]
    by (auto simp: telrcv_char_def Let_def split: if_splits)
next
  case TS_IAC
  then show ?thesis using assms gotiac_state by (auto simp: telrcv_char_def)
next
  case TS_SB
  then show ?thesis using assms by (auto simp: telrcv_char_def SB_ACCUM_def split: if_splits)
next
  case TS_SE
  then show ?thesis
    using assms gotiac_state [of c "goto_state TS_IAC (sb_finish c s)" t]
    by (auto simp: telrcv_char_def SB_ACCUM_def Let_def split: if_splits)
qed (use assms in \<open>auto simp: telrcv_char_def\<close>)

lemma net_get_char_step:
  "pty_step s t \<Longrightarrow> pty_ok (s\<lparr>ncc := a, netip := b\<rparr>) = pty_ok s"
  "pty_buffer_is_full (s\<lparr>ncc := a, netip := b\<rparr>) = pty_buffer_is_full s"
  by (simp_all add: pty_ok_def pty_buffer_is_full_def)

lemma telrcv_step_ok:
  assumes "telrcv_step s = Inr t" "\<not> pty_buffer_is_full s" "telrcv_ok s"
  shows "telrcv_ok t" "sptr (slctab t i) = sptr (slctab s i)"
proof -
  define u where "u = snd (net_get_char False s)"
  have u: "pty_ok u" "\<not> pty_buffer_is_full u" "subbuffer u = subbuffer s" "subpointer u = subpointer s"
    "rcv_state u = rcv_state s" "slctab u = slctab s"
    using assms by (auto simp: u_def net_get_char_def telrcv_ok_def pty_ok_def pty_buffer_is_full_def)
  have c: "telrcv_char (fst (net_get_char False s)) u = Inr t"
    using assms(1) by (simp add: telrcv_step_def u_def case_prod_beta)
  have "rcv_state t = TS_SB \<or> rcv_state t = TS_SE \<longrightarrow> subpointer t \<le> SUBBUFSIZ"
    by (rule telrcv_char_sb [OF c]) (use assms(3) u in \<open>simp add: telrcv_ok_def\<close>)
  moreover have "pty_ok t \<and> length (subbuffer t) = length (subbuffer s)
      \<and> (\<lambda>i. sptr (slctab t i)) = (\<lambda>i. sptr (slctab s i))"
    using telrcv_char_step [OF c] u by (auto simp: pty_step_def pty_ok_def pty_buffer_is_full_def)
  ultimately show "telrcv_ok t" "sptr (slctab t i) = sptr (slctab s i)"
    using assms(3) by (simp_all add: telrcv_ok_def fun_eq_iff)
qed

text \<open>Suboptions are handed on with two bytes of the buffer to spare.\<close>

lemma sb_ready_bounds:
  "subpointer s \<le> SUBBUFSIZ \<Longrightarrow> subend (sb_ready c s) = min (subpointer s) (SUBBUFSIZ - 2)
    \<and> subpointer (sb_ready c s) = 0"
  by (auto simp: sb_ready_def SB_TERM_def SB_CLEAR_def SB_ACCUM_def Let_def)

section \<open>Null pointers\<close>

lemma telrcv_step_null:
  assumes "telrcv_step s = Inl Null_deref"
  shows "sptr (slctab s SLC_EC) = None \<or> sptr (slctab s SLC_EL) = None"
proof -
  define u where "u = snd (net_get_char False s)"
  have c: "telrcv_char (fst (net_get_char False s)) u = Inl Null_deref"
    using assms by (simp add: telrcv_step_def u_def case_prod_beta)
  have e: "recv_erase i t = Inl Null_deref \<Longrightarrow> sptr (slctab t i) = None" for i t
    by (auto simp: recv_erase_def Let_def split: if_splits option.splits)
  have ao: "recv_ao t \<noteq> Inl Null_deref" for t
    by (auto simp: recv_ao_def Let_def split: option.splits)
  have g: "gotiac c t = Inl Null_deref \<Longrightarrow> sptr (slctab t SLC_EC) = None \<or> sptr (slctab t SLC_EL) = None" for c t
    using e [of SLC_EC t] e [of SLC_EL t] ao [of t]
    by (cases "recv_ao t"; cases "recv_erase SLC_EC t"; cases "recv_erase SLC_EL t")
      (auto simp: gotiac_def split: if_splits)
  have "sptr (slctab u SLC_EC) = None \<or> sptr (slctab u SLC_EL) = None"
    using c g [of "fst (net_get_char False s)" u]
      g [of "fst (net_get_char False s)" "goto_state TS_IAC (sb_finish (fst (net_get_char False s)) u)"]
      outer_fields(11) [OF sb_finish_outer]
    by (auto simp: telrcv_char_def Let_def split: tstate.splits if_splits)
  then show ?thesis by (auto simp: u_def net_get_char_def split: if_splits)
qed

lemma telrcv_no_null:
  "telrcv_ok s \<Longrightarrow> sptr (slctab s SLC_EC) \<noteq> None \<Longrightarrow> sptr (slctab s SLC_EL) \<noteq> None
    \<Longrightarrow> telrcv s \<noteq> Inl Null_deref"
proof (induction s rule: telrcv.induct)
  case (1 s)
  show ?case
  proof (cases "telrcv_step s")
    case (Inl f)
    then show ?thesis using telrcv_step_null [of s] 1(3,4) by (subst telrcv.simps) auto
  next
    case (Inr u)
    then show ?thesis
      using 1 telrcv_step_ok [OF Inr _ 1(2)] by (subst telrcv.simps) auto
  qed
qed

lemma get_slc_default_fold:
  "i \<in> set is \<Longrightarrow> (\<And>s. sptr (slctab (get_slc_default_one i s) i) = p) \<Longrightarrow>
   sptr (slctab (fold get_slc_default_one is s) i) = p"
proof (induction "is" arbitrary: s rule: rev_induct)
  case (snoc j js)
  then show ?case
    by (cases "i = j") (auto simp: get_slc_default_one_def split: prod.splits)
qed simp

lemma get_slc_defaults_erase [simp]:
  "sptr (slctab (get_slc_defaults s) SLC_EC) = Some VERASE"
  "sptr (slctab (get_slc_defaults s) SLC_EL) = Some VKILL"
  unfolding get_slc_defaults_def
  by (rule get_slc_default_fold; simp add: slc_funcs_def get_slc_default_one_def spcset_def setval_def)+

section \<open>Data goes through unchanged\<close>

text \<open>How a byte of data is written on the network: an \<open>IAC\<close> doubled and, unless the option BINARY is
  in force, a carriage return followed by a null.\<close>

definition nvt_esc :: "bool \<Rightarrow> byte \<Rightarrow> byte list" where
  "nvt_esc binary c = (if c = IAC then [IAC, IAC] else if c = 13 \<and> \<not> binary then [13, 0] else [c])"

definition net_input :: "telnetd \<Rightarrow> byte list" where
  "net_input s = slice (netibuf s) (netip s) (netip s + nat (ncc s))"

definition deliver :: "byte \<Rightarrow> nat \<Rightarrow> telnetd \<Rightarrow> telnetd" where
  "deliver c k s = pty_output_byte c (s\<lparr>ncc := ncc s - int k, netip := netip s + k\<rparr>)"

lemma net_input_Cons:
  assumes "net_input s = c # cs"
  shows "ncc s > 0" "net_get_char False s = (c, s\<lparr>ncc := ncc s - 1, netip := netip s + 1\<rparr>)"
    "net_input (s\<lparr>ncc := ncc s - 1, netip := netip s + 1\<rparr>) = cs"
proof -
  show p: "ncc s > 0" using assms by (cases "ncc s > 0") (simp_all add: net_input_def slice_def)
  then obtain n where n: "nat (ncc s) = Suc n" by (metis gr0_implies_Suc zero_less_nat_eq)
  have "slice (netibuf s) (netip s) (netip s + Suc n)
      = netibuf s (netip s) # slice (netibuf s) (Suc (netip s)) (Suc (netip s) + n)"
    by (simp add: slice_def upt_conv_Cons del: upt_Suc)
  then have e: "c = netibuf s (netip s)" "cs = slice (netibuf s) (Suc (netip s)) (Suc (netip s) + n)"
    using assms n by (simp_all add: net_input_def)
  have "nat (ncc s - 1) = n" using n by simp
  then show "net_input (s\<lparr>ncc := ncc s - 1, netip := netip s + 1\<rparr>) = cs"
    using e by (simp add: net_input_def)
  show "net_get_char False s = (c, s\<lparr>ncc := ncc s - 1, netip := netip s + 1\<rparr>)"
    using e p by (simp add: net_get_char_def)
qed

lemma telrcv_next:
  assumes "net_input s = c # cs" "\<not> pty_buffer_is_full s" "\<not> exited s"
  shows "telrcv s = (case telrcv_char c (s\<lparr>ncc := ncc s - 1, netip := netip s + 1\<rparr>) of
      Inl f \<Rightarrow> Inl f | Inr t \<Rightarrow> telrcv t)"
  using assms net_input_Cons [OF assms(1)]
  by (subst telrcv.simps) (simp add: net_input_level_def telrcv_step_def)

lemma telrcv_end: "net_input s = [] \<Longrightarrow> ncc s \<ge> 0 \<Longrightarrow> telrcv s = Inr s"
  by (subst telrcv.simps) (auto simp: net_input_level_def net_input_def slice_def)

lemma pty_output_byte_sent: "pty_ok s \<Longrightarrow> pty_sent (pty_output_byte c s) = pty_sent s @ [c]"
  by (simp add: pty_sent_def pty_output_byte_def pty_ok_def slice_def)

text \<open>One byte of data, as the network has it, is delivered and nothing else changes.\<close>

lemma telrcv_deliver:
  assumes i: "net_input s = nvt_esc (his_state_is_will s TELOPT_BINARY) c @ cs"
    and st: "rcv_state s = TS_DATA" "\<not> exited s" "pfrontp s + 2 < BUFSIZ"
    and lm: "his_state_is_will s TELOPT_BINARY \<or> linemode s = 0"
  shows "telrcv s = telrcv (deliver c (length (nvt_esc (his_state_is_will s TELOPT_BINARY) c)) s)"
proof -
  define u where "u = s\<lparr>ncc := ncc s - 1, netip := netip s + 1\<rparr>"
  have nf: "\<not> pty_buffer_is_full t" if "pfrontp t \<le> pfrontp s + 1" for t
    using st(3) that by (simp add: pty_buffer_is_full_def)
  have his: "his_state_is_will (s\<lparr>ncc := a, netip := b\<rparr>) opt = his_state_is_will s opt" for a b opt
    by (simp add: his_state_is_will_def)
  consider "c = IAC" | "c = 13" "\<not> his_state_is_will s TELOPT_BINARY"
    | "c \<noteq> IAC" "c = 13 \<longrightarrow> his_state_is_will s TELOPT_BINARY" by blast
  then show ?thesis
  proof cases
    case 1
    then have i1: "net_input s = IAC # IAC # cs" using i by (simp add: nvt_esc_def)
    note g1 = net_input_Cons [OF i1, folded u_def]
    have r1: "telrcv s = telrcv (goto_state TS_IAC u)"
      using telrcv_next [OF i1 nf st(2), folded u_def] st(1) by (simp add: telrcv_char_def telrcv_data_def u_def)
    have i2: "net_input (goto_state TS_IAC u) = IAC # cs" using g1(3) by (simp add: net_input_def)
    have eq: "goto_state TS_DATA (pty_output_byte IAC ((goto_state TS_IAC u)\<lparr>ncc := ncc u - 1, netip := netip u + 1\<rparr>))
        = deliver IAC 2 s"
      using st(1) by (simp add: deliver_def u_def goto_state_def pty_output_byte_def)
    have l: "length (nvt_esc b c) = 2" for b using 1 by (simp add: nvt_esc_def)
    show ?thesis
      unfolding l using telrcv_next [OF i2] nf [of "goto_state TS_IAC u"] st 1 eq
      by (simp add: r1 telrcv_char_def gotiac_def u_def)
  next
    case 2
    then have i1: "net_input s = 13 # 0 # cs" using i by (simp add: nvt_esc_def)
    note g1 = net_input_Cons [OF i1, folded u_def]
    have r1: "telrcv s = telrcv (pty_output_byte 13 (goto_state TS_CR u))"
      using telrcv_next [OF i1 nf st(2), folded u_def] st(1) lm 2
      by (simp add: telrcv_char_def telrcv_data_def u_def his)
    have i2: "net_input (pty_output_byte 13 (goto_state TS_CR u)) = 0 # cs"
      using g1(3) by (simp add: net_input_def)
    have eq: "goto_state TS_DATA ((pty_output_byte 13 (goto_state TS_CR u))\<lparr>ncc := ncc u - 1, netip := netip u + 1\<rparr>)
        = deliver 13 2 s"
      using st(1) by (simp add: deliver_def u_def goto_state_def pty_output_byte_def)
    have "pfrontp (pty_output_byte 13 (goto_state TS_CR u)) = pfrontp s + 1"
      "exited (pty_output_byte 13 (goto_state TS_CR u)) = exited s"
      "rcv_state (pty_output_byte 13 (goto_state TS_CR u)) = TS_CR"
      by (simp_all add: u_def pty_output_byte_def)
    moreover have l: "length (nvt_esc (his_state_is_will s TELOPT_BINARY) c) = 2"
      using 2 by (simp add: nvt_esc_def)
    ultimately show ?thesis
      unfolding l using telrcv_next [OF i2 nf] st(2) 2 eq
      by (simp add: r1 telrcv_char_def u_def Let_def)
  next
    case 3
    have e: "nvt_esc (his_state_is_will s TELOPT_BINARY) c = [c]" using 3 by (auto simp: nvt_esc_def)
    have "telrcv_data c u = pty_output_byte c u"
      using 3 by (auto simp: telrcv_data_def u_def his)
    moreover have "deliver c 1 s = pty_output_byte c u" by (simp add: deliver_def u_def)
    moreover have "telrcv_char c u = Inr (telrcv_data c u)" using st(1) by (simp add: telrcv_char_def u_def)
    ultimately show ?thesis
      using telrcv_next [OF _ nf st(2), of c cs, folded u_def] i by (simp add: e)
  qed
qed

lemma deliver_fields [simp]:
  "rcv_state (deliver c k s) = rcv_state s" "exited (deliver c k s) = exited s"
  "pfrontp (deliver c k s) = pfrontp s + 1" "linemode (deliver c k s) = linemode s"
  "his_state_is_will (deliver c k s) opt = his_state_is_will s opt" "ncc (deliver c k s) = ncc s - int k"
  by (simp_all add: deliver_def pty_output_byte_def his_state_is_will_def)

lemma deliver_pty:
  "pty_ok s \<Longrightarrow> pfrontp s < BUFSIZ \<Longrightarrow> pty_ok (deliver c k s)"
  "pty_ok s \<Longrightarrow> pty_sent (deliver c k s) = pty_sent s @ [c]"
  using pty_output_byte_sent [of "s\<lparr>ncc := ncc s - int k, netip := netip s + k\<rparr>" c]
  by (simp_all add: deliver_def pty_output_byte_def pty_ok_def pty_sent_def)

lemma deliver_input: "net_input s = bs @ cs \<Longrightarrow> net_input (deliver c (length bs) s) = cs"
proof -
  assume a: "net_input s = bs @ cs"
  then have "length (net_input s) = length bs + length cs" by simp
  then have l: "nat (ncc s) = length bs + length cs" by (simp add: net_input_def slice_def)
  then have "nat (ncc s - int (length bs)) = length cs" by simp
  moreover have "slice (netibuf s) (netip s + length bs) (netip s + length bs + length cs)
      = drop (length bs) (net_input s)"
    using l by (simp add: net_input_def slice_def drop_map add.assoc)
  ultimately show ?thesis using a by (simp add: net_input_def deliver_def pty_output_byte_def)
qed

lemma telrcv_transparent_aux:
  assumes "net_input s = concat (map (nvt_esc (his_state_is_will s TELOPT_BINARY)) ds)" "ncc s \<ge> 0"
    "rcv_state s = TS_DATA" "\<not> exited s" "pty_ok s" "pfrontp s + length ds + 1 < BUFSIZ"
    "his_state_is_will s TELOPT_BINARY \<or> linemode s = 0"
  shows "\<exists>t. telrcv s = Inr t \<and> pty_sent t = pty_sent s @ ds \<and> rcv_state t = TS_DATA \<and> ncc t = 0"
  using assms
proof (induction ds arbitrary: s)
  case Nil
  then have "ncc s = 0" by (auto simp: net_input_def slice_def)
  then show ?case using Nil telrcv_end [of s] by simp
next
  case (Cons c ds)
  let ?b = "his_state_is_will s TELOPT_BINARY"
  let ?t = "deliver c (length (nvt_esc ?b c)) s"
  have i: "net_input s = nvt_esc ?b c @ concat (map (nvt_esc ?b) ds)" using Cons.prems(1) by simp
  have "length (net_input s) \<ge> length (nvt_esc ?b c)" using i by simp
  then have "ncc ?t \<ge> 0" using Cons.prems(2) by (simp add: net_input_def slice_def)
  then have "\<exists>u. telrcv ?t = Inr u \<and> pty_sent u = pty_sent ?t @ ds \<and> rcv_state u = TS_DATA \<and> ncc u = 0"
    using Cons.prems deliver_input [OF i] by (intro Cons.IH) (auto intro: deliver_pty)
  moreover have "telrcv s = telrcv ?t"
    using telrcv_deliver [OF i] Cons.prems by simp
  moreover have "pty_sent ?t = pty_sent s @ [c]" by (rule deliver_pty(2)) (rule Cons.prems)
  ultimately show ?case by simp
qed

section \<open>Properties\<close>

text \<open>
  (C11) Receiving keeps the program's arrays intact, whatever the client sends: at every return of
  \<open>telrcv\<close> the pty buffer is within its size, the suboption buffer has its size and its pointer is
  within it; and every suboption is handed on with at least two bytes of its buffer to spare, so that
  the null stored after the last byte is inside.
\<close>

theorem telrcv_invariant:
  assumes "telrcv_ok s"
  shows "(telrcv s = Inr t \<longrightarrow> telrcv_ok t)
    \<and> (rcv_state s = TS_SE \<longrightarrow> subend (sb_ready c s) \<le> SUBBUFSIZ - 2 \<and> subpointer (sb_ready c s) = 0)"
proof -
  have "telrcv_ok t" if "telrcv s = Inr t"
    using that assms by (induction rule: telrcv_induct) (auto intro: telrcv_step_ok)
  then show ?thesis using sb_ready_bounds [of s c] assms by (auto simp: telrcv_ok_def)
qed

theorem telrcv_invariant_witness:
  "subend (sb_ready SE ((telnetd_start zero_termios)\<lparr>rcv_state := TS_SE, subpointer := 512\<rparr>)) \<le> 510"
proof -
  let ?s = "(telnetd_start zero_termios)\<lparr>rcv_state := TS_SE, subpointer := 512\<rparr>"
  have "telrcv_ok ?s" by (simp add: telrcv_ok_def telnetd_start_def pty_ok_def Let_def)
  from telrcv_invariant [OF this, of _ SE] show ?thesis by simp
qed

text \<open>
  Once the special characters have been set up by \<open>get_slc_defaults\<close>, no byte sequence makes
  \<open>telrcv\<close> follow a null pointer.
\<close>

theorem telrcv_no_null_after_defaults:
  assumes "telrcv_ok s"
    and "\<forall>i. sptr (slctab s i) = sptr (slctab (get_slc_defaults s0) i)"
  shows "telrcv s \<noteq> Inl Null_deref"
  using assms telrcv_no_null by (simp add: get_slc_defaults_erase)

theorem telrcv_no_null_after_defaults_witness:
  "telrcv ((telnetd_start zero_termios)\<lparr>slctab := slctab (get_slc_defaults (telnetd_start zero_termios)),
      netibuf := (\<lambda>_. 0)(0 := IAC, 1 := EC), ncc := 2\<rparr>) \<noteq> Inl Null_deref"
proof -
  let ?s = "(telnetd_start zero_termios)\<lparr>slctab := slctab (get_slc_defaults (telnetd_start zero_termios)),
      netibuf := (\<lambda>_. 0)(0 := IAC, 1 := EC), ncc := 2\<rparr>"
  have "telrcv_ok ?s" by (simp add: telrcv_ok_def telnetd_start_def pty_ok_def Let_def)
  then show ?thesis by (rule telrcv_no_null_after_defaults [of _ "telnetd_start zero_termios"]) simp
qed

text \<open>
  Before that, during the negotiation of the terminal type, the pointers are null, and the two
  bytes \<open>IAC EC\<close> or \<open>IAC EL\<close> from the client are enough to bring the server down.
\<close>

theorem erase_before_defaults_faults:
  "telrcv (net_read (Got [IAC, EC]) (telnetd_start attr)) = Inl Null_deref
   \<and> telrcv (net_read (Got [IAC, EL]) (telnetd_start attr)) = Inl Null_deref"
proof -
  have "telrcv (net_read (Got [IAC, c]) (telnetd_start attr)) = Inl Null_deref" if "c = EC \<or> c = EL" for c
  proof -
    let ?s = "net_read (Got [IAC, c]) (telnetd_start attr)"
    have i: "net_input ?s = [IAC, c]"
      by (simp add: net_read_def net_input_def telnetd_start_def slice_def buf_write_def upt_conv_Cons Let_def)
    have nf: "\<not> pty_buffer_is_full ?s" "\<not> exited ?s" "rcv_state ?s = TS_DATA"
      "sptr (slctab ?s k) = None" "pfrontp ?s = 0" "pbackp ?s = 0" for k
      by (simp_all add: net_read_def telnetd_start_def pty_buffer_is_full_def Let_def)
    define u where "u = goto_state TS_IAC (?s\<lparr>ncc := ncc ?s - 1, netip := netip ?s + 1\<rparr>)"
    have r: "telrcv ?s = telrcv u"
      using telrcv_next [OF i nf(1,2)] nf(3) by (simp add: telrcv_char_def telrcv_data_def u_def)
    have u: "net_input u = [c]" "\<not> pty_buffer_is_full u" "\<not> exited u" "rcv_state u = TS_IAC"
      "sptr (slctab u k) = None" "pfrontp u = 0" "pbackp u = 0" for k
      using net_input_Cons(3) [OF i] nf by (simp_all add: u_def net_input_def pty_buffer_is_full_def)
    have "recv_erase k (u\<lparr>ncc := a, netip := b\<rparr>) = Inl Null_deref" for k a b
      using u by (simp add: recv_erase_def ptyflush_def ptyflush_advance_def Let_def)
    then show ?thesis
      unfolding r using telrcv_next [OF u(1-3)] u(4) that by (auto simp: telrcv_char_def gotiac_def)
  qed
  then show ?thesis by blast
qed

text \<open>
  (C1) Data reaches the pty unchanged: what a client sends in the format of the network virtual
  terminal is delivered byte for byte and in order, the escapes removed, and the machine is back in
  its base state with all input consumed.  This is so with the option BINARY in force, and without it
  when the terminal is in character mode.
\<close>

theorem telrcv_transparent:
  assumes "net_input s = concat (map (nvt_esc (his_state_is_will s TELOPT_BINARY)) ds)" "ncc s \<ge> 0"
    and "rcv_state s = TS_DATA" "\<not> exited s" "pty_ok s" "pfrontp s + length ds + 1 < BUFSIZ"
    and "his_state_is_will s TELOPT_BINARY \<or> linemode s = 0"
  shows "\<exists>t. telrcv s = Inr t \<and> pty_sent t = pty_sent s @ ds \<and> rcv_state t = TS_DATA \<and> ncc t = 0"
  using telrcv_transparent_aux [OF assms] .

theorem telrcv_transparent_witness:
  "\<exists>t. telrcv (net_read (Got [97, 13, 0, IAC, IAC, 98]) (telnetd_start zero_termios)) = Inr t
     \<and> pty_sent t = [97, 13, IAC, 98]"
proof -
  let ?s = "net_read (Got [97, 13, 0, IAC, IAC, 98]) (telnetd_start zero_termios)"
  have i: "net_input ?s = [97, 13, 0, IAC, IAC, 98]"
    by (simp add: net_read_def net_input_def telnetd_start_def slice_def buf_write_def upt_conv_Cons Let_def)
  have s: "\<not> his_state_is_will ?s TELOPT_BINARY" "pty_sent ?s = []" "pfrontp ?s = 0" "linemode ?s = 0"
    "ncc ?s \<ge> 0" "rcv_state ?s = TS_DATA" "\<not> exited ?s" "pty_ok ?s"
    by (simp_all add: net_read_def telnetd_start_def his_state_is_will_def pty_sent_def pty_ok_def Let_def)
  have "\<exists>t. telrcv ?s = Inr t \<and> pty_sent t = pty_sent ?s @ [97, 13, IAC, 98] \<and> rcv_state t = TS_DATA \<and> ncc t = 0"
    by (rule telrcv_transparent) (use i s in \<open>simp_all add: nvt_esc_def\<close>)
  then show ?thesis using s by auto
qed

end
