(* ===== verification/Telnetd_Loop.thy ===== *)
theory Telnetd_Loop
  imports Telnetd_Receive
begin

text \<open>
  The main loop of the server, \<open>telnetd_run\<close> of \<open>telnetd/telnetd.c\<close>, with the operations on the input
  from the pty of \<open>telnetd/utility.c\<close>.  What \<open>select\<close> and \<open>read\<close> answer are arguments of the
  definitions, as is the layout of the C structure \<open>termios\<close> in memory (\<open>overlay\<close>), over which
  \<open>copy_termbuf\<close> writes bytes.
\<close>

section \<open>Input from the pty\<close>

definition pty_input_level :: "telnetd \<Rightarrow> int" where
  "pty_input_level s = pcc s"

definition pty_get_char :: "bool \<Rightarrow> telnetd \<Rightarrow> byte \<times> telnetd" where
  "pty_get_char peek s =
     (if peek then (ptyibuf s (ptyip s), s)
      else if pcc s > 0 then (ptyibuf s (ptyip s), s\<lparr>pcc := pcc s - 1, ptyip := ptyip s + 1\<rparr>)
      else (0, s))"

definition pty_input_putback :: "byte list \<Rightarrow> telnetd \<Rightarrow> telnetd" where
  "pty_input_putback str s =
     (let len = min (length str) (BUFSIZ - ptyip s)
      in s\<lparr>ptyibuf := buf_write (ptyibuf s) (ptyip s) (take len str), pcc := pcc s + int len\<rparr>)"

text \<open>\<open>EWOULDBLOCK\<close>, \<open>EAGAIN\<close> and \<open>EIO\<close> (\<open>Rd_again\<close>) count as no input.\<close>

definition pty_read :: "rres \<Rightarrow> telnetd \<Rightarrow> telnetd" where
  "pty_read r s =
     (case r of
        Got bs \<Rightarrow> s\<lparr>ptyibuf := buf_write (ptyibuf s) 0 bs, pcc := int (length bs), ptyip := 0\<rparr>
      | Rd_again \<Rightarrow> s\<lparr>pcc := 0, ptyip := 0\<rparr>
      | Rd_error \<Rightarrow> s\<lparr>pcc := -1, ptyip := 0\<rparr>)"

section \<open>From the pty to the network\<close>

definition pty_to_net_step :: "telnetd \<Rightarrow> telnetd" where
  "pty_to_net_step s =
     (case pty_get_char False s of
        (c, s1) \<Rightarrow>
          let s2 = (if c = IAC then net_output_byte c s1 else s1);
              s3 = net_output_byte c s2
          in if c = 13 \<and> \<not> my_state_is_will s3 TELOPT_BINARY then
               (if pty_input_level s3 > 0 \<and> fst (pty_get_char True s3) = 10 then
                  (case pty_get_char False s3 of (d, s4) \<Rightarrow> net_output_byte d s4)
                else net_output_byte 0 s3)
             else s3)"

lemma pty_to_net_step_pcc: "pcc s > 0 \<Longrightarrow> pcc (pty_to_net_step s) < pcc s"
  by (auto simp: pty_to_net_step_def pty_get_char_def net_output_byte_def pty_input_level_def Let_def)

function pty_to_net :: "telnetd \<Rightarrow> telnetd" where
  "pty_to_net s =
     (if pty_input_level s > 0 \<and> \<not> net_buffer_is_full s then pty_to_net (pty_to_net_step s) else s)"
  by pat_completeness auto
termination
  by (relation "measure (\<lambda>s. nat (pcc s))") (auto simp: pty_input_level_def pty_to_net_step_pcc)

declare pty_to_net.simps [simp del]

section \<open>The loop\<close>

abbreviation (input) TIOCPKT_FLUSHWRITE :: byte where "TIOCPKT_FLUSHWRITE \<equiv> 2"
abbreviation (input) TIOCPKT_NOSTOP :: byte where "TIOCPKT_NOSTOP \<equiv> 16"
abbreviation (input) TIOCPKT_DOSTOP :: byte where "TIOCPKT_DOSTOP \<equiv> 32"
abbreviation (input) TIOCPKT_IOCTL :: byte where "TIOCPKT_IOCTL \<equiv> 64"

text \<open>\<open>copy_termbuf\<close> takes all the input there is: its counter is never advanced.\<close>

definition copy_termbuf :: "(byte list \<Rightarrow> termios \<Rightarrow> termios) \<Rightarrow> telnetd \<Rightarrow> telnetd" where
  "copy_termbuf overlay s =
     (let tb = overlay (slice (ptyibuf s) (ptyip s) (ptyip s + nat (pcc s))) (termbuf s)
      in s\<lparr>termbuf := tb, termbuf2 := tb, ptyip := ptyip s + nat (pcc s), pcc := min (pcc s) 0\<rparr>)"

text \<open>The control byte \<open>c\<close> of a packet from the pty.\<close>

definition pty_flushwrite :: "telnetd \<Rightarrow> fault + telnetd" where
  "pty_flushwrite s =
     (case netclear (snd (pty_get_char False s)) of
        None \<Rightarrow> Inl Netclear_scan
      | Some s1 \<Rightarrow> Inr (set_neturg (snd (net_output_datalen [IAC, DM] s1))))"

definition pty_flow :: "byte \<Rightarrow> telnetd \<Rightarrow> telnetd" where
  "pty_flow c s =
     (if his_state_is_will s TELOPT_LFLOW \<and> c AND (TIOCPKT_NOSTOP OR TIOCPKT_DOSTOP) \<noteq> 0 then
        let newflow = (if c AND TIOCPKT_DOSTOP \<noteq> 0 then 1 else 0);
            s1 = (if newflow \<noteq> flowmode s
                  then net_output_data 12 [IAC, SB, TELOPT_LFLOW,
                         if flowmode s \<noteq> 0 then LFLOW_ON else LFLOW_OFF, IAC, SE] s
                  else s)
        in snd (pty_get_char False s1)
      else s)"

definition pty_control :: "(byte list \<Rightarrow> termios \<Rightarrow> termios) \<Rightarrow> byte \<Rightarrow> telnetd \<Rightarrow> fault + telnetd" where
  "pty_control overlay c s =
     (let s1 = (if c AND TIOCPKT_IOCTL \<noteq> 0
                then localstat (copy_termbuf overlay (snd (pty_get_char False s))) else s)
      in case (if c AND TIOCPKT_FLUSHWRITE \<noteq> 0 then pty_flushwrite s1 else Inr s1) of
           Inl f \<Rightarrow> Inl f
         | Inr s2 \<Rightarrow> Inr (pty_flow c s2))"

text \<open>The descriptors \<open>select\<close> reports: readable, writable, with urgent data.\<close>

record ready =
  net_in :: bool
  pty_in :: bool
  net_out :: bool
  pty_out :: bool
  net_exc :: bool

text \<open>Input is never looked for while there is something in the output buffer it would go to.\<close>

definition interest :: "telnetd \<Rightarrow> ready" where
  "interest s =
     (let no = net_output_level s \<noteq> 0 \<or> pty_input_level s > 0;
          po = pty_output_level s \<noteq> 0 \<or> net_input_level s > 0
      in \<lparr>net_in = \<not> po, pty_in = \<not> no, net_out = no, pty_out = po, net_exc = \<not> SYNCHing s\<rparr>)"

definition ready_and :: "ready \<Rightarrow> ready \<Rightarrow> ready" where
  "ready_and a b = \<lparr>net_in = (net_in a \<and> net_in b), pty_in = (pty_in a \<and> pty_in b),
     net_out = (net_out a \<and> net_out b), pty_out = (pty_out a \<and> pty_out b), net_exc = (net_exc a \<and> net_exc b)\<rparr>"

datatype turn = Continue telnetd | Ended telnetd | Faulted fault

text \<open>The part of an iteration after the input: the pty's data is encoded for the network, both
  buffers are written and the network's data is received.\<close>

definition turn_out :: "ready \<Rightarrow> telnetd \<Rightarrow> turn" where
  "turn_out r s =
     (let s1 = pty_to_net s;
          s2 = (if net_out r \<and> net_output_level s1 > 0 then netflush s1 else s1)
      in case (if net_input_level s2 > 0 then telrcv s2 else Inr s2) of
           Inl f \<Rightarrow> Faulted f
         | Inr s3 \<Rightarrow> Continue (if pty_out r \<and> pty_output_level s3 > 0 then ptyflush s3 else s3))"

definition telnetd_turn ::
  "(byte list \<Rightarrow> termios \<Rightarrow> termios) \<Rightarrow> ready \<Rightarrow> rres \<Rightarrow> rres \<Rightarrow> telnetd \<Rightarrow> turn" where
  "telnetd_turn overlay sel net_rd pty_rd s =
     (if net_input_level s < 0 \<and> pty_input_level s < 0 then Ended (cleanup s)
      else
        let r = ready_and sel (interest s);
            s1 = (if net_exc r then s\<lparr>SYNCHing := True\<rparr> else s);
            s2 = (if net_in r then net_read net_rd s1 else s1)
        in if exited s2 then Ended s2
           else if pty_in r then
             (let s3 = pty_read pty_rd s2
              in if pcc s3 < 0 then Ended (cleanup s3)
                 else case pty_control overlay (fst (pty_get_char True s3)) s3 of
                     Inl f \<Rightarrow> Faulted f
                   | Inr s4 \<Rightarrow> turn_out r s4)
           else turn_out r s2)"

text \<open>What the server sends before the loop.\<close>

definition telnetd_run_start :: "telnetd \<Rightarrow> telnetd" where
  "telnetd_run_start s0 =
     (let s = get_slc_defaults s0;
          s1 = (if \<not> my_state_is_will s TELOPT_SGA then send_will TELOPT_SGA True s else s);
          s2 = send_do TELOPT_ECHO True s1;
          s3 = (if \<not> his_state_is_will s2 TELOPT_LINEMODE
                then send_do TELOPT_LINEMODE True (s2\<lparr>linemode := 0, editmode := 0\<rparr>) else s2);
          s4 = send_will TELOPT_STATUS True (send_do TELOPT_NAWS True s3)
      in send_do TELOPT_LFLOW True (s4\<lparr>flowmode := 1, restartany := -1\<rparr>))"

section \<open>The encoding\<close>

text \<open>The format of data on the network, for a stream: a newline after a carriage return stands, any
  other carriage return is followed by a null.\<close>

fun nvt_out :: "bool \<Rightarrow> byte list \<Rightarrow> byte list" where
  "nvt_out binary [] = []"
| "nvt_out binary (c # cs) =
     (if c = IAC then IAC # IAC # nvt_out binary cs
      else if c = 13 \<and> \<not> binary then
        (case cs of
           d # ds \<Rightarrow> if d = 10 then 13 # 10 # nvt_out binary ds else 13 # 0 # nvt_out binary cs
         | [] \<Rightarrow> [13, 0])
      else c # nvt_out binary cs)"

text \<open>How a client reads it; a command in the data would be an error (\<open>None\<close>).\<close>

fun nvt_in :: "bool \<Rightarrow> byte list \<Rightarrow> byte list option" where
  "nvt_in binary [] = Some []"
| "nvt_in binary [c] = (if c = IAC \<or> c = 13 \<and> \<not> binary then None else Some [c])"
| "nvt_in binary (c # d # cs) =
     (if c = IAC then (if d = IAC then map_option (Cons IAC) (nvt_in binary cs) else None)
      else if c = 13 \<and> \<not> binary then
        (if d = 0 then map_option (Cons 13) (nvt_in binary cs)
         else if d = 10 then map_option (\<lambda>r. 13 # 10 # r) (nvt_in binary cs)
         else None)
      else map_option (Cons c) (nvt_in binary (d # cs)))"

lemma nvt_in_data: "c \<noteq> IAC \<Longrightarrow> \<not> (c = 13 \<and> \<not> binary) \<Longrightarrow>
    nvt_in binary (c # cs) = map_option (Cons c) (nvt_in binary cs)"
  by (cases cs) auto

lemma nvt_round_trip: "nvt_in binary (nvt_out binary cs) = Some cs"
proof (induction binary cs rule: nvt_out.induct)
  case (2 binary c cs)
  then show ?case by (cases cs) (auto simp: nvt_in_data)
qed simp

text \<open>The bytes waiting from the pty.\<close>

definition pty_input :: "telnetd \<Rightarrow> byte list" where
  "pty_input s = slice (ptyibuf s) (ptyip s) (ptyip s + nat (pcc s))"

lemma pty_input_Cons:
  assumes "pty_input s = c # cs"
  shows "pcc s > 0" "pty_get_char b s = (c, if b then s else s\<lparr>pcc := pcc s - 1, ptyip := ptyip s + 1\<rparr>)"
    "pty_input (s\<lparr>pcc := pcc s - 1, ptyip := ptyip s + 1\<rparr>) = cs"
proof -
  show p: "pcc s > 0" using assms by (cases "pcc s > 0") (simp_all add: pty_input_def slice_def)
  then obtain n where n: "nat (pcc s) = Suc n" by (metis gr0_implies_Suc zero_less_nat_eq)
  have "slice (ptyibuf s) (ptyip s) (ptyip s + Suc n)
      = ptyibuf s (ptyip s) # slice (ptyibuf s) (Suc (ptyip s)) (Suc (ptyip s) + n)"
    by (simp add: slice_def upt_conv_Cons del: upt_Suc)
  then have e: "c = ptyibuf s (ptyip s)" "cs = slice (ptyibuf s) (Suc (ptyip s)) (Suc (ptyip s) + n)"
    using assms n by (simp_all add: pty_input_def)
  have "nat (pcc s - 1) = n" using n by simp
  then show "pty_input (s\<lparr>pcc := pcc s - 1, ptyip := ptyip s + 1\<rparr>) = cs"
    using e by (simp add: pty_input_def)
  show "pty_get_char b s = (c, if b then s else s\<lparr>pcc := pcc s - 1, ptyip := ptyip s + 1\<rparr>)"
    using e p by (simp add: pty_get_char_def)
qed

lemma pty_input_Nil: "pty_input s = [] \<longleftrightarrow> \<not> pcc s > 0"
  by (auto simp: pty_input_def slice_def)

text \<open>\<open>sends s t bs\<close>: the bytes \<open>bs\<close> were put into the network buffer.\<close>

definition sends :: "telnetd \<Rightarrow> telnetd \<Rightarrow> byte list \<Rightarrow> bool" where
  "sends s t bs \<longleftrightarrow> net_sent t = net_sent s @ bs \<and> nbackp t = nbackp s \<and> nfrontp t = nfrontp s + length bs
     \<and> options t = options s"

lemma sends_output: "sends s t bs \<Longrightarrow> nbackp s \<le> nfrontp s \<Longrightarrow> sends s (net_output_byte c t) (bs @ [c])"
  by (auto simp: sends_def net_sent_def net_output_byte_def slice_def)

lemma sends_get: "sends s t bs \<Longrightarrow> sends s (t\<lparr>pcc := a, ptyip := b\<rparr>) bs"
  unfolding sends_def net_sent_def by auto

lemma net_output_byte_pty [simp]:
  "pty_input (net_output_byte c s) = pty_input s"
  by (simp add: pty_input_def net_output_byte_def)

lemma net_output_byte_bits [simp]:
  "my_state_is_will (net_output_byte c s) o' = my_state_is_will s o'"
  "my_state_is_will (s\<lparr>pcc := a, ptyip := b\<rparr>) o' = my_state_is_will s o'"
  by (simp_all add: my_state_is_will_def net_output_byte_def)

lemma pty_to_net_step_sends:
  assumes i: "pty_input s = c # cs" and n: "nbackp s \<le> nfrontp s"
  shows "\<exists>chunk rest out. c # cs = chunk @ rest \<and> pty_input (pty_to_net_step s) = rest \<and> length out \<le> 2
    \<and> sends s (pty_to_net_step s) out
    \<and> (\<forall>ds es. rest = ds @ es \<longrightarrow> nvt_out (my_state_is_will s TELOPT_BINARY) (chunk @ ds)
         = out @ nvt_out (my_state_is_will s TELOPT_BINARY) ds)"
proof -
  let ?b = "my_state_is_will s TELOPT_BINARY"
  define s1 where "s1 = s\<lparr>pcc := pcc s - 1, ptyip := ptyip s + 1\<rparr>"
  note g = pty_input_Cons [OF i, folded s1_def]
  have s1: "pty_input s1 = cs" "sends s s1 []" "my_state_is_will s1 TELOPT_BINARY = ?b"
    using g(3) by (simp_all add: s1_def sends_def net_sent_def my_state_is_will_def)
  have o1: "sends s (net_output_byte d s1) [d]" for d using sends_output [OF s1(2) n] by simp
  have o2: "sends s (net_output_byte e (net_output_byte d s1)) [d, e]" for d e
    using sends_output [OF o1 n] by simp
  consider "c = IAC" | "c = 13" "\<not> ?b" "\<exists>ds. cs = 10 # ds" | "c = 13" "\<not> ?b" "\<nexists>ds. cs = 10 # ds"
    | "c \<noteq> IAC" "c = 13 \<longrightarrow> ?b" by blast
  then show ?thesis
  proof cases
    case 1
    then have "pty_to_net_step s = net_output_byte IAC (net_output_byte IAC s1)"
      using g(2) [of False] by (simp add: pty_to_net_step_def)
    then show ?thesis using 1 s1 o2 by (intro exI [of _ "[IAC]"] exI [of _ cs] exI [of _ "[IAC, IAC]"]) simp
  next
    case 2
    then obtain ds where ds: "cs = 10 # ds" by blast
    let ?t = "net_output_byte 13 s1"
    have it: "pty_input ?t = 10 # ds" using s1 ds by simp
    note h = pty_input_Cons [OF it]
    have "pty_to_net_step s = net_output_byte 10 (?t\<lparr>pcc := pcc ?t - 1, ptyip := ptyip ?t + 1\<rparr>)"
      using g(2) [of False] h(1) h(2) [of True] h(2) [of False] 2 s1(3)
      by (simp add: pty_to_net_step_def pty_input_level_def Let_def)
    moreover have "sends s \<dots> [13, 10]"
      using sends_output [OF sends_get [OF o1 [of 13]] n] by fastforce
    ultimately show ?thesis using 2 ds h(3)
      by (intro exI [of _ "[13, 10]"] exI [of _ ds] exI [of _ "[13, 10]"]) simp
  next
    case 3
    let ?t = "net_output_byte 13 s1"
    have "\<not> (pty_input_level ?t > 0 \<and> fst (pty_get_char True ?t) = 10)"
      using 3(3) s1(1) pty_input_Nil [of ?t] pty_input_Cons(2) [of ?t _ _ True]
      by (cases cs) (auto simp: pty_input_level_def)
    then have "pty_to_net_step s = net_output_byte 0 ?t"
      using g(2) [of False] 3 s1(3) by (auto simp: pty_to_net_step_def Let_def)
    moreover have "nvt_out ?b (13 # ds) = 13 # 0 # nvt_out ?b ds" if "cs = ds @ es" for ds es
      using 3 that by (cases ds) auto
    ultimately show ?thesis using 3 s1 o2
      by (intro exI [of _ "[13]"] exI [of _ cs] exI [of _ "[13, 0]"]) auto
  next
    case 4
    then have "pty_to_net_step s = net_output_byte c s1"
      using g(2) [of False] s1(3) by (auto simp: pty_to_net_step_def)
    then show ?thesis using 4 s1 o1 by (intro exI [of _ "[c]"] exI [of _ cs] exI [of _ "[c]"]) auto
  qed
qed

lemma pty_to_net_sends:
  assumes "nbackp s \<le> nfrontp s" "nfrontp s \<le> BUFSIZ"
  shows "\<exists>cs rest. pty_input s = cs @ rest \<and> pty_input (pty_to_net s) = rest
    \<and> (rest = [] \<or> net_buffer_is_full (pty_to_net s))
    \<and> sends s (pty_to_net s) (nvt_out (my_state_is_will s TELOPT_BINARY) cs) \<and> nfrontp (pty_to_net s) \<le> BUFSIZ"
  using assms
proof (induction s rule: pty_to_net.induct)
  case (1 s)
  let ?b = "my_state_is_will s TELOPT_BINARY"
  show ?case
  proof (cases "pty_input_level s > 0 \<and> \<not> net_buffer_is_full s")
    case False
    then have "pty_to_net s = s" by (subst pty_to_net.simps) auto
    then show ?thesis
      using False 1(2,3) pty_input_Nil [of s]
      by (intro exI [of _ "[]"] exI [of _ "pty_input s"]) (auto simp: pty_input_level_def sends_def)
  next
    case True
    then obtain c cs where "pty_input s = c # cs"
      using pty_input_Nil [of s] by (cases "pty_input s") (auto simp: pty_input_level_def)
    from pty_to_net_step_sends [OF this 1(2)]
    obtain chunk rest out where st: "pty_input s = chunk @ rest" "pty_input (pty_to_net_step s) = rest"
      "length out \<le> 2" "sends s (pty_to_net_step s) out"
      "\<And>ds es. rest = ds @ es \<Longrightarrow> nvt_out ?b (chunk @ ds) = out @ nvt_out ?b ds"
      using \<open>pty_input s = c # cs\<close> by auto
    let ?t = "pty_to_net_step s"
    have t: "nbackp ?t \<le> nfrontp ?t" "nfrontp ?t \<le> BUFSIZ" "my_state_is_will ?t TELOPT_BINARY = ?b"
      using st(3,4) 1(2) True by (auto simp: sends_def net_buffer_is_full_def my_state_is_will_def)
    from 1(1) [OF True t(1,2)] obtain ds es where d: "rest = ds @ es" "pty_input (pty_to_net ?t) = es"
      "es = [] \<or> net_buffer_is_full (pty_to_net ?t)" "sends ?t (pty_to_net ?t) (nvt_out ?b ds)"
      "nfrontp (pty_to_net ?t) \<le> BUFSIZ"
      unfolding st(2) t(3) by blast
    have "pty_to_net s = pty_to_net ?t" using True by (subst pty_to_net.simps) simp
    then show ?thesis
      using st d st(5) [OF d(1)] by (intro exI [of _ "chunk @ ds"] exI [of _ es]) (auto simp: sends_def)
  qed
qed


section \<open>Properties\<close>

text \<open>
  What the programs on the pty write reaches the client unchanged: the bytes put into the
  network buffer are the encoding of a prefix of the pty's input, the rest stays in the input, and
  only a full buffer leaves a rest; a client that reads the bytes back gets exactly that prefix, with
  no command in it.  The buffer never overflows, although it is only tested for two free bytes.
\<close>

theorem pty_to_net_transparent:
  assumes "net_ok s"
  shows "\<exists>cs rest bs. pty_input s = cs @ rest \<and> pty_input (pty_to_net s) = rest
    \<and> (rest = [] \<or> net_buffer_is_full (pty_to_net s))
    \<and> net_sent (pty_to_net s) = net_sent s @ bs
    \<and> nvt_in (my_state_is_will s TELOPT_BINARY) bs = Some cs \<and> nfrontp (pty_to_net s) \<le> BUFSIZ"
proof -
  from pty_to_net_sends [of s] assms
  obtain cs rest where "pty_input s = cs @ rest" "pty_input (pty_to_net s) = rest"
    "rest = [] \<or> net_buffer_is_full (pty_to_net s)"
    "sends s (pty_to_net s) (nvt_out (my_state_is_will s TELOPT_BINARY) cs)" "nfrontp (pty_to_net s) \<le> BUFSIZ"
    by (auto simp: net_ok_def)
  then show ?thesis
    using nvt_round_trip [of "my_state_is_will s TELOPT_BINARY" cs]
    by (intro exI [of _ cs] exI [of _ rest] exI) (auto simp: sends_def)
qed

theorem pty_to_net_transparent_witness:
  "\<exists>cs rest bs. [97, 13, 10, 13, IAC] = cs @ rest
     \<and> net_sent (pty_to_net (pty_read (Got [97, 13, 10, 13, IAC]) (telnetd_start zero_termios))) = bs
     \<and> nvt_in False bs = Some cs"
proof -
  let ?s = "pty_read (Got [97, 13, 10, 13, IAC]) (telnetd_start zero_termios)"
  have s: "net_ok ?s" "net_sent ?s = []" "my_state_is_will ?s TELOPT_BINARY = False"
    "pty_input ?s = [97, 13, 10, 13, IAC]"
    by (simp_all add: pty_read_def telnetd_start_def net_ok_def net_sent_def my_state_is_will_def
        pty_input_def slice_def buf_write_def upt_conv_Cons Let_def)
  from pty_to_net_transparent [OF s(1)] show ?thesis unfolding s(2-4) append_Nil by blast
qed

text \<open>
  In packet mode every chunk from the pty starts with a control byte, which is 0 before data.
  The main loop only looks at that byte and does not remove it, so a null is sent to the client in
  front of the data of each chunk.
\<close>

theorem packet_byte_is_sent:
  "pty_control overlay (fst (pty_get_char True (pty_read (Got (0 # bs)) s))) (pty_read (Got (0 # bs)) s)
     = Inr (pty_read (Got (0 # bs)) s)
   \<and> pty_input (pty_read (Got (0 # bs)) s) = 0 # bs"
proof -
  have c: "fst (pty_get_char True (pty_read (Got (0 # bs)) s)) = 0"
    by (simp add: pty_get_char_def pty_read_def buf_write_def)
  have i: "pty_input (pty_read (Got xs) s) = xs" for xs
    by (rule nth_equalityI) (simp_all add: pty_input_def pty_read_def slice_def buf_write_def)
  show ?thesis unfolding c by (simp add: i pty_control_def pty_flow_def)
qed

end
