(* ===== verification/Telnet_Client_Subopt.thy ===== *)
theory Telnet_Client_Subopt
  imports Telnet_Client_Options
begin

text \<open>
  The suboptions of the TELNET client (\<open>telnet.c\<close>): the terminal type and speed, flow control, line mode, the
  environment and the X display, the window size, and the environment list of \<open>commands.c\<close>.

  The names of the terminal (\<open>mklist\<close> on the entry of the termcap library), its speeds and its size are
  parameters.  The reply with environment variables is collected in allocated memory of \<open>opt_cap\<close> bytes;
  \<open>opt_reply\<close> is what has been stored, which may be more.  Memory is always available, and the variables have
  non-empty names.
\<close>

section \<open>The environment\<close>

definition bstr :: "string \<Rightarrow> byte list" where
  "bstr s = map of_char s"

definition opt_welldefined :: "byte list \<Rightarrow> bool" where
  "opt_welldefined ep \<longleftrightarrow>
     ep \<in> {bstr ''USER'', bstr ''DISPLAY'', bstr ''PRINTER'', bstr ''SYSTEMTYPE'', bstr ''JOB'', bstr ''ACCT''}"

text \<open>A variable that exists keeps its place, a new one is put in front.\<close>

definition env_define :: "byte list \<Rightarrow> byte list \<Rightarrow> telnet \<Rightarrow> telnet" where
  "env_define var val s =
     (let e = \<lparr>ev_var = var, ev_value = val, ev_export = True, ev_welldefined = opt_welldefined var\<rparr>
      in s\<lparr>envlist := (if env_find var s \<noteq> None
            then map (\<lambda>ep. if ev_var ep = var then e else ep) (envlist s) else e # envlist s)\<rparr>)"

definition env_undefine :: "byte list \<Rightarrow> telnet \<Rightarrow> telnet" where
  "env_undefine var s = s\<lparr>envlist := filter (\<lambda>ep. ev_var ep \<noteq> var) (envlist s)\<rparr>"

definition env_set_export :: "bool \<Rightarrow> byte list \<Rightarrow> telnet \<Rightarrow> telnet" where
  "env_set_export b var s = s\<lparr>envlist := map (\<lambda>ep. if ev_var ep = var then ep\<lparr>ev_export := b\<rparr> else ep) (envlist s)\<rparr>"

text \<open>The variables \<open>env_default\<close> goes through.\<close>

definition env_default :: "bool \<Rightarrow> telnet \<Rightarrow> byte list list" where
  "env_default welldefined s =
     map ev_var (filter (\<lambda>ep. ev_export ep \<and> ev_welldefined ep = welldefined) (envlist s))"

section \<open>The reply with variables\<close>

abbreviation (input) OPT_REPLY_SIZE :: nat where "OPT_REPLY_SIZE \<equiv> 256"

definition env_opt_start :: "telnet \<Rightarrow> telnet" where
  "env_opt_start s =
     s\<lparr>opt_reply := [IAC, SB, TELOPT_NEW_ENVIRON, TELQUAL_IS], opt_cap := OPT_REPLY_SIZE\<rparr>"

definition env_opt_start_info :: "telnet \<Rightarrow> telnet" where
  "env_opt_start_info s =
     (let s1 = env_opt_start s in s1\<lparr>opt_reply := butlast (opt_reply s1) @ [TELQUAL_INFO]\<rparr>)"

definition env_escape :: "byte list \<Rightarrow> byte list" where
  "env_escape bs =
     concat (map (\<lambda>c. if c = IAC then [IAC, c]
                      else if c \<in> {NEW_ENV_VAR, NEW_ENV_VALUE, ENV_ESC, ENV_USERVAR} then [ENV_ESC, c]
                      else [c]) bs)"

definition env_opt_add_one :: "byte list \<Rightarrow> telnet \<Rightarrow> telnet" where
  "env_opt_add_one ep s =
     (let vp = env_getvalue ep s;
          need = length (opt_reply s) + (case vp of None \<Rightarrow> 0 | Some v \<Rightarrow> length v) + length ep + 6;
          s1 = (if need > opt_cap s then s\<lparr>opt_cap := opt_cap s + OPT_REPLY_SIZE\<rparr> else s)
      in s1\<lparr>opt_reply := opt_reply s1 @ [if opt_welldefined ep then NEW_ENV_VAR else ENV_USERVAR] @ env_escape ep
           @ (case vp of None \<Rightarrow> [] | Some v \<Rightarrow> NEW_ENV_VALUE # env_escape v)\<rparr>)"

text \<open>An empty name stands for all exported variables, the user's first.\<close>

definition env_opt_add :: "byte list \<Rightarrow> telnet \<Rightarrow> telnet" where
  "env_opt_add ep s =
     (if ep = [] then fold env_opt_add_one (env_default False s @ env_default True s) s
      else env_opt_add_one ep s)"

definition env_opt_end :: "bool \<Rightarrow> telnet \<Rightarrow> telnet" where
  "env_opt_end emptyok s =
     (let len = length (opt_reply s) + 2;
          s1 = (if emptyok \<or> len > 6 then
                  let out = opt_reply s @ [IAC, SE]
                  in if NETROOM s > len then net_supply out s else s
                else s)
      in s1\<lparr>opt_reply := [], opt_cap := 0\<rparr>)"

text \<open>
  The names in a request to send variables, unescaped in place; \<open>cur\<close> is the name being collected, \<open>nxt\<close> the
  byte after the suboption, which an escape at its end reaches.  A name ends at its first null.
\<close>

definition env_flush :: "byte list option \<Rightarrow> telnet \<Rightarrow> telnet" where
  "env_flush cur s =
     (case cur of None \<Rightarrow> s | Some w \<Rightarrow> env_opt_add (takeWhile (\<lambda>c. c \<noteq> 0) w) s)"

fun env_names :: "byte \<Rightarrow> byte list \<Rightarrow> byte list option \<Rightarrow> telnet \<Rightarrow> telnet" where
  "env_names nxt [] cur s = env_flush cur s"
| "env_names nxt (c # bs) cur s =
     (if c = NEW_ENV_VAR \<or> c = ENV_USERVAR then env_names nxt bs (Some []) (env_flush cur s)
      else if c = ENV_ESC then
        (case bs of
           [] \<Rightarrow> env_flush (map_option (\<lambda>w. w @ [nxt]) cur) s
         | d # ds \<Rightarrow> env_names nxt ds (map_option (\<lambda>w. w @ [d]) cur) s)
      else env_names nxt bs (map_option (\<lambda>w. w @ [c]) cur) s)"

definition env_opt :: "byte \<Rightarrow> byte list \<Rightarrow> telnet \<Rightarrow> telnet" where
  "env_opt nxt buf s =
     (case buf of
        [] \<Rightarrow> s
      | q # bs \<Rightarrow>
          if q = TELQUAL_SEND then
            let s1 = env_opt_start s
            in env_opt_end True (if bs = [] then env_opt_add [] s1 else env_names nxt bs None s1)
          else s)"

definition env_send :: "byte list \<Rightarrow> telnet \<Rightarrow> telnet" where
  "env_send var s =
     (if \<not> tn_my_state_is_will TELOPT_NEW_ENVIRON s \<or> env_find var s = None then s
      else env_opt_end False (env_opt_add var (env_opt_start_info s)))"

section \<open>The other replies\<close>

definition gettermname :: "telnet \<Rightarrow> byte list \<times> telnet" where
  "gettermname s =
     (let i = (if tnext s \<ge> length (tnames s) then 0 else tnext s)
      in (tnames s ! i, s\<lparr>tnext := i + 1\<rparr>))"

definition sub_reply :: "byte \<Rightarrow> byte list \<Rightarrow> byte list" where
  "sub_reply opt bs = [IAC, SB, opt, TELQUAL_IS] @ bs @ [IAC, SE]"

text \<open>The terminal type has to fit, or the program ends (\<open>None\<close>).\<close>

definition suboption_tn_ttype :: "telnet \<Rightarrow> telnet option" where
  "suboption_tn_ttype s =
     (case gettermname s of
        (name, s1) \<Rightarrow>
          if length name + 6 < NETROOM s1 then Some (net_supply (sub_reply TELOPT_TTYPE name) s1) else None)"

definition suboption_tn_speed :: "byte list \<Rightarrow> byte list \<Rightarrow> telnet \<Rightarrow> telnet" where
  "suboption_tn_speed ospeed ispeed s =
     (let temp = sub_reply TELOPT_TSPEED (ospeed @ [44] @ ispeed)
      in if length temp < NETROOM s then net_supply temp s else s)"

definition suboption_tn_lflow :: "byte \<Rightarrow> telnet \<Rightarrow> telnet" where
  "suboption_tn_lflow c s =
     (if c = LFLOW_RESTART_ANY then setconnmode False (setcommandmode (s\<lparr>restartany := 1\<rparr>))
      else if c = LFLOW_RESTART_XON then setconnmode False (setcommandmode (s\<lparr>restartany := 0\<rparr>))
      else if c = LFLOW_ON then setconnmode False (setcommandmode (s\<lparr>localflow := True\<rparr>))
      else if c = LFLOW_OFF then setconnmode False (setcommandmode (s\<lparr>localflow := False\<rparr>))
      else s)"

definition suboption_tn_linemode :: "byte \<Rightarrow> byte list \<Rightarrow> telnet \<Rightarrow> telnet" where
  "suboption_tn_linemode c cmd s =
     (if c = WILL then lm_will cmd s
      else if c = DO then lm_do cmd s
      else if c = LM_SLC then tn_slc cmd s
      else if c = LM_MODE then lm_mode cmd False s
      else s)"

definition suboption_tn_xdisploc :: "telnet \<Rightarrow> telnet" where
  "suboption_tn_xdisploc s =
     (case env_getvalue V_DISPLAY s of
        None \<Rightarrow> tn_send_wont TELOPT_XDISPLOC True s
      | Some dp \<Rightarrow>
          let temp = sub_reply TELOPT_XDISPLOC dp
          in if length temp < NETROOM s then net_supply temp s else s)"

text \<open>The suboption buffer from \<open>subpointer\<close> to \<open>subend\<close>; \<open>SB_GET\<close> at its end gives the byte after it.\<close>

definition tn_sb :: "telnet \<Rightarrow> byte list" where
  "tn_sb s = take (tn_subend s - tn_subpointer s) (drop (tn_subpointer s) (tn_subbuffer s))"

definition sb_after :: "telnet \<Rightarrow> byte" where
  "sb_after s = (if tn_subend s < length (tn_subbuffer s) then tn_subbuffer s ! tn_subend s else 0)"

definition tn_suboption :: "byte list \<Rightarrow> byte list \<Rightarrow> telnet \<Rightarrow> telnet option" where
  "tn_suboption ospeed ispeed s =
     (case tn_sb s of
        opt # c # bs \<Rightarrow>
          if opt = TELOPT_TTYPE then
            if tn_my_want_state_is_will TELOPT_TTYPE s \<and> c = TELQUAL_SEND then suboption_tn_ttype s else Some s
          else if opt = TELOPT_TSPEED then
            if tn_my_want_state_is_will TELOPT_TSPEED s \<and> c = TELQUAL_SEND
            then Some (suboption_tn_speed ospeed ispeed s) else Some s
          else if opt = TELOPT_LFLOW then
            if tn_my_want_state_is_will TELOPT_LFLOW s then Some (suboption_tn_lflow c s) else Some s
          else if opt = TELOPT_LINEMODE then
            if tn_my_want_state_is_will TELOPT_LINEMODE s then Some (suboption_tn_linemode c bs s) else Some s
          else if opt = TELOPT_NEW_ENVIRON then
            if (c = TELQUAL_IS \<or> c = TELQUAL_INFO) \<and> tn_my_want_state_is_do TELOPT_NEW_ENVIRON s
               \<or> c = TELQUAL_SEND \<and> tn_my_want_state_is_will TELOPT_NEW_ENVIRON s
            then Some (env_opt (sb_after s) (c # bs) s) else Some s
          else if opt = TELOPT_XDISPLOC then
            if tn_my_want_state_is_will TELOPT_XDISPLOC s \<and> c = TELQUAL_SEND
            then Some (suboption_tn_xdisploc s) else Some s
          else Some s
      | _ \<Rightarrow> Some s)"

section \<open>The window size\<close>

definition putshort :: "nat \<Rightarrow> byte list" where
  "putshort n =
     (let h = of_nat (n div 256); l = of_nat n
      in (if h = IAC then [h, IAC] else [h]) @ (if l = IAC then [l, IAC] else [l]))"

text \<open>\<open>TerminalWindowSize\<close> gives \<open>None\<close> when it fails.\<close>

definition sendnaws :: "(nat \<times> nat) option \<Rightarrow> telnet \<Rightarrow> telnet" where
  "sendnaws rowscols s =
     (if \<not> tn_my_state_is_will TELOPT_NAWS s then s
      else case rowscols of
          None \<Rightarrow> s
        | Some (rows, cols) \<Rightarrow>
            let tmp = [IAC, SB, TELOPT_NAWS] @ putshort cols @ putshort rows @ [IAC, SE]
            in if NETROOM s \<ge> length tmp then net_supply tmp s else s)"

end
