(* ===== verification/Telnet_Client_Io.thy ===== *)
theory Telnet_Client_Io
  imports Telnet_Client_Subopt
begin

text \<open>
  The data paths of the TELNET client (\<open>telnet.c\<close>): \<open>telrcv\<close> from the network to the terminal, \<open>telsnd\<close> from
  the terminal to the network, the commands a user can give by special characters (\<open>TerminalSpecialChars\<close> of
  \<open>sys_bsd.c\<close>), and the decisions of \<open>Scheduler\<close>.
\<close>

section \<open>Commands\<close>

definition doflush :: "telnet \<Rightarrow> telnet" where
  "doflush s = ttyflush True ((NETADD TELOPT_TM (NET2ADD IAC DO s))\<lparr>flushline := True, flushout := True\<rparr>)"

text \<open>\<open>netclear\<close> does nothing; the mark is on the byte before the DM.\<close>

definition dosynch :: "telnet \<Rightarrow> telnet" where
  "dosynch s =
     (let s1 = NETADD IAC s in NETADD DM (s1\<lparr>netmark := Some (length (netoring s1) - 1)\<rparr>))"

definition xmitAO :: "telnet \<Rightarrow> telnet" where
  "xmitAO s = (let s1 = NET2ADD IAC AO s in if autoflush s1 then doflush s1 else s1)"

definition xmitEL :: "telnet \<Rightarrow> telnet" where
  "xmitEL s = NET2ADD IAC EL s"

definition xmitEC :: "telnet \<Rightarrow> telnet" where
  "xmitEC s = NET2ADD IAC EC s"

definition tn_signal :: "byte \<Rightarrow> telnet \<Rightarrow> telnet" where
  "tn_signal c s =
     (let s1 = (NET2ADD IAC c s)\<lparr>flushline := True\<rparr>;
          s2 = (if autoflush s1 then doflush s1 else s1)
      in if autosynch s2 then dosynch s2 else s2)"

definition intp :: "telnet \<Rightarrow> telnet" where "intp = tn_signal IP"
definition sendbrk :: "telnet \<Rightarrow> telnet" where "sendbrk = tn_signal BREAK"
definition sendabort :: "telnet \<Rightarrow> telnet" where "sendabort = tn_signal ABORT"
definition sendsusp :: "telnet \<Rightarrow> telnet" where "sendsusp = tn_signal SUSP"
definition sendeof :: "telnet \<Rightarrow> telnet" where "sendeof s = NET2ADD IAC xEOF s"
definition sendayt :: "telnet \<Rightarrow> telnet" where "sendayt s = NET2ADD IAC AYT s"

definition get_status :: "telnet \<Rightarrow> telnet" where
  "get_status s =
     (if \<not> tn_my_want_state_is_do TELOPT_STATUS s then s
      else
        let s1 = (if NETROOM s \<ge> 6 then net_supply [IAC, SB, TELOPT_STATUS, TELQUAL_SEND, IAC, SE] s else s)
        in s1\<lparr>want_status_response := want_status_response s1 + 1\<rparr>)"

text \<open>\<open>True\<close> when the character is to be sent as data.\<close>

definition TerminalSpecialChars :: "byte \<Rightarrow> telnet \<Rightarrow> bool \<times> telnet" where
  "TerminalSpecialChars c s =
     (if c = new_cc s SLC_IP then (False, intp s)
      else if c = new_cc s SLC_ABORT then (False, if kludgelinemode s then sendbrk s else sendabort s)
      else if c = new_cc s SLC_EOF then
        (if tn_my_want_state_is_will TELOPT_LINEMODE s then (False, sendeof s) else (True, s))
      else if c = new_cc s SLC_SUSP then (False, sendsusp s)
      else if c = new_cc s SLC_AO then (False, xmitAO s)
      else if \<not> MODE_LOCAL_CHARS (globalmode s) then
        (if c = new_cc s SLC_EL then (False, xmitEL s)
         else if c = new_cc s SLC_EC then (False, xmitEC s)
         else (True, s))
      else (True, s))"

section \<open>From the network\<close>

definition TN_SB_CLEAR :: "telnet \<Rightarrow> telnet" where
  "TN_SB_CLEAR s = s\<lparr>tn_subpointer := 0\<rparr>"

definition TN_SB_ACCUM :: "byte \<Rightarrow> telnet \<Rightarrow> telnet" where
  "TN_SB_ACCUM c s =
     (if tn_subpointer s < length (tn_subbuffer s)
      then s\<lparr>tn_subbuffer := (tn_subbuffer s)[tn_subpointer s := c], tn_subpointer := tn_subpointer s + 1\<rparr>
      else s)"

text \<open>The end of a suboption: two bytes are stored for the printer and taken back.\<close>

definition tn_sb_end :: "byte \<Rightarrow> telnet \<Rightarrow> telnet" where
  "tn_sb_end c s =
     (let s1 = TN_SB_ACCUM c (TN_SB_ACCUM IAC s);
          s2 = s1\<lparr>tn_subpointer := tn_subpointer s1 - 2\<rparr>
      in TN_SB_CLEAR (s2\<lparr>tn_subend := tn_subpointer s2\<rparr>))"

text \<open>What the receiver asks of its surroundings: whether urgent data is still to come, the speeds and the
  size of the terminal.\<close>

record tn_env =
  oob :: bool
  ospeed :: "byte list"
  ispeed :: "byte list"
  winsize :: "(nat \<times> nat) option"

definition tn_iac :: "tn_env \<Rightarrow> byte \<Rightarrow> telnet \<Rightarrow> telnet" where
  "tn_iac e c s =
     (if c = WILL then s\<lparr>telrcv_state := TN_WILL\<rparr>
      else if c = WONT then s\<lparr>telrcv_state := TN_WONT\<rparr>
      else if c = DO then s\<lparr>telrcv_state := TN_DO\<rparr>
      else if c = DONT then s\<lparr>telrcv_state := TN_DONT\<rparr>
      else if c = DM then
        (tn_settimer (\<lambda>t k. k\<lparr>tn_gotDM := t\<rparr>) ((ttyflush True (s\<lparr>SYNCHing := True\<rparr>))\<lparr>SYNCHing := oob e\<rparr>))
        \<lparr>telrcv_state := TN_DATA\<rparr>
      else if c = SB then (TN_SB_CLEAR s)\<lparr>telrcv_state := TN_SB\<rparr>
      else if c = IAC then (TTYADD IAC s)\<lparr>telrcv_state := TN_DATA\<rparr>
      else s\<lparr>telrcv_state := TN_DATA\<rparr>)"

definition tn_cr :: "telnet \<Rightarrow> telnet" where
  "tn_cr s = (let s1 = TTYADD 13 s in if crmod s1 then TTYADD 10 s1 else s1)"

text \<open>A byte of data; \<open>rest\<close> is what follows it in the same piece of the ring.  The flag says that the byte
  after it was taken too.\<close>

definition tn_data :: "byte \<Rightarrow> byte list \<Rightarrow> telnet \<Rightarrow> bool \<times> telnet" where
  "tn_data c rest s =
     (if c = IAC then (False, s\<lparr>telrcv_state := TN_IAC\<rparr>)
      else if c = 13 \<and> \<not> tn_my_want_state_is_do TELOPT_BINARY s then
        (case rest of
           d # _ \<Rightarrow>
             if d = 0 then (True, TTYADD 13 s)
             else if \<not> tn_my_want_state_is_do TELOPT_ECHO s \<and> d = 10 then (True, TTYADD 10 s)
             else (False, tn_cr s)
         | [] \<Rightarrow> (False, tn_cr (s\<lparr>telrcv_state := TN_CR\<rparr>)))
      else (False, TTYADD c s))"

text \<open>One turn of the switch.  \<open>None\<close>: the program has ended in \<open>suboption\<close>.\<close>

definition tn_rcv_char :: "tn_env \<Rightarrow> byte \<Rightarrow> byte list \<Rightarrow> telnet \<Rightarrow> (bool \<times> telnet) option" where
  "tn_rcv_char e c rest s =
     (case telrcv_state s of
        TN_CR \<Rightarrow>
          let s1 = s\<lparr>telrcv_state := TN_DATA\<rparr>
          in if c = 0 then Some (False, s1)
             else if c = 10 \<and> \<not> tn_my_want_state_is_do TELOPT_ECHO s1 \<and> \<not> crmod s1 then Some (False, TTYADD c s1)
             else Some (tn_data c rest s1)
      | TN_DATA \<Rightarrow> Some (tn_data c rest s)
      | TN_IAC \<Rightarrow> Some (False, tn_iac e c s)
      | TN_WILL \<Rightarrow> Some (False, (tn_willoption c s)\<lparr>telrcv_state := TN_DATA\<rparr>)
      | TN_WONT \<Rightarrow> Some (False, (tn_wontoption c s)\<lparr>telrcv_state := TN_DATA\<rparr>)
      | TN_DO \<Rightarrow>
          let s1 = tn_dooption c s;
              s2 = (if c = TELOPT_NAWS then sendnaws (winsize e) s1
                    else if c = TELOPT_LFLOW then setconnmode False (setcommandmode (s1\<lparr>localflow := True\<rparr>))
                    else s1)
          in Some (False, s2\<lparr>telrcv_state := TN_DATA\<rparr>)
      | TN_DONT \<Rightarrow>
          Some (False, (setconnmode False ((tn_dontoption c s)\<lparr>flushline := True\<rparr>))\<lparr>telrcv_state := TN_DATA\<rparr>)
      | TN_SB \<Rightarrow>
          Some (False, if c = IAC then s\<lparr>telrcv_state := TN_SE\<rparr> else TN_SB_ACCUM c s)
      | TN_SE \<Rightarrow>
          if c = IAC then Some (False, (TN_SB_ACCUM c s)\<lparr>telrcv_state := TN_SB\<rparr>)
          else
            (case tn_suboption (ospeed e) (ispeed e) (tn_sb_end c s) of
               None \<Rightarrow> None
             | Some s1 \<Rightarrow>
                 if c = SE then Some (False, s1\<lparr>telrcv_state := TN_DATA\<rparr>)
                 else Some (False, tn_iac e c (s1\<lparr>telrcv_state := TN_IAC\<rparr>))))"

text \<open>The loop over the pieces of the input ring, as long as the terminal ring has room.  The result is
  the input left and the state.\<close>

function tn_telrcv :: "tn_env \<Rightarrow> byte list list \<Rightarrow> telnet \<Rightarrow> (byte list list \<times> telnet) option" where
  "tn_telrcv e inp s =
     (if TTYROOM s \<le> 2 then Some (inp, s)
      else case inp of
          [] \<Rightarrow> Some ([], s)
        | [] # cs \<Rightarrow> tn_telrcv e cs s
        | (c # ch) # cs \<Rightarrow>
            (case tn_rcv_char e c ch s of
               None \<Rightarrow> None
             | Some (took, s1) \<Rightarrow> tn_telrcv e ((if took then tl ch else ch) # cs) s1))"
  by auto
termination
  by (relation "measure (\<lambda>(e, inp, s). sum_list (map length inp) + length inp)") auto

declare tn_telrcv.simps [simp del]

section \<open>From the terminal\<close>

definition strip :: "byte \<Rightarrow> telnet \<Rightarrow> byte" where
  "strip c s = (if \<not> tn_my_want_state_is_will TELOPT_BINARY s then c AND 0x7f else c)"

definition snd_data :: "byte \<Rightarrow> telnet \<Rightarrow> telnet" where
  "snd_data c s =
     (if \<not> tn_my_want_state_is_will TELOPT_BINARY s then
        if c = 10 then
          (NETADD 10 (if MODE_LOCAL_CHARS (globalmode s) then NETADD 13 s else s))\<lparr>bol := True, flushline := True\<rparr>
        else if c = 13 then (NET2ADD 13 (if crlf s then 10 else 0) s)\<lparr>bol := True, flushline := True\<rparr>
        else if c = IAC then NET2ADD IAC IAC s
        else NETADD c s
      else if c = IAC then NET2ADD IAC IAC s
      else NETADD c s)"

text \<open>How a turn ends: go on with the rest of the piece, stop, or hand a command line to \<open>command\<close>, after
  which the loop goes on or stops.\<close>

datatype snd_turn =
    Go "byte list" telnet
  | Stop "byte list" telnet
  | Command "byte list" "byte list" bool telnet

definition snd_local :: "byte \<Rightarrow> byte \<Rightarrow> byte list \<Rightarrow> telnet \<Rightarrow> snd_turn" where
  "snd_local c sc rest s =
     (if MODE_LOCAL_CHARS (globalmode s) then
        (case TerminalSpecialChars sc s of
           (True, s1) \<Rightarrow> Go rest (snd_data c s1)
         | (False, s1) \<Rightarrow> Stop rest (s1\<lparr>bol := True\<rparr>))
      else Go rest (snd_data c s))"

definition snd_echo :: "byte \<Rightarrow> byte \<Rightarrow> byte list \<Rightarrow> telnet \<Rightarrow> snd_turn" where
  "snd_echo c sc rest s =
     (if kludgelinemode s \<and> globalmode s AND TN_MODE_EDIT \<noteq> 0 \<and> sc = echoc s then
        if rest \<noteq> [] \<and> strip (hd rest) s = echoc s then snd_local c sc (tl rest) s
        else
          Stop rest ((setconnmode False (tn_settimer (\<lambda>t k. k\<lparr>tn_echotoggle := t\<rparr>) (s\<lparr>dontlecho := \<not> dontlecho s\<rparr>)))
            \<lparr>flushline := True\<rparr>)
      else snd_local c sc rest s)"

definition snd_bol :: "byte \<Rightarrow> telnet \<Rightarrow> telnet" where
  "snd_bol sc s = (if sc = 10 \<or> sc = 13 then s\<lparr>bol := True\<rparr> else s)"

text \<open>With an rlogin escape character: it is special at the start of a line.\<close>

definition snd_rlogin :: "byte \<Rightarrow> byte list \<Rightarrow> telnet \<Rightarrow> snd_turn" where
  "snd_rlogin c rest s =
     (let sc = strip c s
      in if bol s then
           let s1 = s\<lparr>bol := False\<rparr>
           in if sc = rlogin_c s1 then Go rest (s1\<lparr>tn_local := True\<rparr>) else snd_echo c sc rest (snd_bol sc s1)
         else if tn_local s then
           let s1 = s\<lparr>tn_local := False\<rparr>
           in if sc = 46 \<or> c = new_cc s1 SLC_EOF then Command (map of_char ''close'' @ [10]) rest True (s1\<lparr>bol := True\<rparr>)
              else if sc = new_cc s1 SLC_SUSP then Command (map of_char ''z'' @ [10]) rest True (s1\<lparr>bol := True\<rparr>)
              else if sc = escape_c s1 then Command rest [] False (s1\<lparr>bol := True, flushline := True\<rparr>)
              else if sc \<noteq> rlogin_c s1
              then snd_echo (rlogin_c s1) (rlogin_c s1) (c # rest) (snd_bol (rlogin_c s1) s1)
              else snd_echo c sc rest (snd_bol sc s1)
         else snd_echo c sc rest (snd_bol sc s))"

definition tn_snd_char :: "byte \<Rightarrow> byte list \<Rightarrow> telnet \<Rightarrow> snd_turn" where
  "tn_snd_char c rest s =
     (let sc = strip c s
      in if rlogin_c s \<noteq> VDISABLE then snd_rlogin c rest s
         else if sc = escape_c s then
           if rest \<noteq> [] \<and> strip (hd rest) s = escape_c s then snd_echo c sc (tl rest) (s\<lparr>bol := False\<rparr>)
           else Command rest [] False (s\<lparr>bol := True, flushline := True\<rparr>)
         else snd_echo c sc rest (s\<lparr>bol := False\<rparr>))"

text \<open>
  The loop of \<open>telsnd\<close>, with fuel for the bytes and for those looked at twice.  \<open>cmd\<close> stands for the command
  interpreter.
\<close>

fun telsnd :: "nat \<Rightarrow> (byte list \<Rightarrow> telnet \<Rightarrow> telnet) \<Rightarrow> byte list list \<Rightarrow> telnet \<Rightarrow> (byte list list \<times> telnet) option" where
  "telsnd 0 cmd inp s = None"
| "telsnd (Suc n) cmd inp s =
     (if NETROOM s \<le> 2 then Some (inp, s)
      else case inp of
          [] \<Rightarrow> Some ([], s)
        | [] # cs \<Rightarrow> telsnd n cmd cs s
        | (c # ch) # cs \<Rightarrow>
            (case tn_snd_char c ch s of
               Go rest s1 \<Rightarrow> telsnd n cmd (rest # cs) s1
             | Stop rest s1 \<Rightarrow> Some (rest # cs, s1)
             | Command line rest again s1 \<Rightarrow>
                 if again then telsnd n cmd (rest # cs) (cmd line s1) else Some (rest # cs, cmd line s1)))"

section \<open>The scheduler\<close>

text \<open>Whether the output to the network is to be sent now.\<close>

definition netout_wanted :: "telnet \<Rightarrow> bool" where
  "netout_wanted s \<longleftrightarrow>
     netoring s \<noteq> []
     \<and> (flushline s
        \<or> \<not> tn_my_want_state_is_will TELOPT_LINEMODE s
          \<and> (\<not> kludgelinemode s \<or> tn_my_want_state_is_do TELOPT_SGA s)
        \<or> tn_my_want_state_is_will TELOPT_BINARY s)"

end
