(* ===== verification/Telnet_Data.thy ===== *)
theory Telnet_Data
  imports Telnetd_Loop Telnet_Client_Io
begin

text \<open>
  The two programs together on data: what the server takes from its pty and sends is what the client
  writes to its terminal, and what the client reads from its terminal is what the server writes to
  the pty, however the network cuts the bytes into pieces.
\<close>

section \<open>From the server to the client\<close>

text \<open>The client shows data as it comes: the server echoes, nothing is being discarded.\<close>

definition rcv_plain :: "bool \<Rightarrow> telnet \<Rightarrow> bool" where
  "rcv_plain b s \<longleftrightarrow> \<not> SYNCHing s \<and> \<not> flushout s \<and> \<not> crmod s
     \<and> tn_my_want_state_is_do TELOPT_ECHO s \<and> (tn_my_want_state_is_do TELOPT_BINARY s \<longleftrightarrow> b)"

text \<open>Input \<open>bs\<close> in the state of the receiver stands for the data \<open>cs\<close>.\<close>

definition rcv_pending :: "bool \<Rightarrow> tn_tstate \<Rightarrow> byte list \<Rightarrow> byte list \<Rightarrow> bool" where
  "rcv_pending b st bs cs \<longleftrightarrow>
     st = TN_DATA \<and> bs = nvt_out b cs
     \<or> st = TN_IAC \<and> (\<exists>r. cs = IAC # r \<and> bs = IAC # nvt_out b r)
     \<or> st = TN_CR \<and> \<not> b \<and> (bs = 0 # nvt_out b cs \<or> (\<exists>r. cs = 10 # r \<and> bs = 10 # nvt_out b r))"

definition shown :: "byte list \<Rightarrow> tn_tstate \<Rightarrow> telnet \<Rightarrow> telnet" where
  "shown cs st s = s\<lparr>ttyoring := ttyoring s @ cs, telrcv_state := st\<rparr>"

lemma shown_plain [simp]: "rcv_plain b (shown cs st s) = rcv_plain b s"
  by (simp add: rcv_plain_def shown_def tn_is_def)

lemma shown_sel [simp]: "telrcv_state (shown cs st s) = st" "ttyoring (shown cs st s) = ttyoring s @ cs"
  by (simp_all add: shown_def)

lemma shown_shown [simp]: "shown cs st (shown ds st' s) = shown (ds @ cs) st s"
  by (simp add: shown_def)

lemma shown_same: "telrcv_state s = st \<Longrightarrow> shown [] st s = s"
  by (simp add: shown_def)

lemma TTYADD_shown:
  "rcv_plain b s \<Longrightarrow> TTYROOM s > 2 \<Longrightarrow> TTYADD c s = shown [c] (telrcv_state s) s"
  by (simp add: TTYADD_def shown_def rcv_plain_def TTYROOM_def ring_put_def)

lemma nvt_out_data: "nvt_out b cs = c # bs \<Longrightarrow> c \<noteq> IAC \<Longrightarrow> \<not> (c = 13 \<and> \<not> b) \<Longrightarrow> \<exists>r. cs = c # r \<and> bs = nvt_out b r"
  by (cases cs) (auto split: if_splits list.splits)

lemma nvt_out_IAC: "nvt_out b cs = IAC # bs \<Longrightarrow> \<exists>r. cs = IAC # r \<and> bs = IAC # nvt_out b r"
  by (cases cs) (auto split: if_splits list.splits)

lemma nvt_out_CR:
  "nvt_out False cs = 13 # bs \<Longrightarrow>
     \<exists>r. cs = 13 # r \<and> (bs = 0 # nvt_out False r \<or> (\<exists>q. r = 10 # q \<and> bs = 10 # nvt_out False q))"
  by (cases cs) (auto split: if_splits list.splits)

text \<open>One turn of the receiver takes one or two bytes and shows what they stand for.\<close>

lemma tn_data_shown:
  assumes p: "rcv_plain b s" "TTYROOM s > 2" "telrcv_state s = TN_DATA" and i: "nvt_out b cs = c # ch @ bs"
  shows "\<exists>took ds es st. tn_data c ch s = (took, shown ds st s) \<and> cs = ds @ es
    \<and> (took \<longrightarrow> ch \<noteq> []) \<and> rcv_pending b st ((if took then tl ch else ch) @ bs) es"
proof -
  note add = TTYADD_shown [OF p(1,2)]
  have e: "tn_my_want_state_is_do TELOPT_ECHO s" "tn_my_want_state_is_do TELOPT_BINARY s = b" "\<not> crmod s"
    using p(1) by (auto simp: rcv_plain_def)
  consider "c = IAC" | "c = 13" "\<not> b" | "c \<noteq> IAC" "\<not> (c = 13 \<and> \<not> b)" by blast
  then show ?thesis
  proof cases
    case 1
    then show ?thesis
      using nvt_out_IAC [OF i [unfolded 1]]
      by (intro exI [of _ False] exI [of _ "[]"] exI [of _ cs] exI [of _ TN_IAC])
        (auto simp: tn_data_def shown_def rcv_pending_def)
  next
    case 2
    then obtain r where r: "cs = 13 # r"
      "ch @ bs = 0 # nvt_out False r \<or> (\<exists>q. r = 10 # q \<and> ch @ bs = 10 # nvt_out False q)"
      using nvt_out_CR [of cs "ch @ bs"] i by auto
    show ?thesis
    proof (cases ch)
      case Nil
      have "tn_data c ch s = (False, shown [13] TN_CR s)"
        using 2 e Nil p(1,2)
        by (simp add: tn_data_def tn_cr_def TTYADD_def ring_put_def shown_def rcv_plain_def TTYROOM_def)
      then show ?thesis
        using 2 r Nil by (intro exI [of _ False] exI [of _ "[13]"] exI [of _ r] exI [of _ TN_CR])
          (auto simp: rcv_pending_def)
    next
      case (Cons d ch')
      have n: "nvt_out False (10 # q) = 10 # nvt_out False q" for q by simp
      consider "d = 0" | "d \<noteq> 0" "d = 10" using r(2) Cons by auto
      then show ?thesis
      proof cases
        case 1
        then have "tn_data c ch s = (True, shown [13] TN_DATA s)"
          using 2 e Cons add p(3) by (simp add: tn_data_def)
        then show ?thesis
          using 1 2 r Cons by (intro exI [of _ True] exI [of _ "[13]"] exI [of _ r] exI [of _ TN_DATA])
            (auto simp: rcv_pending_def)
      next
        case 2
        then have "tn_data c ch s = (False, shown [13] TN_DATA s)"
          using \<open>c = 13\<close> \<open>\<not> b\<close> e Cons add p(3) by (simp add: tn_data_def tn_cr_def shown_def)
        then show ?thesis
          using 2 r Cons \<open>\<not> b\<close> by (intro exI [of _ False] exI [of _ "[13]"] exI [of _ r] exI [of _ TN_DATA])
            (auto simp: rcv_pending_def)
      qed
    qed
  next
    case 3
    from nvt_out_data [OF i this] obtain r where "cs = c # r" "ch @ bs = nvt_out b r" by blast
    then show ?thesis
      using 3 e add p(3) by (intro exI [of _ False] exI [of _ "[c]"] exI [of _ r] exI [of _ TN_DATA])
        (auto simp: tn_data_def rcv_pending_def)
  qed
qed

lemma tn_rcv_char_shown:
  assumes p: "rcv_plain b s" "TTYROOM s > 2" and i: "rcv_pending b (telrcv_state s) (c # ch @ bs) cs"
  shows "\<exists>took ds es st. tn_rcv_char e c ch s = Some (took, shown ds st s) \<and> cs = ds @ es
    \<and> (took \<longrightarrow> ch \<noteq> []) \<and> rcv_pending b st ((if took then tl ch else ch) @ bs) es"
proof -
  have e: "tn_my_want_state_is_do TELOPT_ECHO s" using p(1) by (auto simp: rcv_plain_def)
  consider (data) "telrcv_state s = TN_DATA" "nvt_out b cs = c # ch @ bs"
    | (iac) r where "telrcv_state s = TN_IAC" "cs = IAC # r" "c = IAC" "ch @ bs = nvt_out b r"
    | (nul) "telrcv_state s = TN_CR" "\<not> b" "c = 0" "ch @ bs = nvt_out b cs"
    | (lf) r where "telrcv_state s = TN_CR" "\<not> b" "cs = 10 # r" "c = 10" "ch @ bs = nvt_out b r"
    using i by (auto simp: rcv_pending_def)
  then show ?thesis
  proof cases
    case data
    then show ?thesis using tn_data_shown [OF p data] by (simp add: tn_rcv_char_def) 
  next
    case iac
    then show ?thesis
      using TTYADD_shown [OF p] by (intro exI [of _ False] exI [of _ "[IAC]"] exI [of _ r] exI [of _ TN_DATA])
        (auto simp: tn_rcv_char_def tn_iac_def rcv_pending_def shown_def)
  next
    case nul
    then show ?thesis
      by (intro exI [of _ False] exI [of _ "[]"] exI [of _ cs] exI [of _ TN_DATA])
        (auto simp: tn_rcv_char_def rcv_pending_def shown_def)
  next
    case lf
    have "TTYADD 10 (s\<lparr>telrcv_state := TN_DATA\<rparr>) = shown [10] TN_DATA s"
      using p by (simp add: TTYADD_def shown_def rcv_plain_def TTYROOM_def ring_put_def)
    then show ?thesis
      using lf e by (intro exI [of _ False] exI [of _ "[10]"] exI [of _ r] exI [of _ TN_DATA])
        (auto simp: tn_rcv_char_def tn_data_def rcv_pending_def tn_is_def)
  qed
qed

lemma tn_telrcv_shows:
  assumes "rcv_plain b s" "rcv_pending b (telrcv_state s) (concat inp) cs" "length (ttyoring s) + length cs + 2 < TTYOBUF"
  shows "tn_telrcv e inp s = Some ([], shown cs TN_DATA s)"
  using assms
proof (induction e inp s arbitrary: cs rule: tn_telrcv.induct)
  case (1 e inp s)
  have room: "TTYROOM s > 2" using 1(5) by (simp add: TTYROOM_def)
  consider "inp = []" | cs' where "inp = [] # cs'" | c ch rest where "inp = (c # ch) # rest"
    by (metis list.exhaust)
  then show ?case
  proof cases
    case 1
    then have "cs = []" "telrcv_state s = TN_DATA"
      using "1.prems"(2) by (cases cs; auto simp: rcv_pending_def split: if_splits list.splits)+
    then show ?thesis using 1 room tn_telrcv.simps [of e "[]" s] by (simp add: shown_same)
  next
    case 2
    then show ?thesis using "1.IH"(1) [OF _ 2 _ "1.prems"(1)] "1.prems" room by (subst tn_telrcv.simps) simp
  next
    case 3
    from tn_rcv_char_shown [OF "1.prems"(1) room, of c ch "concat rest" cs e] "1.prems"(2) 3
    obtain took ds es st where t: "tn_rcv_char e c ch s = Some (took, shown ds st s)" "cs = ds @ es"
      "took \<longrightarrow> ch \<noteq> []" "rcv_pending b st ((if took then tl ch else ch) @ concat rest) es" by auto
    have "tn_telrcv e ((if took then tl ch else ch) # rest) (shown ds st s) = Some ([], shown es TN_DATA (shown ds st s))"
      using "1.IH"(2) [OF _ 3 refl t(1) refl, of es] room "1.prems"(1,3) t(2,4) by simp
    then show ?thesis
      using 3 room t(1,2) by (subst tn_telrcv.simps) simp
  qed
qed

section \<open>From the client to the server\<close>

text \<open>The client sends what is typed: no character is special but the escape character.\<close>

definition snd_plain :: "bool \<Rightarrow> telnet \<Rightarrow> bool" where
  "snd_plain b s \<longleftrightarrow> rlogin_c s = VDISABLE \<and> \<not> MODE_LOCAL_CHARS (globalmode s) \<and> \<not> crlf s
     \<and> (tn_my_want_state_is_will TELOPT_BINARY s \<longleftrightarrow> b)"

text \<open>\<open>t\<close> is \<open>s\<close> with more to send.\<close>

definition typed :: "byte list \<Rightarrow> telnet \<Rightarrow> telnet \<Rightarrow> bool" where
  "typed bs s t \<longleftrightarrow> netoring t = netoring s @ bs \<and> tn_options t = tn_options s \<and> escape_c t = escape_c s
     \<and> rlogin_c t = rlogin_c s \<and> globalmode t = globalmode s \<and> crlf t = crlf s"

lemma typed_keeps:
  assumes "typed bs s t"
  shows "snd_plain b t = snd_plain b s" "strip c t = strip c s" "escape_c t = escape_c s"
    "length (netoring t) = length (netoring s) + length bs"
  using assms by (simp_all add: typed_def snd_plain_def strip_def tn_is_def)

lemma typed_trans: "typed bs s t \<Longrightarrow> typed cs t u \<Longrightarrow> typed (bs @ cs) s u"
  by (simp add: typed_def)

lemma snd_data_typed:
  assumes "snd_plain b s" "NETROOM s > 2"
  shows "typed (nvt_esc b c) s (snd_data c s)"
  using assms
  by (auto simp: typed_def snd_data_def nvt_esc_def snd_plain_def NET2ADD_def NETADD_def ring_put_def NETROOM_def)

lemma tn_snd_char_typed:
  assumes p: "snd_plain b s" "NETROOM s > 2" and c: "strip c s \<noteq> escape_c s"
  shows "\<exists>t. tn_snd_char c rest s = Go rest t \<and> typed (nvt_esc b c) s t"
proof -
  let ?u = "s\<lparr>bol := False\<rparr>"
  have l: "globalmode s AND TN_MODE_EDIT = 0" "\<not> MODE_LOCAL_CHARS (globalmode s)"
    using p(1) and.assoc [of "globalmode s" 3 1] by (auto simp: snd_plain_def MODE_LOCAL_CHARS_def)
  have "tn_snd_char c rest s = Go rest (snd_data c ?u)"
    using p(1) c l by (simp add: tn_snd_char_def snd_plain_def snd_echo_def snd_local_def)
  moreover have "typed (nvt_esc b c) ?u (snd_data c ?u)"
    using p by (intro snd_data_typed) (auto simp: snd_plain_def NETROOM_def tn_is_def)
  ultimately show ?thesis by (auto simp: typed_def)
qed

lemma telsnd_typed:
  assumes "snd_plain b s" "\<forall>d \<in> set (concat inp). strip d s \<noteq> escape_c s"
    "length (netoring s) + length (concat (map (nvt_esc b) (concat inp))) + 2 < NETOBUF"
    "n > length (concat inp) + length inp"
  shows "\<exists>t. telsnd n cmd inp s = Some ([], t) \<and> typed (concat (map (nvt_esc b) (concat inp))) s t"
  using assms
proof (induction n cmd inp s rule: telsnd.induct)
  case (2 n cmd inp s)
  have room: "NETROOM s > 2" using 2(6) by (simp add: NETROOM_def)
  consider "inp = []" | cs where "inp = [] # cs" | c ch cs where "inp = (c # ch) # cs"
    by (metis list.exhaust)
  then show ?case
  proof cases
    case 1
    then show ?thesis using room by (simp add: typed_def)
  next
    case (2 cs)
    then show ?thesis using "2.IH"(1) [OF _ 2] "2.prems" room by simp
  next
    case (3 c ch cs)
    obtain u where u: "tn_snd_char c ch s = Go ch u" "typed (nvt_esc b c) s u"
      using tn_snd_char_typed [OF "2.prems"(1) room, of c ch] "2.prems"(2) 3 by auto
    note k = typed_keeps [OF u(2)]
    have "\<exists>t. telsnd n cmd (ch # cs) u = Some ([], t) \<and> typed (concat (map (nvt_esc b) (concat (ch # cs)))) u t"
      using "2.IH"(2) [OF _ 3 refl u(1)] "2.prems" room 3 by (simp add: k)
    then obtain t where "telsnd n cmd (ch # cs) u = Some ([], t)"
      "typed (concat (map (nvt_esc b) (concat (ch # cs)))) u t" by blast
    then show ?thesis using 3 room u(1) typed_trans [OF u(2)] by auto
  qed
qed simp

section \<open>Properties\<close>

text \<open>
  (C5) What the server reads from its pty is what the user sees: the bytes that the main
  loop of the server puts into its network buffer stand for a prefix of the bytes read from the pty, it keeps the
  rest while its network buffer is full, and a client at which the server echoes, with the same setting of BINARY, that does not discard output, is between
  two commands and has room in its terminal ring, writes exactly this
  prefix to its terminal, however the network has cut the bytes into pieces.  The bytes read from the pty are not only
  what the programs on it wrote: in packet mode each chunk begins with a control byte, which the main loop does not remove
  (\<open>packet_byte_is_sent\<close>), so that the user's terminal gets a null before the data of each chunk.
\<close>

theorem pty_output_reaches_terminal:
  assumes "nbackp s \<le> nfrontp s" "nfrontp s \<le> BUFSIZ"
  shows "\<exists>cs rest bs. pty_input s = cs @ rest \<and> pty_input (pty_to_net s) = rest
    \<and> (rest = [] \<or> net_buffer_is_full (pty_to_net s))
    \<and> net_sent (pty_to_net s) = net_sent s @ bs
    \<and> (\<forall>e pieces c. concat pieces = bs \<and> telrcv_state c = TN_DATA
         \<and> rcv_plain (my_state_is_will s TELOPT_BINARY) c \<and> length (ttyoring c) + length cs + 2 < TTYOBUF
         \<longrightarrow> tn_telrcv e pieces c = Some ([], c\<lparr>ttyoring := ttyoring c @ cs\<rparr>))"
proof -
  let ?b = "my_state_is_will s TELOPT_BINARY"
  from pty_to_net_sends [OF assms] obtain cs rest where r: "pty_input s = cs @ rest" "pty_input (pty_to_net s) = rest"
    "rest = [] \<or> net_buffer_is_full (pty_to_net s)" "sends s (pty_to_net s) (nvt_out ?b cs)" by blast
  have "tn_telrcv e pieces c = Some ([], c\<lparr>ttyoring := ttyoring c @ cs\<rparr>)"
    if "concat pieces = nvt_out ?b cs" "telrcv_state c = TN_DATA" "rcv_plain ?b c"
      "length (ttyoring c) + length cs + 2 < TTYOBUF" for e pieces c
    using tn_telrcv_shows [of ?b c pieces cs e] that by (simp add: rcv_pending_def shown_def)
  then show ?thesis using r by (intro exI [of _ cs] exI [of _ rest] exI [of _ "nvt_out ?b cs"]) (auto simp: sends_def)
qed

theorem pty_output_reaches_terminal_witness:
  "\<exists>cs rest bs. [97, 13, 10, 13, IAC] = cs @ rest
     \<and> net_sent (pty_to_net (pty_read (Got [97, 13, 10, 13, IAC]) (telnetd_start zero_termios))) = bs
     \<and> tn_telrcv \<lparr>oob = False, ospeed = [], ispeed = [], winsize = None\<rparr> (map (\<lambda>x. [x]) bs) (tn_set TN_MY_WANT_STATE_DO TELOPT_ECHO (telnet_start (\<lambda>_. 0) []))
          = Some ([], (tn_set TN_MY_WANT_STATE_DO TELOPT_ECHO (telnet_start (\<lambda>_. 0) []))\<lparr>ttyoring := cs\<rparr>)"
proof -
  let ?s = "pty_read (Got [97, 13, 10, 13, IAC]) (telnetd_start zero_termios)"
  let ?c = "tn_set TN_MY_WANT_STATE_DO TELOPT_ECHO (telnet_start (\<lambda>_. 0) [])"
  have s: "nbackp ?s \<le> nfrontp ?s" "nfrontp ?s \<le> BUFSIZ" "net_sent ?s = []" "my_state_is_will ?s TELOPT_BINARY = False"
    "pty_input ?s = [97, 13, 10, 13, IAC]"
    by (simp_all add: pty_read_def telnetd_start_def net_sent_def my_state_is_will_def
        pty_input_def slice_def buf_write_def upt_conv_Cons Let_def)
  have c: "rcv_plain False ?c" "telrcv_state ?c = TN_DATA" "ttyoring ?c = []"
    by (simp_all add: rcv_plain_def tn_set_def tn_is_def telnet_start_def)
  from pty_output_reaches_terminal [OF s(1,2)] obtain cs rest bs where r:
    "[97, 13, 10, 13, IAC] = cs @ rest" "net_sent (pty_to_net ?s) = bs"
    "\<And>pieces c. concat pieces = bs \<Longrightarrow> telrcv_state c = TN_DATA \<Longrightarrow> rcv_plain False c
       \<Longrightarrow> length (ttyoring c) + length cs + 2 < TTYOBUF \<Longrightarrow> tn_telrcv \<lparr>oob = False, ospeed = [], ispeed = [], winsize = None\<rparr> pieces c = Some ([], c\<lparr>ttyoring := ttyoring c @ cs\<rparr>)"
    unfolding s(3-5) append_Nil by blast
  have "length cs \<le> 5" using arg_cong [OF r(1), of length] by simp
  then have "tn_telrcv \<lparr>oob = False, ospeed = [], ispeed = [], winsize = None\<rparr> (map (\<lambda>x. [x]) bs) ?c
      = Some ([], ?c\<lparr>ttyoring := cs\<rparr>)"
    using r(3) [OF _ c(2,1), of "map (\<lambda>x. [x]) bs"] unfolding c(3) by simp
  then show ?thesis using r(1,2) by blast
qed

text \<open>
  (C4) What the user types is what the programs on the server's pty read: \<open>telsnd\<close> takes all of it (with
  room in its ring, and none of it the escape character), and the server, which gets the bytes that
  were added to the ring, writes exactly the typed characters to the pty.  The statement covers IAC, which is
  doubled, and carriage return, which is followed by a null, with and without BINARY.
\<close>

theorem typed_reaches_pty:
  assumes "snd_plain b c" "\<forall>d \<in> set ds. strip d c \<noteq> escape_c c" "concat pieces = ds"
    "length (netoring c) + 2 * length ds + 2 < NETOBUF" "n > length ds + length pieces"
  shows "\<exists>bs c'. telsnd n cmd pieces c = Some ([], c') \<and> netoring c' = netoring c @ bs
    \<and> (\<forall>s. net_input s = bs \<and> ncc s \<ge> 0 \<and> rcv_state s = TS_DATA \<and> \<not> exited s \<and> pty_ok s
         \<and> his_state_is_will s TELOPT_BINARY = b \<and> (b \<or> linemode s = 0) \<and> pfrontp s + length ds + 1 < BUFSIZ
         \<longrightarrow> (\<exists>s'. telrcv s = Inr s' \<and> pty_sent s' = pty_sent s @ ds \<and> rcv_state s' = TS_DATA))"
proof -
  have "length (concat (map (nvt_esc b) ds)) \<le> 2 * length ds"
    by (induction ds) (auto simp: nvt_esc_def)
  with assms obtain c' where "telsnd n cmd pieces c = Some ([], c')" "typed (concat (map (nvt_esc b) ds)) c c'"
    using telsnd_typed [of b c pieces n cmd] by auto
  then show ?thesis
    using telrcv_transparent_aux by (intro exI [of _ "concat (map (nvt_esc b) ds)"] exI [of _ c']) (auto simp: typed_def)
qed

theorem typed_reaches_pty_witness:
  "\<exists>bs c'. telsnd 9 (\<lambda>_ c. c) [[97, 13], [IAC, 98]] (telnet_start (\<lambda>_. 0) []) = Some ([], c') \<and> netoring c' = bs
    \<and> bs = [97, 13, 0, IAC, IAC, 98]
    \<and> (\<exists>s'. telrcv (net_read (Got bs) (telnetd_start zero_termios)) = Inr s' \<and> pty_sent s' = [97, 13, IAC, 98])"
proof -
  let ?c = "telnet_start (\<lambda>_. 0) []"
  let ?ds = "[97, 13, IAC, 98] :: byte list"
  let ?bs = "[97, 13, 0, IAC, IAC, 98] :: byte list"
  let ?s = "net_read (Got ?bs) (telnetd_start zero_termios)"
  have i: "net_input ?s = ?bs"
    by (simp add: net_read_def net_input_def telnetd_start_def slice_def buf_write_def upt_conv_Cons Let_def)
  have s: "ncc ?s \<ge> 0" "rcv_state ?s = TS_DATA" "\<not> exited ?s" "pty_ok ?s" "his_state_is_will ?s TELOPT_BINARY = False"
    "linemode ?s = 0" "pty_sent ?s = []" "pfrontp ?s = 0"
    by (simp_all add: net_read_def telnetd_start_def his_state_is_will_def pty_sent_def pty_ok_def Let_def)
  have c: "snd_plain False ?c" "\<forall>d \<in> set ?ds. strip d ?c \<noteq> escape_c ?c"
    "concat [[97, 13], [IAC, 98]] = ?ds" "length (netoring ?c) + 2 * length ?ds + 2 < NETOBUF"
    "(9::nat) > length ?ds + length [[97, 13], [IAC, 98::byte]]"
    by (simp_all add: snd_plain_def telnet_start_def MODE_LOCAL_CHARS_def tn_is_def strip_def)
  have n: "netoring ?c = []" by (simp add: telnet_start_def)
  obtain c' bs where r: "telsnd 9 (\<lambda>_ c. c) [[97, 13], [IAC, 98]] ?c = Some ([], c')" "netoring c' = bs"
    "\<And>s. net_input s = bs \<Longrightarrow> ncc s \<ge> 0 \<Longrightarrow> rcv_state s = TS_DATA \<Longrightarrow> \<not> exited s \<Longrightarrow> pty_ok s
       \<Longrightarrow> his_state_is_will s TELOPT_BINARY = False \<Longrightarrow> linemode s = 0 \<Longrightarrow> pfrontp s + length ?ds + 1 < BUFSIZ
       \<Longrightarrow> \<exists>s'. telrcv s = Inr s' \<and> pty_sent s' = pty_sent s @ ?ds"
    using typed_reaches_pty [OF c, of "\<lambda>_ c. c"] unfolding n append_Nil by blast
  moreover have "netoring c' = ?bs"
    using r(1) telsnd_typed [OF c(1), of "[[97, 13], [IAC, 98]]" 9 "\<lambda>_ c. c"] c n
    by (auto simp: typed_def nvt_esc_def)
  moreover from this have "\<exists>s'. telrcv ?s = Inr s' \<and> pty_sent s' = pty_sent ?s @ ?ds"
    by (intro r(3)) (use i s r(2) in simp_all)
  ultimately show ?thesis using s(7) by auto
qed

end
