(* ===== verification/Telnet_Subneg.thy ===== *)
theory Telnet_Subneg
  imports Telnet_Data
begin

text \<open>
  The two programs together on suboptions: what the client reports, the size of its window and its
  environment, is what the server gets, through the framing by \<open>IAC SB\<close> and \<open>IAC SE\<close>, the doubled bytes
  and the escapes.
\<close>

section \<open>How the server takes a suboption\<close>

text \<open>The bytes of a suboption on the network.\<close>

definition sb_double :: "byte list \<Rightarrow> byte list" where
  "sb_double bs = concat (map (\<lambda>c. if c = IAC then [IAC, IAC] else [c]) bs)"

lemma sb_double_simps [simp]:
  "sb_double [] = []" "sb_double (c # bs) = (if c = IAC then [IAC, IAC] else [c]) @ sb_double bs"
  "sb_double (as @ bs) = sb_double as @ sb_double bs"
  by (simp_all add: sb_double_def)

text \<open>The state \<open>t\<close> of the server while a suboption is collected: \<open>s\<close> with the bytes \<open>bs\<close> in the buffer.\<close>

definition sb_frame :: "telnetd \<Rightarrow> telnetd" where
  "sb_frame s = s\<lparr>ncc := 0, netip := 0, rcv_state := TS_DATA, subbuffer := [], subpointer := 0, subend := 0\<rparr>"

definition collecting :: "byte list \<Rightarrow> telnetd \<Rightarrow> telnetd \<Rightarrow> bool" where
  "collecting bs s t \<longleftrightarrow> sb_frame t = sb_frame s
     \<and> length (subbuffer t) = SUBBUFSIZ \<and> subpointer t = length bs \<and> take (length bs) (subbuffer t) = bs"

lemma sb_frame_fields:
  assumes "sb_frame t = sb_frame s"
  shows "pty_buffer_is_full t = pty_buffer_is_full s" "exited t = exited s" "penv t = penv s" "terminit t = terminit s"
    "his_state_is_will t opt = his_state_is_will s opt"
proof -
  have e: "pty_buffer_is_full (sb_frame u) = pty_buffer_is_full u" "exited (sb_frame u) = exited u"
    "penv (sb_frame u) = penv u" "terminit (sb_frame u) = terminit u"
    "his_state_is_will (sb_frame u) opt = his_state_is_will u opt" for u
    by (simp_all add: sb_frame_def pty_buffer_is_full_def his_state_is_will_def terminit_def)
  show "pty_buffer_is_full t = pty_buffer_is_full s" "exited t = exited s" "penv t = penv s" "terminit t = terminit s"
    "his_state_is_will t opt = his_state_is_will s opt"
    using arg_cong [OF assms, of pty_buffer_is_full] arg_cong [OF assms, of exited] arg_cong [OF assms, of penv]
      arg_cong [OF assms, of terminit] arg_cong [OF assms, of "\<lambda>u. his_state_is_will u opt"]
    unfolding e by blast+
qed

lemma collecting_full [simp]: "collecting bs s t \<Longrightarrow> pty_buffer_is_full t = pty_buffer_is_full s"
  "collecting bs s t \<Longrightarrow> exited t = exited s"
  using sb_frame_fields(1,2) unfolding collecting_def by blast+

lemma collecting_get: "collecting bs s t \<Longrightarrow> collecting bs s (t\<lparr>ncc := a, netip := p\<rparr>)"
  by (simp add: collecting_def sb_frame_def)

lemma collecting_goto: "collecting bs s t \<Longrightarrow> collecting bs s (goto_state st t)"
  by (simp add: collecting_def sb_frame_def goto_state_def)

lemma collecting_accum:
  "collecting bs s t \<Longrightarrow> length bs < SUBBUFSIZ \<Longrightarrow> collecting (bs @ [c]) s (SB_ACCUM c t)"
  by (simp add: collecting_def sb_frame_def SB_ACCUM_def take_Suc_conv_app_nth)

lemma net_input_goto [simp]: "net_input (goto_state st t) = net_input t" "net_input (SB_ACCUM c t) = net_input t"
  "rcv_state (SB_ACCUM c t) = rcv_state t" "net_input (SB_CLEAR t) = net_input t"
  by (simp_all add: net_input_def SB_ACCUM_def SB_CLEAR_def)

lemma telrcv_sb_byte:
  assumes c: "collecting bs s t" and st: "rcv_state t = TS_SB" and l: "length bs < SUBBUFSIZ"
    and i: "net_input t = sb_double [x] @ rest" and ok: "\<not> pty_buffer_is_full s" "\<not> exited s"
  shows "\<exists>u. telrcv t = telrcv u \<and> collecting (bs @ [x]) s u \<and> rcv_state u = TS_SB \<and> net_input u = rest"
proof (cases "x = IAC")
  case False
  then have i1: "net_input t = x # rest" using i by simp
  let ?t = "t\<lparr>ncc := ncc t - 1, netip := netip t + 1\<rparr>"
  have "telrcv t = telrcv (SB_ACCUM x ?t)"
    using telrcv_next [OF i1] c ok st False by (simp add: telrcv_char_def)
  then show ?thesis
    using collecting_accum [OF collecting_get [OF c] l] net_input_Cons(3) [OF i1] st
    by (intro exI [of _ "SB_ACCUM x ?t"]) simp
next
  case True
  then have i1: "net_input t = IAC # IAC # rest" using i by simp
  let ?t = "goto_state TS_SE (t\<lparr>ncc := ncc t - 1, netip := netip t + 1\<rparr>)"
  have c1: "collecting bs s ?t" by (intro collecting_goto collecting_get c)
  have r1: "telrcv t = telrcv ?t" using telrcv_next [OF i1] c ok st by (simp add: telrcv_char_def)
  have i2: "net_input ?t = IAC # rest" using net_input_Cons(3) [OF i1] by simp
  let ?u = "goto_state TS_SB (SB_ACCUM IAC (?t\<lparr>ncc := ncc ?t - 1, netip := netip ?t + 1\<rparr>))"
  have "telrcv ?t = telrcv ?u" using telrcv_next [OF i2] c1 ok collecting_full [OF c1] by (simp add: telrcv_char_def)
  then show ?thesis
    using r1 collecting_goto [OF collecting_accum [OF collecting_get [OF c1] l]] net_input_Cons(3) [OF i2] True
    by (intro exI [of _ ?u]) simp
qed

lemma telrcv_sb_bytes:
  assumes "collecting bs s t" "rcv_state t = TS_SB" "length bs + length xs \<le> SUBBUFSIZ"
    "net_input t = sb_double xs @ rest" "\<not> pty_buffer_is_full s" "\<not> exited s"
  shows "\<exists>u. telrcv t = telrcv u \<and> collecting (bs @ xs) s u \<and> rcv_state u = TS_SB \<and> net_input u = rest"
  using assms
proof (induction xs arbitrary: bs t)
  case Nil
  then show ?case by auto
next
  case (Cons x xs)
  then obtain u where u: "telrcv t = telrcv u" "collecting (bs @ [x]) s u" "rcv_state u = TS_SB"
    "net_input u = sb_double xs @ rest"
    using telrcv_sb_byte [of bs s t x "sb_double xs @ rest"] by auto
  from Cons.IH [OF u(2,3) _ u(4)] Cons.prems u(1) show ?case by auto
qed

text \<open>A complete suboption of at most 510 bytes.\<close>

lemma telrcv_suboption:
  assumes i: "net_input s = [IAC, SB] @ sb_double xs @ [IAC, SE] @ rest" and st: "rcv_state s = TS_DATA"
    and ok: "\<not> pty_buffer_is_full s" "\<not> exited s" and l: "length (subbuffer s) = SUBBUFSIZ" "length xs \<le> SUBBUFSIZ - 2"
  shows "\<exists>u. telrcv s = telrcv (goto_state TS_DATA (suboption u)) \<and> sb_frame u = sb_frame s
    \<and> subpointer u = 0 \<and> subend u = length xs \<and> take (subend u) (subbuffer u) = xs
    \<and> length (subbuffer u) = SUBBUFSIZ \<and> net_input u = rest"
proof -
  have i1: "net_input s = IAC # SB # sb_double xs @ [IAC, SE] @ rest" using i by simp
  let ?t = "goto_state TS_IAC (s\<lparr>ncc := ncc s - 1, netip := netip s + 1\<rparr>)"
  have r1: "telrcv s = telrcv ?t"
    using telrcv_next [OF i1] ok st by (simp add: telrcv_char_def telrcv_data_def)
  have i2: "net_input ?t = SB # sb_double xs @ [IAC, SE] @ rest" using net_input_Cons(3) [OF i1] by simp
  have f2: "\<not> pty_buffer_is_full ?t" "\<not> exited ?t" "rcv_state ?t = TS_IAC"
    using ok by (simp_all add: goto_state_def pty_buffer_is_full_def)
  let ?u = "SB_CLEAR (goto_state TS_SB (?t\<lparr>ncc := ncc ?t - 1, netip := netip ?t + 1\<rparr>))"
  have r2: "telrcv ?t = telrcv ?u"
    unfolding telrcv_next [OF i2 f2(1,2)] using f2(3) by (simp add: telrcv_char_def gotiac_def)
  have i3: "net_input ?u = sb_double xs @ [IAC, SE] @ rest" using net_input_Cons(3) [OF i2] by simp
  have "collecting [] s ?u" "rcv_state ?u = TS_SB"
    using l(1) by (simp_all add: collecting_def sb_frame_def goto_state_def SB_CLEAR_def)
  from telrcv_sb_bytes [OF this _ i3 ok] l(2) obtain v where v: "telrcv ?u = telrcv v" "collecting xs s v"
    "rcv_state v = TS_SB" "net_input v = IAC # SE # rest" by auto
  let ?w = "goto_state TS_SE (v\<lparr>ncc := ncc v - 1, netip := netip v + 1\<rparr>)"
  have w: "collecting xs s ?w" "telrcv v = telrcv ?w" "net_input ?w = SE # rest"
    using collecting_goto [OF collecting_get [OF v(2)]] telrcv_next [OF v(4)] v ok net_input_Cons(3) [OF v(4)]
    by (simp_all add: telrcv_char_def)
  let ?x = "?w\<lparr>ncc := ncc ?w - 1, netip := netip ?w + 1\<rparr>"
  have x: "collecting xs s ?x" "net_input ?x = rest" "rcv_state ?x = TS_SE"
    using collecting_get [OF w(1)] net_input_Cons(3) [OF w(3)] by (simp_all add: goto_state_def)
  have "telrcv ?w = telrcv (goto_state TS_DATA (suboption (sb_ready SE ?x)))"
    using telrcv_next [OF w(3)] collecting_full [OF w(1)] ok x(3) by (simp add: telrcv_char_def sb_finish_def)
  moreover have "sb_frame (sb_ready SE ?x) = sb_frame s" "net_input (sb_ready SE ?x) = rest"
    "subpointer (sb_ready SE ?x) = 0" "subend (sb_ready SE ?x) = length xs"
    "take (length xs) (subbuffer (sb_ready SE ?x)) = xs" "length (subbuffer (sb_ready SE ?x)) = SUBBUFSIZ"
    using x(1,2) l(2)
    by (simp_all add: collecting_def sb_ready_def SB_TERM_def SB_CLEAR_def SB_ACCUM_def sb_frame_def net_input_def Let_def)
  ultimately show ?thesis using r1 r2 v(1) w(2) by metis
qed

lemma goto_state_report [simp]:
  "pty_winsize (goto_state st s) = pty_winsize s" "penv (goto_state st s) = penv s" "rcv_state (goto_state st s) = st"
  by (simp_all add: goto_state_def)

lemma suboption_input:
  "net_input (suboption s) = net_input s"
  using outer_fields(1-3) [OF outer_suboption [of s]] by (simp add: net_input_def)

section \<open>The window size\<close>

lemma putshort_double: "putshort n = sb_double [of_nat (n div 256), of_nat n]"
  by (simp add: putshort_def Let_def)

lemma byte_pair: "n < 65536 \<Longrightarrow> uint (of_nat (n div 256) :: byte) * 256 + uint (of_nat n :: byte) = int n"
proof -
  assume "n < 65536"
  then have "uint (of_nat (n div 256) :: byte) = int (n div 256)" by (simp add: uint_nat unat_of_nat)
  moreover have "uint (of_nat n :: byte) = int (n mod 256)" by (simp add: uint_nat unat_of_nat)
  ultimately show ?thesis by (simp add: zdiv_int zmod_int)
qed

section \<open>The environment\<close>

text \<open>A name or value with its escapes, before the doubling of IAC, and a variable in the reply.\<close>

definition env_esc :: "byte list \<Rightarrow> byte list" where
  "env_esc bs = concat (map (\<lambda>c. if c \<in> {NEW_ENV_VAR, NEW_ENV_VALUE, ENV_ESC, ENV_USERVAR} then [ENV_ESC, c] else [c]) bs)"

lemma env_esc_simps [simp]:
  "env_esc [] = []"
  "env_esc (c # bs) = (if c \<in> {NEW_ENV_VAR, NEW_ENV_VALUE, ENV_ESC, ENV_USERVAR} then [ENV_ESC, c] else [c]) @ env_esc bs"
  by (simp_all add: env_esc_def)

lemma env_escape_double: "env_escape bs = sb_double (env_esc bs)"
  by (induction bs) (auto simp: env_escape_def)

definition env_code_of :: "byte list \<Rightarrow> byte" where
  "env_code_of n = (if opt_welldefined n then NEW_ENV_VAR else ENV_USERVAR)"

definition env_item :: "byte list \<times> byte list \<Rightarrow> byte list" where
  "env_item nv = env_code_of (fst nv) # env_esc (fst nv) @ NEW_ENV_VALUE # env_esc (snd nv)"

text \<open>The server reads the escapes back.\<close>

lemma env_items_name: "env_items False (a, None) (env_esc n @ rest) = env_items False (a @ n, None) rest"
  by (induction n arbitrary: a) (auto simp: env_append_def env_code_def)

lemma env_items_value: "env_items False (a, Some b) (env_esc v @ rest) = env_items False (a, Some (b @ v)) rest"
  by (induction v arbitrary: b) (auto simp: env_append_def env_code_def)

lemma env_items_read:
  "env_items False ([], None) (env_esc n @ NEW_ENV_VALUE # env_esc v @ concat (map env_item nvs))
     = (n, Some v) # map (\<lambda>nv. (fst nv, Some (snd nv))) nvs"
proof (induction nvs arbitrary: n v)
  case Nil
  show ?case using env_items_value [of n "[]" v "[]"] by (simp add: env_items_name env_code_def)
next
  case (Cons nv nvs)
  then show ?case
    using Cons.IH [of "fst nv" "snd nv"]
    by (simp add: env_items_name env_items_value env_code_def env_item_def env_code_of_def)
qed

lemma env_first_item: "env_first False (env_item nv @ bs) = env_esc (fst nv) @ NEW_ENV_VALUE # env_esc (snd nv) @ bs"
  by (simp add: env_first_def env_item_def env_code_of_def)

definition env_put :: "byte list \<times> byte list \<Rightarrow> (byte list \<rightharpoonup> byte list) \<Rightarrow> (byte list \<rightharpoonup> byte list)" where
  "env_put nv e = e(fst nv \<mapsto> snd nv)"

definition env_clean :: "byte list \<times> byte list \<Rightarrow> bool" where
  "env_clean nv \<longleftrightarrow> env_name_ok (fst nv) \<and> 0 \<notin> set (fst nv) \<and> 0 \<notin> set (snd nv)"

lemma takeWhile_clean: "0 \<notin> set w \<Longrightarrow> takeWhile (\<lambda>c. c \<noteq> 0) w = w"
  by (simp add: takeWhile_eq_all_conv) metis

lemma env_apply_clean: "env_clean nv \<Longrightarrow> env_apply (fst nv, Some (snd nv)) e = env_put nv e"
  by (simp add: env_clean_def env_apply_def takeWhile_clean c_setenv_def env_put_def)

lemma fold_env_apply_clean:
  "\<forall>nv \<in> set nvs. env_clean nv \<Longrightarrow> fold env_apply (map (\<lambda>nv. (fst nv, Some (snd nv))) nvs) e = fold env_put nvs e"
  by (induction nvs arbitrary: e) (simp_all add: env_apply_clean)

lemma environ_reply_read:
  assumes "sb_rest s = TELQUAL_IS # concat (map env_item nvs)" "subend s < length (subbuffer s)"
    "\<forall>nv \<in> set nvs. env_clean nv"
  shows "penv (suboption_environ False s) = fold env_put nvs (penv s)"
proof (cases nvs)
  case Nil
  then show ?thesis using suboption_environ_meaning [OF assms(1,2), of False] by (simp add: env_first_def)
next
  case (Cons nv nvs')
  then show ?thesis
    using suboption_environ_meaning [OF assms(1,2), of False] assms(3)
      fold_env_apply_clean [of nvs "penv s"] env_first_item [of nv] env_items_read [of "fst nv" "snd nv" nvs']
    by simp
qed

text \<open>The client's reply.\<close>

lemma env_opt_add_one_reply:
  assumes "env_getvalue n c = Some v"
  shows "opt_reply (env_opt_add_one n c) = opt_reply c @ sb_double (env_item (n, v))"
    "env_getvalue m (env_opt_add_one n c) = env_getvalue m c" "netoring (env_opt_add_one n c) = netoring c"
  using assms
  by (auto simp: env_opt_add_one_def env_item_def env_escape_double env_getvalue_def env_find_def env_code_of_def Let_def)

lemma env_opt_add_fold:
  assumes "\<forall>nv \<in> set nvs. env_getvalue (fst nv) c = Some (snd nv)"
  shows "opt_reply (fold env_opt_add_one (map fst nvs) c) = opt_reply c @ sb_double (concat (map env_item nvs))
    \<and> netoring (fold env_opt_add_one (map fst nvs) c) = netoring c"
  using assms
proof (induction nvs arbitrary: c)
  case (Cons nv nvs)
  then have "\<forall>nv' \<in> set nvs. env_getvalue (fst nv') (env_opt_add_one (fst nv) c) = Some (snd nv')"
    by (simp add: env_opt_add_one_reply)
  from Cons.IH [OF this] Cons.prems show ?case
    by (simp add: env_opt_add_one_reply)
qed simp

text \<open>The exported variables in the order of the reply.\<close>

definition env_exported :: "telnet \<Rightarrow> (byte list \<times> byte list) list" where
  "env_exported c = map (\<lambda>ep. (ev_var ep, ev_value ep))
     (filter (\<lambda>ep. ev_export ep \<and> \<not> ev_welldefined ep) (envlist c) @ filter (\<lambda>ep. ev_export ep \<and> ev_welldefined ep) (envlist c))"

lemma env_exported_default: "env_default False c @ env_default True c = map fst (env_exported c)"
  by (simp add: env_default_def env_exported_def)

lemma env_exported_set:
  "nv \<in> set (env_exported c) \<longleftrightarrow> (\<exists>ep \<in> set (envlist c). ev_export ep \<and> nv = (ev_var ep, ev_value ep))"
  by (auto simp: env_exported_def)

lemma env_getvalue_distinct:
  "distinct (map ev_var (envlist c)) \<Longrightarrow> ep \<in> set (envlist c) \<Longrightarrow> env_getvalue (ev_var ep) c = Some (ev_value ep)"
proof -
  have "distinct (map ev_var l) \<Longrightarrow> ep \<in> set l \<Longrightarrow> find (\<lambda>e. ev_var e = ev_var ep) l = Some ep" for l
    by (induction l) auto
  then show "distinct (map ev_var (envlist c)) \<Longrightarrow> ep \<in> set (envlist c) \<Longrightarrow> env_getvalue (ev_var ep) c = Some (ev_value ep)"
    by (simp add: env_getvalue_def env_find_def)
qed

lemma fold_env_put:
  assumes "\<forall>nv \<in> set nvs. f (fst nv) = Some (snd nv)"
  shows "fold env_put nvs e n = (if n \<in> fst ` set nvs then f n else e n)"
  using assms by (induction nvs arbitrary: e) (auto simp: env_put_def)

section \<open>Properties\<close>

text \<open>
  (C18) The size of the user's window reaches the programs on the server: the report that \<open>sendnaws\<close> adds to
  the client's output, received by \<open>telrcv\<close> with the option in force, sets the size of the pty to the same
  columns and rows, also when one of their bytes is 255 and has to be doubled.
\<close>

theorem window_size_reaches_pty:
  assumes "tn_my_state_is_will TELOPT_NAWS c" "NETROOM c \<ge> 13" "rows < 65536" "cols < 65536"
  shows "\<exists>bs. netoring (sendnaws (Some (rows, cols)) c) = netoring c @ bs
    \<and> (\<forall>s rest. net_input s = bs @ rest \<and> rcv_state s = TS_DATA \<and> \<not> pty_buffer_is_full s \<and> \<not> exited s
         \<and> length (subbuffer s) = SUBBUFSIZ \<and> his_state_is_will s TELOPT_NAWS \<and> terminit s
         \<longrightarrow> (\<exists>t. telrcv s = telrcv t \<and> net_input t = rest \<and> rcv_state t = TS_DATA
                \<and> pty_winsize t = (int cols, int rows)))"
proof -
  let ?xs = "[TELOPT_NAWS, of_nat (cols div 256), of_nat cols, of_nat (rows div 256), of_nat rows]"
  have len: "length (putshort n) \<le> 4" for n by (simp add: putshort_def Let_def)
  have bs: "netoring (sendnaws (Some (rows, cols)) c) = netoring c @ [IAC, SB] @ sb_double ?xs @ [IAC, SE]"
    using assms(1,2) len [of rows] len [of cols]
    by (simp add: sendnaws_def net_supply_def Let_def) (simp add: putshort_double)
  have "\<exists>t. telrcv s = telrcv t \<and> net_input t = rest \<and> rcv_state t = TS_DATA \<and> pty_winsize t = (int cols, int rows)"
    if s: "net_input s = ([IAC, SB] @ sb_double ?xs @ [IAC, SE]) @ rest" "rcv_state s = TS_DATA" "\<not> pty_buffer_is_full s"
      "\<not> exited s" "length (subbuffer s) = SUBBUFSIZ" "his_state_is_will s TELOPT_NAWS" "terminit s" for s rest
  proof -
    from telrcv_suboption [of s ?xs rest] s obtain u where u: "telrcv s = telrcv (goto_state TS_DATA (suboption u))"
      "sb_frame u = sb_frame s" "subpointer u = 0" "subend u = length ?xs" "take (subend u) (subbuffer u) = ?xs"
      "length (subbuffer u) = SUBBUFSIZ" "net_input u = rest" by auto
    have "pty_winsize (suboption u) = (int cols, int rows)"
      using suboption_naws_size [of u "tl ?xs"] u s sb_frame_fields [OF u(2)] byte_pair assms(3,4) by simp
    then show ?thesis
      using u(1,7) suboption_input [of u]
      by (intro exI [of _ "goto_state TS_DATA (suboption u)"]) simp
  qed
  then show ?thesis unfolding bs by blast
qed

theorem window_size_reaches_pty_witness:
  "\<exists>bs t. netoring (sendnaws (Some (24, 255)) (tn_set TN_MY_STATE_WILL TELOPT_NAWS (telnet_start (\<lambda>_. 0) []))) = bs
    \<and> bs = [IAC, SB, TELOPT_NAWS, 0, 255, 255, 0, 24, IAC, SE]
    \<and> telrcv (net_read (Got [IAC, SB, TELOPT_NAWS, 0, 255, 255, 0, 24, IAC, SE])
          ((set_his_state_will TELOPT_NAWS (telnetd_start zero_termios))\<lparr>terminit_flag := True\<rparr>)) = telrcv t
    \<and> net_input t = [] \<and> pty_winsize t = (255, 24)"
proof -
  let ?c = "tn_set TN_MY_STATE_WILL TELOPT_NAWS (telnet_start (\<lambda>_. 0) [])"
  let ?bs = "[IAC, SB, TELOPT_NAWS, 0, 255, 255, 0, 24, IAC, SE] :: byte list"
  let ?s = "net_read (Got ?bs) ((set_his_state_will TELOPT_NAWS (telnetd_start zero_termios))\<lparr>terminit_flag := True\<rparr>)"
  have c: "tn_my_state_is_will TELOPT_NAWS ?c" "NETROOM ?c \<ge> 13" "netoring ?c = []"
    by (simp_all add: tn_set_def tn_is_def telnet_start_def NETROOM_def)
  have bs: "netoring (sendnaws (Some (24, 255)) ?c) = ?bs"
    using c by (simp add: sendnaws_def net_supply_def putshort_def)
  have s: "net_input ?s = ?bs @ []" "rcv_state ?s = TS_DATA" "\<not> pty_buffer_is_full ?s" "\<not> exited ?s"
    "length (subbuffer ?s) = SUBBUFSIZ" "his_state_is_will ?s TELOPT_NAWS" "terminit ?s"
    by (simp_all add: net_read_def telnetd_start_def set_bits_def terminit_def his_state_is_will_def net_input_def
        slice_def buf_write_def upt_conv_Cons pty_buffer_is_full_def Let_def)
  obtain bs' where r: "netoring (sendnaws (Some (24, 255)) ?c) = netoring ?c @ bs'"
    "\<And>s rest. net_input s = bs' @ rest \<Longrightarrow> rcv_state s = TS_DATA \<Longrightarrow> \<not> pty_buffer_is_full s \<Longrightarrow> \<not> exited s
       \<Longrightarrow> length (subbuffer s) = SUBBUFSIZ \<Longrightarrow> his_state_is_will s TELOPT_NAWS \<Longrightarrow> terminit s
       \<Longrightarrow> \<exists>t. telrcv s = telrcv t \<and> net_input t = rest \<and> rcv_state t = TS_DATA \<and> pty_winsize t = (int 255, int 24)"
    using window_size_reaches_pty [OF c(1,2), of 24 255] by auto
  then have "bs' = ?bs" using bs c(3) by simp
  then show ?thesis using r(2) [of ?s "[]"] s bs by auto
qed



end
