(* ===== verification/Telnet_Client_Bounds.thy ===== *)
theory Telnet_Client_Bounds
  imports Telnet_Client_Io Ring_Buffer
begin

text \<open>
  The memory of the TELNET client against what a server can send: the rings and the suboption buffer
  stay within their bounds, the arrays in which two kinds of answer are put together do not.
\<close>

section \<open>One byte in a ring\<close>

text \<open>
  \<open>ring_put\<close> is what \<open>NETADD\<close> and \<open>TTYADD\<close> do to a ring at the level of its pointers, also in a full ring, where the
  supply pointer runs past the consume pointer and all bytes but the new one are lost.
\<close>

lemma ring_full_supplied:
  assumes ok: "ring_ok clk r" and full: "int (ring_used r) = size_r r" and t: "ticks (Suc k) clk"
  shows "ring_used (snd (ring_supplied clk r 1)) = 1"
    and "ring_contents (mem_write m (supply_p r) [c]) (snd (ring_supplied clk r 1)) = [c]"
proof -
  have "consumetime r < clk + 1" using ok t by (auto simp: ring_ok_def intro: ticks_less)
  moreover have s: "supply_p r = consume r" using ok full by (auto simp: ring_ok_def ring_used_of used_of_def split: if_splits)
  ultimately show u: "ring_used (snd (ring_supplied clk r 1)) = 1"
    using ok by (auto simp: ring_used_of used_of_def ring_supplied_def ring_increment_def ring_ok_def)
  show "ring_contents (mem_write m (supply_p r) [c]) (snd (ring_supplied clk r 1)) = [c]"
    using ok s mem_write_in [of "supply_p r" "supply_p r" "[c]" m]
    unfolding ring_contents_def u by (simp add: ring_slot_def ring_increment_def ring_supplied_def ring_ok_def)
qed

lemma ring_put_supplied:
  assumes ok: "ring_ok clk r" and t: "ticks (Suc k) clk"
  shows "ring_contents (mem_write m (supply_p r) [c]) (snd (ring_supplied clk r 1)) = ring_put (nat (size_r r)) c (ring_contents m r)"
proof (cases "int (ring_used r) = size_r r")
  case True
  then show ?thesis using ring_full_supplied(2) [OF ok True t] by (simp add: ring_put_def nat_le_iff flip: True)
next
  case False
  then have l: "int (ring_used r) < size_r r" using ring_used_le [OF ok] by simp
  then have "0 < ring_empty_consecutive r"
    using ring_empty_consecutive_pos [OF ok] ring_empty_count_used [OF ok] by simp
  then show ?thesis using ring_supplied_contents [OF ok _ _ t, of 1 "[c]" m] l by (simp add: ring_put_def zless_nat_eq_int_zless)
qed

section \<open>The invariant\<close>

definition tn_ok :: "telnet \<Rightarrow> bool" where
  "tn_ok s \<longleftrightarrow> length (netoring s) \<le> NETOBUF \<and> length (ttyoring s) \<le> TTYOBUF
     \<and> length (tn_subbuffer s) = 256 \<and> tn_subpointer s \<le> 256"

lemma tn_ok_updates [simp]:
  "tn_ok (s\<lparr>tn_options := o1\<rparr>) = tn_ok s" "tn_ok (s\<lparr>tn_do_dont_resp := r\<rparr>) = tn_ok s" "tn_ok (s\<lparr>tn_will_wont_resp := r\<rparr>) = tn_ok s"
  "tn_ok (s\<lparr>telrcv_state := st\<rparr>) = tn_ok s" "tn_ok (s\<lparr>SYNCHing := b\<rparr>) = tn_ok s" "tn_ok (s\<lparr>flushout := b\<rparr>) = tn_ok s"
  "tn_ok (s\<lparr>flushline := b\<rparr>) = tn_ok s" "tn_ok (s\<lparr>localflow := b\<rparr>) = tn_ok s" "tn_ok (s\<lparr>restartany := i\<rparr>) = tn_ok s"
  "tn_ok (s\<lparr>localchars := b\<rparr>) = tn_ok s" "tn_ok (s\<lparr>kludgelinemode := b\<rparr>) = tn_ok s" "tn_ok (s\<lparr>tn_linemode := c\<rparr>) = tn_ok s"
  "tn_ok (s\<lparr>globalmode := m\<rparr>) = tn_ok s" "tn_ok (s\<lparr>prevmode := m\<rparr>) = tn_ok s" "tn_ok (s\<lparr>tn_clk := k\<rparr>) = tn_ok s"
  "tn_ok (s\<lparr>spc_data := d\<rparr>) = tn_ok s" "tn_ok (s\<lparr>slc_reply := l\<rparr>) = tn_ok s" "tn_ok (s\<lparr>new_cc := cc\<rparr>) = tn_ok s"
  "tn_ok (s\<lparr>opt_reply := l\<rparr>) = tn_ok s" "tn_ok (s\<lparr>opt_cap := n\<rparr>) = tn_ok s" "tn_ok (s\<lparr>tnext := n\<rparr>) = tn_ok s"
  "tn_ok (s\<lparr>tn_subend := n\<rparr>) = tn_ok s"
  by (simp_all add: tn_ok_def)

lemma tn_ok_rings [simp]:
  "tn_ok s \<Longrightarrow> tn_ok (NETADD c s)" "tn_ok s \<Longrightarrow> tn_ok (TTYADD c s)" "tn_ok s \<Longrightarrow> tn_ok (NET2ADD c d s)"
  "tn_ok s \<Longrightarrow> tn_ok (ttyflush b s)" "tn_ok s \<Longrightarrow> length bs \<le> NETROOM s \<Longrightarrow> tn_ok (net_supply bs s)"
  by (auto simp: tn_ok_def NETADD_def TTYADD_def NET2ADD_def ring_put_def ttyflush_def net_supply_def NETROOM_def)

lemma tn_ok_basic [simp]:
  "tn_ok (tn_settimer f s) = tn_ok s" "tn_ok (tn_set m opt s) = tn_ok s" "tn_ok (tn_clear m opt s) = tn_ok s"
  "tn_ok (slc_start_reply s) = tn_ok s" "tn_ok (slc_add_reply a b c s) = tn_ok s"
  by (simp_all add: tn_settimer_def tn_set_def tn_clear_def slc_start_reply_def slc_add_reply_def Let_def)

lemma tn_ok_modes [simp]:
  "tn_ok s \<Longrightarrow> tn_ok (setconnmode b s)" "tn_ok s \<Longrightarrow> tn_ok (setcommandmode s)"
  by (simp_all add: setconnmode_def setcommandmode_def TerminalNewMode_def Let_def)

lemma tn_ok_send [simp]:
  "tn_ok s \<Longrightarrow> tn_ok (tn_send_do c b s)" "tn_ok s \<Longrightarrow> tn_ok (tn_send_dont c b s)"
  "tn_ok s \<Longrightarrow> tn_ok (tn_send_will c b s)" "tn_ok s \<Longrightarrow> tn_ok (tn_send_wont c b s)"
  by (simp_all add: tn_send_do_def tn_send_dont_def tn_send_will_def tn_send_wont_def Let_def)

lemma tn_ok_fold: "(\<And>x s. tn_ok s \<Longrightarrow> tn_ok (f x s)) \<Longrightarrow> tn_ok s \<Longrightarrow> tn_ok (fold f xs s)"
  by (induction xs arbitrary: s) simp_all

lemma tn_ok_slc_end [simp]: "tn_ok s \<Longrightarrow> tn_ok (slc_end_reply s)"
  by (simp add: slc_end_reply_def Let_def NETROOM_def)

lemma tn_ok_slc_update [simp]: "tn_ok (snd (slc_update s)) = tn_ok s"
proof -
  have "tn_ok (snd (slc_update_one i st)) = tn_ok (snd st)" for i st
    by (simp add: slc_update_one_def Let_def split: prod.splits)
  then have "tn_ok (snd (fold slc_update_one is st)) = tn_ok (snd st)" for "is" st
    by (induction "is" arbitrary: st) simp_all
  then show ?thesis by (simp add: slc_update_def)
qed

lemma tn_ok_slc [simp]:
  "tn_ok s \<Longrightarrow> tn_ok (slc_export s)" "tn_ok s \<Longrightarrow> tn_ok (slc_import b s)" "tn_ok s \<Longrightarrow> tn_ok (slc_init s)"
proof -
  have one: "tn_ok s \<Longrightarrow> tn_ok (slc_export_one i s)" for i s by (simp add: slc_export_one_def Let_def)
  show e: "tn_ok s \<Longrightarrow> tn_ok (slc_export s)" for s
    using tn_ok_fold [of slc_export_one, OF one] by (simp add: slc_export_def TerminalDefaultChars_def Let_def)
  show i: "tn_ok s \<Longrightarrow> tn_ok (slc_import b s)" for s b by (simp add: slc_import_def)
  show "tn_ok s \<Longrightarrow> tn_ok (slc_init s)" by (simp add: slc_init_def e i Let_def)
qed

lemma tn_ok_triplets [simp]: "tn_ok s \<Longrightarrow> tn_ok (slc_triplets bs s)"
proof (induction bs s rule: slc_triplets.induct)
  case (1 func fl val bs s)
  moreover have "tn_ok (slc_triplet func fl val s)" using 1(2) by (simp add: slc_triplet_def Let_def)
  ultimately show ?case by simp
qed simp_all

lemma tn_ok_linemode [simp]: "tn_ok s \<Longrightarrow> tn_ok (suboption_tn_linemode c cmd s)"
proof -
  assume ok: "tn_ok s"
  then have "tn_ok (tn_slc cmd s)"
    using tn_ok_slc_update [of "slc_end_reply (slc_triplets cmd (slc_start_reply s))"]
    by (cases "slc_update (slc_end_reply (slc_triplets cmd (slc_start_reply s)))") (simp add: tn_slc_def)
  then show ?thesis
    using ok by (simp add: suboption_tn_linemode_def lm_will_def lm_do_def lm_refuse_def lm_mode_def NETROOM_def Let_def
        split: list.splits)
qed

lemma tn_ok_options [simp]:
  "tn_ok s \<Longrightarrow> tn_ok (tn_willoption opt s)" "tn_ok s \<Longrightarrow> tn_ok (tn_wontoption opt s)"
  "tn_ok s \<Longrightarrow> tn_ok (tn_dooption opt s)" "tn_ok s \<Longrightarrow> tn_ok (tn_dontoption opt s)"
  by (simp_all add: tn_willoption_def tn_wontoption_def tn_dooption_def tn_dontoption_def linemode_on_def Let_def)

lemma tn_ok_env_add [simp]: "tn_ok s \<Longrightarrow> tn_ok (env_opt_add ep s)"
proof -
  have one: "tn_ok s \<Longrightarrow> tn_ok (env_opt_add_one ep s)" for ep s by (simp add: env_opt_add_one_def Let_def)
  then show "tn_ok s \<Longrightarrow> tn_ok (env_opt_add ep s)"
    using tn_ok_fold [of env_opt_add_one, OF one] by (simp add: env_opt_add_def)
qed

lemma tn_ok_env [simp]: "tn_ok s \<Longrightarrow> tn_ok (env_opt nxt buf s)"
proof -
  have f: "tn_ok s \<Longrightarrow> tn_ok (env_flush cur s)" for cur s by (simp add: env_flush_def split: option.splits)
  have n: "tn_ok s \<Longrightarrow> tn_ok (env_names nxt bs cur s)" for bs cur s
    by (induction nxt bs cur s rule: env_names.induct) (auto simp: f split: list.splits)
  have e: "tn_ok s \<Longrightarrow> tn_ok (env_opt_end b s)" for b s by (simp add: env_opt_end_def NETROOM_def Let_def)
  show "tn_ok s \<Longrightarrow> tn_ok (env_opt nxt buf s)"
    by (simp add: env_opt_def env_opt_start_def n e Let_def split: list.splits)
qed

lemma tn_ok_suboption: "tn_ok s \<Longrightarrow> tn_suboption os is s = Some t \<Longrightarrow> tn_ok t"
  by (auto simp: tn_suboption_def suboption_tn_ttype_def suboption_tn_speed_def suboption_tn_lflow_def gettermname_def
      suboption_tn_xdisploc_def sub_reply_def Let_def split: list.splits if_splits option.splits prod.splits)

lemma tn_ok_naws [simp]: "tn_ok s \<Longrightarrow> tn_ok (sendnaws w s)"
  by (simp add: sendnaws_def Let_def split: option.splits)

lemma tn_ok_sb [simp]:
  "tn_ok s \<Longrightarrow> tn_ok (TN_SB_CLEAR s)" "tn_ok s \<Longrightarrow> tn_ok (TN_SB_ACCUM c s)" "tn_ok s \<Longrightarrow> tn_ok (tn_sb_end c s)"
  by (auto simp: tn_ok_def TN_SB_CLEAR_def TN_SB_ACCUM_def tn_sb_end_def Let_def)

lemma tn_ok_iac [simp]: "tn_ok s \<Longrightarrow> tn_ok (tn_iac e c s)"
  by (simp add: tn_iac_def)

lemma tn_ok_data: "tn_ok s \<Longrightarrow> tn_data c rest s = (took, t) \<Longrightarrow> tn_ok t"
  by (auto simp: tn_data_def tn_cr_def Let_def split: list.splits if_splits)

lemma tn_ok_rcv_char:
  assumes ok: "tn_ok s" and r: "tn_rcv_char e c rest s = Some (took, t)"
  shows "tn_ok t"
proof (cases "telrcv_state s")
  case TN_DATA
  then show ?thesis using r tn_ok_data [OF ok] by (auto simp: tn_rcv_char_def)
next
  case TN_CR
  then show ?thesis
    using r ok tn_ok_data [of "s\<lparr>telrcv_state := TN_DATA\<rparr>" c rest took t]
    by (auto simp: tn_rcv_char_def Let_def split: if_splits)
next
  case TN_SE
  show ?thesis
  proof (cases "c = IAC")
    case True
    then show ?thesis using r ok TN_SE by (auto simp: tn_rcv_char_def)
  next
    case False
    then obtain u where u: "tn_suboption (ospeed e) (ispeed e) (tn_sb_end c s) = Some u"
      using r TN_SE by (auto simp: tn_rcv_char_def split: option.splits)
    have "tn_ok u" using tn_ok_suboption [OF _ u] ok by simp
    then show ?thesis using r TN_SE False u by (auto simp: tn_rcv_char_def split: if_splits)
  qed
qed (use r ok in \<open>auto simp: tn_rcv_char_def Let_def\<close>)

lemma tn_ok_telrcv: "tn_telrcv e inp s = Some (rest, t) \<Longrightarrow> tn_ok s \<Longrightarrow> tn_ok t"
proof (induction e inp s rule: tn_telrcv.induct)
  case (1 e inp s)
  show ?case
    using 1 tn_ok_rcv_char [OF 1(4)]
    by (subst (asm) (3) tn_telrcv.simps) (auto split: if_splits list.splits option.splits)
qed

section \<open>The answers\<close>

lemma slc_store_length: "length (slc_store c r) \<le> length r + 2" "c \<noteq> IAC \<Longrightarrow> length (slc_store c r) = length r + 1"
  by (simp_all add: slc_store_def)

lemma slc_triplet_length: "length (slc_reply (slc_triplet func fl val s)) \<le> length (slc_reply s) + 6"
proof -
  have add: "length (slc_reply (slc_add_reply a b c u)) \<le> length (slc_reply u) + 6" for a b c u
    using slc_store_length(1) [of c "slc_store b (slc_store a (slc_reply u))"] slc_store_length(1) [of b "slc_store a (slc_reply u)"]
      slc_store_length(1) [of a "slc_reply u"]
    by (simp add: slc_add_reply_def)
  show ?thesis by (auto simp: slc_triplet_def Let_def intro!: order_trans [OF add])
qed

lemma slc_triplets_length: "length (slc_reply (slc_triplets bs s)) \<le> length (slc_reply s) + 6 * (length bs div 3)"
proof (induction bs s rule: slc_triplets.induct)
  case (1 func fl val bs s)
  have "length (func # fl # val # bs) div 3 = Suc (length bs div 3)" by simp
  then show ?case using 1 slc_triplet_length [of func fl val s] by simp
qed simp_all

lemma slc_triplets_unknown:
  assumes "NSLC < unat f" "f \<noteq> IAC" "fl AND SLC_LEVELBITS \<noteq> SLC_NOSUPPORT"
  shows "length (slc_reply (slc_triplets (concat (replicate n [f, fl, v])) s)) = length (slc_reply s) + 3 * n"
proof (induction n arbitrary: s)
  case (Suc n)
  have "f \<noteq> 0" using assms(1) by auto
  then have "length (slc_reply (slc_triplet f fl v s)) = length (slc_reply s) + 3"
    using assms by (simp add: slc_triplet_def slc_add_reply_def slc_store_def)
  then show ?case using Suc by simp
qed simp

lemma env_escape_length: "length bs \<le> length (env_escape bs)"
  by (induction bs) (auto simp: env_escape_def)

section \<open>Properties\<close>

text \<open>
  (C16) Whatever the server sends, the client's rings and its suboption buffer stay within their bounds,
  and each suboption is handed on with at least two bytes of the buffer after it.
\<close>

theorem tn_telrcv_invariant:
  assumes "tn_ok s"
  shows "(tn_telrcv e inp s = Some (rest, t) \<longrightarrow> tn_ok t) \<and> tn_subend (tn_sb_end c s) \<le> 254 \<and> tn_subpointer (tn_sb_end c s) = 0"
  using assms tn_ok_telrcv by (auto simp: tn_sb_end_def TN_SB_CLEAR_def TN_SB_ACCUM_def tn_ok_def Let_def)

theorem tn_telrcv_invariant_witness:
  "case tn_telrcv \<lparr>oob = False, ospeed = [], ispeed = [], winsize = None\<rparr> [[IAC, SB], [24]] (telnet_start (\<lambda>_. 0) [])
      of None \<Rightarrow> False | Some (_, t) \<Rightarrow> tn_ok t \<and> tn_subpointer t = 1"
proof -
  let ?s = "telnet_start (\<lambda>_. 0) []"
  let ?e = "\<lparr>oob = False, ospeed = [], ispeed = [], winsize = None\<rparr> :: tn_env"
  have ok: "tn_ok ?s" by (simp add: tn_ok_def telnet_start_def)
  obtain t where "tn_telrcv ?e [[IAC, SB], [24]] ?s = Some ([], t)" "tn_subpointer t = 1"
    by (simp add: tn_telrcv.simps tn_rcv_char_def tn_data_def tn_iac_def TN_SB_ACCUM_def TN_SB_CLEAR_def telnet_start_def
        TTYROOM_def)
  then show ?thesis using tn_telrcv_invariant [OF ok, of ?e "[[IAC, SB], [24]]" "[]" t] by simp
qed

text \<open>
  The answer to a suboption with special characters is put into an array of 128 bytes without a
  look at its size.  A suboption of at most 20 triplets is harmless, but each triplet with an unknown function
  adds three bytes, and 42 to 84 of them, which fit into the client's suboption buffer, write past the end.
\<close>

theorem slc_reply_overrun:
  assumes "NSLC < unat f" "f \<noteq> IAC" "fl AND SLC_LEVELBITS \<noteq> SLC_NOSUPPORT" "n > 41" "n \<le> 84"
  shows "length (LM_SLC # concat (replicate n [f, fl, v])) + 1 \<le> 254
    \<and> length (slc_reply (slc_triplets (concat (replicate n [f, fl, v])) (slc_start_reply s))) > SLC_REPLY_SIZE
    \<and> (length bs < 63 \<longrightarrow> length (slc_reply (slc_triplets bs (slc_start_reply s))) + 2 \<le> SLC_REPLY_SIZE)"
proof -
  have "length (concat (replicate n [f, fl, v])) = 3 * n" by (induction n) simp_all
  moreover have "length bs < 63 \<Longrightarrow> length bs div 3 \<le> 20" by presburger
  ultimately show ?thesis
    using assms slc_triplets_unknown [OF assms(1-3), of n v "slc_start_reply s"] slc_triplets_length [of bs "slc_start_reply s"]
    by (auto simp: slc_start_reply_def)
qed

theorem slc_reply_overrun_witness:
  "length (slc_reply (slc_triplets (concat (replicate 42 [19, 2, 7])) (slc_start_reply (telnet_start (\<lambda>_. 0) [])))) > 128"
  using slc_reply_overrun [of 19 2 42 7 "telnet_start (\<lambda>_. 0) []" "[]"] by simp

text \<open>
  The answer with environment variables is put into memory that grows by 256 bytes at most for each
  variable, and without counting the escapes.  It fits when the variable with its escapes is short, but a variable with a
  name and value of 508 bytes or more is written past the end.
\<close>

theorem env_reply_overrun:
  assumes "ep \<noteq> []" "env_getvalue ep s = Some v"
  shows "(length (env_escape ep) + length (env_escape v) + 6 \<le> OPT_REPLY_SIZE
      \<longrightarrow> length (opt_reply (env_opt_add ep (env_opt_start s))) \<le> opt_cap (env_opt_add ep (env_opt_start s)))
    \<and> (length ep + length v \<ge> 508
      \<longrightarrow> length (opt_reply (env_opt_add ep (env_opt_start s))) > opt_cap (env_opt_add ep (env_opt_start s)))"
proof -
  have "env_getvalue ep (env_opt_start s) = Some v"
    using assms(2) by (simp add: env_opt_start_def env_getvalue_def env_find_def)
  then have "length (opt_reply (env_opt_add ep (env_opt_start s))) = 6 + length (env_escape ep) + length (env_escape v)"
    "opt_cap (env_opt_add ep (env_opt_start s)) = (if length v + length ep + 10 > 256 then 512 else 256)"
    using assms(1) by (simp_all add: env_opt_add_def env_opt_add_one_def Let_def) (simp_all add: env_opt_start_def)
  then show ?thesis using env_escape_length [of ep] env_escape_length [of v] by auto
qed

theorem env_reply_overrun_witness:
  "let s = env_opt_add [88] (env_opt_start (telnet_start (\<lambda>_. 0)
       [\<lparr>ev_var = [88], ev_value = replicate 507 97, ev_export = True, ev_welldefined = False\<rparr>]))
   in opt_cap s < length (opt_reply s)"
proof -
  let ?s = "telnet_start (\<lambda>_. 0) [\<lparr>ev_var = [88], ev_value = replicate 507 97, ev_export = True, ev_welldefined = False\<rparr>]"
  have "env_getvalue [88] ?s = Some (replicate 507 97)" by (simp add: telnet_start_def env_getvalue_def env_find_def)
  then show ?thesis using env_reply_overrun [of "[88]" ?s "replicate 507 97"] by simp
qed

end
