(* ===== verification/Tftp_Subs.thy ===== *)
theory Tftp_Subs
  imports Prelude
begin

text \<open>
  The double buffering and the netascii conversion of TFTP, \<open>libinetutils/tftpsubs.c\<close>: a file is read
  ahead of the packet being sent, and written behind the packet being received.
\<close>

section \<open>State\<close>

abbreviation (input) SEGSIZE :: nat where "SEGSIZE \<equiv> 512"
abbreviation (input) BF_ALLOC :: int where "BF_ALLOC \<equiv> -3"
abbreviation (input) BF_FREE :: int where "BF_FREE \<equiv> -2"

text \<open>A buffer with the header and the data of a packet; the data is \<open>counter\<close> bytes long when that is
  not a flag.\<close>

record bf =
  counter :: int
  th_opcode :: u16
  th_block :: u16
  th_data :: "byte list"

text \<open>
  The variables of the file, the two buffers indexed by a flag (\<open>!x\<close> in C is negation), and the file
  itself: what is left to read of it (\<open>None\<close> when \<open>read\<close> fails), or what has been written.
\<close>

record tftpbufs =
  bfs :: "bool \<Rightarrow> bf"
  nextone :: bool
  current :: bool
  newline :: bool
  prevchar :: int
  infile :: "byte list option"
  outfile :: "byte list"

definition set_counter :: "bool \<Rightarrow> int \<Rightarrow> tftpbufs \<Rightarrow> tftpbufs" where
  "set_counter i n s = s\<lparr>bfs := (bfs s)(i := (bfs s i)\<lparr>counter := n\<rparr>)\<rparr>"

definition set_data :: "bool \<Rightarrow> byte list \<Rightarrow> tftpbufs \<Rightarrow> tftpbufs" where
  "set_data i bs s = s\<lparr>bfs := (bfs s)(i := (bfs s i)\<lparr>th_data := bs\<rparr>)\<rparr>"

section \<open>Operations\<close>

definition rw_init :: "bool \<Rightarrow> tftpbufs \<Rightarrow> tftpbufs" where
  "rw_init x s =
     (set_counter True BF_FREE (set_counter False BF_ALLOC (s\<lparr>newline := False, prevchar := -1\<rparr>)))
     \<lparr>current := False, nextone := x\<rparr>"

definition w_init :: "tftpbufs \<Rightarrow> tftpbufs" where
  "w_init = rw_init False"

definition r_init :: "tftpbufs \<Rightarrow> tftpbufs" where
  "r_init = rw_init True"

text \<open>The loop of \<open>read_ahead\<close>, for up to \<open>n\<close> bytes: the bytes made, and \<open>newline\<close>, \<open>prevchar\<close> and
  the rest of the file afterwards.\<close>

fun ascii_fill :: "nat \<Rightarrow> bool \<Rightarrow> int \<Rightarrow> byte list \<Rightarrow> byte list \<times> bool \<times> int \<times> byte list" where
  "ascii_fill 0 nl pc f = ([], nl, pc, f)"
| "ascii_fill (Suc n) True pc f =
     (case ascii_fill n False pc f of
        (bs, st) \<Rightarrow> ((if pc = 10 then 10 else 0) # bs, st))"
| "ascii_fill (Suc n) False pc [] = ([], False, pc, [])"
| "ascii_fill (Suc n) False pc (c # f) =
     (if c = 10 \<or> c = 13 then (case ascii_fill n True (uint c) f of (bs, st) \<Rightarrow> (13 # bs, st))
      else (case ascii_fill n False pc f of (bs, st) \<Rightarrow> (c # bs, st)))"

definition read_ahead :: "bool \<Rightarrow> tftpbufs \<Rightarrow> tftpbufs" where
  "read_ahead convert s =
     (let i = nextone s
      in if counter (bfs s i) \<noteq> BF_FREE then s
         else
           let s1 = s\<lparr>nextone := \<not> nextone s\<rparr>
           in if \<not> convert then
                (case infile s1 of
                   None \<Rightarrow> set_counter i (-1) s1
                 | Some f \<Rightarrow>
                     (set_counter i (int (length (take SEGSIZE f))) (set_data i (take SEGSIZE f) s1))
                     \<lparr>infile := Some (drop SEGSIZE f)\<rparr>)
              else
                (case ascii_fill SEGSIZE (newline s1) (prevchar s1) (case infile s1 of None \<Rightarrow> [] | Some f \<Rightarrow> f) of
                   (bs, nl, pc, f) \<Rightarrow>
                     (set_counter i (int (length bs)) (set_data i bs s1))
                     \<lparr>newline := nl, prevchar := pc, infile := map_option (\<lambda>_. f) (infile s1)\<rparr>))"

definition readit :: "bool \<Rightarrow> tftpbufs \<Rightarrow> int \<times> tftpbufs" where
  "readit convert s =
     (let s1 = (set_counter (current s) BF_FREE s)\<lparr>current := \<not> current s\<rparr>;
          s2 = (if counter (bfs s1 (current s1)) = BF_FREE then read_ahead convert s1 else s1)
      in (counter (bfs s2 (current s2)), s2))"

text \<open>One character of the loop of \<open>write_behind\<close>: the file and the previous character.  A line feed
  after a carriage return is put over it, a null after one is dropped.\<close>

definition put_char :: "byte \<Rightarrow> byte list \<times> int \<Rightarrow> byte list \<times> int" where
  "put_char c st =
     (case st of
        (out, prev) \<Rightarrow>
          if prev = 13 \<and> c = 10 then (butlast out @ [c], uint c)
          else if prev = 13 \<and> c = 0 then (out, uint c)
          else (out @ [c], uint c))"

definition write_behind :: "bool \<Rightarrow> tftpbufs \<Rightarrow> int \<times> tftpbufs" where
  "write_behind convert s =
     (let i = nextone s;
          count = counter (bfs s i);
          buf = take (nat count) (th_data (bfs s i))
      in if count < -1 then (0, s)
         else
           let s1 = (set_counter i BF_FREE s)\<lparr>nextone := \<not> nextone s\<rparr>
           in if count \<le> 0 then (-1, s1)
              else if \<not> convert then (count, s1\<lparr>outfile := outfile s1 @ buf\<rparr>)
              else
                case fold put_char buf (outfile s1, prevchar s1) of
                  (out, pc) \<Rightarrow> (count, s1\<lparr>outfile := out, prevchar := pc\<rparr>))"

definition writeit :: "int \<Rightarrow> bool \<Rightarrow> tftpbufs \<Rightarrow> int \<times> tftpbufs" where
  "writeit ct convert s =
     (let s1 = (set_counter (current s) ct s)\<lparr>current := \<not> current s\<rparr>;
          s2 = (if counter (bfs s1 (current s1)) \<noteq> BF_FREE then snd (write_behind convert s1) else s1)
      in (ct, set_counter (current s2) BF_ALLOC s2))"

section \<open>Netascii\<close>

definition netascii_char :: "byte \<Rightarrow> byte list" where
  "netascii_char c = (if c = 10 then [13, 10] else if c = 13 then [13, 0] else [c])"

definition netascii :: "byte list \<Rightarrow> byte list" where
  "netascii f = concat (map netascii_char f)"

text \<open>The part of a conversion that \<open>newline\<close> and \<open>prevchar\<close> still owe.\<close>

definition pending :: "bool \<Rightarrow> int \<Rightarrow> byte list" where
  "pending nl pc = (if nl then [if pc = 10 then 10 else 0] else [])"

lemma netascii_simps [simp]: "netascii [] = []" "netascii (c # f) = netascii_char c @ netascii f"
  by (simp_all add: netascii_def)

lemma uint_byte_eq: "(uint (c::byte) = 13) = (c = 13)" "(uint (c::byte) = 10) = (c = 10)"
  by (auto simp: word_uint_eq_iff)

lemma ascii_fill_stream:
  "ascii_fill n nl pc f = (bs, nl', pc', f') \<Longrightarrow>
   bs = take n (pending nl pc @ netascii f)
   \<and> pending nl' pc' @ netascii f' = drop n (pending nl pc @ netascii f)"
proof (induction n nl pc f arbitrary: bs rule: ascii_fill.induct)
  case (2 n pc f)
  then show ?case by (auto simp: pending_def split: prod.splits)
next
  case (4 n pc c f)
  show ?case
  proof (cases "c = 10 \<or> c = 13")
    case True
    then have e: "pending False pc @ netascii (c # f) = 13 # (pending True (uint c) @ netascii f)"
      by (auto simp: pending_def netascii_char_def)
    from True 4(3) obtain bs' where "ascii_fill n True (uint c) f = (bs', nl', pc', f')" "bs = 13 # bs'"
      by (auto split: prod.splits)
    with 4(1) [OF True] show ?thesis unfolding e by simp
  next
    case False
    then have e: "pending False pc @ netascii (c # f) = c # (pending False pc @ netascii f)"
      by (auto simp: pending_def netascii_char_def)
    from False 4(3) obtain bs' where "ascii_fill n False pc f = (bs', nl', pc', f')" "bs = c # bs'"
      by (auto split: prod.splits)
    with 4(2) [OF False] show ?thesis unfolding e by simp
  qed
qed (auto simp: pending_def)

lemma put_netascii:
  "prev \<noteq> 13 \<Longrightarrow> \<exists>p. fold put_char (netascii f) (out, prev) = (out @ f, p) \<and> p \<noteq> 13"
proof (induction f arbitrary: out prev)
  case (Cons c f)
  have "\<exists>p. fold put_char (netascii_char c) (out, prev) = (out @ [c], p) \<and> p \<noteq> 13"
    using Cons.prems by (auto simp: netascii_char_def put_char_def uint_byte_eq)
  then obtain p where "fold put_char (netascii_char c) (out, prev) = (out @ [c], p)" "p \<noteq> 13" by blast
  with Cons.IH [of p "out @ [c]"] show ?case by simp
qed simp


section \<open>Reading ahead\<close>

text \<open>The bytes of a transfer, and what is left of them to be put into a buffer.\<close>

definition tftp_stream :: "bool \<Rightarrow> byte list \<Rightarrow> byte list" where
  "tftp_stream convert f = (if convert then netascii f else f)"

definition src_rest :: "bool \<Rightarrow> tftpbufs \<Rightarrow> byte list" where
  "src_rest convert s =
     (if convert then pending (newline s) (prevchar s) @ netascii (the (infile s)) else the (infile s))"

definition chunk :: "byte list \<Rightarrow> nat \<Rightarrow> byte list" where
  "chunk xs k = take SEGSIZE (drop (SEGSIZE * (k - 1)) xs)"

definition holds :: "byte list \<Rightarrow> bf \<Rightarrow> bool" where
  "holds d b \<longleftrightarrow> counter b = int (length d) \<and> th_data b = d"

text \<open>\<open>r_ready xs k\<close>: packet \<open>k\<close> is in use (packet 0 is the request) and packet \<open>k + 1\<close> has been read
  ahead; \<open>r_mid xs k\<close>: packet \<open>k\<close> is in use and nothing has been read ahead.\<close>

definition r_ready :: "bool \<Rightarrow> byte list \<Rightarrow> nat \<Rightarrow> tftpbufs \<Rightarrow> bool" where
  "r_ready convert xs k s \<longleftrightarrow> infile s \<noteq> None \<and> nextone s = current s
     \<and> counter (bfs s (current s)) \<noteq> BF_FREE \<and> (k > 0 \<longrightarrow> holds (chunk xs k) (bfs s (current s)))
     \<and> holds (chunk xs (k + 1)) (bfs s (\<not> current s)) \<and> src_rest convert s = drop (SEGSIZE * (k + 1)) xs"

definition r_mid :: "bool \<Rightarrow> byte list \<Rightarrow> nat \<Rightarrow> tftpbufs \<Rightarrow> bool" where
  "r_mid convert xs k s \<longleftrightarrow> infile s \<noteq> None \<and> nextone s = (\<not> current s)
     \<and> counter (bfs s (current s)) \<noteq> BF_FREE \<and> (k > 0 \<longrightarrow> holds (chunk xs k) (bfs s (current s)))
     \<and> counter (bfs s (\<not> current s)) = BF_FREE \<and> src_rest convert s = drop (SEGSIZE * k) xs"

lemma read_ahead_fills:
  assumes "infile s \<noteq> None" "counter (bfs s (nextone s)) = BF_FREE"
  shows "holds (take SEGSIZE (src_rest convert s)) (bfs (read_ahead convert s) (nextone s))"
    "src_rest convert (read_ahead convert s) = drop SEGSIZE (src_rest convert s)"
    "infile (read_ahead convert s) \<noteq> None" "nextone (read_ahead convert s) = (\<not> nextone s)"
    "current (read_ahead convert s) = current s"
    "bfs (read_ahead convert s) (\<not> nextone s) = bfs s (\<not> nextone s)"
proof -
  obtain f where f: "infile s = Some f" using assms by auto
  obtain bs nl pc f' where a: "ascii_fill SEGSIZE (newline s) (prevchar s) f = (bs, nl, pc, f')"
    by (metis prod_cases4)
  have "read_ahead convert s =
      (if \<not> convert then
         (set_counter (nextone s) (int (length (take SEGSIZE f)))
           (set_data (nextone s) (take SEGSIZE f) (s\<lparr>nextone := \<not> nextone s\<rparr>)))\<lparr>infile := Some (drop SEGSIZE f)\<rparr>
       else
         (set_counter (nextone s) (int (length bs)) (set_data (nextone s) bs (s\<lparr>nextone := \<not> nextone s\<rparr>)))
           \<lparr>newline := nl, prevchar := pc, infile := Some f'\<rparr>)"
    using assms(2) by (simp add: read_ahead_def f a Let_def)
  moreover have "bs = take SEGSIZE (src_rest True s)" "drop SEGSIZE (src_rest True s) = pending nl pc @ netascii f'"
    using ascii_fill_stream [OF a] f by (simp_all add: src_rest_def)
  moreover have "src_rest False s = f" using f by (simp add: src_rest_def)
  ultimately show "holds (take SEGSIZE (src_rest convert s)) (bfs (read_ahead convert s) (nextone s))"
    "src_rest convert (read_ahead convert s) = drop SEGSIZE (src_rest convert s)"
    "infile (read_ahead convert s) \<noteq> None" "nextone (read_ahead convert s) = (\<not> nextone s)"
    "current (read_ahead convert s) = current s"
    "bfs (read_ahead convert s) (\<not> nextone s) = bfs s (\<not> nextone s)"
    by (cases convert; simp add: holds_def set_counter_def set_data_def; simp add: src_rest_def)+
qed

lemma chunk_Suc: "chunk xs (k + 1) = take SEGSIZE (drop (SEGSIZE * k) xs)"
  by (simp add: chunk_def)

lemma read_ahead_mid: "r_mid convert xs k s \<Longrightarrow> r_ready convert xs k (read_ahead convert s)"
  using read_ahead_fills [of s convert] chunk_Suc [of xs k]
  by (auto simp: r_mid_def r_ready_def)

lemma read_ahead_again: "r_ready convert xs k s \<Longrightarrow> read_ahead convert s = s"
  by (simp add: r_ready_def read_ahead_def)

lemma readit_ready:
  assumes "r_ready convert xs k s"
  shows "fst (readit convert s) = int (length (chunk xs (k + 1)))" "r_mid convert xs (k + 1) (snd (readit convert s))"
  using assms by (auto simp: r_ready_def r_mid_def readit_def holds_def set_counter_def src_rest_def Let_def)

lemma r_init_stream:
  assumes "infile s = Some f"
  shows "r_mid convert (tftp_stream convert f) 0 (r_init s)"
  using assms
  by (auto simp: r_mid_def r_init_def rw_init_def set_counter_def src_rest_def pending_def tftp_stream_def)

lemma readit_init:
  assumes "infile s = Some f"
  shows "fst (readit convert (r_init s)) = int (length (chunk (tftp_stream convert f) 1))"
    "r_mid convert (tftp_stream convert f) 1 (snd (readit convert (r_init s)))"
proof -
  define u where "u = (set_counter (current (r_init s)) BF_FREE (r_init s))\<lparr>current := \<not> current (r_init s)\<rparr>"
  have u: "infile u \<noteq> None" "nextone u" "current u" "counter (bfs u True) = BF_FREE"
    "counter (bfs u False) = BF_FREE" "src_rest convert u = tftp_stream convert f"
    using assms by (simp_all add: u_def r_init_def rw_init_def set_counter_def src_rest_def pending_def tftp_stream_def)
  have r: "readit convert (r_init s) = (counter (bfs (read_ahead convert u) True), read_ahead convert u)"
    using u read_ahead_fills(5) [of u convert] unfolding readit_def u_def [symmetric] Let_def by simp
  show "fst (readit convert (r_init s)) = int (length (chunk (tftp_stream convert f) 1))"
    "r_mid convert (tftp_stream convert f) 1 (snd (readit convert (r_init s)))"
    using read_ahead_fills [of u convert] u unfolding r
    by (auto simp: r_mid_def holds_def chunk_def)
qed

section \<open>Writing behind\<close>

text \<open>The file and the previous character after some bytes of the transfer.\<close>

definition absorb :: "bool \<Rightarrow> byte list \<Rightarrow> byte list \<times> int \<Rightarrow> byte list \<times> int" where
  "absorb convert d st = (if convert then fold put_char d st else (fst st @ d, snd st))"

lemma absorb_append: "absorb convert (a @ b) st = absorb convert b (absorb convert a st)"
  by (simp add: absorb_def)

lemma absorb_stream: "fst (absorb convert (tftp_stream convert f) ([], -1)) = f"
  using put_netascii [of "-1" f "[]"] by (auto simp: absorb_def tftp_stream_def)

definition w_ready :: "tftpbufs \<Rightarrow> bool" where
  "w_ready s \<longleftrightarrow> nextone s = current s \<and> counter (bfs s (current s)) = BF_ALLOC
     \<and> counter (bfs s (\<not> current s)) = BF_FREE"

lemma w_init_ready: "w_ready (w_init s)"
  by (simp add: w_ready_def w_init_def rw_init_def set_counter_def)

lemma write_behind_idle: "w_ready s \<Longrightarrow> write_behind convert s = (0, s)"
  by (simp add: w_ready_def write_behind_def)

lemma write_behind_pending:
  assumes "counter (bfs t (nextone t)) = int (length d)" "th_data (bfs t (nextone t)) = d"
  shows "snd (write_behind convert t) = (set_counter (nextone t) BF_FREE t)\<lparr>nextone := \<not> nextone t,
      outfile := fst (absorb convert d (outfile t, prevchar t)),
      prevchar := snd (absorb convert d (outfile t, prevchar t))\<rparr>"
proof (cases "d = []")
  case True
  then show ?thesis using assms by (simp add: write_behind_def absorb_def set_counter_def Let_def)
next
  case False
  then show ?thesis
    using assms by (simp add: write_behind_def absorb_def set_counter_def Let_def split: prod.splits)
qed

lemma writeit_flush:
  assumes "w_ready s" "th_data (bfs s (current s)) = d"
  shows "fst (writeit (int (length d)) convert s) = int (length d)"
    "w_ready (snd (write_behind convert (snd (writeit (int (length d)) convert s))))"
    "(outfile (snd (write_behind convert (snd (writeit (int (length d)) convert s)))),
      prevchar (snd (write_behind convert (snd (writeit (int (length d)) convert s)))))
     = absorb convert d (outfile s, prevchar s)"
proof -
  define t where "t = snd (writeit (int (length d)) convert s)"
  show "fst (writeit (int (length d)) convert s) = int (length d)" by (simp add: writeit_def Let_def)
  have t: "nextone t = current s" "current t = (\<not> current s)" "outfile t = outfile s" "prevchar t = prevchar s"
    "counter (bfs t (current s)) = int (length d)" "th_data (bfs t (current s)) = d"
    "counter (bfs t (\<not> current s)) = BF_ALLOC"
    using assms by (auto simp: t_def w_ready_def writeit_def set_counter_def Let_def)
  note w = write_behind_pending [of t d convert]
  show "w_ready (snd (write_behind convert (snd (writeit (int (length d)) convert s))))"
    unfolding t_def [symmetric] using w t by (simp add: w_ready_def set_counter_def)
  show "(outfile (snd (write_behind convert (snd (writeit (int (length d)) convert s)))),
      prevchar (snd (write_behind convert (snd (writeit (int (length d)) convert s)))))
     = absorb convert d (outfile s, prevchar s)"
    unfolding t_def [symmetric] using w t by (simp add: set_counter_def)
qed

end
