(* ===== verification/Tftp_Transfer.thy ===== *)
theory Tftp_Transfer
  imports Tftp_Subs
begin

text \<open>
  The transfers of TFTP: \<open>send_file\<close> and \<open>recvfile\<close> of the server, \<open>src/tftpd.c\<close>, and of the client,
  \<open>src/tftp.c\<close>.  Each is a machine that reacts to the packets it receives and to its timer and gives
  the packets it sends.  A datagram shorter than a header is not modelled, and \<open>sendto\<close>, \<open>recv\<close> and
  writing the file succeed.  A packet of another kind than the one a receiver waits for also lands in its
  buffer, where the next packet overwrites it before it is read; it is left out of the buffer here.
  The second part puts a sender and a receiver on a network and shows what they promise each other.
\<close>

section \<open>Packets and machines\<close>

text \<open>\<open>REQ\<close> is a read or write request, \<open>ERR\<close> an error packet.\<close>

datatype packet = DATA u16 "byte list" | ACK u16 | REQ | ERR

datatype status = Waiting | Lingering | Done | Aborted

record sender =
  s_bufs :: tftpbufs
  s_block :: int
  s_size :: int
  s_timeout :: int
  s_status :: status

record receiver =
  r_bufs :: tftpbufs
  r_block :: int
  r_timeout :: int
  r_ack :: packet
  r_status :: status

abbreviation (input) OP_DATA :: u16 where "OP_DATA \<equiv> 3"

text \<open>The packet in the current buffer is sent, and the file read ahead (\<open>send_data\<close>).\<close>

definition send_data :: "bool \<Rightarrow> sender \<Rightarrow> packet list \<times> sender" where
  "send_data convert s =
     ([if s_block s = 0 then REQ
       else DATA (of_int (s_block s)) (take (nat (s_size s)) (th_data (bfs (s_bufs s) (current (s_bufs s)))))],
      s\<lparr>s_bufs := read_ahead convert (s_bufs s)\<rparr>)"

text \<open>The timer: the packet is sent again, until the time is up.\<close>

definition send_timer :: "int \<Rightarrow> int \<Rightarrow> bool \<Rightarrow> sender \<Rightarrow> packet list \<times> sender" where
  "send_timer rexmtval maxtimeout convert s =
     (let t = s_timeout s + rexmtval
      in if s_status s \<noteq> Waiting then ([], s)
         else if t \<ge> maxtimeout then ([], s\<lparr>s_timeout := t, s_status := Aborted\<rparr>)
         else send_data convert (s\<lparr>s_timeout := t\<rparr>))"

text \<open>The head of the loop: the next block is read and sent.\<close>

definition send_next :: "bool \<Rightarrow> sender \<Rightarrow> packet list \<times> sender" where
  "send_next convert s =
     (case readit convert (s_bufs s) of
        (sz, b) \<Rightarrow>
          if sz < 0 then ([ERR], s\<lparr>s_bufs := b, s_size := sz, s_status := Aborted\<rparr>)
          else send_data convert (s\<lparr>s_bufs := b, s_size := sz, s_timeout := 0\<rparr>))"

section \<open>The server\<close>

definition tftpd_send_start :: "bool \<Rightarrow> tftpbufs \<Rightarrow> packet list \<times> sender" where
  "tftpd_send_start convert b =
     send_next convert \<lparr>s_bufs = r_init b, s_block = 1, s_size = 0, s_timeout = 0, s_status = Waiting\<rparr>"

text \<open>The comparison is made on unsigned shorts, so that block numbers wrap around.\<close>

definition tftpd_send_recv :: "bool \<Rightarrow> packet \<Rightarrow> sender \<Rightarrow> packet list \<times> sender" where
  "tftpd_send_recv convert p s =
     (if s_status s \<noteq> Waiting then ([], s)
      else case p of
          ERR \<Rightarrow> ([], s\<lparr>s_status := Aborted\<rparr>)
        | ACK b \<Rightarrow>
            if b = of_int (s_block s) then
              (let s1 = s\<lparr>s_block := s_block s + 1\<rparr>
               in if s_size s = int SEGSIZE then send_next convert s1 else ([], s1\<lparr>s_status := Done\<rparr>))
            else if b = of_int (s_block s - 1) then send_data convert s
            else ([], s)
        | _ \<Rightarrow> ([], s))"

definition tftpd_recv_start :: "bool \<Rightarrow> tftpbufs \<Rightarrow> packet list \<times> receiver" where
  "tftpd_recv_start convert b =
     ([ACK 0], \<lparr>r_bufs = snd (write_behind convert (w_init b)), r_block = 1, r_timeout = 0, r_ack = ACK 0,
       r_status = Waiting\<rparr>)"

text \<open>A packet is stored in the current buffer, its header in host byte order.\<close>

definition store_packet :: "u16 \<Rightarrow> byte list \<Rightarrow> tftpbufs \<Rightarrow> tftpbufs" where
  "store_packet b d s =
     s\<lparr>bfs := (bfs s)(current s := (bfs s (current s))\<lparr>th_opcode := OP_DATA, th_block := b, th_data := d\<rparr>)\<rparr>"

text \<open>The acknowledgement is sent again and the file written behind (\<open>send_ack\<close>).\<close>

definition send_ack :: "bool \<Rightarrow> receiver \<Rightarrow> packet list \<times> receiver" where
  "send_ack convert r = ([r_ack r], r\<lparr>r_bufs := snd (write_behind convert (r_bufs r))\<rparr>)"

definition recv_timer :: "int \<Rightarrow> int \<Rightarrow> bool \<Rightarrow> receiver \<Rightarrow> packet list \<times> receiver" where
  "recv_timer rexmtval maxtimeout convert r =
     (let t = r_timeout r + rexmtval
      in if r_status r = Lingering then ([], r\<lparr>r_status := Done\<rparr>)
         else if r_status r \<noteq> Waiting then ([], r)
         else if t \<ge> maxtimeout then ([], r\<lparr>r_timeout := t, r_status := Aborted\<rparr>)
         else send_ack convert (r\<lparr>r_timeout := t\<rparr>))"

text \<open>The block that was expected arrives: \<open>fin\<close> is the status after the last one.\<close>

definition recv_block :: "status \<Rightarrow> bool \<Rightarrow> byte list \<Rightarrow> receiver \<Rightarrow> packet list \<times> receiver" where
  "recv_block fin convert d r =
     (case writeit (int (length d)) convert (r_bufs r) of
        (sz, w) \<Rightarrow>
          let r1 = r\<lparr>r_bufs := w, r_ack := ACK (of_int (r_block r))\<rparr>
          in if sz = int SEGSIZE
             then send_ack convert (r1\<lparr>r_block := r_block r1 + 1, r_timeout := 0\<rparr>)
             else ([r_ack r1], r1\<lparr>r_bufs := snd (write_behind convert w), r_status := fin\<rparr>))"

text \<open>
  \<open>recvfile\<close> of the server.  After the last block it waits once more, in case the final
  acknowledgement was lost (\<open>Lingering\<close>); the test it then makes is on the packet buffer \<open>dp\<close>, not
  on the packet received.
\<close>

definition tftpd_recv_recv :: "bool \<Rightarrow> packet \<Rightarrow> receiver \<Rightarrow> packet list \<times> receiver" where
  "tftpd_recv_recv convert p r =
     (if r_status r = Lingering then
        (let dp = bfs (r_bufs r) (current (r_bufs r))
         in (if th_opcode dp = OP_DATA \<and> uint (th_block dp) = r_block r then [r_ack r] else [],
             r\<lparr>r_status := Done\<rparr>))
      else if r_status r \<noteq> Waiting then ([], r)
      else case p of
          ERR \<Rightarrow> ([], r\<lparr>r_status := Aborted\<rparr>)
        | DATA b d \<Rightarrow>
            (let r1 = r\<lparr>r_bufs := store_packet b d (r_bufs r)\<rparr>
             in if uint b = r_block r1 then recv_block Lingering convert d r1
                else if uint b = r_block r1 - 1 then send_ack convert r1
                else ([], r1))
        | _ \<Rightarrow> ([], r))"

section \<open>The client\<close>

text \<open>\<open>send_file\<close> of the client starts with the request, as block 0; \<open>reqlen\<close> is its length.\<close>

definition tftp_send_start :: "int \<Rightarrow> bool \<Rightarrow> tftpbufs \<Rightarrow> packet list \<times> sender" where
  "tftp_send_start reqlen convert b =
     send_data convert \<lparr>s_bufs = r_init b, s_block = 0, s_size = reqlen - 4, s_timeout = 0, s_status = Waiting\<rparr>"

text \<open>Here the block number received is compared with an \<open>int\<close>.\<close>

definition tftp_send_recv :: "bool \<Rightarrow> packet \<Rightarrow> sender \<Rightarrow> packet list \<times> sender" where
  "tftp_send_recv convert p s =
     (if s_status s \<noteq> Waiting then ([], s)
      else case p of
          ERR \<Rightarrow> ([], s\<lparr>s_status := Aborted\<rparr>)
        | ACK b \<Rightarrow>
            if uint b = s_block s then
              (let s1 = s\<lparr>s_block := s_block s + 1\<rparr>
               in if s_size s = int SEGSIZE \<or> s_block s1 = 1 then send_next convert s1
                  else ([], s1\<lparr>s_status := Done\<rparr>))
            else if uint b = s_block s - 1 then send_data convert s
            else ([], s)
        | _ \<Rightarrow> ([], s))"

definition tftp_recv_start :: "bool \<Rightarrow> tftpbufs \<Rightarrow> packet list \<times> receiver" where
  "tftp_recv_start convert b =
     ([REQ], \<lparr>r_bufs = snd (write_behind convert (w_init b)), r_block = 1, r_timeout = 0, r_ack = REQ,
       r_status = Waiting\<rparr>)"

text \<open>An error ends the loop like the last block: the user has seen the message, so an acknowledgement
  is sent.\<close>

definition tftp_recv_recv :: "bool \<Rightarrow> packet \<Rightarrow> receiver \<Rightarrow> packet list \<times> receiver" where
  "tftp_recv_recv convert p r =
     (if r_status r \<noteq> Waiting then ([], r)
      else case p of
          ERR \<Rightarrow>
            ([ACK (of_int (r_block r))],
             r\<lparr>r_bufs := snd (write_behind convert (r_bufs r)), r_status := Aborted\<rparr>)
        | DATA b d \<Rightarrow>
            (let r1 = r\<lparr>r_bufs := store_packet b d (r_bufs r)\<rparr>
             in if uint b = r_block r1 then recv_block Done convert d r1
                else if uint b = r_block r1 - 1 then send_ack convert r1
                else ([], r1))
        | _ \<Rightarrow> ([], r))"

section \<open>A transfer over an unreliable network\<close>

text \<open>
  The two machines and the packets under way.  A packet under way may arrive at any time, at either
  machine, any number of times, and any packets under way may be lost for good; the timers may run out at
  any time: the network loses, repeats, delays and reorders.  A request that is repeated would make
  \<open>inetd\<close> start a second server; here it only reaches the one that runs.
\<close>

inductive tftp_step ::
  "(packet \<Rightarrow> 's \<Rightarrow> packet list \<times> 's) \<Rightarrow> ('s \<Rightarrow> packet list \<times> 's) \<Rightarrow>
   (packet \<Rightarrow> 'r \<Rightarrow> packet list \<times> 'r) \<Rightarrow> ('r \<Rightarrow> packet list \<times> 'r) \<Rightarrow>
   's \<times> 'r \<times> packet set \<Rightarrow> 's \<times> 'r \<times> packet set \<Rightarrow> bool"
  for s_recv s_timer r_recv r_timer where
  sender_gets: "p \<in> net \<Longrightarrow> s_recv p s = (ps, s') \<Longrightarrow>
    tftp_step s_recv s_timer r_recv r_timer (s, r, net) (s', r, net \<union> set ps)"
| sender_timer: "s_timer s = (ps, s') \<Longrightarrow>
    tftp_step s_recv s_timer r_recv r_timer (s, r, net) (s', r, net \<union> set ps)"
| receiver_gets: "p \<in> net \<Longrightarrow> r_recv p r = (ps, r') \<Longrightarrow>
    tftp_step s_recv s_timer r_recv r_timer (s, r, net) (s, r', net \<union> set ps)"
| receiver_timer: "r_timer r = (ps, r') \<Longrightarrow>
    tftp_step s_recv s_timer r_recv r_timer (s, r, net) (s, r', net \<union> set ps)"
| lost: "net' \<subseteq> net \<Longrightarrow> tftp_step s_recv s_timer r_recv r_timer (s, r, net) (s, r, net')"

text \<open>
  What a sender and a receiver promise each other: the sender only sends good packets, the receiver
  keeps its invariant as long as it only gets good packets.
\<close>

locale tftp_peers =
  fixes good :: "packet \<Rightarrow> bool"
    and s_inv :: "'s \<Rightarrow> bool"
    and s_recv :: "packet \<Rightarrow> 's \<Rightarrow> packet list \<times> 's"
    and s_timer :: "'s \<Rightarrow> packet list \<times> 's"
    and r_inv :: "'r \<Rightarrow> bool"
    and r_recv :: "packet \<Rightarrow> 'r \<Rightarrow> packet list \<times> 'r"
    and r_timer :: "'r \<Rightarrow> packet list \<times> 'r"
  assumes s_recv_ok: "s_inv s \<Longrightarrow> s_recv p s = (ps, s') \<Longrightarrow> s_inv s' \<and> (\<forall>q\<in>set ps. good q)"
    and s_timer_ok: "s_inv s \<Longrightarrow> s_timer s = (ps, s') \<Longrightarrow> s_inv s' \<and> (\<forall>q\<in>set ps. good q)"
    and r_recv_ok: "r_inv r \<Longrightarrow> good p \<Longrightarrow> r_recv p r = (ps, r') \<Longrightarrow> r_inv r' \<and> (\<forall>q\<in>set ps. good q)"
    and r_timer_ok: "r_inv r \<Longrightarrow> r_timer r = (ps, r') \<Longrightarrow> r_inv r' \<and> (\<forall>q\<in>set ps. good q)"
begin

lemma step_keeps:
  "tftp_step s_recv s_timer r_recv r_timer c c' \<Longrightarrow>
   (case c of (s, r, net) \<Rightarrow> s_inv s \<and> r_inv r \<and> (\<forall>q\<in>net. good q)) \<Longrightarrow>
   (case c' of (s, r, net) \<Rightarrow> s_inv s \<and> r_inv r \<and> (\<forall>q\<in>net. good q))"
proof (induction rule: tftp_step.induct)
  case (sender_gets p net s ps s' r)
  then show ?case using s_recv_ok [of s p ps s'] by auto
next
  case (sender_timer s ps s' r net)
  then show ?case using s_timer_ok [of s ps s'] by auto
next
  case (receiver_gets p net r ps r' s)
  then show ?case using r_recv_ok [of r p ps r'] by auto
next
  case (receiver_timer r ps r' s net)
  then show ?case using r_timer_ok [of r ps r'] by auto
qed auto

lemma reach_keeps:
  assumes "(tftp_step s_recv s_timer r_recv r_timer)\<^sup>*\<^sup>* (s0, r0, net0) (s, r, net)"
    and "s_inv s0" "r_inv r0" "\<forall>q\<in>net0. good q"
  shows "s_inv s \<and> r_inv r \<and> (\<forall>q\<in>net. good q)"
proof -
  have "(case c of (s, r, net) \<Rightarrow> s_inv s \<and> r_inv r \<and> (\<forall>q\<in>net. good q))"
    if "(tftp_step s_recv s_timer r_recv r_timer)\<^sup>*\<^sup>* (s0, r0, net0) c" for c
    using that by (induction rule: rtranclp_induct) (use assms(2-4) step_keeps in auto)
  from this [OF assms(1)] show ?thesis by simp
qed

end

section \<open>The senders\<close>

definition nblocks :: "byte list \<Rightarrow> nat" where
  "nblocks xs = length xs div SEGSIZE + 1"

definition good_packet :: "byte list \<Rightarrow> packet \<Rightarrow> bool" where
  "good_packet xs p \<longleftrightarrow>
     (\<forall>b d. p = DATA b d \<longrightarrow> (\<exists>k. 1 \<le> k \<and> k \<le> nblocks xs \<and> b = of_nat k \<and> d = chunk xs k))"

lemma good_packet_simps [simp]: "good_packet xs (ACK b)" "good_packet xs REQ" "good_packet xs ERR"
  by (simp_all add: good_packet_def)

lemma chunk_full: "1 \<le> k \<Longrightarrow> length (chunk xs k) = SEGSIZE \<Longrightarrow> k + 1 \<le> nblocks xs"
  by (auto simp: chunk_def nblocks_def)

lemma chunk_last: "1 \<le> k \<Longrightarrow> k \<le> nblocks xs \<Longrightarrow> length (chunk xs k) \<noteq> SEGSIZE \<Longrightarrow>
    take (SEGSIZE * (k - 1)) xs @ chunk xs k = xs"
  by (auto simp: chunk_def nblocks_def)

lemma chunk_take: "1 \<le> k \<Longrightarrow> take (SEGSIZE * (k - 1)) xs @ chunk xs k = take (SEGSIZE * k) xs"
proof -
  assume "1 \<le> k"
  then have "SEGSIZE * k = SEGSIZE * (k - 1) + SEGSIZE" by (cases k) simp_all
  then show ?thesis by (simp only: chunk_def take_add)
qed

definition s_inv :: "bool \<Rightarrow> byte list \<Rightarrow> sender \<Rightarrow> bool" where
  "s_inv convert xs s \<longleftrightarrow>
     (s_status s = Waiting \<longrightarrow>
        (\<exists>k \<le> nblocks xs. s_block s = int k \<and> (k > 0 \<longrightarrow> s_size s = int (length (chunk xs k)))
           \<and> r_ready convert xs k (s_bufs s)))"

lemma send_data_ok:
  assumes "send_data convert s = (ps, s')" "k \<le> nblocks xs" "s_block s = int k"
    and "k > 0 \<longrightarrow> s_size s = int (length (chunk xs k))"
    and "r_mid convert xs k (s_bufs s) \<or> r_ready convert xs k (s_bufs s)"
  shows "s_inv convert xs s' \<and> (\<forall>q\<in>set ps. good_packet xs q)"
proof -
  have "r_ready convert xs k (read_ahead convert (s_bufs s))"
    using assms(5) read_ahead_mid read_ahead_again by metis
  moreover have "k > 0 \<longrightarrow> th_data (bfs (s_bufs s) (current (s_bufs s))) = chunk xs k"
    using assms(5) by (auto simp: r_mid_def r_ready_def holds_def)
  moreover have "k > 0 \<Longrightarrow> good_packet xs (DATA (of_int (int k)) (chunk xs k))"
    using assms(2) by (auto simp: good_packet_def intro!: exI [of _ k])
  ultimately show ?thesis
    using assms(1-4) by (cases "k = 0") (auto simp: send_data_def s_inv_def)
qed

lemma send_next_ok:
  assumes "send_next convert s = (ps, s')" "k + 1 \<le> nblocks xs" "s_block s = int (k + 1)"
    and "r_ready convert xs k (s_bufs s)"
  shows "s_inv convert xs s' \<and> (\<forall>q\<in>set ps. good_packet xs q)"
proof -
  obtain n b where n: "readit convert (s_bufs s) = (n, b)" by force
  note r = readit_ready [OF assms(4), unfolded n fst_conv snd_conv]
  show ?thesis
    using assms(1) send_data_ok [of convert "s\<lparr>s_bufs := b, s_size := n, s_timeout := 0\<rparr>" ps s' "k + 1" xs] r assms(2,3)
    by (simp add: send_next_def n)
qed

lemma s_inv_stop [simp]: "st \<noteq> Waiting \<Longrightarrow> s_inv convert xs (s\<lparr>s_status := st\<rparr>)"
  by (simp add: s_inv_def)

lemma s_inv_timeout [simp]: "s_inv convert xs (s\<lparr>s_timeout := t\<rparr>) = s_inv convert xs s"
  by (simp add: s_inv_def)

lemma send_data_again:
  "s_inv convert xs s \<Longrightarrow> s_status s = Waiting \<Longrightarrow> send_data convert s = (ps, s') \<Longrightarrow>
   s_inv convert xs s' \<and> (\<forall>q\<in>set ps. good_packet xs q)"
  using send_data_ok [of convert s ps s' _ xs] by (auto simp: s_inv_def)

lemma send_timer_ok:
  assumes "s_inv convert xs s" "send_timer rex mx convert s = (ps, s')"
  shows "s_inv convert xs s' \<and> (\<forall>q\<in>set ps. good_packet xs q)"
  using assms send_data_again [of convert xs "s\<lparr>s_timeout := s_timeout s + rex\<rparr>" ps s']
  by (auto simp: send_timer_def Let_def split: if_splits)

text \<open>The acknowledgement of block \<open>k\<close>, which was full or was the request.\<close>

lemma send_advance:
  assumes "s_inv convert xs s" "s_status s = Waiting" "s_size s = int SEGSIZE \<or> s_block s = 0"
    and "send_next convert (s\<lparr>s_block := s_block s + 1\<rparr>) = (ps, s')"
  shows "s_inv convert xs s' \<and> (\<forall>q\<in>set ps. good_packet xs q)"
proof -
  from assms(1,2) obtain k where k: "k \<le> nblocks xs" "s_block s = int k"
    "k > 0 \<longrightarrow> s_size s = int (length (chunk xs k))" "r_ready convert xs k (s_bufs s)"
    by (auto simp: s_inv_def)
  have "k + 1 \<le> nblocks xs"
    using k assms(3) chunk_full [of k xs] by (cases "k = 0") (auto simp: nblocks_def)
  then show ?thesis
    using send_next_ok [OF assms(4), of k xs] k by simp
qed

lemma tftpd_send_ok:
  assumes "s_inv convert xs s" "tftpd_send_recv convert p s = (ps, s')"
  shows "s_inv convert xs s' \<and> (\<forall>q\<in>set ps. good_packet xs q)"
  using assms send_advance [OF assms(1)] send_data_again [OF assms(1)]
  by (cases p) (auto simp: tftpd_send_recv_def Let_def split: if_splits)

lemma tftp_send_ok:
  assumes "s_inv convert xs s" "tftp_send_recv convert p s = (ps, s')"
  shows "s_inv convert xs s' \<and> (\<forall>q\<in>set ps. good_packet xs q)"
  using assms send_advance [OF assms(1)] send_data_again [OF assms(1)]
  by (cases p) (auto simp: tftp_send_recv_def Let_def split: if_splits)

lemma tftpd_send_start_ok:
  assumes "infile b = Some f" "tftpd_send_start convert b = (ps, s)"
  shows "s_inv convert (tftp_stream convert f) s \<and> (\<forall>q\<in>set ps. good_packet (tftp_stream convert f) q)"
proof -
  obtain n c where n: "readit convert (r_init b) = (n, c)" by force
  note r = readit_init [OF assms(1), of convert, unfolded n fst_conv snd_conv]
  show ?thesis
    using assms(2) r send_data_ok [of convert _ ps s 1 "tftp_stream convert f"]
    by (simp add: tftpd_send_start_def send_next_def n nblocks_def)
qed

lemma tftp_send_start_ok:
  assumes "infile b = Some f" "tftp_send_start reqlen convert b = (ps, s)"
  shows "s_inv convert (tftp_stream convert f) s \<and> (\<forall>q\<in>set ps. good_packet (tftp_stream convert f) q)"
  using assms(2) r_init_stream [OF assms(1), of convert] send_data_ok [of convert _ ps s 0 "tftp_stream convert f"]
  by (simp add: tftp_send_start_def)


section \<open>The receivers\<close>

lemma block_number:
  assumes "good_packet xs (DATA b d)" "nblocks xs < 2 ^ 16" "uint b = int k"
  shows "k \<le> nblocks xs" "1 \<le> k" "d = chunk xs k"
proof -
  from assms(1) obtain j where j: "1 \<le> j" "j \<le> nblocks xs" "b = of_nat j" "d = chunk xs j"
    by (auto simp: good_packet_def)
  have "uint b = int j" using j(2,3) assms(2) by (simp add: unsigned_of_nat take_bit_nat_eq_self)
  then have "j = k" using assms(3) by simp
  with j show "k \<le> nblocks xs" "1 \<le> k" "d = chunk xs k" by simp_all
qed

definition r_inv :: "bool \<Rightarrow> byte list \<Rightarrow> receiver \<Rightarrow> bool" where
  "r_inv convert xs r \<longleftrightarrow> nblocks xs < 2 ^ 16 \<and> good_packet xs (r_ack r) \<and>
     (r_status r = Waiting \<longrightarrow> w_ready (r_bufs r) \<and>
        (\<exists>k. 1 \<le> k \<and> k \<le> nblocks xs \<and> r_block r = int k
           \<and> (outfile (r_bufs r), prevchar (r_bufs r)) = absorb convert (take (SEGSIZE * (k - 1)) xs) ([], -1)))
     \<and> (r_status r = Lingering \<or> r_status r = Done \<longrightarrow>
          outfile (r_bufs r) = fst (absorb convert xs ([], -1)))"

lemma store_packet_simps [simp]:
  "w_ready (store_packet b d s) = w_ready s" "outfile (store_packet b d s) = outfile s"
  "prevchar (store_packet b d s) = prevchar s" "current (store_packet b d s) = current s"
  "th_data (bfs (store_packet b d s) (current s)) = d" "nextone (store_packet b d s) = nextone s"
  by (simp_all add: store_packet_def w_ready_def)

lemma recv_block_ok:
  assumes inv: "r_inv convert xs r" "r_status r = Waiting"
    and good: "good_packet xs (DATA b d)" "uint b = r_block r" and fin: "fin = Lingering \<or> fin = Done"
    and res: "recv_block fin convert d (r\<lparr>r_bufs := store_packet b d (r_bufs r)\<rparr>) = (ps, r')"
  shows "r_inv convert xs r' \<and> (\<forall>q\<in>set ps. good_packet xs q)"
proof -
  have n: "nblocks xs < 2 ^ 16" using inv by (simp add: r_inv_def)
  from inv obtain k where w: "w_ready (r_bufs r)" and k: "r_block r = int k" and
    out: "(outfile (r_bufs r), prevchar (r_bufs r)) = absorb convert (take (SEGSIZE * (k - 1)) xs) ([], -1)"
    by (auto simp: r_inv_def)
  have "uint b = int k" using good(2) k by simp
  note bk = block_number [OF good(1) n this]
  define s where "s = store_packet b d (r_bufs r)"
  define u where "u = snd (write_behind convert (snd (writeit (int (length d)) convert s)))"
  have s: "w_ready s" "th_data (bfs s (current s)) = d" "outfile s = outfile (r_bufs r)" "prevchar s = prevchar (r_bufs r)"
    using w by (simp_all add: s_def)
  note f = writeit_flush [OF s(1,2), of convert, folded u_def, unfolded s(3,4) out]
  have out': "(outfile u, prevchar u) = absorb convert (take (SEGSIZE * (k - 1)) xs @ d) ([], -1)"
    using f(3) by (simp add: absorb_append)
  show ?thesis
  proof (cases "length d = SEGSIZE")
    case True
    then have r': "ps = [ACK (of_int (r_block r))]" "r' = r\<lparr>r_bufs := u, r_ack := ACK (of_int (r_block r)),
        r_block := r_block r + 1, r_timeout := 0\<rparr>"
      using res f(1) by (auto simp: recv_block_def send_ack_def u_def s_def [symmetric] Let_def split: prod.splits)
    have "k + 1 \<le> nblocks xs" using chunk_full [of k xs] bk True by simp
    moreover have "take (SEGSIZE * (k - 1)) xs @ d = take (SEGSIZE * k) xs"
      using chunk_take [of k xs] bk by simp
    ultimately show ?thesis
      using r' f(2) out' k inv(2) n by (auto simp: r_inv_def intro!: exI [of _ "k + 1"])
  next
    case False
    then have r': "ps = [ACK (of_int (r_block r))]"
      "r' = r\<lparr>r_bufs := u, r_ack := ACK (of_int (r_block r)), r_status := fin\<rparr>"
      using res f(1) by (auto simp: recv_block_def u_def s_def [symmetric] Let_def split: prod.splits)
    have "take (SEGSIZE * (k - 1)) xs @ d = xs" using chunk_last [of k xs] bk False by simp
    then show ?thesis using r' out' fin n by (auto simp: r_inv_def dest: arg_cong [where f = fst])
  qed
qed

lemma send_ack_ok:
  assumes "r_inv convert xs r" "r_status r = Waiting" "send_ack convert r = (ps, r')"
  shows "r_inv convert xs r' \<and> (\<forall>q\<in>set ps. good_packet xs q)"
  using assms write_behind_idle [of "r_bufs r" convert] by (auto simp: send_ack_def r_inv_def)

lemma r_inv_store: "r_status r = Waiting \<Longrightarrow> r_inv convert xs (r\<lparr>r_bufs := store_packet b d (r_bufs r)\<rparr>) = r_inv convert xs r"
  by (simp add: r_inv_def)

lemma recv_timer_ok:
  assumes "r_inv convert xs r" "recv_timer rex mx convert r = (ps, r')"
  shows "r_inv convert xs r' \<and> (\<forall>q\<in>set ps. good_packet xs q)"
  using assms send_ack_ok [of convert xs "r\<lparr>r_timeout := r_timeout r + rex\<rparr>" ps r']
  by (auto simp: recv_timer_def r_inv_def Let_def split: if_splits)

text \<open>Both receivers do the same with a packet while they wait; only the end differs.\<close>

definition recv_waiting :: "status \<Rightarrow> bool \<Rightarrow> (packet \<Rightarrow> receiver \<Rightarrow> packet list \<times> receiver) \<Rightarrow> bool" where
  "recv_waiting fin convert rcv \<longleftrightarrow>
     (\<forall>r. r_status r = Waiting \<longrightarrow>
        (\<forall>b d. rcv (DATA b d) r =
           (let r1 = r\<lparr>r_bufs := store_packet b d (r_bufs r)\<rparr>
            in if uint b = r_block r then recv_block fin convert d r1
               else if uint b = r_block r - 1 then send_ack convert r1 else ([], r1)))
        \<and> (\<forall>b. rcv (ACK b) r = ([], r)) \<and> rcv REQ r = ([], r) \<and> r_status (snd (rcv ERR r)) = Aborted)
     \<and> (\<forall>r p. r_status r \<noteq> Waiting \<longrightarrow> r_status (snd (rcv p r)) \<noteq> Waiting)"

lemma recv_waiting_machines:
  "recv_waiting Lingering convert (tftpd_recv_recv convert)" "recv_waiting Done convert (tftp_recv_recv convert)"
  by (auto simp: recv_waiting_def tftpd_recv_recv_def tftp_recv_recv_def Let_def)

lemma recv_waiting_ok:
  assumes rcv: "recv_waiting fin convert rcv" and fin: "fin = Lingering \<or> fin = Done"
    and inv: "r_inv convert xs r" "r_status r = Waiting" and res: "good_packet xs p" "p \<noteq> ERR" "rcv p r = (ps, r')"
  shows "r_inv convert xs r' \<and> (\<forall>q\<in>set ps. good_packet xs q)"
proof (cases p)
  case (DATA b d)
  let ?r = "r\<lparr>r_bufs := store_packet b d (r_bufs r)\<rparr>"
  have "rcv p r = (if uint b = r_block r then recv_block fin convert d ?r
       else if uint b = r_block r - 1 then send_ack convert ?r else ([], ?r))"
    using rcv inv(2) DATA by (simp add: recv_waiting_def Let_def)
  then show ?thesis
    using inv res DATA recv_block_ok [OF inv, of b d fin ps r'] fin
      send_ack_ok [of convert xs ?r ps r'] r_inv_store [of r convert xs b d]
    by (auto split: if_splits)
qed (use rcv inv res in \<open>auto simp: recv_waiting_def\<close>)

lemma tftpd_recv_ok:
  assumes "r_inv convert xs r" "good_packet xs p" "tftpd_recv_recv convert p r = (ps, r')"
  shows "r_inv convert xs r' \<and> (\<forall>q\<in>set ps. good_packet xs q)"
proof (cases "r_status r = Waiting \<and> p \<noteq> ERR")
  case True
  then show ?thesis using recv_waiting_ok [OF recv_waiting_machines(1) _ assms(1) _ assms(2) _ assms(3)] by blast
qed (use assms in \<open>auto simp: tftpd_recv_recv_def r_inv_def Let_def split: if_splits\<close>)

lemma tftp_recv_ok:
  assumes "r_inv convert xs r" "good_packet xs p" "tftp_recv_recv convert p r = (ps, r')"
  shows "r_inv convert xs r' \<and> (\<forall>q\<in>set ps. good_packet xs q)"
proof (cases "r_status r = Waiting \<and> p \<noteq> ERR")
  case True
  then show ?thesis using recv_waiting_ok [OF recv_waiting_machines(2) _ assms(1) _ assms(2) _ assms(3)] by blast
qed (use assms in \<open>auto simp: tftp_recv_recv_def r_inv_def Let_def split: if_splits\<close>)

lemma recv_start_ok:
  assumes "outfile b = []" "nblocks xs < 2 ^ 16"
  shows "r_inv convert xs (snd (tftpd_recv_start convert b))" "r_inv convert xs (snd (tftp_recv_start convert b))"
proof -
  have w: "write_behind convert (w_init b) = (0, w_init b)" by (rule write_behind_idle [OF w_init_ready])
  have "outfile (w_init b) = []" "prevchar (w_init b) = -1"
    using assms by (simp_all add: w_init_def rw_init_def set_counter_def)
  then show "r_inv convert xs (snd (tftpd_recv_start convert b))" "r_inv convert xs (snd (tftp_recv_start convert b))"
    using w_init_ready [of b] assms(2)
    by (auto simp: r_inv_def tftpd_recv_start_def tftp_recv_start_def w absorb_def nblocks_def intro!: exI [of _ 1])
qed


section \<open>The contracts hold\<close>

interpretation download: tftp_peers "good_packet xs" "s_inv convert xs" "tftpd_send_recv convert"
    "send_timer rex mx convert" "r_inv convert xs" "tftp_recv_recv convert" "recv_timer rex' mx' convert"
  for xs convert rex mx rex' mx'
  by unfold_locales (rule tftpd_send_ok send_timer_ok tftp_recv_ok recv_timer_ok; assumption)+

interpretation upload: tftp_peers "good_packet xs" "s_inv convert xs" "tftp_send_recv convert"
    "send_timer rex mx convert" "r_inv convert xs" "tftpd_recv_recv convert" "recv_timer rex' mx' convert"
  for xs convert rex mx rex' mx'
  by unfold_locales (rule tftp_send_ok send_timer_ok tftpd_recv_ok recv_timer_ok; assumption)+

end
