(* ===== verification/Tftp_Complete.thy ===== *)
theory Tftp_Complete
  imports Tftp_Transfer
begin

text \<open>
  Whole transfers of TFTP: the two machines move in lockstep, so that a transfer can always be
  completed and gives the file that was sent; and two places where the machines do not do what was
  meant, the final acknowledgement and files of 65536 blocks.
\<close>

section \<open>Completion\<close>

lemma send_next_sends:
  assumes "r_ready convert xs k (s_bufs s)" "s_block s = int (k + 1)" "s_status s = Waiting"
  shows "\<exists>s'. send_next convert s = ([DATA (of_nat (k + 1)) (chunk xs (k + 1))], s') \<and> s_status s' = Waiting
    \<and> s_block s' = int (k + 1) \<and> s_size s' = int (length (chunk xs (k + 1)))
    \<and> r_ready convert xs (k + 1) (s_bufs s')"
proof -
  obtain n b where n: "readit convert (s_bufs s) = (n, b)" by force
  note r = readit_ready [OF assms(1), unfolded n fst_conv snd_conv]
  have "th_data (bfs b (current b)) = chunk xs (k + 1)" using r(2) by (simp add: r_mid_def holds_def)
  then show ?thesis
    using assms r read_ahead_mid [OF r(2)] by (simp add: send_next_def n send_data_def del: of_nat_Suc)
qed

text \<open>
  Two machines in lockstep: a sender at block \<open>k\<close> only moves on when block \<open>k\<close> is acknowledged, a receiver
  that waits for block \<open>j\<close> only when that block arrives.  \<open>pkt k\<close> is what a sender at \<open>k\<close> sends.  While a
  machine has a retransmission left (\<open>s_more\<close>, \<open>r_more\<close>) its timer sends its last packet again, and the other
  machine answers the repetition with its own last packet.
\<close>

locale tftp_lockstep =
  fixes n :: nat and pkt :: "nat \<Rightarrow> packet" and good :: "packet \<Rightarrow> bool"
    and s_live :: "'s \<Rightarrow> bool" and s_at :: "nat \<Rightarrow> 's \<Rightarrow> bool"
    and s_more :: "'s \<Rightarrow> bool" and r_more :: "'r \<Rightarrow> bool"
    and s_recv :: "packet \<Rightarrow> 's \<Rightarrow> packet list \<times> 's" and s_timer :: "'s \<Rightarrow> packet list \<times> 's"
    and r_live :: "'r \<Rightarrow> bool" and r_at :: "nat \<Rightarrow> 'r \<Rightarrow> bool" and r_fin :: "'r \<Rightarrow> bool"
    and r_recv :: "packet \<Rightarrow> 'r \<Rightarrow> packet list \<times> 'r" and r_timer :: "'r \<Rightarrow> packet list \<times> 'r"
  assumes pkt_good: "k \<le> n \<Longrightarrow> good (pkt k)" and ack_good: "good (ACK b)" and req_good: "good REQ"
    and pkt_block: "k \<le> n \<Longrightarrow> pkt k = DATA b d \<Longrightarrow> uint b \<le> int k" and pkt_no_ack: "pkt k \<noteq> ACK b"
    and s_end: "s_recv p s = (ps, s') \<Longrightarrow> s_live s' \<Longrightarrow> s_live s" "s_timer s = (ps, s') \<Longrightarrow> s_live s' \<Longrightarrow> s_live s"
    and r_end: "r_recv p r = (ps, r') \<Longrightarrow> r_live r' \<Longrightarrow> r_live r" "r_timer r = (ps, r') \<Longrightarrow> r_live r' \<Longrightarrow> r_live r"
    and s_recv_moves: "s_at k s \<Longrightarrow> s_recv p s = (ps, s') \<Longrightarrow> s_live s' \<Longrightarrow>
      s_at k s' \<and> set ps \<subseteq> {pkt k} \<or> p = ACK (of_nat k) \<and> s_at (k + 1) s' \<and> ps = [pkt (k + 1)]"
    and s_timer_moves: "s_at k s \<Longrightarrow> s_timer s = (ps, s') \<Longrightarrow> s_live s' \<Longrightarrow> s_at k s' \<and> set ps \<subseteq> {pkt k}"
    and r_recv_moves: "r_at j r \<Longrightarrow> good p \<Longrightarrow> r_recv p r = (ps, r') \<Longrightarrow> r_live r' \<Longrightarrow>
      r_at j r' \<and> set ps \<subseteq> {ACK (of_nat (j - 1)), REQ}
      \<or> (\<exists>d. p = DATA (of_nat j) d) \<and> r_at (j + 1) r' \<and> ps = [ACK (of_nat j)]"
    and r_timer_moves: "r_at j r \<Longrightarrow> r_timer r = (ps, r') \<Longrightarrow> r_live r' \<Longrightarrow>
      r_at j r' \<and> set ps \<subseteq> {ACK (of_nat (j - 1)), REQ}"
    and at_range: "s_at k s \<Longrightarrow> k \<le> n" "r_at j r \<Longrightarrow> 1 \<le> j \<and> j \<le> n" "r_at j r \<Longrightarrow> n < 2 ^ 16"
    and s_advances: "s_at k s \<Longrightarrow> k < n \<Longrightarrow> \<exists>s'. s_recv (ACK (of_nat k)) s = ([pkt (k + 1)], s') \<and> s_at (k + 1) s'"
    and r_advances: "r_at j r \<Longrightarrow> j < n \<Longrightarrow> \<exists>r'. r_recv (pkt j) r = ([ACK (of_nat j)], r') \<and> r_at (j + 1) r'"
    and s_resends: "s_at k s \<Longrightarrow> s_more s \<Longrightarrow> \<exists>s'. s_timer s = ([pkt k], s') \<and> s_at k s'"
    and r_resends: "r_at j r \<Longrightarrow> r_more r \<Longrightarrow> \<exists>r'. r_timer r = ([ACK (of_nat (j - 1))], r') \<and> r_at j r'"
    and r_repeats: "s_at k s \<Longrightarrow> s_more s \<Longrightarrow> r_at (k + 1) r \<Longrightarrow>
      \<exists>r'. r_recv (pkt k) r = ([ACK (of_nat k)], r') \<and> r_at (k + 1) r'"
    and s_repeats: "s_at k s \<Longrightarrow> 1 \<le> k \<Longrightarrow> \<exists>s'. s_recv (ACK (of_nat (k - 1))) s = ([pkt k], s') \<and> s_at k s'"
    and r_finishes: "r_at n r \<Longrightarrow> \<exists>ps r'. r_recv (pkt n) r = (ps, r') \<and> r_fin r'"
begin

lemma uint_block: "k \<le> n \<Longrightarrow> n < 2 ^ 16 \<Longrightarrow> uint (of_nat k :: u16) = int k"
  by (simp add: unsigned_of_nat take_bit_nat_eq_self)

definition in_net :: "nat \<Rightarrow> nat \<Rightarrow> packet set \<Rightarrow> bool" where
  "in_net k j net \<longleftrightarrow> (j = k \<or> j = k + 1)
     \<and> (\<forall>b d. DATA b d \<in> net \<longrightarrow> uint b \<le> int k) \<and> (\<forall>b. ACK b \<in> net \<longrightarrow> uint b < int j)
     \<and> (\<forall>q\<in>net. good q)"

lemma sent_again:
  assumes "in_net k j net" "k \<le> n" "set ps \<subseteq> {pkt k}"
  shows "in_net k j (net \<union> set ps)"
proof -
  have "uint b \<le> int k" if "DATA b d \<in> net \<union> set ps" for b d
    using that assms pkt_block [OF assms(2), of b d] by (fastforce simp: in_net_def)
  moreover have "uint b < int j" if "ACK b \<in> net \<union> set ps" for b
    using that assms pkt_no_ack [of k b] by (auto simp: in_net_def)
  moreover have "\<forall>q\<in>net \<union> set ps. good q" using assms pkt_good by (auto simp: in_net_def)
  ultimately show ?thesis using assms(1) by (auto simp: in_net_def)
qed

lemma in_net_lost: "in_net k j net \<Longrightarrow> net' \<subseteq> net \<Longrightarrow> in_net k j net'"
  unfolding in_net_def by blast

lemma sent_next:
  assumes "in_net k j net" "k + 1 \<le> n" "ACK (of_nat k) \<in> net" "n < 2 ^ 16"
  shows "in_net (k + 1) j (net \<union> {pkt (k + 1)})"
proof -
  have "uint (of_nat k :: u16) < int j" using assms by (simp add: in_net_def)
  then have "j = k + 1" using uint_block [of k] assms by (auto simp: in_net_def)
  moreover have "uint b \<le> int (k + 1)" if "DATA b d \<in> net \<union> {pkt (k + 1)}" for b d
    using that assms(1) pkt_block [OF assms(2), of b d] by (fastforce simp: in_net_def)
  moreover have "uint b < int j" if "ACK b \<in> net \<union> {pkt (k + 1)}" for b
    using that assms(1) pkt_no_ack [of "k + 1" b] by (auto simp: in_net_def)
  ultimately show ?thesis using assms(1,2) pkt_good by (auto simp: in_net_def)
qed

lemma acked_again:
  assumes "in_net k j net" "1 \<le> j" "j \<le> n" "set ps \<subseteq> {ACK (of_nat (j - 1)), REQ}" "n < 2 ^ 16"
  shows "in_net k j (net \<union> set ps)"
proof -
  have "uint (of_nat (j - 1) :: u16) < int j" using uint_block [of "j - 1"] assms(2,3,5) by simp
  then have "\<forall>b. ACK b \<in> net \<union> set ps \<longrightarrow> uint b < int j" using assms(1,4) by (auto simp: in_net_def)
  moreover have "\<forall>q\<in>net \<union> set ps. good q" using assms(1,4) ack_good req_good by (auto simp: in_net_def)
  moreover have "\<forall>b d. DATA b d \<in> net \<union> set ps \<longrightarrow> uint b \<le> int k" using assms(1,4) by (auto simp: in_net_def)
  ultimately show ?thesis using assms(1) by (auto simp: in_net_def)
qed

lemma acked_next:
  assumes "in_net k j net" "j \<le> n" "DATA (of_nat j) d \<in> net" "n < 2 ^ 16"
  shows "in_net k (j + 1) (net \<union> {ACK (of_nat j)})"
proof -
  have "uint (of_nat j :: u16) \<le> int k" using assms unfolding in_net_def by blast
  then have "j = k" using uint_block [OF assms(2,4)] assms(1) by (auto simp: in_net_def)
  then show ?thesis using assms(1) uint_block [OF assms(2,4)] ack_good by (fastforce simp: in_net_def)
qed

definition together :: "'s \<times> 'r \<times> packet set \<Rightarrow> bool" where
  "together c \<longleftrightarrow> (case c of (s, r, net) \<Rightarrow>
     s_live s \<longrightarrow> r_live r \<longrightarrow> (\<exists>k j. s_at k s \<and> r_at j r \<and> in_net k j net))"

lemma togetherD: "together (s, r, net) \<Longrightarrow> s_live s \<Longrightarrow> r_live r \<Longrightarrow> \<exists>k j. s_at k s \<and> r_at j r \<and> in_net k j net"
  by (simp add: together_def)

lemma togetherI:
  "(s_live s \<Longrightarrow> r_live r \<Longrightarrow> \<exists>k j. s_at k s \<and> r_at j r \<and> in_net k j net) \<Longrightarrow> together (s, r, net)"
  by (simp add: together_def)

lemma step_together: "tftp_step s_recv s_timer r_recv r_timer c c' \<Longrightarrow> together c \<Longrightarrow> together c'"
proof (induction rule: tftp_step.induct)
  case (sender_gets p net s ps s' r)
  show ?case
  proof (rule togetherI)
    assume live: "s_live s'" "r_live r"
    obtain k j where kj: "s_at k s" "r_at j r" "in_net k j net"
      using togetherD [OF sender_gets.prems] s_end(1) [OF sender_gets.hyps(2)] live by blast
    from s_recv_moves [OF kj(1) sender_gets.hyps(2) live(1)]
    show "\<exists>k j. s_at k s' \<and> r_at j r \<and> in_net k j (net \<union> set ps)"
    proof
      assume "s_at k s' \<and> set ps \<subseteq> {pkt k}"
      then show ?thesis using sent_again [OF kj(3) at_range(1) [OF kj(1)]] kj(2) by blast
    next
      assume m: "p = ACK (of_nat k) \<and> s_at (k + 1) s' \<and> ps = [pkt (k + 1)]"
      then have "in_net (k + 1) j (net \<union> {pkt (k + 1)})"
        using sent_next [OF kj(3)] at_range(1) at_range(3) [OF kj(2)] sender_gets.hyps(1) by blast
      then show ?thesis using m kj(2) by auto
    qed
  qed
next
  case (sender_timer s ps s' r net)
  show ?case
  proof (rule togetherI)
    assume live: "s_live s'" "r_live r"
    obtain k j where kj: "s_at k s" "r_at j r" "in_net k j net"
      using togetherD [OF sender_timer.prems] s_end(2) [OF sender_timer.hyps] live by blast
    then show "\<exists>k j. s_at k s' \<and> r_at j r \<and> in_net k j (net \<union> set ps)"
      using s_timer_moves [OF kj(1) sender_timer.hyps live(1)] sent_again [OF kj(3) at_range(1) [OF kj(1)]] by blast
  qed
next
  case (receiver_gets p net r ps r' s)
  show ?case
  proof (rule togetherI)
    assume live: "s_live s" "r_live r'"
    obtain k j where kj: "s_at k s" "r_at j r" "in_net k j net"
      using togetherD [OF receiver_gets.prems] r_end(1) [OF receiver_gets.hyps(2)] live by blast
    note range = at_range(2,3) [OF kj(2)]
    have "good p" using kj(3) receiver_gets.hyps(1) by (simp add: in_net_def)
    from r_recv_moves [OF kj(2) this receiver_gets.hyps(2) live(2)]
    show "\<exists>k j. s_at k s \<and> r_at j r' \<and> in_net k j (net \<union> set ps)"
    proof
      assume "r_at j r' \<and> set ps \<subseteq> {ACK (of_nat (j - 1)), REQ}"
      then show ?thesis using acked_again [OF kj(3)] range kj(1) by blast
    next
      assume m: "(\<exists>d. p = DATA (of_nat j) d) \<and> r_at (j + 1) r' \<and> ps = [ACK (of_nat j)]"
      then have "in_net k (j + 1) (net \<union> {ACK (of_nat j)})"
        using acked_next [OF kj(3)] range receiver_gets.hyps(1) by blast
      then show ?thesis using m kj(1) by auto
    qed
  qed
next
  case (receiver_timer r ps r' s net)
  show ?case
  proof (rule togetherI)
    assume live: "s_live s" "r_live r'"
    obtain k j where kj: "s_at k s" "r_at j r" "in_net k j net"
      using togetherD [OF receiver_timer.prems] r_end(2) [OF receiver_timer.hyps] live by blast
    then show "\<exists>k j. s_at k s \<and> r_at j r' \<and> in_net k j (net \<union> set ps)"
      using r_timer_moves [OF kj(2) receiver_timer.hyps live(2)] acked_again [OF kj(3)] at_range(2,3) [OF kj(2)]
      by blast
  qed
next
  case (lost net' net s r)
  show ?case
  proof (rule togetherI)
    assume "s_live s" "r_live r"
    then show "\<exists>k j. s_at k s \<and> r_at j r \<and> in_net k j net'"
      using togetherD [OF lost.prems] in_net_lost [OF _ lost.hyps] by blast
  qed
qed

lemma reach_together:
  "(tftp_step s_recv s_timer r_recv r_timer)\<^sup>*\<^sup>* c c' \<Longrightarrow> together c \<Longrightarrow> together c'"
  by (induction rule: rtranclp_induct) (blast intro: step_together)+

lemma completes_at:
  assumes "s_at k s" "r_at k r" "pkt k \<in> net"
  shows "\<exists>s' r' net'. (tftp_step s_recv s_timer r_recv r_timer)\<^sup>*\<^sup>* (s, r, net) (s', r', net') \<and> r_fin r'"
  using assms
proof (induction "n - k" arbitrary: k s r net rule: less_induct)
  case less
  show ?case
  proof (cases "k = n")
    case True
    then obtain ps r' where r': "r_recv (pkt k) r = (ps, r')" "r_fin r'"
      using r_finishes [of r] less.prems(2) by auto
    have "tftp_step s_recv s_timer r_recv r_timer (s, r, net) (s, r', net \<union> set ps)"
      by (rule receiver_gets [where r_recv = r_recv, OF less.prems(3) r'(1)])
    from r_into_rtranclp [where r = "tftp_step s_recv s_timer r_recv r_timer", OF this] r'(2) show ?thesis by blast
  next
    case False
    then have k: "k < n" using at_range(1) [OF less.prems(1)] by simp
    obtain r' where r': "r_recv (pkt k) r = ([ACK (of_nat k)], r')" "r_at (k + 1) r'"
      using r_advances [OF less.prems(2) k] by blast
    obtain s' where s': "s_recv (ACK (of_nat k)) s = ([pkt (k + 1)], s')" "s_at (k + 1) s'"
      using s_advances [OF less.prems(1) k] by blast
    let ?net = "net \<union> set [ACK (of_nat k)]"
    have st1: "tftp_step s_recv s_timer r_recv r_timer (s, r, net) (s, r', ?net)"
      by (rule receiver_gets [where r_recv = r_recv, OF less.prems(3) r'(1)])
    have st2: "tftp_step s_recv s_timer r_recv r_timer (s, r', ?net) (s', r', ?net \<union> set [pkt (k + 1)])"
      by (rule sender_gets [where s_recv = s_recv, OF _ s'(1)]) simp
    have "n - (k + 1) < n - k" using k by linarith
    then obtain s'' r'' net'' where run: "(tftp_step s_recv s_timer r_recv r_timer)\<^sup>*\<^sup>*
        (s', r', ?net \<union> set [pkt (k + 1)]) (s'', r'', net'')" "r_fin r''"
      using less.hyps [of "k + 1" s' r' "?net \<union> set [pkt (k + 1)]"] s'(2) r'(2) by auto
    from converse_rtranclp_into_rtranclp [OF st1 converse_rtranclp_into_rtranclp [OF st2 run(1)]] run(2)
    show ?thesis by blast
  qed
qed

text \<open>
  Whatever was lost, one retransmission is enough to go on: the packet of the sender reaches the receiver, which takes
  it or acknowledges it again; the acknowledgement of the receiver reaches the sender, which moves on or
  sends its packet again.
\<close>

lemma sender_goes_on:
  assumes "s_at k s" "r_at j r" "j = k \<or> j = k + 1" "s_more s"
  shows "\<exists>s' r' net' k'. (tftp_step s_recv s_timer r_recv r_timer)\<^sup>*\<^sup>* (s, r, net) (s', r', net')
    \<and> s_at k' s' \<and> r_at k' r' \<and> pkt k' \<in> net'"
proof -
  let ?step = "tftp_step s_recv s_timer r_recv r_timer"
  obtain s1 where s1: "s_timer s = ([pkt k], s1)" "s_at k s1" using s_resends [OF assms(1,4)] by blast
  have st1: "?step (s, r, net) (s1, r, net \<union> set [pkt k])" by (rule sender_timer [where s_timer = s_timer, OF s1(1)])
  show ?thesis
  proof (cases "j = k")
    case True
    then show ?thesis using r_into_rtranclp [of ?step, OF st1] s1(2) assms(2) by force
  next
    case False
    then have j: "j = k + 1" using assms(3) by simp
    obtain r1 where r1: "r_recv (pkt k) r = ([ACK (of_nat k)], r1)" "r_at (k + 1) r1"
      using r_repeats [OF assms(1,4)] assms(2) j by blast
    obtain s2 where s2: "s_recv (ACK (of_nat k)) s1 = ([pkt (k + 1)], s2)" "s_at (k + 1) s2"
      using s_advances [OF s1(2)] at_range(2) [OF assms(2)] j by fastforce
    let ?net = "(net \<union> set [pkt k]) \<union> set [ACK (of_nat k)]"
    have st2: "?step (s1, r, net \<union> set [pkt k]) (s1, r1, ?net)"
      by (rule receiver_gets [where r_recv = r_recv, OF _ r1(1)]) simp
    have st3: "?step (s1, r1, ?net) (s2, r1, ?net \<union> set [pkt (k + 1)])"
      by (rule sender_gets [where s_recv = s_recv, OF _ s2(1)]) simp
    have "?step\<^sup>*\<^sup>* (s, r, net) (s2, r1, ?net \<union> set [pkt (k + 1)])"
      using st1 st2 st3 by (meson converse_rtranclp_into_rtranclp rtranclp.rtrancl_refl)
    then show ?thesis using s2(2) r1(2) by force
  qed
qed

lemma receiver_goes_on:
  assumes "s_at k s" "r_at j r" "j = k \<or> j = k + 1" "r_more r"
  shows "\<exists>s' r' net' k'. (tftp_step s_recv s_timer r_recv r_timer)\<^sup>*\<^sup>* (s, r, net) (s', r', net')
    \<and> s_at k' s' \<and> r_at k' r' \<and> pkt k' \<in> net'"
proof -
  let ?step = "tftp_step s_recv s_timer r_recv r_timer"
  obtain r1 where r1: "r_timer r = ([ACK (of_nat (j - 1))], r1)" "r_at j r1" using r_resends [OF assms(2,4)] by blast
  let ?net = "net \<union> set [ACK (of_nat (j - 1))]"
  have st1: "?step (s, r, net) (s, r1, ?net)" by (rule receiver_timer [where r_timer = r_timer, OF r1(1)])
  have "\<exists>s1. s_recv (ACK (of_nat (j - 1))) s = ([pkt j], s1) \<and> s_at j s1"
  proof (cases "j = k")
    case True
    then show ?thesis using s_repeats [OF assms(1)] at_range(2) [OF assms(2)] by simp
  next
    case False
    then show ?thesis using s_advances [OF assms(1)] at_range(2) [OF assms(2)] assms(3) by fastforce
  qed
  then obtain s1 where s1: "s_recv (ACK (of_nat (j - 1))) s = ([pkt j], s1)" "s_at j s1" by blast
  have st2: "?step (s, r1, ?net) (s1, r1, ?net \<union> set [pkt j])"
    by (rule sender_gets [where s_recv = s_recv, OF _ s1(1)]) simp
  have "?step\<^sup>*\<^sup>* (s, r, net) (s1, r1, ?net \<union> set [pkt j])"
    using st1 st2 by (meson converse_rtranclp_into_rtranclp rtranclp.rtrancl_refl)
  then show ?thesis using s1(2) r1(2) by force
qed

lemma never_stuck:
  assumes "together c" "(tftp_step s_recv s_timer r_recv r_timer)\<^sup>*\<^sup>* c (s, r, net)" "s_live s" "r_live r"
    and "s_more s \<or> r_more r"
  shows "\<exists>s' r' net'. (tftp_step s_recv s_timer r_recv r_timer)\<^sup>*\<^sup>* (s, r, net) (s', r', net') \<and> r_fin r'"
proof -
  obtain k j where kj: "s_at k s" "r_at j r" "in_net k j net"
    using togetherD [OF reach_together [OF assms(2,1)] assms(3,4)] by blast
  then have "j = k \<or> j = k + 1" by (simp add: in_net_def)
  then obtain s1 r1 net1 k1 where run: "(tftp_step s_recv s_timer r_recv r_timer)\<^sup>*\<^sup>* (s, r, net) (s1, r1, net1)"
    "s_at k1 s1" "r_at k1 r1" "pkt k1 \<in> net1"
    using sender_goes_on [OF kj(1,2)] receiver_goes_on [OF kj(1,2)] assms(5) by meson
  from completes_at [OF run(2-4)] run(1) show ?thesis by (meson rtranclp_trans)
qed

end

section \<open>The machines are in lockstep\<close>

definition cur_packet :: "byte list \<Rightarrow> nat \<Rightarrow> packet" where
  "cur_packet xs k = (if k = 0 then REQ else DATA (of_nat k) (chunk xs k))"

definition s_at :: "bool \<Rightarrow> byte list \<Rightarrow> nat \<Rightarrow> sender \<Rightarrow> bool" where
  "s_at convert xs k s \<longleftrightarrow> s_status s = Waiting \<and> k \<le> nblocks xs \<and> s_block s = int k
     \<and> (k > 0 \<longrightarrow> s_size s = int (length (chunk xs k))) \<and> r_ready convert xs k (s_bufs s)"

text \<open>A client that receives (\<open>q\<close>) has its request as its last packet before the first block came.\<close>

definition r_at :: "bool \<Rightarrow> bool \<Rightarrow> byte list \<Rightarrow> nat \<Rightarrow> receiver \<Rightarrow> bool" where
  "r_at q convert xs j r \<longleftrightarrow> r_inv convert xs r \<and> r_status r = Waiting \<and> r_block r = int j
     \<and> (r_ack r = ACK (of_nat (j - 1)) \<or> q \<and> j = 1 \<and> r_ack r = REQ)"

lemma chunk_length: "1 \<le> k \<Longrightarrow> k < nblocks xs \<Longrightarrow> length (chunk xs k) = SEGSIZE"
  by (auto simp: chunk_def nblocks_def)

lemma chunk_length_last: "length (chunk xs (nblocks xs)) < SEGSIZE"
  by (simp add: chunk_def nblocks_def)

lemma u16_nat_eq: "k < 2 ^ 16 \<Longrightarrow> (uint (b::u16) = int k) = (b = of_nat k)"
  by (auto simp: word_uint_eq_iff unsigned_of_nat take_bit_nat_eq_self)

lemma send_data_at: "s_at convert xs k s \<Longrightarrow> send_data convert s = ([cur_packet xs k], s)"
  using read_ahead_again [of convert xs k "s_bufs s"]
  by (auto simp: s_at_def send_data_def cur_packet_def r_ready_def holds_def)

lemma send_next_at:
  assumes "s_at convert xs k s" "k < nblocks xs"
  shows "\<exists>s'. send_next convert (s\<lparr>s_block := s_block s + 1\<rparr>) = ([cur_packet xs (k + 1)], s') \<and> s_at convert xs (k + 1) s'"
  using assms send_next_sends [of convert xs k "s\<lparr>s_block := s_block s + 1\<rparr>"]
  by (auto simp: s_at_def cur_packet_def)

lemma s_at_timeout [simp]: "s_at convert xs k (s\<lparr>s_timeout := t\<rparr>) = s_at convert xs k s"
  by (simp add: s_at_def)

lemma send_timer_at:
  assumes "s_at convert xs k s" "send_timer rex mx convert s = (ps, s')" "s_status s' = Waiting"
  shows "s_at convert xs k s' \<and> set ps \<subseteq> {cur_packet xs k}"
  using assms send_data_at [of convert xs k "s\<lparr>s_timeout := s_timeout s + rex\<rparr>"]
  by (auto simp: send_timer_def Let_def split: if_splits)

lemma s_at_next:
  assumes "s_at convert xs k s" "s_size s = int SEGSIZE \<or> k = 0"
    and "send_next convert (s\<lparr>s_block := s_block s + 1\<rparr>) = (ps, s')"
  shows "s_at convert xs (k + 1) s' \<and> ps = [cur_packet xs (k + 1)]"
proof -
  have "k < nblocks xs"
    using assms(1,2) chunk_full [of k xs] by (cases "k = 0") (auto simp: s_at_def nblocks_def)
  then show ?thesis using send_next_at [OF assms(1)] assms(3) by auto
qed

lemma tftpd_send_at:
  assumes "s_at convert xs k s" "tftpd_send_recv convert p s = (ps, s')" "s_status s' = Waiting"
  shows "s_at convert xs k s' \<and> set ps \<subseteq> {cur_packet xs k}
    \<or> p = ACK (of_nat k) \<and> s_at convert xs (k + 1) s' \<and> ps = [cur_packet xs (k + 1)]"
  using assms s_at_next [OF assms(1), of ps s'] send_data_at [OF assms(1)]
  by (cases p) (auto simp: tftpd_send_recv_def s_at_def Let_def split: if_splits)

lemma tftp_send_at:
  assumes "s_at convert xs k s" "nblocks xs < 2 ^ 16" "tftp_send_recv convert p s = (ps, s')" "s_status s' = Waiting"
  shows "s_at convert xs k s' \<and> set ps \<subseteq> {cur_packet xs k}
    \<or> p = ACK (of_nat k) \<and> s_at convert xs (k + 1) s' \<and> ps = [cur_packet xs (k + 1)]"
proof -
  have k: "s_block s = int k" "k < 2 ^ 16" "s_status s = Waiting" using assms(1,2) by (simp_all add: s_at_def)
  show ?thesis
    using assms k s_at_next [OF assms(1), of ps s'] send_data_at [OF assms(1)] u16_nat_eq [OF k(2)]
    by (cases p) (auto simp: tftp_send_recv_def Let_def split: if_splits)
qed

lemma tftpd_send_ack:
  assumes "s_at convert xs k s" "1 \<le> k" "k < nblocks xs"
  shows "\<exists>s'. tftpd_send_recv convert (ACK (of_nat k)) s = ([cur_packet xs (k + 1)], s') \<and> s_at convert xs (k + 1) s'"
  using assms send_next_at [OF assms(1,3)] chunk_length [OF assms(2,3)]
  by (simp add: tftpd_send_recv_def s_at_def)

lemma tftp_send_ack:
  assumes "s_at convert xs k s" "k < nblocks xs" "nblocks xs < 2 ^ 16"
  shows "\<exists>s'. tftp_send_recv convert (ACK (of_nat k)) s = ([cur_packet xs (k + 1)], s') \<and> s_at convert xs (k + 1) s'"
  using assms send_next_at [OF assms(1,2)] chunk_length [of k xs] u16_nat_eq [of k "of_nat k"]
  by (cases "k = 0") (auto simp: tftp_send_recv_def s_at_def)

lemma recv_block_at:
  assumes "r_at q convert xs j r" "good_packet xs (DATA (of_nat j) d)" "fin = Lingering \<or> fin = Done"
    and "recv_block fin convert d (r\<lparr>r_bufs := store_packet (of_nat j) d (r_bufs r)\<rparr>) = (ps, r')"
  shows "length d = SEGSIZE \<Longrightarrow> r_at q convert xs (j + 1) r' \<and> ps = [ACK (of_nat j)]"
    and "length d \<noteq> SEGSIZE \<Longrightarrow> r_status r' = fin"
proof -
  have "j \<le> nblocks xs" "nblocks xs < 2 ^ 16" using assms(1) by (auto simp: r_at_def r_inv_def)
  then have j: "uint (of_nat j :: u16) = int j" by (simp add: unsigned_of_nat take_bit_nat_eq_self)
  have inv: "r_inv convert xs r'"
    using recv_block_ok [OF _ _ assms(2) _ assms(3), of convert r ps r'] assms(1,4) j by (auto simp: r_at_def)
  obtain w where w: "writeit (int (length d)) convert (store_packet (of_nat j) d (r_bufs r)) = (int (length d), w)"
    by (auto simp: writeit_def Let_def)
  have res: "(if int (length d) = int SEGSIZE
      then send_ack convert (r\<lparr>r_bufs := w, r_ack := ACK (of_int (r_block r)), r_block := r_block r + 1, r_timeout := 0\<rparr>)
      else ([ACK (of_int (r_block r))],
        r\<lparr>r_bufs := snd (write_behind convert w), r_ack := ACK (of_int (r_block r)), r_status := fin\<rparr>)) = (ps, r')"
    using assms(4) by (auto simp: recv_block_def w Let_def)
  show "r_at q convert xs (j + 1) r' \<and> ps = [ACK (of_nat j)]" if "length d = SEGSIZE"
    using that assms(1) res inv by (auto simp: r_at_def send_ack_def)
  show "r_status r' = fin" if "length d \<noteq> SEGSIZE" using that res by auto
qed

lemma send_ack_at:
  assumes "r_at q convert xs j r" "send_ack convert r = (ps, r')"
  shows "r_at q convert xs j r' \<and> set ps \<subseteq> {ACK (of_nat (j - 1)), REQ}"
  using assms send_ack_ok [of convert xs r ps r'] by (auto simp: r_at_def send_ack_def)

lemma recv_timer_at:
  assumes "r_at q convert xs j r" "recv_timer rex mx convert r = (ps, r')" "r_status r' = Waiting"
  shows "r_at q convert xs j r' \<and> set ps \<subseteq> {ACK (of_nat (j - 1)), REQ}"
  using assms send_ack_at [of q convert xs j "r\<lparr>r_timeout := r_timeout r + rex\<rparr>" ps r']
  by (auto simp: recv_timer_def r_at_def r_inv_def Let_def split: if_splits)

lemma r_at_store: "r_at q convert xs j r \<Longrightarrow> r_at q convert xs j (r\<lparr>r_bufs := store_packet b d (r_bufs r)\<rparr>)"
  by (auto simp: r_at_def r_inv_def)

lemma recv_at:
  assumes rcv: "recv_waiting fin convert rcv" and fin: "fin = Lingering \<or> fin = Done"
    and at: "r_at q convert xs j r" and res: "good_packet xs p" "rcv p r = (ps, r')" "r_status r' = Waiting"
  shows "r_at q convert xs j r' \<and> set ps \<subseteq> {ACK (of_nat (j - 1)), REQ}
    \<or> (\<exists>d. p = DATA (of_nat j) d) \<and> r_at q convert xs (j + 1) r' \<and> ps = [ACK (of_nat j)]"
proof (cases p)
  case (DATA b d)
  have r: "r_status r = Waiting" "r_block r = int j" "j < 2 ^ 16" using at by (auto simp: r_at_def r_inv_def)
  let ?r = "r\<lparr>r_bufs := store_packet b d (r_bufs r)\<rparr>"
  have eq: "(if b = of_nat j then recv_block fin convert d ?r
      else if uint b = int j - 1 then send_ack convert ?r else ([], ?r)) = (ps, r')"
    using rcv [unfolded recv_waiting_def] res(2) DATA r u16_nat_eq [OF r(3), of b]
    by (auto simp: Let_def split: if_splits)
  show ?thesis
    using eq DATA at res(1,3) fin recv_block_at [OF at, of d fin ps r'] send_ack_at [OF r_at_store [OF at], of b d ps r']
      r_at_store [OF at, of b d]
    by (auto split: if_splits)
qed (use rcv at res in \<open>auto simp: recv_waiting_def r_at_def\<close>)

lemma recv_at_next:
  assumes rcv: "recv_waiting fin convert rcv" and fin: "fin = Lingering \<or> fin = Done" and at: "r_at q convert xs j r"
  shows "j < nblocks xs \<Longrightarrow> \<exists>r'. rcv (cur_packet xs j) r = ([ACK (of_nat j)], r') \<and> r_at q convert xs (j + 1) r'"
    and "j = nblocks xs \<Longrightarrow> \<exists>ps r'. rcv (cur_packet xs j) r = (ps, r') \<and> r_status r' = fin"
proof -
  have r: "r_status r = Waiting" "r_block r = int j" "j < 2 ^ 16" "1 \<le> j" "j \<le> nblocks xs"
    using at by (auto simp: r_at_def r_inv_def)
  let ?r = "r\<lparr>r_bufs := store_packet (of_nat j) (chunk xs j) (r_bufs r)\<rparr>"
  obtain ps r' where res: "recv_block fin convert (chunk xs j) ?r = (ps, r')" by force
  have eq: "rcv (cur_packet xs j) r = (ps, r')"
    using rcv r u16_nat_eq [OF r(3), of "of_nat j"] res by (simp add: recv_waiting_def cur_packet_def Let_def)
  have "good_packet xs (DATA (of_nat j) (chunk xs j))" using r(4,5) by (auto simp: good_packet_def)
  note b = recv_block_at [OF at this fin res]
  show "\<exists>r'. rcv (cur_packet xs j) r = ([ACK (of_nat j)], r') \<and> r_at q convert xs (j + 1) r'" if "j < nblocks xs"
    using b(1) [OF chunk_length [OF r(4) that]] eq by blast
  show "\<exists>ps r'. rcv (cur_packet xs j) r = (ps, r') \<and> r_status r' = fin" if "j = nblocks xs"
    using b(2) chunk_length_last [of xs] that eq by fastforce
qed

text \<open>Repetitions.\<close>

lemma send_timer_more:
  assumes "s_at convert xs k s" "s_timeout s + rex < mx"
  shows "\<exists>s'. send_timer rex mx convert s = ([cur_packet xs k], s') \<and> s_at convert xs k s'"
  using assms send_data_at [of convert xs k "s\<lparr>s_timeout := s_timeout s + rex\<rparr>"]
  by (auto simp: send_timer_def s_at_def Let_def)

lemma recv_timer_more:
  assumes "r_at q convert xs j r" "r_timeout r + rex < mx" "q \<longrightarrow> 1 < r_block r"
  shows "\<exists>r'. recv_timer rex mx convert r = ([ACK (of_nat (j - 1))], r') \<and> r_at q convert xs j r'"
proof -
  let ?r = "r\<lparr>r_timeout := r_timeout r + rex\<rparr>"
  have a: "r_at q convert xs j ?r" using assms(1) by (auto simp: r_at_def r_inv_def)
  obtain ps r' where p: "send_ack convert ?r = (ps, r')" by force
  have "ps = [ACK (of_nat (j - 1))]" using p assms(1,3) by (auto simp: send_ack_def r_at_def)
  moreover have "recv_timer rex mx convert r = (ps, r')"
    using p assms(1,2) by (simp add: recv_timer_def r_at_def Let_def)
  ultimately show ?thesis using send_ack_at [OF a p] by blast
qed

lemma recv_at_again:
  assumes rcv: "recv_waiting fin convert rcv" and at: "r_at q convert xs (k + 1) r" and k: "1 \<le> k"
  shows "\<exists>r'. rcv (cur_packet xs k) r = ([ACK (of_nat k)], r') \<and> r_at q convert xs (k + 1) r'"
proof -
  let ?r = "r\<lparr>r_bufs := store_packet (of_nat k) (chunk xs k) (r_bufs r)\<rparr>"
  have r: "r_status r = Waiting" "r_block r = int k + 1" "k < 2 ^ 16" "r_ack r = ACK (of_nat k)"
    using at k by (auto simp: r_at_def r_inv_def)
  obtain ps r' where p: "send_ack convert ?r = (ps, r')" by force
  have "uint (of_nat k :: u16) = int k" using u16_nat_eq [OF r(3)] by simp
  then have "rcv (cur_packet xs k) r = (ps, r')"
    using rcv r k p by (simp add: recv_waiting_def cur_packet_def Let_def)
  moreover have "ps = [ACK (of_nat k)]" using p r(4) by (simp add: send_ack_def)
  ultimately show ?thesis using send_ack_at [OF r_at_store [OF at] p] by blast
qed

lemma send_at_again:
  assumes "s_at convert xs k s" "1 \<le> k"
  shows "tftpd_send_recv convert (ACK (of_nat (k - 1))) s = ([cur_packet xs k], s)"
    and "nblocks xs < 2 ^ 16 \<Longrightarrow> tftp_send_recv convert (ACK (of_nat (k - 1))) s = ([cur_packet xs k], s)"
proof -
  have s: "s_block s = int k" "s_status s = Waiting" "k \<le> nblocks xs" using assms(1) by (simp_all add: s_at_def)
  have w: "(of_nat (k - 1) :: u16) = of_nat k - 1" using assms(2) by (simp add: of_nat_diff)
  show "tftpd_send_recv convert (ACK (of_nat (k - 1))) s = ([cur_packet xs k], s)"
    using s w send_data_at [OF assms(1)] by (simp add: tftpd_send_recv_def)
  assume "nblocks xs < 2 ^ 16"
  then have "uint (of_nat (k - 1) :: u16) = int k - 1" using u16_nat_eq [of "k - 1" "of_nat (k - 1)"] s(3) assms(2) by simp
  then show "tftp_send_recv convert (ACK (of_nat (k - 1))) s = ([cur_packet xs k], s)"
    using s send_data_at [OF assms(1)] by (simp add: tftp_send_recv_def)
qed

lemma cur_packet_block:
  assumes "k \<le> nblocks xs" "cur_packet xs k = DATA b d"
  shows "uint b \<le> int k"
  using assms by (auto simp: cur_packet_def unsigned_of_nat take_bit_nat_less_eq_self split: if_splits)

lemma cur_packet_good: "k \<le> nblocks xs \<Longrightarrow> good_packet xs (cur_packet xs k)"
  by (auto simp: cur_packet_def good_packet_def intro!: exI [of _ k])

lemma send_end:
  "tftpd_send_recv convert p s = (ps, s') \<Longrightarrow> s_status s' = Waiting \<Longrightarrow> s_status s = Waiting"
  "tftp_send_recv convert p s = (ps, s') \<Longrightarrow> s_status s' = Waiting \<Longrightarrow> s_status s = Waiting"
  "send_timer rex mx convert s = (ps, s') \<Longrightarrow> s_status s' = Waiting \<Longrightarrow> s_status s = Waiting"
  by (auto simp: tftpd_send_recv_def tftp_send_recv_def send_timer_def Let_def split: if_splits)

lemma recv_end:
  "recv_waiting fin convert rcv \<Longrightarrow> rcv p r = (ps, r') \<Longrightarrow> r_status r' = Waiting \<Longrightarrow> r_status r = Waiting"
  "recv_timer rex mx convert r = (ps, r') \<Longrightarrow> r_status r' = Waiting \<Longrightarrow> r_status r = Waiting"
  subgoal unfolding recv_waiting_def by (metis snd_conv)
  subgoal by (auto simp: recv_timer_def Let_def split: if_splits)
  done

lemma r_at_range: "r_at q convert xs j r \<Longrightarrow> 1 \<le> j \<and> j \<le> nblocks xs" "r_at q convert xs j r \<Longrightarrow> nblocks xs < 2 ^ 16"
  by (auto simp: r_at_def r_inv_def)

lemmas tftp_recv_laws =
  recv_end(1) [OF recv_waiting_machines(2)] recv_at [OF recv_waiting_machines(2) disjI2 [OF refl]]
  recv_at_next(1) [OF recv_waiting_machines(2) disjI2 [OF refl]]
  recv_at_next(2) [OF recv_waiting_machines(2) disjI2 [OF refl] _ refl]

lemmas tftpd_recv_laws =
  recv_end(1) [OF recv_waiting_machines(1)] recv_at [OF recv_waiting_machines(1) disjI1 [OF refl]]
  recv_at_next(1) [OF recv_waiting_machines(1) disjI1 [OF refl]]
  recv_at_next(2) [OF recv_waiting_machines(1) disjI1 [OF refl] _ refl]

lemmas lockstep_laws =
  cur_packet_good good_packet_simps cur_packet_block send_end recv_end(2) recv_timer_at r_at_range

interpretation download_steps: tftp_lockstep "nblocks xs" "cur_packet xs" "good_packet xs"
    "\<lambda>s. s_status s = Waiting" "\<lambda>k s. 1 \<le> k \<and> s_at convert xs k s"
    "\<lambda>s. s_timeout s + rex < mx" "\<lambda>r. r_timeout r + rex' < mx' \<and> 1 < r_block r" "tftpd_send_recv convert" "send_timer rex mx convert"
    "\<lambda>r. r_status r = Waiting" "r_at True convert xs" "\<lambda>r. r_status r = Done" "tftp_recv_recv convert" "recv_timer rex' mx' convert"
  for xs convert rex mx rex' mx'
proof unfold_locales
  show "1 \<le> k \<and> s_at convert xs k s \<Longrightarrow> k \<le> nblocks xs" for k s by (simp add: s_at_def)
  show "1 \<le> k \<and> s_at convert xs k s \<Longrightarrow> k < nblocks xs \<Longrightarrow>
      \<exists>s'. tftpd_send_recv convert (ACK (of_nat k)) s = ([cur_packet xs (k + 1)], s') \<and> 1 \<le> k + 1 \<and> s_at convert xs (k + 1) s'" for k s
    using tftpd_send_ack [of convert xs k s] by simp
  show "cur_packet xs k \<noteq> ACK b" for k b by (simp add: cur_packet_def)
  show "1 \<le> k \<and> s_at convert xs k s \<Longrightarrow> tftpd_send_recv convert p s = (ps, s') \<Longrightarrow> s_status s' = Waiting \<Longrightarrow>
      (1 \<le> k \<and> s_at convert xs k s') \<and> set ps \<subseteq> {cur_packet xs k}
      \<or> p = ACK (of_nat k) \<and> (1 \<le> k + 1 \<and> s_at convert xs (k + 1) s') \<and> ps = [cur_packet xs (k + 1)]" for k s p ps s'
    using tftpd_send_at [of convert xs k s p ps s'] by auto
  show "1 \<le> k \<and> s_at convert xs k s \<Longrightarrow> send_timer rex mx convert s = (ps, s') \<Longrightarrow> s_status s' = Waiting \<Longrightarrow>
      (1 \<le> k \<and> s_at convert xs k s') \<and> set ps \<subseteq> {cur_packet xs k}" for k s ps s'
    using send_timer_at [of convert xs k s rex mx ps s'] by blast
  show "1 \<le> k \<and> s_at convert xs k s \<Longrightarrow> s_timeout s + rex < mx \<Longrightarrow>
      \<exists>s'. send_timer rex mx convert s = ([cur_packet xs k], s') \<and> 1 \<le> k \<and> s_at convert xs k s'" for k s
    using send_timer_more [of convert xs k s rex mx] by blast
  show "r_at True convert xs j r \<Longrightarrow> r_timeout r + rex' < mx' \<and> 1 < r_block r \<Longrightarrow>
      \<exists>r'. recv_timer rex' mx' convert r = ([ACK (of_nat (j - 1))], r') \<and> r_at True convert xs j r'" for j r
    using recv_timer_more [of True convert xs j r rex' mx'] by blast
  show "1 \<le> k \<and> s_at convert xs k s \<Longrightarrow> s_timeout s + rex < mx \<Longrightarrow> r_at True convert xs (k + 1) r \<Longrightarrow>
      \<exists>r'. tftp_recv_recv convert (cur_packet xs k) r = ([ACK (of_nat k)], r') \<and> r_at True convert xs (k + 1) r'" for k s r
    using recv_at_again [OF recv_waiting_machines(2), of True convert xs k r] by blast
  show "1 \<le> k \<and> s_at convert xs k s \<Longrightarrow> 1 \<le> k \<Longrightarrow>
      \<exists>s'. tftpd_send_recv convert (ACK (of_nat (k - 1))) s = ([cur_packet xs k], s') \<and> 1 \<le> k \<and> s_at convert xs k s'" for k s
    using send_at_again(1) [of convert xs k s] by blast
qed (rule lockstep_laws tftp_recv_laws; assumption)+

interpretation upload_steps: tftp_lockstep "nblocks xs" "cur_packet xs" "good_packet xs"
    "\<lambda>s. s_status s = Waiting" "\<lambda>k s. nblocks xs < 2 ^ 16 \<and> s_at convert xs k s"
    "\<lambda>s. s_timeout s + rex < mx \<and> 1 \<le> s_block s" "\<lambda>r. r_timeout r + rex' < mx'" "tftp_send_recv convert" "send_timer rex mx convert"
    "\<lambda>r. r_status r = Waiting" "r_at False convert xs" "\<lambda>r. r_status r = Lingering" "tftpd_recv_recv convert" "recv_timer rex' mx' convert"
  for xs convert rex mx rex' mx'
proof unfold_locales
  show "nblocks xs < 2 ^ 16 \<and> s_at convert xs k s \<Longrightarrow> k \<le> nblocks xs" for k s by (simp add: s_at_def)
  show "nblocks xs < 2 ^ 16 \<and> s_at convert xs k s \<Longrightarrow> k < nblocks xs \<Longrightarrow>
      \<exists>s'. tftp_send_recv convert (ACK (of_nat k)) s = ([cur_packet xs (k + 1)], s')
        \<and> nblocks xs < 2 ^ 16 \<and> s_at convert xs (k + 1) s'" for k s
    using tftp_send_ack [of convert xs k s] by blast
  show "cur_packet xs k \<noteq> ACK b" for k b by (simp add: cur_packet_def)
  show "nblocks xs < 2 ^ 16 \<and> s_at convert xs k s \<Longrightarrow> tftp_send_recv convert p s = (ps, s') \<Longrightarrow> s_status s' = Waiting \<Longrightarrow>
      (nblocks xs < 2 ^ 16 \<and> s_at convert xs k s') \<and> set ps \<subseteq> {cur_packet xs k}
      \<or> p = ACK (of_nat k) \<and> (nblocks xs < 2 ^ 16 \<and> s_at convert xs (k + 1) s') \<and> ps = [cur_packet xs (k + 1)]" for k s p ps s'
    using tftp_send_at [of convert xs k s p ps s'] by blast
  show "nblocks xs < 2 ^ 16 \<and> s_at convert xs k s \<Longrightarrow> send_timer rex mx convert s = (ps, s') \<Longrightarrow> s_status s' = Waiting \<Longrightarrow>
      (nblocks xs < 2 ^ 16 \<and> s_at convert xs k s') \<and> set ps \<subseteq> {cur_packet xs k}" for k s ps s'
    using send_timer_at [of convert xs k s rex mx ps s'] by blast
  show "nblocks xs < 2 ^ 16 \<and> s_at convert xs k s \<Longrightarrow> s_timeout s + rex < mx \<and> 1 \<le> s_block s \<Longrightarrow>
      \<exists>s'. send_timer rex mx convert s = ([cur_packet xs k], s') \<and> nblocks xs < 2 ^ 16 \<and> s_at convert xs k s'" for k s
    using send_timer_more [of convert xs k s rex mx] by blast
  show "r_at False convert xs j r \<Longrightarrow> r_timeout r + rex' < mx' \<Longrightarrow>
      \<exists>r'. recv_timer rex' mx' convert r = ([ACK (of_nat (j - 1))], r') \<and> r_at False convert xs j r'" for j r
    using recv_timer_more [of False convert xs j r rex' mx'] by blast
  show "nblocks xs < 2 ^ 16 \<and> s_at convert xs k s \<Longrightarrow> s_timeout s + rex < mx \<and> 1 \<le> s_block s \<Longrightarrow> r_at False convert xs (k + 1) r \<Longrightarrow>
      \<exists>r'. tftpd_recv_recv convert (cur_packet xs k) r = ([ACK (of_nat k)], r') \<and> r_at False convert xs (k + 1) r'" for k s r
    using recv_at_again [OF recv_waiting_machines(1), of False convert xs k r] by (simp add: s_at_def)
  show "nblocks xs < 2 ^ 16 \<and> s_at convert xs k s \<Longrightarrow> 1 \<le> k \<Longrightarrow>
      \<exists>s'. tftp_send_recv convert (ACK (of_nat (k - 1))) s = ([cur_packet xs k], s') \<and> nblocks xs < 2 ^ 16 \<and> s_at convert xs k s'" for k s
    using send_at_again(2) [of convert xs k s] by blast
qed (rule lockstep_laws tftpd_recv_laws; assumption)+

section \<open>Whole transfers\<close>

text \<open>The states a download, from the server to the client, can reach from its start.\<close>

definition download_start :: "bool \<Rightarrow> tftpbufs \<Rightarrow> tftpbufs \<Rightarrow> sender \<times> receiver \<times> packet set" where
  "download_start convert b b' =
     (case tftpd_send_start convert b of (ps, s) \<Rightarrow>
      case tftp_recv_start convert b' of (qs, r) \<Rightarrow> (s, r, set ps \<union> set qs))"

definition upload_start :: "int \<Rightarrow> bool \<Rightarrow> tftpbufs \<Rightarrow> tftpbufs \<Rightarrow> sender \<times> receiver \<times> packet set" where
  "upload_start reqlen convert b b' =
     (case tftp_send_start reqlen convert b of (ps, s) \<Rightarrow>
      case tftpd_recv_start convert b' of (qs, r) \<Rightarrow> (s, r, set ps \<union> set qs))"

abbreviation download_step where
  "download_step rex mx rex' mx' convert \<equiv> tftp_step (tftpd_send_recv convert) (send_timer rex mx convert)
     (tftp_recv_recv convert) (recv_timer rex' mx' convert)"

abbreviation upload_step where
  "upload_step rex mx rex' mx' convert \<equiv> tftp_step (tftp_send_recv convert) (send_timer rex mx convert)
     (tftpd_recv_recv convert) (recv_timer rex' mx' convert)"

lemma recv_start_at:
  assumes "outfile b = []" "nblocks xs < 2 ^ 16"
  shows "r_at False convert xs 1 (snd (tftpd_recv_start convert b))" "r_at True convert xs 1 (snd (tftp_recv_start convert b))"
  using recv_start_ok [OF assms] by (simp_all add: r_at_def tftpd_recv_start_def tftp_recv_start_def)

lemma tftpd_send_start_at:
  assumes "infile b = Some f" "xs = tftp_stream convert f"
  shows "\<exists>s. tftpd_send_start convert b = ([cur_packet xs 1], s) \<and> s_at convert xs 1 s"
proof -
  obtain n c where n: "readit convert (r_init b) = (n, c)" by force
  note r = readit_init [OF assms(1), of convert, unfolded n fst_conv snd_conv]
  have "th_data (bfs c (current c)) = chunk xs 1" using r(2) assms(2) by (simp add: r_mid_def holds_def)
  then show ?thesis
    using r read_ahead_mid [OF r(2)] assms(2)
    by (simp add: tftpd_send_start_def send_next_def n send_data_def s_at_def cur_packet_def nblocks_def)
qed

lemma tftp_send_start_at:
  assumes "infile b = Some f" "xs = tftp_stream convert f"
  shows "\<exists>s. tftp_send_start reqlen convert b = ([cur_packet xs 0], s) \<and> s_at convert xs 0 s"
  using read_ahead_mid [OF r_init_stream [OF assms(1), of convert]] assms(2)
  by (simp add: tftp_send_start_def send_data_def s_at_def cur_packet_def)

lemma download_start_together:
  assumes "infile b = Some f" "xs = tftp_stream convert f" "outfile b' = []" "nblocks xs < 2 ^ 16"
  shows "download_steps.together xs convert (download_start convert b b')"
proof -
  obtain s where s: "tftpd_send_start convert b = ([cur_packet xs 1], s)" "s_at convert xs 1 s"
    using tftpd_send_start_at [OF assms(1,2)] by blast
  obtain r where r: "tftp_recv_start convert b' = ([REQ], r)" "r_at True convert xs 1 r"
    using recv_start_at(2) [OF assms(3,4), of convert] by (simp add: tftp_recv_start_def)
  have "download_steps.in_net xs 1 1 (set [cur_packet xs 1] \<union> set [REQ])"
    using cur_packet_good [of 1 xs] by (simp add: download_steps.in_net_def cur_packet_def nblocks_def)
  then have "\<exists>k j. (1 \<le> k \<and> s_at convert xs k s) \<and> r_at True convert xs j r
      \<and> download_steps.in_net xs k j (set [cur_packet xs 1] \<union> set [REQ])"
    using s(2) r(2) by blast
  then show ?thesis
    unfolding download_start_def s(1) r(1) prod.case by (intro download_steps.togetherI)
qed

lemma upload_start_together:
  assumes "infile b = Some f" "xs = tftp_stream convert f" "outfile b' = []" "nblocks xs < 2 ^ 16"
  shows "upload_steps.together xs convert (upload_start reqlen convert b b')"
proof -
  obtain s where s: "tftp_send_start reqlen convert b = ([cur_packet xs 0], s)" "s_at convert xs 0 s"
    using tftp_send_start_at [OF assms(1,2)] by blast
  obtain r where r: "tftpd_recv_start convert b' = ([ACK 0], r)" "r_at False convert xs 1 r"
    using recv_start_at(1) [OF assms(3,4), of convert] by (simp add: tftpd_recv_start_def)
  have "upload_steps.in_net xs 0 1 (set [cur_packet xs 0] \<union> set [ACK 0])"
    by (simp add: upload_steps.in_net_def cur_packet_def)
  then have "\<exists>k j. (nblocks xs < 2 ^ 16 \<and> s_at convert xs k s) \<and> r_at False convert xs j r
      \<and> upload_steps.in_net xs k j (set [cur_packet xs 0] \<union> set [ACK 0])"
    using s(2) r(2) assms(4) by blast
  then show ?thesis
    unfolding upload_start_def s(1) r(1) prod.case by (intro upload_steps.togetherI)
qed

lemma download_start_inv:
  assumes "infile b = Some f" "xs = tftp_stream convert f" "outfile b' = []" "nblocks xs < 2 ^ 16"
    and "download_start convert b b' = (s, r, net)"
  shows "s_inv convert xs s \<and> r_inv convert xs r \<and> (\<forall>q\<in>net. good_packet xs q)"
  using assms tftpd_send_start_ok [OF assms(1), of convert] recv_start_ok(2) [OF assms(3,4), of convert]
  by (auto simp: download_start_def tftp_recv_start_def split: prod.splits)

lemma upload_start_inv:
  assumes "infile b = Some f" "xs = tftp_stream convert f" "outfile b' = []" "nblocks xs < 2 ^ 16"
    and "upload_start reqlen convert b b' = (s, r, net)"
  shows "s_inv convert xs s \<and> r_inv convert xs r \<and> (\<forall>q\<in>net. good_packet xs q)"
  using assms tftp_send_start_ok [OF assms(1), of reqlen convert] recv_start_ok(1) [OF assms(3,4), of convert]
  by (auto simp: upload_start_def tftpd_recv_start_def split: prod.splits)

lemma transfers_start_live:
  assumes "infile b = Some f"
  shows "\<exists>s r net. download_start convert b b' = (s, r, net) \<and> s_status s = Waiting \<and> r_status r = Waiting \<and> s_timeout s = 0"
    and "\<exists>s r net. upload_start reqlen convert b b' = (s, r, net) \<and> s_status s = Waiting \<and> r_status r = Waiting \<and> r_timeout r = 0"
proof -
  obtain s where s: "tftpd_send_start convert b = ([cur_packet (tftp_stream convert f) 1], s)" "s_at convert (tftp_stream convert f) 1 s"
    using tftpd_send_start_at [OF assms refl, of convert] by blast
  then have "s_timeout s = 0"
    by (auto simp: tftpd_send_start_def send_next_def send_data_def s_at_def split: prod.splits if_splits)
  with s show "\<exists>s r net. download_start convert b b' = (s, r, net) \<and> s_status s = Waiting \<and> r_status r = Waiting \<and> s_timeout s = 0"
    by (auto simp: download_start_def tftp_recv_start_def s_at_def)
  show "\<exists>s r net. upload_start reqlen convert b b' = (s, r, net) \<and> s_status s = Waiting \<and> r_status r = Waiting \<and> r_timeout r = 0"
    using tftp_send_start_at [OF assms refl, of reqlen convert] by (auto simp: upload_start_def tftpd_recv_start_def s_at_def)
qed

text \<open>The machines start with the buffers of the file \<open>tftpsubs.c\<close>, which the loader has set to zero.\<close>

definition start_bufs :: "byte list option \<Rightarrow> tftpbufs" where
  "start_bufs file =
     \<lparr>bfs = \<lambda>_. \<lparr>counter = 0, th_opcode = 0, th_block = 0, th_data = []\<rparr>, nextone = False, current = False,
      newline = False, prevchar = -1, infile = file, outfile = []\<rparr>"

lemma start_bufs_simps [simp]: "infile (start_bufs file) = file" "outfile (start_bufs file) = []"
  "th_opcode (bfs (start_bufs file) i) = 0"
  by (simp_all add: start_bufs_def)

abbreviation download where
  "download f convert \<equiv> download_start convert (start_bufs (Some f)) (start_bufs None)"

abbreviation upload where
  "upload f reqlen convert \<equiv> upload_start reqlen convert (start_bufs (Some f)) (start_bufs None)"

lemma download_reach:
  assumes "nblocks (tftp_stream convert f) < 2 ^ 16"
    and "(download_step rex mx rex' mx' convert)\<^sup>*\<^sup>* (download f convert) (s, r, net)"
  shows "r_inv convert (tftp_stream convert f) r"
proof -
  obtain s0 r0 net0 where start: "download f convert = (s0, r0, net0)" by (metis prod_cases3)
  show ?thesis
    using download.reach_keeps [OF assms(2) [unfolded start]] download_start_inv [OF _ refl _ assms(1) start] by simp
qed

lemma upload_reach:
  assumes "nblocks (tftp_stream convert f) < 2 ^ 16"
    and "(upload_step rex mx rex' mx' convert)\<^sup>*\<^sup>* (upload f reqlen convert) (s, r, net)"
  shows "r_inv convert (tftp_stream convert f) r"
proof -
  obtain s0 r0 net0 where start: "upload f reqlen convert = (s0, r0, net0)" by (metis prod_cases3)
  show ?thesis
    using upload.reach_keeps [OF assms(2) [unfolded start]] upload_start_inv [OF _ refl _ assms(1) start] by simp
qed

lemma r_inv_file: "r_inv convert (tftp_stream convert f) r \<Longrightarrow> r_status r = Lingering \<or> r_status r = Done \<Longrightarrow>
    outfile (r_bufs r) = f"
  by (auto simp: r_inv_def absorb_stream)

lemma download_completes:
  assumes "nblocks (tftp_stream convert f) < 2 ^ 16"
    and "(download_step rex mx rex' mx' convert)\<^sup>*\<^sup>* (download f convert) (s, r, net)"
    and "s_status s = Waiting" "r_status r = Waiting" "s_timeout s + rex < mx \<or> r_timeout r + rex' < mx' \<and> 1 < r_block r"
  shows "\<exists>s' r' net'. (download_step rex mx rex' mx' convert)\<^sup>*\<^sup>* (s, r, net) (s', r', net') \<and> r_status r' = Done"
  by (rule download_steps.never_stuck [OF download_start_together [OF _ refl _ assms(1)] assms(2-5)]) simp_all

lemma upload_completes:
  assumes "nblocks (tftp_stream convert f) < 2 ^ 16"
    and "(upload_step rex mx rex' mx' convert)\<^sup>*\<^sup>* (upload f reqlen convert) (s, r, net)"
    and "s_status s = Waiting" "r_status r = Waiting" "s_timeout s + rex < mx \<and> 1 \<le> s_block s \<or> r_timeout r + rex' < mx'"
  shows "\<exists>s' r' net'. (upload_step rex mx rex' mx' convert)\<^sup>*\<^sup>* (s, r, net) (s', r', net') \<and> r_status r' = Lingering"
  by (rule upload_steps.never_stuck [OF upload_start_together [OF _ refl _ assms(1)] assms(2-5)]) simp_all

lemma download_from_start:
  assumes "nblocks (tftp_stream convert f) < 2 ^ 16" "rex < mx"
  shows "\<exists>s r net. (download_step rex mx rex' mx' convert)\<^sup>*\<^sup>* (download f convert) (s, r, net) \<and> r_status r = Done"
proof -
  obtain s r net where start: "download f convert = (s, r, net)" "s_status s = Waiting" "r_status r = Waiting" "s_timeout s = 0"
    using transfers_start_live(1) [of "start_bufs (Some f)" f convert "start_bufs None"] by auto
  then show ?thesis using download_completes [OF assms(1), of rex mx rex' mx' s r net] assms(2) by simp
qed

lemma upload_from_start:
  assumes "nblocks (tftp_stream convert f) < 2 ^ 16" "rex' < mx'"
  shows "\<exists>s r net. (upload_step rex mx rex' mx' convert)\<^sup>*\<^sup>* (upload f reqlen convert) (s, r, net) \<and> r_status r = Lingering"
proof -
  obtain s r net where start: "upload f reqlen convert = (s, r, net)" "s_status s = Waiting" "r_status r = Waiting" "r_timeout r = 0"
    using transfers_start_live(2) [of "start_bufs (Some f)" f reqlen convert "start_bufs None"] by auto
  then show ?thesis using upload_completes [OF assms(1), of rex mx rex' mx' reqlen s r net] assms(2) by simp
qed

text \<open>
  (C8) A download in either mode, over a network that may lose, repeat, delay and reorder packets and
  with timers that may run out at any time: whenever the client has finished, it has written the file
  of the server, byte for byte.  The file is one of fewer than 65536 blocks.
\<close>

theorem tftp_download:
  assumes "nblocks (tftp_stream convert f) < 2 ^ 16"
    and "(download_step rex mx rex' mx' convert)\<^sup>*\<^sup>* (download f convert) (s, r, net)"
    and "r_status r = Done"
  shows "outfile (r_bufs r) = f"
  using r_inv_file [OF download_reach [OF assms(1,2)]] assms(3) by blast

theorem tftp_download_witness:
  "\<exists>s r net. (download_step 5 25 5 25 True)\<^sup>*\<^sup>* (download [72, 13, 10] True) (s, r, net)
     \<and> r_status r = Done \<and> outfile (r_bufs r) = [72, 13, 10]"
proof -
  have n: "nblocks (tftp_stream True [72, 13, 10]) < 2 ^ 16"
    by (simp add: nblocks_def tftp_stream_def netascii_char_def)
  show ?thesis
    using download_from_start [OF n, of 5 25 5 25] tftp_download [OF n, of 5 25 5 25] by force
qed

text \<open>
  (C12) The same for an upload: when the server of \<open>recvfile\<close> has sent its final acknowledgement, the
  file it has written is the file of the client.
\<close>

theorem tftp_upload:
  assumes "nblocks (tftp_stream convert f) < 2 ^ 16"
    and "(upload_step rex mx rex' mx' convert)\<^sup>*\<^sup>* (upload f reqlen convert) (s, r, net)"
    and "r_status r = Lingering \<or> r_status r = Done"
  shows "outfile (r_bufs r) = f"
  using r_inv_file [OF upload_reach [OF assms(1,2)] assms(3)] .

theorem tftp_upload_witness:
  "\<exists>s r net. (upload_step 5 25 5 25 True)\<^sup>*\<^sup>* (upload [72, 13, 10] 13 True) (s, r, net)
     \<and> r_status r = Lingering \<and> outfile (r_bufs r) = [72, 13, 10]"
proof -
  have n: "nblocks (tftp_stream True [72, 13, 10]) < 2 ^ 16"
    by (simp add: nblocks_def tftp_stream_def netascii_char_def)
  show ?thesis
    using upload_from_start [OF n, of 5 25 5 25 13] tftp_upload [OF n, of 5 25 5 25 13] by force
qed





section \<open>The final acknowledgement\<close>

text \<open>The header in the buffer that is not waiting for a packet is that of an earlier block.\<close>

definition older :: "int \<Rightarrow> bf \<Rightarrow> bool" where
  "older n b \<longleftrightarrow> th_opcode b = OP_DATA \<longrightarrow> uint (th_block b) < n"

definition hdr_inv :: "receiver \<Rightarrow> bool" where
  "hdr_inv r \<longleftrightarrow>
     (r_status r = Waiting \<longrightarrow> older (r_block r) (bfs (r_bufs r) (\<not> current (r_bufs r))))
     \<and> (r_status r = Lingering \<longrightarrow> older (r_block r) (bfs (r_bufs r) (current (r_bufs r))))"

lemma older_counter [simp]: "older n (b\<lparr>counter := c\<rparr>) = older n b"
  by (simp add: older_def)

lemma write_behind_hdr [simp]:
  "current (snd (write_behind convert b)) = current b"
  "older n (bfs (snd (write_behind convert b)) i) = older n (bfs b i)"
  by (auto simp: write_behind_def set_counter_def Let_def split: prod.splits)

lemma writeit_hdr:
  "current (snd (writeit ct convert b)) = (\<not> current b)"
  "older n (bfs (snd (writeit ct convert b)) i) = older n (bfs b i)"
  by (auto simp: writeit_def set_counter_def Let_def)

lemma send_ack_hdr: "hdr_inv r \<Longrightarrow> hdr_inv (snd (send_ack convert r))"
  by (simp add: send_ack_def hdr_inv_def)

lemma store_hdr: "r_status r = Waiting \<Longrightarrow> hdr_inv r \<Longrightarrow> hdr_inv (r\<lparr>r_bufs := store_packet b d (r_bufs r)\<rparr>)"
  by (simp add: hdr_inv_def store_packet_def)

lemma recv_block_hdr:
  assumes "r_status r = Waiting" "hdr_inv r" "uint b = r_block r" "fin = Lingering"
  shows "hdr_inv (snd (recv_block fin convert d (r\<lparr>r_bufs := store_packet b d (r_bufs r)\<rparr>)))"
proof -
  obtain sz w where w: "writeit (int (length d)) convert (store_packet b d (r_bufs r)) = (sz, w)" by force
  have c: "current w = (\<not> current (r_bufs r))"
    using writeit_hdr(1) [of "int (length d)" convert "store_packet b d (r_bufs r)"] by (simp add: w)
  have o: "older n (bfs w i) = older n (bfs (store_packet b d (r_bufs r)) i)" for n i
    using writeit_hdr(2) [of n "int (length d)" convert "store_packet b d (r_bufs r)" i] by (simp add: w)
  have "older (r_block r + 1) (bfs (store_packet b d (r_bufs r)) (current (r_bufs r)))"
    using assms(3) by (simp add: older_def store_packet_def)
  moreover have "older (r_block r) (bfs (store_packet b d (r_bufs r)) (\<not> current (r_bufs r)))"
    using assms(1,2) by (simp add: hdr_inv_def store_packet_def)
  ultimately show ?thesis
    using assms(1,4) by (simp add: recv_block_def send_ack_def hdr_inv_def w o c Let_def)
qed

lemma tftpd_recv_hdr: "hdr_inv r \<Longrightarrow> hdr_inv (snd (tftpd_recv_recv convert p r))"
  by (auto simp: tftpd_recv_recv_def recv_block_hdr send_ack_hdr store_hdr Let_def hdr_inv_def [of "_\<lparr>r_status := _\<rparr>"]
      split: packet.split)

lemma recv_timer_hdr: "hdr_inv r \<Longrightarrow> hdr_inv (snd (recv_timer rex mx convert r))"
  using send_ack_hdr [of "r\<lparr>r_timeout := r_timeout r + rex\<rparr>" convert]
  by (auto simp: recv_timer_def Let_def hdr_inv_def)

lemma upload_hdr:
  assumes "(upload_step rex mx rex' mx' convert)\<^sup>*\<^sup>* (upload f reqlen convert) (s, r, net)"
  shows "hdr_inv r"
proof -
  have "hdr_inv (fst (snd c))" if "(upload_step rex mx rex' mx' convert)\<^sup>*\<^sup>* (upload f reqlen convert) c" for c
    using that
  proof (induction rule: rtranclp_induct)
    case base
    show ?case
      by (auto simp: upload_start_def tftpd_recv_start_def hdr_inv_def write_behind_idle [OF w_init_ready] split: prod.split)
        (auto simp: older_def w_init_def rw_init_def set_counter_def)
  next
    case (step c c')
    from step(2,3) show ?case
      by (induction rule: tftp_step.induct) (simp_all, metis tftpd_recv_hdr snd_conv, metis recv_timer_hdr snd_conv)
  qed
  from this [OF assms] show ?thesis by simp
qed

text \<open>
  The final acknowledgement of an upload is sent once and never again: the server waits for a
  repetition of the last block, but it looks for it in the buffer of the block before, so that no
  packet whatever makes it answer.
\<close>

theorem final_ack_not_repeated:
  assumes "(upload_step rex mx rex' mx' convert)\<^sup>*\<^sup>* (upload f reqlen convert) (s, r, net)" "r_status r = Lingering"
  shows "\<forall>p. fst (tftpd_recv_recv convert p r) = []"
  using upload_hdr [OF assms(1)] assms(2) by (auto simp: hdr_inv_def older_def tftpd_recv_recv_def Let_def)

theorem final_ack_not_repeated_witness:
  "\<exists>s r net. (upload_step 5 25 5 25 False)\<^sup>*\<^sup>* (upload [7] 12 False) (s, r, net)
     \<and> r_status r = Lingering \<and> fst (tftpd_recv_recv False (DATA 1 [7]) r) = []"
proof -
  have "nblocks (tftp_stream False [7]) < 2 ^ 16" by (simp add: nblocks_def tftp_stream_def)
  from upload_from_start [OF this, of 5 25 5 25 12] show ?thesis
    using final_ack_not_repeated [where convert = False and f = "[7]" and reqlen = 12] by force
qed

section \<open>Files of 65536 blocks and more\<close>

text \<open>
  The block number of a packet has 16 bits, the counter of a receiver more: once it waits for block
  65536 neither receiver accepts any packet, and its counter stays where it is, although
  \<open>send_file\<close> of the server goes on with block 0.
\<close>

theorem receivers_stop_at_65536:
  assumes "r_status r = Waiting" "r_block r \<ge> 2 ^ 16"
  shows "r_block (snd (tftp_recv_recv convert p r)) = r_block r
    \<and> r_block (snd (tftpd_recv_recv convert p r)) = r_block r
    \<and> r_status (snd (tftp_recv_recv convert p r)) \<in> {Waiting, Aborted}
    \<and> r_status (snd (tftpd_recv_recv convert p r)) \<in> {Waiting, Aborted}"
proof -
  have "uint (b::u16) \<noteq> r_block r" for b using uint_lt2p [of b] assms(2) by simp
  then show ?thesis
    using assms(1) by (cases p) (simp_all add: tftp_recv_recv_def tftpd_recv_recv_def send_ack_def Let_def)
qed

theorem receivers_stop_at_65536_witness:
  "\<exists>r. r_block r = 65536 \<and> r_status r = Waiting \<and> r_block (snd (tftp_recv_recv False (DATA 0 [1]) r)) = 65536
     \<and> r_status (snd (tftp_recv_recv False (DATA 0 [1]) r)) \<noteq> Done"
  using receivers_stop_at_65536 [of "(snd (tftp_recv_start False (start_bufs None)))\<lparr>r_block := 65536\<rparr>" False "DATA 0 [1]"]
  by (intro exI [of _ "(snd (tftp_recv_start False (start_bufs None)))\<lparr>r_block := 65536\<rparr>"]) (auto simp: tftp_recv_start_def)

end
