(* ===== verification/Tftp_Request.thy ===== *)
theory Tftp_Request
  imports Prelude
begin

text \<open>
  The requests of TFTP: how the client of \<open>src/tftp.c\<close> writes one (\<open>makerequest\<close>), and how the server of
  \<open>src/tftpd.c\<close> reads it (\<open>tftp\<close>), decides whether the file may be used (\<open>validate_access\<close>) and
  refuses it (\<open>nak\<close>).  Strings are lists of characters without the null character that ends them in C.
  The file system is a parameter: \<open>stat\<close> gives \<open>errno\<close> or the mode of the file, \<open>opn\<close> (open and
  \<open>fdopen\<close>) gives \<open>errno\<close> when it fails.  Memory for a path name is always available.
\<close>

section \<open>Constants\<close>

abbreviation (input) RRQ :: int where "RRQ \<equiv> 1"
abbreviation (input) WRQ :: int where "WRQ \<equiv> 2"
abbreviation (input) EUNDEF :: int where "EUNDEF \<equiv> 0"
abbreviation (input) ENOTFOUND :: int where "ENOTFOUND \<equiv> 1"
abbreviation (input) EACCESS :: int where "EACCESS \<equiv> 2"
abbreviation (input) EBADOP :: int where "EBADOP \<equiv> 4"
abbreviation (input) ENOENT :: int where "ENOENT \<equiv> 2"
abbreviation (input) MAXDIRS :: nat where "MAXDIRS \<equiv> 20"
abbreviation (input) PKTSIZE :: nat where "PKTSIZE \<equiv> 516"
abbreviation (input) NUL :: char where "NUL \<equiv> CHR 0x00"
abbreviation (input) S_IFMT :: u32 where "S_IFMT \<equiv> 0xF000"
abbreviation (input) S_IFREG :: u32 where "S_IFREG \<equiv> 0x8000"
abbreviation (input) S_IROTH :: u32 where "S_IROTH \<equiv> 4"
abbreviation (input) S_IWOTH :: u32 where "S_IWOTH \<equiv> 2"

section \<open>Access\<close>

text \<open>The directories of the command line, at most \<open>n\<close> of them; relative names are skipped.\<close>

fun get_dirs :: "nat \<Rightarrow> string list \<Rightarrow> string list" where
  "get_dirs 0 argv = []"
| "get_dirs (Suc n) [] = []"
| "get_dirs (Suc n) (a # argv) =
     (if a \<noteq> [] \<and> hd a = CHR ''/'' then a # get_dirs n argv else get_dirs (Suc n) argv)"

fun strstr :: "string \<Rightarrow> string \<Rightarrow> bool" where
  "strstr [] p = (p = [])"
| "strstr (c # s) p = (take (length p) (c # s) = p \<or> strstr s p)"

definition in_dir :: "string \<Rightarrow> string \<Rightarrow> bool" where
  "in_dir filename d \<longleftrightarrow>
     length d = 1
     \<or> take (length d) filename = d \<and> length d < length filename \<and> filename ! length d = CHR ''/''"

definition regular :: "u32 \<Rightarrow> bool" where
  "regular m \<longleftrightarrow> m AND S_IFMT = S_IFREG"

text \<open>A relative name is looked for in the directories, in order.\<close>

fun search_dirs :: "(string \<Rightarrow> int + u32) \<Rightarrow> string \<Rightarrow> string list \<Rightarrow> int \<Rightarrow> int + string" where
  "search_dirs stat filename [] err = Inl err"
| "search_dirs stat filename (d # ds) err =
     (let pathname = d @ ''/'' @ filename
      in case stat pathname of
           Inr m \<Rightarrow>
             if regular m then
               if m AND S_IROTH \<noteq> 0 then Inr pathname else search_dirs stat filename ds EACCESS
             else search_dirs stat filename ds err
         | Inl _ \<Rightarrow> search_dirs stat filename ds err)"

definition open_file :: "(string \<Rightarrow> int \<Rightarrow> int option) \<Rightarrow> string \<Rightarrow> int \<Rightarrow> int \<times> string" where
  "open_file opn filename mode =
     (case opn filename mode of None \<Rightarrow> (0, filename) | Some errno \<Rightarrow> (errno + 100, filename))"

definition validate_access ::
  "string list \<Rightarrow> (string \<Rightarrow> int + u32) \<Rightarrow> (string \<Rightarrow> int \<Rightarrow> int option) \<Rightarrow> string \<Rightarrow> int \<Rightarrow> int \<times> string"
where
  "validate_access dirs stat opn filename mode =
     (if strstr filename ''/../'' then (EACCESS, filename)
      else if filename \<noteq> [] \<and> hd filename = CHR ''/'' then
        if dirs \<noteq> [] \<and> \<not> list_ex (in_dir filename) dirs then (EACCESS, filename)
        else
          (case stat filename of
             Inl errno \<Rightarrow> (if errno = ENOENT then ENOTFOUND else EACCESS, filename)
           | Inr m \<Rightarrow>
               if \<not> regular m then (ENOTFOUND, filename)
               else if m AND (if mode = RRQ then S_IROTH else S_IWOTH) = 0 then (EACCESS, filename)
               else open_file opn filename mode)
      else if mode \<noteq> RRQ \<or> take 3 filename = ''../'' then (EACCESS, filename)
      else
        (case search_dirs stat filename dirs ENOTFOUND of
           Inl err \<Rightarrow> (err, filename)
         | Inr pathname \<Rightarrow> open_file opn pathname mode))"

section \<open>Requests\<close>

definition c_tolower :: "char \<Rightarrow> char" where
  "c_tolower c =
     (if 65 \<le> (of_char c :: nat) \<and> (of_char c :: nat) \<le> 90 then char_of ((of_char c :: nat) + 32) else c)"

text \<open>The string that starts at index \<open>i\<close> of a buffer.\<close>

definition cstring :: "string \<Rightarrow> nat \<Rightarrow> string" where
  "cstring buf i = takeWhile (\<lambda>c. c \<noteq> NUL) (drop i buf)"

function scan :: "nat \<Rightarrow> string \<Rightarrow> nat \<Rightarrow> nat" where
  "scan sz buf cp = (if cp < sz \<and> buf ! cp \<noteq> NUL then scan sz buf (cp + 1) else cp)"
  by auto
termination by (relation "measure (\<lambda>(sz, buf, cp). sz - cp)") auto

declare scan.simps [simp del]

text \<open>\<open>Overread\<close> is a read past the array.\<close>

datatype parsed = Overread | Malformed | Request string bool

definition tftp_parse :: "string \<Rightarrow> nat \<Rightarrow> parsed" where
  "tftp_parse buf sz =
     (let c1 = scan sz buf 2
      in if length buf \<le> c1 then Overread
         else if buf ! c1 \<noteq> NUL then Malformed
         else
           let m = c1 + 1; c2 = scan sz buf m
           in if length buf \<le> c2 then Overread
              else if buf ! c2 \<noteq> NUL then Malformed
              else
                let mode = map c_tolower (cstring buf m)
                in if mode = ''netascii'' then Request (cstring buf 2) True
                   else if mode = ''octet'' then Request (cstring buf 2) False
                   else Malformed)"

text \<open>What the server does: refuse, stay silent, send or receive a file.\<close>

datatype served = Nak int | Silent | SendFile string bool | RecvFile string bool | Fault

definition tftp ::
  "bool \<Rightarrow> string list \<Rightarrow> (string \<Rightarrow> int + u32) \<Rightarrow> (string \<Rightarrow> int \<Rightarrow> int option) \<Rightarrow> int \<Rightarrow> string \<Rightarrow> nat \<Rightarrow> served"
where
  "tftp suppress_naks dirs stat opn opcode buf sz =
     (case tftp_parse buf sz of
        Overread \<Rightarrow> Fault
      | Malformed \<Rightarrow> Nak EBADOP
      | Request filename convert \<Rightarrow>
          (case validate_access dirs stat opn filename opcode of
             (ecode, filename) \<Rightarrow>
               if ecode \<noteq> 0 then
                 if suppress_naks \<and> \<not> (filename \<noteq> [] \<and> hd filename = CHR ''/'') \<and> ecode = ENOTFOUND
                 then Silent else Nak ecode
               else if opcode = WRQ then RecvFile filename convert
               else SendFile filename convert))"

definition opcode_of :: "string \<Rightarrow> int" where
  "opcode_of buf = of_char (buf ! 0) * 256 + of_char (buf ! 1)"

text \<open>\<open>main\<close> after a datagram of \<open>sz\<close> bytes has been read into \<open>buf\<close>.\<close>

definition tftpd_serve ::
  "bool \<Rightarrow> string list \<Rightarrow> (string \<Rightarrow> int + u32) \<Rightarrow> (string \<Rightarrow> int \<Rightarrow> int option) \<Rightarrow> string \<Rightarrow> nat \<Rightarrow> served"
where
  "tftpd_serve suppress_naks argv stat opn buf sz =
     (let opcode = opcode_of buf
      in if opcode = RRQ \<or> opcode = WRQ
         then tftp suppress_naks (get_dirs MAXDIRS argv) stat opn opcode buf sz
         else Silent)"

text \<open>\<open>makerequest\<close> of the client.  It copies name and mode with \<open>strcpy\<close> into a packet of \<open>PKTSIZE\<close> bytes without
  a look at their lengths; the list is what it writes, inside the packet or past its end (\<open>makerequest_overruns\<close>).\<close>

definition makerequest :: "int \<Rightarrow> string \<Rightarrow> string \<Rightarrow> string" where
  "makerequest request name mode =
     [char_of (request div 256), char_of (request mod 256)] @ name @ [NUL] @ mode @ [NUL]"

section \<open>Error packets\<close>

definition errmsgs :: "(int \<times> string) list" where
  "errmsgs =
     [(0, ''Undefined error code''), (1, ''File not found''), (2, ''Access violation''),
      (3, ''Disk full or allocation exceeded''), (4, ''Illegal TFTP operation''),
      (5, ''Unknown transfer ID''), (6, ''File already exists''), (7, ''No such user'')]"

text \<open>The code and the message of a refusal; the server sends the null at the end, the client does not.\<close>

definition nak_packet :: "(int \<Rightarrow> string) \<Rightarrow> int \<Rightarrow> int \<times> string" where
  "nak_packet strerror err =
     (case map_of errmsgs err of
        Some msg \<Rightarrow> (err, msg)
      | None \<Rightarrow> (EUNDEF, strerror (err - 100)))"

definition tftpd_nak :: "(int \<Rightarrow> string) \<Rightarrow> int \<Rightarrow> int \<times> string" where
  "tftpd_nak strerror err = (case nak_packet strerror err of (code, msg) \<Rightarrow> (code, msg @ [NUL]))"

definition errtomsg :: "(int \<Rightarrow> string) \<Rightarrow> int \<Rightarrow> string" where
  "errtomsg show_int err =
     (if err = 0 then ''success''
      else case map_of errmsgs err of Some msg \<Rightarrow> msg | None \<Rightarrow> ''error '' @ show_int err)"

section \<open>Confinement\<close>

fun components :: "string \<Rightarrow> string list" where
  "components [] = [[]]"
| "components (c # s) =
     (if c = CHR ''/'' then [] # components s
      else case components s of w # ws \<Rightarrow> (c # w) # ws | [] \<Rightarrow> [])"

lemma components_not_Nil [simp]: "components s \<noteq> []"
  by (induction s) (auto split: list.splits)

lemma components_append: "components (d @ CHR ''/'' # s) = components d @ components s"
  by (induction d) (auto split: list.splits)

lemma components_head: "components s = w # ws \<Longrightarrow> ws \<noteq> [] \<Longrightarrow> \<exists>t. s = w @ CHR ''/'' # t"
proof (induction s arbitrary: w ws)
  case (Cons c s)
  then show ?case
    by (cases "components s") (auto split: if_splits)
qed simp

lemma inner_dotdot: "''..'' \<in> set (butlast (tl (components f))) \<Longrightarrow> strstr f ''/../''"
proof (induction f)
  case (Cons c s)
  obtain w ws where w: "components s = w # ws" by (cases "components s") auto
  show ?case
  proof (cases "c = CHR ''/'' \<and> w = ''..'' \<and> ws \<noteq> []")
    case True
    then obtain t where "s = ''..'' @ CHR ''/'' # t" using components_head [OF w] by blast
    then show ?thesis using True by simp
  next
    case False
    then show ?thesis using Cons w by (auto split: if_splits)
  qed
qed simp

lemma first_dotdot: "components f = ''..'' # ws \<Longrightarrow> ws \<noteq> [] \<Longrightarrow> take 3 f = ''../''"
  using components_head [of f "''..''" ws] by auto

text \<open>A path below a directory: it starts with the directory, and no later component is \<open>..\<close>.\<close>

definition below :: "string \<Rightarrow> string \<Rightarrow> bool" where
  "below d path \<longleftrightarrow>
     (\<exists>rest. (path = d @ ''/'' @ rest \<or> d = ''/'' \<and> path = d @ rest) \<and> ''..'' \<notin> set (components rest))"

lemma components_last: "w \<in> set ws \<Longrightarrow> w \<noteq> last ws \<Longrightarrow> w \<in> set (butlast ws)"
  by (induction ws) auto

lemma no_dotdot:
  assumes "\<not> strstr (d @ CHR ''/'' # rest) ''/../''" "last (components rest) \<noteq> ''..''"
  shows "''..'' \<notin> set (components rest)"
proof
  assume "''..'' \<in> set (components rest)"
  then have "''..'' \<in> set (butlast (components rest))" using components_last assms(2) by metis
  moreover obtain w ws where w: "components d = w # ws" by (cases "components d") auto
  ultimately have "''..'' \<in> set (butlast (tl (components (d @ CHR ''/'' # rest))))"
    by (simp add: components_append butlast_append)
  then show False using inner_dotdot assms(1) by blast
qed

lemma last_components_append: "last (components (d @ CHR ''/'' # s)) = last (components s)"
  by (simp add: components_append)

lemma absolute_below:
  assumes "in_dir f d" "hd d = CHR ''/''" "f \<noteq> []" "hd f = CHR ''/''" "\<not> strstr f ''/../''"
    and "last (components f) \<noteq> ''..''"
  shows "below d f"
proof (cases "length d = 1")
  case True
  then have d: "d = ''/''" using assms(2) by (cases d) auto
  obtain rest where f: "f = [] @ CHR ''/'' # rest" using assms(3,4) by (cases f) auto
  have "''..'' \<notin> set (components rest)"
    using no_dotdot [of "[]" rest] assms(5,6) f last_components_append [of "[]" rest] by simp
  then show ?thesis unfolding below_def using d f by auto
next
  case False
  then have p: "take (length d) f = d" "length d < length f" "f ! length d = CHR ''/''"
    using assms(1) by (auto simp: in_dir_def)
  define rest where "rest = drop (Suc (length d)) f"
  have f: "f = d @ CHR ''/'' # rest"
    using id_take_nth_drop [OF p(2)] p(1,3) by (simp add: rest_def)
  have "''..'' \<notin> set (components rest)"
    using no_dotdot [of d rest] assms(5,6) f last_components_append [of d rest] by simp
  then show ?thesis unfolding below_def using f by auto
qed

lemma relative_below:
  assumes "take 3 f \<noteq> ''../''" "\<not> strstr f ''/../''" "last (components f) \<noteq> ''..''"
  shows "below d (d @ ''/'' @ f)"
proof -
  obtain w ws where w: "components f = w # ws" by (cases "components f") auto
  have "''..'' \<notin> set (components f)"
  proof
    assume "''..'' \<in> set (components f)"
    then have "''..'' \<in> set (butlast (components f))" using components_last assms(3) by metis
    then have "w = ''..'' \<and> ws \<noteq> [] \<or> ''..'' \<in> set (butlast ws)" using w by (auto split: if_splits)
    then show False using first_dotdot [of f ws] inner_dotdot [of f] w assms(1,2) by auto
  qed
  then show ?thesis by (auto simp: below_def)
qed

lemma search_dirs_found:
  "search_dirs stat f ds err = Inr path \<Longrightarrow>
   \<exists>d\<in>set ds. path = d @ ''/'' @ f \<and> (\<exists>m. stat path = Inr m \<and> regular m \<and> m AND S_IROTH \<noteq> 0)"
  by (induction ds arbitrary: err) (auto simp: Let_def split: sum.splits if_splits)

lemma search_dirs_error: "err \<noteq> 0 \<Longrightarrow> search_dirs stat f ds err \<noteq> Inl 0"
  by (induction ds arbitrary: err) (auto simp: Let_def split: sum.splits)

lemma get_dirs_absolute: "d \<in> set (get_dirs n argv) \<Longrightarrow> d \<noteq> [] \<and> hd d = CHR ''/''"
  by (induction n argv rule: get_dirs.induct) (auto split: if_splits)

lemma open_file_name: "open_file opn f mode = (e, p) \<Longrightarrow> p = f"
  by (auto simp: open_file_def split: option.splits)

lemma validate_granted:
  assumes v: "validate_access dirs stat opn f mode = (0, path)"
    and dd: "\<And>p m. last (components p) = ''..'' \<Longrightarrow> stat p = Inr m \<Longrightarrow> \<not> regular m"
    and dirs: "dirs \<noteq> []" "\<forall>d\<in>set dirs. d \<noteq> [] \<and> hd d = CHR ''/''"
  shows "(\<exists>d\<in>set dirs. below d path)
    \<and> (\<exists>m. stat path = Inr m \<and> regular m \<and> m AND (if mode = RRQ then S_IROTH else S_IWOTH) \<noteq> 0)"
proof (cases "f \<noteq> [] \<and> hd f = CHR ''/''")
  case True
  with v dirs(1) have p: "path = f" "\<not> strstr f ''/../''" "list_ex (in_dir f) dirs"
    and m: "\<exists>m. stat f = Inr m \<and> regular m \<and> m AND (if mode = RRQ then S_IROTH else S_IWOTH) \<noteq> 0"
    by (auto simp: validate_access_def dest: open_file_name split: if_splits sum.splits)
  then obtain d where "d \<in> set dirs" "in_dir f d" by (auto simp: list_ex_iff)
  moreover have "last (components f) \<noteq> ''..''" using m dd by blast
  ultimately show ?thesis using absolute_below [of f d] dirs(2) True p m by blast
next
  case False
  with v have p: "\<not> strstr f ''/../''" "take 3 f \<noteq> ''../''" "mode = RRQ" "search_dirs stat f dirs ENOTFOUND = Inr path"
    using search_dirs_error [of 1 stat f dirs]
    by (auto simp: validate_access_def dest: open_file_name split: if_splits sum.splits)
  from search_dirs_found [OF p(4)] obtain d m where d: "d \<in> set dirs" "path = d @ CHR ''/'' # f"
    "stat path = Inr m" "regular m" "m AND S_IROTH \<noteq> 0" by auto
  have "last (components path) \<noteq> ''..''" using dd d(3,4) by blast
  then have "last (components f) \<noteq> ''..''" using d(2) last_components_append by simp
  then show ?thesis using relative_below [OF p(2,1), of d] d p(3) by auto
qed

section \<open>Round trip of a request\<close>

lemma scan_string:
  "NUL \<notin> set b \<Longrightarrow> length a + length b < sz \<Longrightarrow> scan sz (a @ b @ NUL # c) (length a) = length a + length b"
proof (induction b arbitrary: a)
  case (Cons x b)
  have "scan sz (a @ (x # b) @ NUL # c) (length a) = scan sz ((a @ [x]) @ b @ NUL # c) (length (a @ [x]))"
    using Cons.prems by (subst scan.simps) auto
  also have "\<dots> = length a + length (x # b)" using Cons.IH [of "a @ [x]"] Cons.prems by simp
  finally show ?case .
qed (simp add: scan.simps)

lemma cstring_string: "NUL \<notin> set b \<Longrightarrow> cstring (a @ b @ NUL # c) (length a) = b"
  by (simp add: cstring_def takeWhile_append)

lemma parse_makerequest:
  assumes "NUL \<notin> set name" "NUL \<notin> set mode" "n = length (makerequest request name mode)"
  shows "tftp_parse (makerequest request name mode @ rest) n =
    (if map c_tolower mode = ''netascii'' then Request name True
     else if map c_tolower mode = ''octet'' then Request name False else Malformed)"
proof -
  define hdr where "hdr = [char_of (request div 256), char_of (request mod 256) :: char]"
  have l: "length hdr = 2" by (simp add: hdr_def)
  let ?buf = "makerequest request name mode @ rest" and ?m = "hdr @ name @ [NUL]"
  have b1: "?buf = hdr @ name @ NUL # (mode @ NUL # rest)" by (simp add: makerequest_def hdr_def)
  have b2: "?buf = ?m @ mode @ NUL # rest" by (simp add: makerequest_def hdr_def)
  have n: "n = length name + length mode + 4" using assms(3) by (simp add: makerequest_def)
  have s1: "scan n ?buf 2 = 2 + length name"
    using scan_string [OF assms(1), of hdr n] n l by (simp add: b1)
  have s2: "scan n ?buf (2 + length name + 1) = 3 + length name + length mode"
    using scan_string [OF assms(2), of ?m n rest] n l by (simp add: b2 eval_nat_numeral)
  have c1: "cstring ?buf 2 = name" using cstring_string [OF assms(1), of hdr] l by (simp add: b1)
  have c2: "cstring ?buf (2 + length name + 1) = mode" using cstring_string [OF assms(2), of ?m rest] l by (simp add: b2 eval_nat_numeral)
  have z1: "?buf ! (2 + length name) = NUL" "2 + length name < length ?buf"
    using l by (simp_all add: b1 nth_append)
  have z2: "?buf ! (3 + length name + length mode) = NUL" "3 + length name + length mode < length ?buf"
    using l by (simp_all add: b2 nth_append)
  show ?thesis
    unfolding tftp_parse_def Let_def s1 s2 c1 c2 using z1 z2 by auto
qed

text \<open>
  (C9) The server stays inside its directories.  Started with at least one directory, it only sends or
  receives a file whose path starts with one of them and has no component \<open>..\<close> after it, and which is a
  regular file that everybody may read or, for a write request, write.  What it relies on is that a path
  ending in \<open>..\<close> is never a regular file.
\<close>

theorem tftpd_confined:
  assumes "\<And>p m. last (components p) = ''..'' \<Longrightarrow> stat p = Inr m \<Longrightarrow> \<not> regular m"
    and "get_dirs MAXDIRS argv \<noteq> []"
    and "tftpd_serve naks argv stat opn buf sz \<in> {SendFile path convert, RecvFile path convert}"
  shows "(\<exists>d\<in>set (get_dirs MAXDIRS argv). below d path)
    \<and> (\<exists>m. stat path = Inr m \<and> regular m \<and> m AND (if opcode_of buf = RRQ then S_IROTH else S_IWOTH) \<noteq> 0)"
proof -
  obtain f where "validate_access (get_dirs MAXDIRS argv) stat opn f (opcode_of buf) = (0, path)"
    using assms(3) by (auto simp: tftpd_serve_def tftp_def Let_def split: if_splits parsed.splits prod.splits)
  then show ?thesis
  proof (rule validate_granted)
    show "\<forall>d\<in>set (get_dirs MAXDIRS argv). d \<noteq> [] \<and> hd d = CHR ''/''" using get_dirs_absolute by blast
  qed (use assms(1,2) in auto)
qed

text \<open>The packet of the client has \<open>SEGSIZE + 4\<close> bytes: a name that is too long for it is written past its end.\<close>

theorem makerequest_overruns:
  "SEGSIZE + 4 < length (makerequest request name mode) \<longleftrightarrow> SEGSIZE < length name + length mode"
  by (simp add: makerequest_def)

text \<open>The file system of the witness: one file that everybody may read, and directories.\<close>

definition one_file :: "string \<Rightarrow> int + u32" where
  "one_file p = (if p = ''/tftpboot/kernel'' then Inr 0x81A4 else Inr 0x41ED)"

lemma one_file_dotdot: "last (components p) = ''..'' \<Longrightarrow> one_file p = Inr m \<Longrightarrow> \<not> regular m"
  by (auto simp: one_file_def regular_def split: if_splits)

definition boot_request :: string where
  "boot_request = makerequest RRQ ''kernel'' ''octet'' @ replicate 501 NUL"

lemma boot_opcode: "opcode_of boot_request = RRQ"
  by (simp add: boot_request_def makerequest_def opcode_of_def)

lemma boot_parse: "tftp_parse boot_request 15 = Request ''kernel'' False"
  unfolding boot_request_def
  by (subst parse_makerequest) (simp_all add: makerequest_def c_tolower_def)

lemma boot_dirs: "get_dirs MAXDIRS [''/tftpboot''] = [''/tftpboot'']"
  by (simp add: numeral_eq_Suc)

lemma boot_served:
  "tftpd_serve False [''/tftpboot''] one_file (\<lambda>_ _. None) boot_request 15 = SendFile ''/tftpboot/kernel'' False"
  by (simp add: tftpd_serve_def boot_opcode tftp_def boot_parse validate_access_def one_file_def regular_def
      open_file_def boot_dirs)

theorem tftpd_confined_witness:
  "\<exists>d\<in>{''/tftpboot''}. below d ''/tftpboot/kernel''"
  using tftpd_confined [of one_file "[''/tftpboot'']" False "\<lambda>_ _. None" boot_request 15 "''/tftpboot/kernel''" False]
    one_file_dotdot
  by (simp add: boot_served boot_dirs)

text \<open>
  (C28) The server reads the request the client writes: whatever follows it in the buffer, \<open>tftp\<close> finds
  the name and the mode that were given to \<open>makerequest\<close>, in either case of letters, and refuses a mode
  it does not know.
\<close>

theorem request_roundtrip:
  assumes "NUL \<notin> set name" "NUL \<notin> set mode" "n = length (makerequest request name mode)"
  shows "tftp_parse (makerequest request name mode @ rest) n =
    (if map c_tolower mode = ''netascii'' then Request name True
     else if map c_tolower mode = ''octet'' then Request name False else Malformed)"
  by (rule parse_makerequest [OF assms])

theorem request_roundtrip_witness:
  "tftp_parse (makerequest RRQ ''motd'' ''NetASCII'' @ replicate 499 NUL) 16 = Request ''motd'' True"
  by (subst request_roundtrip) (simp_all add: makerequest_def c_tolower_def char_of_def bit_0)

lemma scan_bounds: "scan sz buf cp \<le> max sz cp"
proof (induction sz buf cp rule: scan.induct)
  case (1 sz buf cp)
  then show ?case by (subst scan.simps) (auto simp: max_def split: if_splits)
qed

lemma scan_all: "\<forall>i. cp \<le> i \<and> i < sz \<longrightarrow> buf ! i \<noteq> NUL \<Longrightarrow> scan sz buf cp = max sz cp"
proof (induction sz buf cp rule: scan.induct)
  case (1 sz buf cp)
  then show ?case by (subst scan.simps) (auto simp: max_def)
qed

text \<open>
  The reads of \<open>tftp\<close> stay in its array for every datagram of up to 514 bytes, but not for one that
  fills it: without a null character among its 516 bytes the scan goes past the end.
\<close>

theorem request_overread:
  "(length buf = PKTSIZE \<and> sz \<le> 514 \<longrightarrow> tftp_parse buf sz \<noteq> Overread)
   \<and> (length buf = PKTSIZE \<and> NUL \<notin> set buf \<longrightarrow> tftp_parse buf PKTSIZE = Overread)"
proof (intro conjI impI)
  assume a: "length buf = PKTSIZE \<and> sz \<le> 514"
  have "scan sz buf 2 \<le> 514" using scan_bounds [of sz buf 2] a by (auto simp: max_def split: if_splits)
  moreover from this have "scan sz buf (scan sz buf 2 + 1) \<le> 515"
    using scan_bounds [of sz buf "scan sz buf 2 + 1"] a by (auto simp: max_def split: if_splits)
  ultimately show "tftp_parse buf sz \<noteq> Overread" using a by (auto simp: tftp_parse_def Let_def)
next
  assume a: "length buf = PKTSIZE \<and> NUL \<notin> set buf"
  then have "\<forall>i. 2 \<le> i \<and> i < PKTSIZE \<longrightarrow> buf ! i \<noteq> NUL" by (metis nth_mem)
  from scan_all [OF this] show "tftp_parse buf PKTSIZE = Overread" using a by (simp add: tftp_parse_def)
qed

theorem request_overread_witness:
  "tftp_parse (replicate 516 CHR ''a'') 516 = Overread"
  using request_overread [of "replicate 516 CHR ''a''" 0] by simp

end
