(* ===== verification/Talkd_Table.thy ===== *)
theory Talkd_Table
  imports Main
begin

text \<open>
  The table of invitations of the talk daemon, \<open>talkd/table.c\<close>: a doubly linked list in allocated
  memory.  The memory is a map from addresses to nodes, so that what the program does with the pointers
  can be followed; reading freed memory makes an operation give \<open>None\<close>.

  The numbers of a message are those its bytes mean in network byte order, so that \<open>ntohl\<close> and \<open>htonl\<close> do not
  appear; its names are the strings that end at their first null.
\<close>

section \<open>State\<close>

record osockaddr =
  sa_family :: nat
  sa_data :: "nat list"

record CTL_MSG =
  vers :: nat
  msg_type :: nat
  id_num :: int
  msg_addr :: osockaddr
  ctl_addr :: osockaddr
  pid :: int
  l_name :: string
  r_name :: string
  r_tty :: string

record table_t =
  t_next :: "nat option"
  t_prev :: "nat option"
  t_request :: CTL_MSG
  t_time :: int

text \<open>The nodes in memory, \<open>table\<close>, the address that \<open>malloc\<close> gives next and the static variable of
  \<open>new_id\<close>.\<close>

record tbl =
  nodes :: "nat \<rightharpoonup> table_t"
  tbl_head :: "nat option"
  tbl_brk :: nat
  current_id :: int

abbreviation (input) LEAVE_INVITE :: nat where "LEAVE_INVITE \<equiv> 0"
abbreviation (input) LOOK_UP :: nat where "LOOK_UP \<equiv> 1"
abbreviation (input) DELETE :: nat where "DELETE \<equiv> 2"
abbreviation (input) ANNOUNCE :: nat where "ANNOUNCE \<equiv> 3"
abbreviation (input) MAX_ID :: int where "MAX_ID \<equiv> 16000"

definition tbl_start :: tbl where
  "tbl_start = \<lparr>nodes = Map.empty, tbl_head = None, tbl_brk = 1, current_id = 0\<rparr>"

section \<open>Operations\<close>

definition upd_node :: "nat \<Rightarrow> (table_t \<Rightarrow> table_t) \<Rightarrow> tbl \<Rightarrow> tbl option" where
  "upd_node p f s = (case nodes s p of None \<Rightarrow> None | Some n \<Rightarrow> Some (s\<lparr>nodes := (nodes s)(p \<mapsto> f n)\<rparr>))"

definition table_delete :: "nat \<Rightarrow> tbl \<Rightarrow> tbl option" where
  "table_delete p s =
     (case nodes s p of
        None \<Rightarrow> None
      | Some n \<Rightarrow>
          (case (case t_prev n of
                   Some t \<Rightarrow> upd_node t (\<lambda>u. u\<lparr>t_next := t_next n\<rparr>) s
                 | None \<Rightarrow> Some (s\<lparr>tbl_head := t_next n\<rparr>)) of
             None \<Rightarrow> None
           | Some s1 \<Rightarrow>
               (case (case t_next n of
                        Some t \<Rightarrow> upd_node t (\<lambda>u. u\<lparr>t_prev := t_prev n\<rparr>) s1
                      | None \<Rightarrow> Some s1) of
                  None \<Rightarrow> None
                | Some s2 \<Rightarrow> Some (s2\<lparr>nodes := (nodes s2)(p := None)\<rparr>))))"

text \<open>A comparison gives the new time of the entry when it matches.\<close>

definition fuzzy_comp :: "table_t \<Rightarrow> CTL_MSG \<Rightarrow> int \<Rightarrow> int option" where
  "fuzzy_comp n request now =
     (if msg_type (t_request n) = LEAVE_INVITE \<and> l_name request = r_name (t_request n)
         \<and> r_name request = l_name (t_request n)
      then Some (t_time n) else None)"

definition exact_comp :: "table_t \<Rightarrow> CTL_MSG \<Rightarrow> int \<Rightarrow> int option" where
  "exact_comp n request now =
     (if msg_type request = msg_type (t_request n) \<and> pid request = pid (t_request n)
         \<and> r_name request = r_name (t_request n) \<and> l_name request = l_name (t_request n)
      then Some now else None)"

text \<open>
  The search from a node on.  An entry that counts as too old is deleted, and the next one is then taken
  from the freed node.
\<close>

partial_function (option) lookup_from ::
  "int \<Rightarrow> int \<Rightarrow> (table_t \<Rightarrow> CTL_MSG \<Rightarrow> int \<Rightarrow> int option) \<Rightarrow> CTL_MSG \<Rightarrow> nat option \<Rightarrow> tbl
     \<Rightarrow> (nat option \<times> tbl) option" where
  "lookup_from ttl now cmp request ptr s =
     (case ptr of
        None \<Rightarrow> Some (None, s)
      | Some p \<Rightarrow>
          (case nodes s p of
             None \<Rightarrow> None
           | Some n \<Rightarrow>
               if t_time n - now > ttl then
                 (case table_delete p s of
                    None \<Rightarrow> None
                  | Some s1 \<Rightarrow>
                      (case nodes s1 p of
                         None \<Rightarrow> None
                       | Some n1 \<Rightarrow> lookup_from ttl now cmp request (t_next n1) s1))
               else
                 (case cmp n request now of
                    Some t \<Rightarrow> Some (Some p, s\<lparr>nodes := (nodes s)(p \<mapsto> n\<lparr>t_time := t\<rparr>)\<rparr>)
                  | None \<Rightarrow> lookup_from ttl now cmp request (t_next n) s)))"

definition lookup_request ::
  "int \<Rightarrow> int \<Rightarrow> CTL_MSG \<Rightarrow> (table_t \<Rightarrow> CTL_MSG \<Rightarrow> int \<Rightarrow> int option) \<Rightarrow> tbl \<Rightarrow> (nat option \<times> tbl) option" where
  "lookup_request ttl now request cmp s = lookup_from ttl now cmp request (tbl_head s) s"

definition find_match :: "int \<Rightarrow> int \<Rightarrow> CTL_MSG \<Rightarrow> tbl \<Rightarrow> (nat option \<times> tbl) option" where
  "find_match ttl now request = lookup_request ttl now request fuzzy_comp"

definition find_request :: "int \<Rightarrow> int \<Rightarrow> CTL_MSG \<Rightarrow> tbl \<Rightarrow> (nat option \<times> tbl) option" where
  "find_request ttl now request = lookup_request ttl now request exact_comp"

definition new_id :: "tbl \<Rightarrow> int \<times> tbl" where
  "new_id s =
     (let c = (current_id s + 1) mod MAX_ID; c1 = (if c = 0 then 1 else c) in (c1, s\<lparr>current_id := c1\<rparr>))"

text \<open>The new entry is put in front; \<open>prev\<close> of the old first entry is not set.\<close>

definition insert_table :: "int \<Rightarrow> CTL_MSG \<Rightarrow> tbl \<Rightarrow> int \<times> tbl" where
  "insert_table now request s =
     (case new_id s of
        (i, s1) \<Rightarrow>
          let p = tbl_brk s1;
              n = \<lparr>t_next = tbl_head s1, t_prev = None, t_request = request\<lparr>id_num := i\<rparr>, t_time = now\<rparr>
          in (i, s1\<lparr>nodes := (nodes s1)(p \<mapsto> n), tbl_head := Some p, tbl_brk := p + 1\<rparr>))"

partial_function (option) delete_from :: "int \<Rightarrow> nat option \<Rightarrow> tbl \<Rightarrow> (bool \<times> tbl) option" where
  "delete_from i ptr s =
     (case ptr of
        None \<Rightarrow> Some (False, s)
      | Some p \<Rightarrow>
          (case nodes s p of
             None \<Rightarrow> None
           | Some n \<Rightarrow>
               if id_num (t_request n) = i then map_option (Pair True) (table_delete p s)
               else delete_from i (t_next n) s))"

text \<open>\<open>True\<close> stands for \<open>SUCCESS\<close>, \<open>False\<close> for \<open>NOT_HERE\<close>.\<close>

definition delete_invite :: "int \<Rightarrow> tbl \<Rightarrow> (bool \<times> tbl) option" where
  "delete_invite i s = delete_from i (tbl_head s) s"

section \<open>The list that the table stands for\<close>

fun chain :: "(nat \<rightharpoonup> table_t) \<Rightarrow> nat option \<Rightarrow> nat list \<Rightarrow> bool" where
  "chain h p [] \<longleftrightarrow> p = None"
| "chain h p (a # as) \<longleftrightarrow> p = Some a \<and> (case h a of None \<Rightarrow> False | Some n \<Rightarrow> t_prev n = None \<and> chain h (t_next n) as)"

definition entry :: "(nat \<rightharpoonup> table_t) \<Rightarrow> nat \<Rightarrow> CTL_MSG \<times> int" where
  "entry h a = (t_request (the (h a)), t_time (the (h a)))"

text \<open>No node has a pointer to its predecessor.\<close>

definition represents :: "tbl \<Rightarrow> nat list \<Rightarrow> (CTL_MSG \<times> int) list \<Rightarrow> bool" where
  "represents s as xs \<longleftrightarrow> chain (nodes s) (tbl_head s) as \<and> distinct as \<and> xs = map (entry (nodes s)) as
     \<and> (\<forall>a \<in> dom (nodes s). a < tbl_brk s)"

lemma chain_frame: "a \<notin> set as \<Longrightarrow> chain (h(a := n)) p as = chain h p as"
  by (induction as arbitrary: p) (auto split: option.splits)

lemma chain_in: "chain h p as \<Longrightarrow> a \<in> set as \<Longrightarrow> h a \<noteq> None"
  by (induction as arbitrary: p) (auto split: option.splits)

lemma entries_frame: "a \<notin> set as \<Longrightarrow> map (entry (h(a := n))) as = map (entry h) as"
  by (simp add: entry_def)

lemma represents_start: "represents tbl_start [] []"
  by (simp add: represents_def tbl_start_def)

lemma insert_represents:
  assumes "represents s as xs"
  shows "represents (snd (insert_table now m s)) (tbl_brk s # as) ((m\<lparr>id_num := fst (new_id s)\<rparr>, now) # xs)"
    "fst (insert_table now m s) = fst (new_id s)"
proof -
  have "tbl_brk s \<notin> set as" using assms chain_in by (fastforce simp: represents_def dom_def)
  then show "represents (snd (insert_table now m s)) (tbl_brk s # as) ((m\<lparr>id_num := fst (new_id s)\<rparr>, now) # xs)"
    "fst (insert_table now m s) = fst (new_id s)"
    using assms
    by (auto simp: insert_table_def new_id_def represents_def Let_def chain_frame entries_frame entry_def less_SucI)
qed

text \<open>The searches on the list.\<close>

definition invitation_for :: "CTL_MSG \<Rightarrow> CTL_MSG \<Rightarrow> bool" where
  "invitation_for request m \<longleftrightarrow>
     msg_type m = LEAVE_INVITE \<and> l_name request = r_name m \<and> r_name request = l_name m"

definition same_request :: "CTL_MSG \<Rightarrow> CTL_MSG \<Rightarrow> bool" where
  "same_request request m \<longleftrightarrow>
     msg_type request = msg_type m \<and> pid request = pid m \<and> r_name request = r_name m \<and> l_name request = l_name m"

fun on_first :: "('a \<Rightarrow> bool) \<Rightarrow> ('a \<Rightarrow> 'a) \<Rightarrow> 'a list \<Rightarrow> 'a list" where
  "on_first P f [] = []"
| "on_first P f (x # xs) = (if P x then f x # xs else x # on_first P f xs)"

lemma on_first_id [simp]: "on_first P (\<lambda>x. x) xs = xs"
  by (induction xs) auto

lemma on_first_map: "find P as = Some a \<Longrightarrow> distinct as \<Longrightarrow> (\<And>x. x \<in> set as \<Longrightarrow> Q (g x) = P x)
    \<Longrightarrow> on_first Q f (map g as) = map (g(a := f (g a))) as"
proof (induction as)
  case (Cons x xs)
  show ?case
  proof (cases "P x")
    case True
    then have "a = x" "x \<notin> set xs" "Q (g x)" using Cons.prems by auto
    then show ?thesis by (auto intro!: map_cong)
  next
    case False
    then have "find P xs = Some a" "distinct xs" "\<not> Q (g x)" "a \<in> set xs" "x \<notin> set xs"
      using Cons.prems by (auto simp: find_Some_iff)
    then show ?thesis using Cons by auto
  qed
qed simp

lemma lookup_from_find:
  assumes "chain (nodes s) p as" "\<forall>a \<in> set as. t_time (the (nodes s a)) \<le> now" "ttl \<ge> 0"
  shows "lookup_from ttl now cmp request p s =
    (case find (\<lambda>a. cmp (the (nodes s a)) request now \<noteq> None) as of
       None \<Rightarrow> Some (None, s)
     | Some a \<Rightarrow> Some (Some a, s\<lparr>nodes := (nodes s)(a \<mapsto>
         (the (nodes s a))\<lparr>t_time := the (cmp (the (nodes s a)) request now)\<rparr>)\<rparr>))"
  using assms
proof (induction as arbitrary: p)
  case Nil
  then show ?case by (subst lookup_from.simps) simp
next
  case (Cons a as)
  then obtain n where n: "nodes s a = Some n" "chain (nodes s) (t_next n) as" "p = Some a"
    by (auto split: option.splits)
  then show ?case
    using Cons.IH [OF n(2)] Cons.prems(2,3) by (subst lookup_from.simps) (auto split: option.splits)
qed

lemma represents_node:
  "represents s as xs \<Longrightarrow> a \<in> set as \<Longrightarrow> \<exists>n. nodes s a = Some n"
  using chain_in by (fastforce simp: represents_def)

text \<open>A change of the message or the time in a node is one in the list.\<close>

lemma chain_upd:
  assumes "nodes s a = Some n" "t_next n' = t_next n" "t_prev n' = t_prev n"
  shows "chain ((nodes s)(a \<mapsto> n')) p as = chain (nodes s) p as"
  using assms by (induction as arbitrary: p) (auto split: option.splits)

lemma represents_upd:
  assumes r: "represents s as xs" and a: "a \<in> set as" "nodes s a = Some n"
    and n: "t_next n' = t_next n" "t_prev n' = t_prev n"
    and P: "find (\<lambda>x. Q (entry (nodes s) x)) as = Some a" and f: "entry ((nodes s)(a \<mapsto> n')) a = f (entry (nodes s) a)"
  shows "represents (s\<lparr>nodes := (nodes s)(a \<mapsto> n')\<rparr>) as (on_first Q f xs)"
proof -
  have "entry ((nodes s)(a \<mapsto> n')) x = ((entry (nodes s))(a := f (entry (nodes s) a))) x" for x
    using f by (simp add: entry_def)
  then have "map (entry ((nodes s)(a \<mapsto> n'))) as = on_first Q f xs"
    using r on_first_map [OF P, of Q "entry (nodes s)" f] by (simp add: represents_def)
  then show ?thesis using r a chain_upd [OF a(2) n] by (auto simp: represents_def)
qed

lemma lookup_represents:
  assumes r: "represents s as xs" and t: "\<forall>x \<in> set xs. snd x \<le> now" "ttl \<ge> 0"
    and c: "\<And>n. cmp n request now = (if Q (t_request n) then Some (g (t_time n)) else None)"
  shows "\<exists>q s'. lookup_request ttl now request cmp s = Some (q, s') \<and> current_id s' = current_id s
    \<and> represents s' as (on_first (\<lambda>x. Q (fst x)) (\<lambda>x. (fst x, g (snd x))) xs)
    \<and> (case find (\<lambda>x. Q (fst x)) xs of
         None \<Rightarrow> q = None
       | Some x \<Rightarrow> (\<exists>p n. q = Some p \<and> nodes s' p = Some n \<and> t_request n = fst x \<and> p \<in> set as
             \<and> find (\<lambda>a. Q (fst (entry (nodes s') a))) as = Some p))"
proof -
  let ?e = "entry (nodes s)"
  have xs: "xs = map ?e as" and ch: "chain (nodes s) (tbl_head s) as" using r by (auto simp: represents_def)
  have P: "(\<lambda>a. cmp (the (nodes s a)) request now \<noteq> None) = (\<lambda>a. Q (fst (?e a)))" by (auto simp: c entry_def)
  have old: "\<forall>a \<in> set as. t_time (the (nodes s a)) \<le> now" using t(1) xs by (simp add: entry_def)
  have look: "lookup_request ttl now request cmp s =
    (case find (\<lambda>a. Q (fst (?e a))) as of
       None \<Rightarrow> Some (None, s)
     | Some a \<Rightarrow> Some (Some a, s\<lparr>nodes := (nodes s)(a \<mapsto>
         (the (nodes s a))\<lparr>t_time := the (cmp (the (nodes s a)) request now)\<rparr>)\<rparr>))"
    unfolding lookup_request_def by (rule lookup_from_find [OF ch old t(2), of cmp request, unfolded P])
  have fm: "find (\<lambda>x. Q (fst x)) xs = map_option ?e (find (\<lambda>a. Q (fst (?e a))) as)"
    unfolding xs by (induction as) auto
  show ?thesis
  proof (cases "find (\<lambda>a. Q (fst (?e a))) as")
    case None
    then have "\<forall>x \<in> set xs. \<not> Q (fst x)" by (auto simp: xs find_None_iff)
    then have "on_first (\<lambda>x. Q (fst x)) f xs = xs" for f by (induction xs) auto
    then show ?thesis using None look fm r by simp
  next
    case (Some a)
    then have a: "a \<in> set as" "Q (fst (?e a))" by (auto simp: find_Some_iff)
    obtain n where n: "nodes s a = Some n" using represents_node [OF r a(1)] by auto
    let ?n = "n\<lparr>t_time := g (t_time n)\<rparr>"
    have same: "(\<lambda>x. Q (fst (entry ((nodes s)(a \<mapsto> ?n)) x))) = (\<lambda>x. Q (fst (?e x)))"
      using n by (auto simp: entry_def)
    have "represents (s\<lparr>nodes := (nodes s)(a \<mapsto> ?n)\<rparr>) as (on_first (\<lambda>x. Q (fst x)) (\<lambda>x. (fst x, g (snd x))) xs)"
      by (rule represents_upd [OF r a(1) n]) (use Some n in \<open>simp_all add: entry_def\<close>)
    moreover have "the (cmp n request now) = g (t_time n)" using a n by (simp add: c entry_def)
    ultimately show ?thesis
      using Some look fm n a same by (simp add: entry_def [of "nodes s"])
  qed
qed

lemma find_match_represents:
  assumes "represents s as xs" "\<forall>x \<in> set xs. snd x \<le> now" "ttl \<ge> 0"
  shows "\<exists>q s'. find_match ttl now request s = Some (q, s') \<and> current_id s' = current_id s \<and> represents s' as xs
    \<and> (case find (\<lambda>x. invitation_for request (fst x)) xs of
         None \<Rightarrow> q = None
       | Some x \<Rightarrow> (\<exists>p n. q = Some p \<and> nodes s' p = Some n \<and> t_request n = fst x))"
  unfolding find_match_def
  using lookup_represents [OF assms, of fuzzy_comp request "invitation_for request" "\<lambda>t. t"]
  by (auto simp: fuzzy_comp_def invitation_for_def split: option.splits)

lemma find_request_represents:
  assumes "represents s as xs" "\<forall>x \<in> set xs. snd x \<le> now" "ttl \<ge> 0"
  shows "\<exists>q s'. find_request ttl now request s = Some (q, s') \<and> current_id s' = current_id s
    \<and> represents s' as (on_first (\<lambda>x. same_request request (fst x)) (\<lambda>x. (fst x, now)) xs)
    \<and> (case find (\<lambda>x. same_request request (fst x)) xs of
         None \<Rightarrow> q = None
       | Some x \<Rightarrow> (\<exists>p n. q = Some p \<and> nodes s' p = Some n \<and> t_request n = fst x \<and> p \<in> set as
             \<and> find (\<lambda>a. same_request request (fst (entry (nodes s') a))) as = Some p))"
  unfolding find_request_def
  using lookup_represents [OF assms, of exact_comp request "same_request request" "\<lambda>_. now"]
  by (auto simp: exact_comp_def same_request_def)

text \<open>Deleting: since no node points back, the head of the table is moved behind the deleted entry.\<close>

lemma chain_suffix: "chain h p (us @ a # bs) \<Longrightarrow> \<exists>n. h a = Some n \<and> t_prev n = None \<and> chain h (t_next n) bs"
  by (induction us arbitrary: p) (auto split: option.splits)

lemma table_delete_represents:
  assumes r: "represents s (us @ a # bs) xs"
  shows "\<exists>s'. table_delete a s = Some s' \<and> represents s' bs (drop (Suc (length us)) xs) \<and> current_id s' = current_id s"
proof -
  have d: "distinct (us @ a # bs)" and xs: "xs = map (entry (nodes s)) (us @ a # bs)" using r by (auto simp: represents_def)
  obtain n where n: "nodes s a = Some n" "t_prev n = None" "chain (nodes s) (t_next n) bs"
    using chain_suffix r unfolding represents_def by blast
  let ?s1 = "s\<lparr>tbl_head := t_next n\<rparr>"
  have bk: "(case t_next n of Some t \<Rightarrow> upd_node t (\<lambda>u. u\<lparr>t_prev := t_prev n\<rparr>) ?s1 | None \<Rightarrow> Some ?s1) = Some ?s1"
  proof (cases bs)
    case Nil
    then show ?thesis using n(3) by simp
  next
    case (Cons b bs')
    then obtain m where m: "t_next n = Some b" "nodes s b = Some m" "t_prev m = None"
      using n(3) by (auto split: option.splits)
    then have "m\<lparr>t_prev := None\<rparr> = m" by simp
    then show ?thesis using m n(2) by (simp add: upd_node_def fun_upd_idem)
  qed
  have "table_delete a s = Some (?s1\<lparr>nodes := (nodes s)(a := None)\<rparr>)"
    using n(1,2) bk by (simp add: table_delete_def)
  moreover have "a \<notin> set bs" using d by simp
  ultimately show ?thesis
    using r n(3) d xs by (auto simp: represents_def chain_frame entry_def)
qed

lemma delete_from_find:
  "chain (nodes s) p as \<Longrightarrow> delete_from i p s =
    (case find (\<lambda>a. id_num (fst (entry (nodes s) a)) = i) as of
       None \<Rightarrow> Some (False, s) | Some a \<Rightarrow> map_option (Pair True) (table_delete a s))"
proof (induction as arbitrary: p)
  case Nil
  then show ?case by (subst delete_from.simps) simp
next
  case (Cons a as)
  then show ?case by (subst delete_from.simps) (auto simp: entry_def split: option.splits)
qed

definition behind :: "int \<Rightarrow> (CTL_MSG \<times> int) list \<Rightarrow> (CTL_MSG \<times> int) list" where
  "behind i xs = (if \<exists>x \<in> set xs. id_num (fst x) = i then tl (dropWhile (\<lambda>x. id_num (fst x) \<noteq> i) xs) else xs)"

lemma delete_represents:
  assumes r: "represents s as xs"
  shows "\<exists>s' bs. delete_invite i s = Some (\<exists>x \<in> set xs. id_num (fst x) = i, s') \<and> represents s' bs (behind i xs)
    \<and> current_id s' = current_id s"
proof -
  let ?P = "\<lambda>a. id_num (fst (entry (nodes s) a)) = i"
  have xs: "xs = map (entry (nodes s)) as" and ch: "chain (nodes s) (tbl_head s) as" using r by (auto simp: represents_def)
  have del: "delete_invite i s = (case find ?P as of None \<Rightarrow> Some (False, s) | Some a \<Rightarrow> map_option (Pair True) (table_delete a s))"
    unfolding delete_invite_def by (rule delete_from_find [OF ch])
  show ?thesis
  proof (cases "\<exists>a \<in> set as. ?P a")
    case False
    then have "find ?P as = None" by (auto simp: find_None_iff)
    then show ?thesis using False del r by (auto simp: xs behind_def)
  next
    case True
    then obtain us a bs where s: "as = us @ a # bs" "?P a" "\<forall>u \<in> set us. \<not> ?P u" using split_list_first_prop [of as ?P] by blast
    have "find ?P (us @ a # bs) = Some a" using s(2,3) by (induction us) auto
    moreover obtain s' where s': "table_delete a s = Some s'" "represents s' bs (drop (Suc (length us)) xs)"
      "current_id s' = current_id s"
      using table_delete_represents [OF r [unfolded s(1)]] by blast
    moreover have "behind i xs = drop (Suc (length us)) xs"
      using s by (auto simp: xs behind_def dropWhile_append dropWhile_map comp_def)
    ultimately show ?thesis using del s True xs by (intro exI [of _ s'] exI [of _ bs]) auto
  qed
qed

section \<open>Runs\<close>

datatype tbl_op = Insert int CTL_MSG | Match int CTL_MSG | Request int CTL_MSG | Remove int

fun tbl_do :: "int \<Rightarrow> tbl_op \<Rightarrow> tbl \<Rightarrow> tbl option" where
  "tbl_do ttl (Insert now m) s = Some (snd (insert_table now m s))"
| "tbl_do ttl (Match now m) s = map_option snd (find_match ttl now m s)"
| "tbl_do ttl (Request now m) s = map_option snd (find_request ttl now m s)"
| "tbl_do ttl (Remove i) s = map_option snd (delete_invite i s)"

fun tbl_run :: "int \<Rightarrow> tbl_op list \<Rightarrow> tbl \<Rightarrow> tbl option" where
  "tbl_run ttl [] s = Some s"
| "tbl_run ttl (x # xs) s = (case tbl_do ttl x s of None \<Rightarrow> None | Some s1 \<Rightarrow> tbl_run ttl xs s1)"

definition next_id :: "int \<Rightarrow> int" where
  "next_id i = (let c = (i + 1) mod MAX_ID in if c = 0 then 1 else c)"

fun list_do :: "tbl_op \<Rightarrow> (CTL_MSG \<times> int) list \<times> int \<Rightarrow> (CTL_MSG \<times> int) list \<times> int" where
  "list_do (Insert now m) (xs, i) = ((m\<lparr>id_num := next_id i\<rparr>, now) # xs, next_id i)"
| "list_do (Match now m) (xs, i) = (xs, i)"
| "list_do (Request now m) (xs, i) = (on_first (\<lambda>x. same_request m (fst x)) (\<lambda>x. (fst x, now)) xs, i)"
| "list_do (Remove j) (xs, i) = (behind j xs, i)"

text \<open>The clock does not go back.\<close>

fun clock_ok :: "int \<Rightarrow> tbl_op list \<Rightarrow> bool" where
  "clock_ok t [] = True"
| "clock_ok t (x # xs) =
     (case x of
        Remove i \<Rightarrow> clock_ok t xs
      | Insert now m \<Rightarrow> t \<le> now \<and> clock_ok now xs
      | Match now m \<Rightarrow> t \<le> now \<and> clock_ok now xs
      | Request now m \<Rightarrow> t \<le> now \<and> clock_ok now xs)"

lemma new_id_next: "fst (new_id s) = next_id (current_id s)" "current_id (snd (insert_table now m s)) = next_id (current_id s)"
  by (simp_all add: new_id_def next_id_def insert_table_def Let_def)

lemma behind_set: "set (behind i xs) \<subseteq> set xs"
proof -
  have "set (tl ys) \<subseteq> set ys" for ys :: "(CTL_MSG \<times> int) list" by (cases ys) auto
  then show ?thesis unfolding behind_def using set_dropWhileD by (auto split: if_splits) fast+
qed

lemma on_first_times:
  fixes xs :: "(CTL_MSG \<times> int) list"
  shows "\<forall>x \<in> set xs. snd x \<le> now \<Longrightarrow> \<forall>x \<in> set (on_first P (\<lambda>x. (fst x, now)) xs). snd x \<le> now"
  by (induction xs) auto

lemma tbl_run_represents:
  assumes "represents s as xs" "\<forall>x \<in> set xs. snd x \<le> t" "ttl \<ge> 0" "clock_ok t ops"
  shows "\<exists>s' bs. tbl_run ttl ops s = Some s' \<and> represents s' bs (fst (fold list_do ops (xs, current_id s)))"
  using assms
proof (induction ops arbitrary: s as xs t)
  case (Cons x ops)
  show ?case
  proof (cases x)
    case (Insert now m)
    then have "\<forall>x \<in> set xs. snd x \<le> now" using Cons.prems by auto
    then show ?thesis
      using Insert Cons.IH [OF insert_represents(1) [OF Cons.prems(1), of now m], of now] Cons.prems
      by (auto simp: new_id_next)
  next
    case (Match now m)
    then have t: "t \<le> now" "\<forall>x \<in> set xs. snd x \<le> now" "clock_ok now ops" using Cons.prems by auto
    from find_match_represents [OF Cons.prems(1) t(2) Cons.prems(3), of m] obtain q s' where
      "find_match ttl now m s = Some (q, s')" "current_id s' = current_id s" "represents s' as xs" by blast
    then show ?thesis using Cons.IH [of s' as xs now] t Cons.prems(3) Match by simp
  next
    case (Request now m)
    then have t: "t \<le> now" "\<forall>x \<in> set xs. snd x \<le> now" "clock_ok now ops" using Cons.prems by auto
    let ?ys = "on_first (\<lambda>x. same_request m (fst x)) (\<lambda>x. (fst x, now)) xs"
    from find_request_represents [OF Cons.prems(1) t(2) Cons.prems(3), of m] obtain q s' where
      "find_request ttl now m s = Some (q, s')" "current_id s' = current_id s" "represents s' as ?ys" by blast
    then show ?thesis
      using Cons.IH [of s' as ?ys now] on_first_times [OF t(2)] t Cons.prems(3) Request
      by simp
  next
    case (Remove i)
    from delete_represents [OF Cons.prems(1), of i] obtain b s' bs where
      "delete_invite i s = Some (b, s')" "represents s' bs (behind i xs)" "current_id s' = current_id s" by blast
    then show ?thesis
      using Cons.IH [of s' bs "behind i xs" t] behind_set [of i xs] Cons.prems Remove
      by auto
  qed
qed auto

section \<open>Interface\<close>

text \<open>
  What the daemon relies on: \<open>rep s xs\<close> says that a table holds the entries \<open>xs\<close>, the newest first.  A search
  gives the first entry that fits.
\<close>

locale invitations =
  fixes rep :: "'s \<Rightarrow> (CTL_MSG \<times> int) list \<Rightarrow> bool"
    and ins :: "int \<Rightarrow> CTL_MSG \<Rightarrow> 's \<Rightarrow> int \<times> 's"
    and find_inv :: "int \<Rightarrow> int \<Rightarrow> CTL_MSG \<Rightarrow> 's \<Rightarrow> (CTL_MSG option \<times> 's) option"
    and find_req :: "int \<Rightarrow> int \<Rightarrow> CTL_MSG \<Rightarrow> 's \<Rightarrow> (CTL_MSG option \<times> 's) option"
  assumes ins_rep: "rep s xs \<Longrightarrow> rep (snd (ins now m s)) ((m\<lparr>id_num := fst (ins now m s)\<rparr>, now) # xs)"
    and inv_rep: "rep s xs \<Longrightarrow> \<forall>x \<in> set xs. snd x \<le> now \<Longrightarrow> ttl \<ge> 0 \<Longrightarrow>
      \<exists>s'. find_inv ttl now m s = Some (map_option fst (find (\<lambda>x. invitation_for m (fst x)) xs), s') \<and> rep s' xs"
    and req_rep: "rep s xs \<Longrightarrow> \<forall>x \<in> set xs. snd x \<le> now \<Longrightarrow> ttl \<ge> 0 \<Longrightarrow>
      \<exists>s'. find_req ttl now m s = Some (map_option fst (find (\<lambda>x. same_request m (fst x)) xs), s')
        \<and> rep s' (on_first (\<lambda>x. same_request m (fst x)) (\<lambda>x. (fst x, now)) xs)"
begin

text \<open>An invitation is found by the invited, whatever other requests are in the table.\<close>

lemma invited:
  assumes "rep s xs" "\<forall>x \<in> set xs. snd x \<le> t" "t \<le> t'" "ttl \<ge> 0" "invitation_for m' m"
  shows "\<exists>s'. find_inv ttl t' m' (snd (ins t m s)) = Some (Some (m\<lparr>id_num := fst (ins t m s)\<rparr>), s')"
proof -
  have "invitation_for m' (m\<lparr>id_num := fst (ins t m s)\<rparr>)" using assms(5) by (simp add: invitation_for_def)
  moreover have "\<forall>x \<in> set xs. snd x \<le> t'" using assms(2,3) by auto
  ultimately show ?thesis using inv_rep [OF ins_rep [OF assms(1), of t m], of t' ttl m'] assms(3,4) by auto
qed

end

definition holds :: "tbl \<Rightarrow> (CTL_MSG \<times> int) list \<Rightarrow> bool" where
  "holds s xs \<longleftrightarrow> (\<exists>as. represents s as xs)"

text \<open>A search with the message it has found.\<close>

definition found_msg :: "(nat option \<times> tbl) option \<Rightarrow> (CTL_MSG option \<times> tbl) option" where
  "found_msg r = map_option (\<lambda>(q, s). (map_option (\<lambda>p. t_request (the (nodes s p))) q, s)) r"

interpretation table: invitations holds insert_table
  "\<lambda>ttl now m s. found_msg (find_match ttl now m s)" "\<lambda>ttl now m s. found_msg (find_request ttl now m s)"
proof
  show "holds s xs \<Longrightarrow> holds (snd (insert_table now m s)) ((m\<lparr>id_num := fst (insert_table now m s)\<rparr>, now) # xs)" for s xs now m
    using insert_represents unfolding holds_def by metis
next
  fix s xs and now ttl :: int and m
  assume h: "holds s xs" and t: "\<forall>x \<in> set xs. snd x \<le> now" "ttl \<ge> 0"
  from h obtain as where r: "represents s as xs" by (auto simp: holds_def)
  from find_match_represents [OF r t, of m]
  show "\<exists>s'. found_msg (find_match ttl now m s) = Some (map_option fst (find (\<lambda>x. invitation_for m (fst x)) xs), s') \<and> holds s' xs"
    unfolding holds_def found_msg_def by (cases "find (\<lambda>x. invitation_for m (fst x)) xs") auto
next
  fix s xs and now ttl :: int and m
  assume h: "holds s xs" and t: "\<forall>x \<in> set xs. snd x \<le> now" "ttl \<ge> 0"
  from h obtain as where r: "represents s as xs" by (auto simp: holds_def)
  from find_request_represents [OF r t, of m]
  show "\<exists>s'. found_msg (find_request ttl now m s) = Some (map_option fst (find (\<lambda>x. same_request m (fst x)) xs), s')
    \<and> holds s' (on_first (\<lambda>x. same_request m (fst x)) (\<lambda>x. (fst x, now)) xs)"
    unfolding holds_def found_msg_def by (cases "find (\<lambda>x. same_request m (fst x)) xs") auto
qed

section \<open>Properties\<close>

text \<open>
  (C19) The linked list of invitations is the list it should be, up to its deletions: from the empty table any
  sequence of insertions, searches and deletions comes to an end without touching freed memory, and
  leaves the table that the operations on lists give, in which a new entry comes first, a repeated request renews
  the time of its entry, no entry ever expires and a deletion removes the entry with all newer ones.
\<close>

theorem table_refines:
  assumes "ttl \<ge> 0" "clock_ok t ops"
  shows "\<exists>s as. tbl_run ttl ops tbl_start = Some s \<and> represents s as (fst (fold list_do ops ([], 0)))"
  using tbl_run_represents [OF represents_start _ assms, simplified] by (simp add: tbl_start_def)

theorem table_refines_witness:
  "let m1 = \<lparr>vers = 1, msg_type = LEAVE_INVITE, id_num = 0, msg_addr = \<lparr>sa_family = 2, sa_data = []\<rparr>,
        ctl_addr = \<lparr>sa_family = 2, sa_data = []\<rparr>, pid = 1, l_name = ''ann'', r_name = ''bob'', r_tty = []\<rparr>;
       m2 = m1\<lparr>pid := 2, r_name := ''cat''\<rparr>
   in \<exists>s as. tbl_run 60 [Insert 5 m1, Insert 6 m2, Remove 1] tbl_start = Some s \<and> represents s as []"
proof -
  have "\<exists>s as. tbl_run 60 [Insert 5 m1, Insert 6 m2, Remove 1] tbl_start = Some s \<and> represents s as []" for m1 m2
    using table_refines [of 60 5 "[Insert 5 m1, Insert 6 m2, Remove 1]"] by (simp add: behind_def next_id_def)
  then show ?thesis unfolding Let_def by blast
qed

end
