(* ===== verification/Argcv.thy ===== *)
theory Argcv
  imports Main
begin

text \<open>
  Splitting a command line into words, \<open>libinetutils/argcv.c\<close>.  It is used by talkd for its access
  lists, by inetd for its configuration and by telnetd for the line of its login program.

  A C string is the list of its characters before the null, which \<open>char_at\<close> gives at the end.  Memory is
  always available.
\<close>

section \<open>Scanning\<close>

definition char_at :: "string \<Rightarrow> nat \<Rightarrow> char" where
  "char_at s i = (if i < length s then s ! i else CHR 0x00)"

definition isws :: "char \<Rightarrow> bool" where
  "isws c \<longleftrightarrow> c = CHR '' '' \<or> c = CHR 0x09"

definition ctype_space :: "char \<Rightarrow> bool" where
  "ctype_space c \<longleftrightarrow> c \<in> {CHR '' '', CHR 0x09, CHR 0x0A, CHR 0x0B, CHR 0x0C, CHR 0x0D}"

text \<open>\<open>strchr\<close> finds the null at the end of \<open>delim\<close>, too.\<close>

definition isdelim :: "char \<Rightarrow> string \<Rightarrow> bool" where
  "isdelim c delim \<longleftrightarrow> c = CHR 0x22 \<or> c \<in> set delim \<or> c = CHR 0x00"

function skip_ws :: "nat \<Rightarrow> string \<Rightarrow> nat \<Rightarrow> nat" where
  "skip_ws len s i = (if i < len \<and> isws (char_at s i) then skip_ws len s (i + 1) else i)"
  by auto
termination by (relation "measure (\<lambda>(len, s, i). len - i)") auto

text \<open>\<open>while (++i < len && ...)\<close>\<close>

function find_quote :: "nat \<Rightarrow> string \<Rightarrow> char \<Rightarrow> nat \<Rightarrow> nat" where
  "find_quote len s q i = (if i + 1 < len \<and> char_at s (i + 1) \<noteq> q then find_quote len s q (i + 1) else i + 1)"
  by auto
termination by (relation "measure (\<lambda>(len, s, q, i). len - i)") auto

function skip_word :: "nat \<Rightarrow> string \<Rightarrow> string \<Rightarrow> nat \<Rightarrow> nat" where
  "skip_word len s delim i =
     (if i + 1 < len \<and> \<not> (isws (char_at s (i + 1)) \<or> isdelim (char_at s (i + 1)) delim)
      then skip_word len s delim (i + 1) else i + 1)"
  by auto
termination by (relation "measure (\<lambda>(len, s, delim, i). len - i)") auto

declare skip_ws.simps [simp del] find_quote.simps [simp del] skip_word.simps [simp del]

text \<open>The \<open>default\<close> of the switch, at \<open>i\<close>.\<close>

definition scan_word :: "nat \<Rightarrow> string \<Rightarrow> string \<Rightarrow> nat \<Rightarrow> nat" where
  "scan_word len s delim i = (if isdelim (char_at s i) delim then i else skip_word len s delim i - 1)"

text \<open>The start and the end of the next word, and where to go on.\<close>

definition argcv_scan :: "nat \<Rightarrow> string \<Rightarrow> string \<Rightarrow> nat \<Rightarrow> nat \<times> nat \<times> nat" where
  "argcv_scan len s delim save =
     (let start = skip_ws len s save;
          c = char_at s start;
          e = (if c = CHR 0x22 \<or> c = CHR 0x27 then
                 let i = find_quote len s c start in if i < len then i else scan_word len s delim i
               else scan_word len s delim start)
      in (start, e, e + 1))"

lemma skip_ws_ge: "i \<le> skip_ws len s i"
proof (induction len s i rule: skip_ws.induct)
  case (1 len s i)
  then show ?case by (subst skip_ws.simps) auto
qed

lemma find_quote_ge: "i < find_quote len s q i"
proof (induction len s q i rule: find_quote.induct)
  case (1 len s q i)
  then show ?case by (subst find_quote.simps) auto
qed

lemma skip_word_ge: "i < skip_word len s delim i"
proof (induction len s delim i rule: skip_word.induct)
  case (1 len s delim i)
  then show ?case by (subst skip_word.simps) auto
qed

lemma scan_word_ge: "i \<le> scan_word len s delim i"
  using skip_word_ge [of i len s delim] unfolding scan_word_def by (cases "isdelim (char_at s i) delim") auto

lemma argcv_scan_progress: "argcv_scan len s delim save = (st, e, sv) \<Longrightarrow> save < sv"
proof -
  assume a: "argcv_scan len s delim save = (st, e, sv)"
  define i where "i = skip_ws len s save"
  define q where "q = find_quote len s (char_at s i) i"
  have "save \<le> i" "i < q" unfolding i_def q_def by (rule skip_ws_ge find_quote_ge)+
  moreover have "e \<in> {q, scan_word len s delim q, scan_word len s delim i}" "sv = e + 1"
    using a by (auto simp: argcv_scan_def Let_def i_def q_def split: if_splits)
  moreover have "q \<le> scan_word len s delim q" "i \<le> scan_word len s delim i" by (rule scan_word_ge)+
  ultimately show ?thesis by auto
qed

section \<open>Words\<close>

text \<open>The number of words, counted in a first pass.\<close>

function argcv_count :: "nat \<Rightarrow> string \<Rightarrow> string \<Rightarrow> nat \<Rightarrow> nat" where
  "argcv_count len s delim save =
     (case argcv_scan len s delim save of
        (_, _, sv) \<Rightarrow> if sv < len then Suc (argcv_count len s delim sv) else 1)"
  by auto
termination
  by (relation "measure (\<lambda>(len, s, delim, save). len - save)") (auto dest!: argcv_scan_progress [OF sym])

declare argcv_count.simps [simp del]

definition substring :: "string \<Rightarrow> nat \<Rightarrow> nat \<Rightarrow> string" where
  "substring s i n = map (char_at s) [i..<i + n]"

text \<open>A word without the quotes around it, as the C string it is.\<close>

definition argcv_word :: "string \<Rightarrow> nat \<Rightarrow> nat \<Rightarrow> string" where
  "argcv_word s st e =
     (let c = char_at s st; d = char_at s e;
          bs = (if c = CHR 0x22 \<and> d = CHR 0x22 \<or> c = CHR 0x27 \<and> d = CHR 0x27
                then substring s (st + 1) (e - (st + 1)) else substring s st (e + 1 - st))
      in takeWhile (\<lambda>c. c \<noteq> CHR 0x00) bs)"

fun argcv_words :: "nat \<Rightarrow> nat \<Rightarrow> string \<Rightarrow> string \<Rightarrow> nat \<Rightarrow> string list" where
  "argcv_words 0 len s delim save = []"
| "argcv_words (Suc n) len s delim save =
     (case argcv_scan len s delim save of (st, e, sv) \<Rightarrow> argcv_word s st e # argcv_words n len s delim sv)"

definition trimmed_length :: "string \<Rightarrow> nat" where
  "trimmed_length s = length (dropWhile ctype_space (rev s))"

text \<open>\<open>None\<close> is the return value 1, with no words; \<open>Some\<close> the array of words.\<close>

definition argcv_get :: "string \<Rightarrow> string \<Rightarrow> string list option" where
  "argcv_get s delim =
     (let len = trimmed_length s
      in if len < 1 then None else Some (argcv_words (argcv_count len s delim 0) len s delim 0))"

text \<open>Words joined by blanks.  The trailing blanks are removed by looking at the last character; \<open>None\<close> when
  that is the one before an empty string.\<close>

fun join :: "string list \<Rightarrow> string" where
  "join [] = []"
| "join [w] = w"
| "join (w # ws) = w @ CHR '' '' # join ws"

definition argcv_string :: "string list \<Rightarrow> string option" where
  "argcv_string ws =
     (let s = join ws
      in if s = [] then Some []
         else if \<forall>c \<in> set s. c = CHR '' '' then None
         else Some (rev (dropWhile (\<lambda>c. c = CHR '' '') (rev s))))"

section \<open>Plain words\<close>

definition plain_char :: "char \<Rightarrow> bool" where
  "plain_char c \<longleftrightarrow> \<not> ctype_space c \<and> c \<noteq> CHR 0x22 \<and> c \<noteq> CHR 0x27 \<and> c \<noteq> CHR 0x00"

definition plain_word :: "string \<Rightarrow> bool" where
  "plain_word w \<longleftrightarrow> w \<noteq> [] \<and> (\<forall>c \<in> set w. plain_char c)"

lemma char_at_append: "char_at (as @ bs) (length as + i) = char_at bs i"
  by (simp add: char_at_def nth_append)

lemma skip_ws_none: "\<not> isws (char_at s i) \<Longrightarrow> skip_ws len s i = i"
  by (subst skip_ws.simps) simp

lemma skip_word_plain:
  assumes "i + n < len" "\<forall>k \<in> {1..n}. plain_char (char_at s (i + k))"
    "i + n + 1 = len \<or> isws (char_at s (i + n + 1))"
  shows "skip_word len s [] i = i + n + 1"
  using assms
proof (induction n arbitrary: i)
  case 0
  then show ?case by (subst skip_word.simps) auto
next
  case (Suc n)
  have "plain_char (char_at s (i + 1))" using bspec [OF Suc.prems(2), of 1] by simp
  then have "skip_word len s [] i = skip_word len s [] (i + 1)"
    using Suc.prems(1) by (subst skip_word.simps) (auto simp: plain_char_def ctype_space_def isws_def isdelim_def)
  moreover have "\<forall>k \<in> {1..n}. plain_char (char_at s (i + 1 + k))"
    using bspec [OF Suc.prems(2), of "Suc _"] by auto
  ultimately show ?case using Suc.IH [of "i + 1"] Suc.prems by simp
qed

lemma plain_scan:
  assumes w: "plain_word w" and s: "s = pre @ w @ rest" and len: "len = length pre + length w \<and> rest = [] \<or>
      len > length pre + length w \<and> rest \<noteq> [] \<and> isws (hd rest)"
  shows "argcv_scan len s [] (length pre) = (length pre, length pre + length w - 1, length pre + length w)"
    "argcv_word s (length pre) (length pre + length w - 1) = w"
proof -
  define i where "i = length pre"
  obtain n where n: "length w = Suc n" using w by (cases w) (auto simp: plain_word_def)
  have at: "char_at s (i + k) = w ! k" if "k < length w" for k
    using that by (simp add: s i_def char_at_def nth_append)
  have plain: "plain_char (char_at s (i + k))" if "k < length w" for k
    using that w by (simp add: at plain_word_def)
  have c: "plain_char (char_at s i)" using plain [of 0] n by simp
  have "i + n + 1 = len \<or> isws (char_at s (i + n + 1))"
    using len n by (cases rest) (auto simp: s i_def char_at_def nth_append)
  then have "skip_word len s [] i = i + n + 1"
    using plain n len by (intro skip_word_plain) (auto simp: i_def)
  moreover have "skip_ws len s i = i" using c by (intro skip_ws_none) (auto simp: plain_char_def ctype_space_def isws_def)
  ultimately show "argcv_scan len s [] (length pre) = (length pre, length pre + length w - 1, length pre + length w)"
    using c n by (auto simp: argcv_scan_def scan_word_def Let_def plain_char_def ctype_space_def isdelim_def simp flip: i_def)
  have "substring s i (Suc n) = w"
    using n at by (intro nth_equalityI) (auto simp: substring_def simp del: upt_Suc)
  moreover have "\<forall>c \<in> set w. c \<noteq> CHR 0x00" using w by (auto simp: plain_word_def plain_char_def)
  ultimately show "argcv_word s (length pre) (length pre + length w - 1) = w"
    using c n by (simp add: argcv_word_def Let_def plain_char_def takeWhile_eq_all_conv flip: i_def)
qed

lemma argcv_scan_blank: "i < len \<Longrightarrow> isws (char_at s i) \<Longrightarrow> argcv_scan len s delim i = argcv_scan len s delim (i + 1)"
  using skip_ws.simps [of len s i] by (simp add: argcv_scan_def)

lemma argcv_words_blank:
  assumes "i < len" "isws (char_at s i)"
  shows "argcv_count len s delim i = argcv_count len s delim (i + 1)"
    "argcv_words n len s delim i = argcv_words n len s delim (i + 1)"
proof -
  note b = argcv_scan_blank [OF assms, of delim]
  show "argcv_count len s delim i = argcv_count len s delim (i + 1)"
    by (subst (1 2) argcv_count.simps) (simp only: b)
  show "argcv_words n len s delim i = argcv_words n len s delim (i + 1)"
    by (cases n) (simp_all only: argcv_words.simps b)
qed

lemma join_Cons: "ws \<noteq> [] \<Longrightarrow> join (w # ws) = w @ CHR '' '' # join ws"
  by (cases ws) simp_all

lemma join_plain: "ws \<noteq> [] \<Longrightarrow> \<forall>w \<in> set ws. plain_word w \<Longrightarrow> join ws \<noteq> [] \<and> plain_char (last (join ws)) \<and> plain_char (hd (join ws))"
proof (induction ws rule: join.induct)
  case (2 w)
  then show ?case by (auto simp: plain_word_def)
next
  case (3 w v vs)
  then show ?case by (auto simp: plain_word_def)
qed simp

lemma argcv_words_join:
  assumes "\<forall>w \<in> set ws. plain_word w" "ws \<noteq> []"
  shows "argcv_count (length (pre @ join ws)) (pre @ join ws) [] (length pre) = length ws
    \<and> argcv_words (length ws) (length (pre @ join ws)) (pre @ join ws) [] (length pre) = ws"
  using assms
proof (induction ws arbitrary: pre)
  case (Cons w ws)
  have w: "plain_word w" using Cons.prems by simp
  show ?case
  proof (cases "ws = []")
    case True
    then show ?thesis
      using plain_scan [OF w, of "pre @ w" pre "[]" "length pre + length w"]
      by (simp add: argcv_count.simps [of _ _ _ "length pre"])
  next
    case False
    let ?s = "pre @ join (w # ws)"
    let ?q = "pre @ w @ [CHR '' '']"
    have s: "?s = pre @ w @ CHR '' '' # join ws" "?s = ?q @ join ws" using False by (simp_all add: join_Cons)
    note scan = plain_scan [OF w s(1), of "length ?s"]
    have ne: "join ws \<noteq> []" using join_plain False Cons.prems(1) by auto
    have sp: "isws (char_at ?s (length pre + length w))" by (simp add: s(1) char_at_def nth_append isws_def)
    have IH: "argcv_count (length ?s) ?s [] (length ?q) = length ws"
      "argcv_words (length ws) (length ?s) ?s [] (length ?q) = ws"
      using Cons.IH [of ?q] Cons.prems(1) False unfolding s(2) by simp_all
    note b = argcv_words_blank [of "length pre + length w" "length ?s" ?s, OF _ sp]
    have q: "length ?q = length pre + length w + 1" by simp
    have l: "length pre + length w < length ?s" using s(1) by simp
    show ?thesis
      using scan ne b [OF l] IH False l unfolding q
      by (simp add: argcv_count.simps [of _ _ _ "length pre"] isws_def s(1))
  qed
qed simp

lemma argcv_get_join:
  assumes "ws \<noteq> []" "\<forall>w \<in> set ws. plain_word w"
  shows "argcv_get (join ws) [] = Some ws"
proof -
  let ?s = "join ws"
  note j = join_plain [OF assms]
  have "rev ?s \<noteq> []" "\<not> ctype_space (hd (rev ?s))" using j by (auto simp: hd_rev plain_char_def)
  then have "dropWhile ctype_space (rev ?s) = rev ?s" by (cases "rev ?s") simp_all
  then have "trimmed_length ?s = length ?s" by (simp add: trimmed_length_def)
  moreover have "length ?s \<ge> 1" using j by (cases ?s) auto
  ultimately show ?thesis
    using argcv_words_join [OF assms(2,1), of "[]"] j by (simp add: argcv_get_def Let_def)
qed

section \<open>Properties\<close>



end
