(* ===== verification/Talkd_Acl.thy ===== *)
theory Talkd_Acl
  imports Talkd_Table Argcv "HOL-Library.Word"
begin

unbundle bit_operations_syntax

text \<open>
  The access lists of the talk daemon, \<open>talkd/acl.c\<close>: the site's list and the list of the user who is called decide
  about a request.  Addresses and masks are the numbers of the dotted notation, which the program has
  in network byte order.  The regular expressions, the password file and the contents of files are
  parameters.

  The list is kept by its first and last element; a mark is the last element, or null for the empty list,
  and is here the length of the list up to it.
\<close>

section \<open>Addresses\<close>

type_synonym u32 = "32 word"

record netdef =
  ipaddr :: u32
  netmask :: u32

abbreviation (input) DOTTED_QUAD_LEN :: nat where "DOTTED_QUAD_LEN \<equiv> 16"
abbreviation (input) INADDR_NONE :: u32 where "INADDR_NONE \<equiv> 0xFFFFFFFF"

definition c_digit :: "char \<Rightarrow> bool" where
  "c_digit c \<longleftrightarrow> (48::nat) \<le> of_char c \<and> of_char c \<le> (57::nat)"

text \<open>The number of dots, the address and what follows it.\<close>

definition read_address :: "string \<Rightarrow> nat \<times> string \<times> string" where
  "read_address s =
     (let buf = take DOTTED_QUAD_LEN (takeWhile (\<lambda>c. c_digit c \<or> c = CHR ''.'') s)
      in (length (filter (\<lambda>c. c = CHR ''.'') buf), buf, drop (length buf) s))"

text \<open>Library functions, on strings of digits and dots: \<open>strtoul\<close> with base 0 takes the digits of a number that
  is octal after a zero; \<open>inet_addr\<close> has up to four parts, of which the last fills the rest of the
  address; \<open>inet_network\<close> puts its parts together from the right.\<close>

fun digits_in :: "nat \<Rightarrow> string \<Rightarrow> nat \<Rightarrow> nat" where
  "digits_in base [] acc = acc"
| "digits_in base (c # cs) acc =
     (let d = of_char c - (48::nat)
      in if c_digit c \<and> d < base then digits_in base cs (acc * base + d) else acc)"

definition strtoul0 :: "string \<Rightarrow> nat" where
  "strtoul0 s = (case s of c # cs \<Rightarrow> if c = CHR ''0'' then digits_in 8 cs 0 else digits_in 10 s 0 | [] \<Rightarrow> 0)"

fun split_dots :: "string \<Rightarrow> string \<Rightarrow> string list" where
  "split_dots acc [] = [acc]"
| "split_dots acc (c # cs) = (if c = CHR ''.'' then acc # split_dots [] cs else split_dots (acc @ [c]) cs)"

definition part_ok :: "string \<Rightarrow> bool" where
  "part_ok p \<longleftrightarrow> p \<noteq> [] \<and> list_all c_digit p \<and> (hd p = CHR ''0'' \<longrightarrow> list_all (\<lambda>c. of_char c < (56::nat)) p)"

definition inet_addr :: "string \<Rightarrow> u32" where
  "inet_addr s =
     (let ps = split_dots [] s; ns = map strtoul0 ps; k = length ps
      in if list_all part_ok ps \<and> k \<le> 4 \<and> list_all (\<lambda>n. n < 256) (butlast ns) \<and> last ns < 256 ^ (5 - k)
         then of_nat (foldl (\<lambda>a n. a * 256 + n) 0 (butlast ns) * 256 ^ (5 - k) + last ns)
         else INADDR_NONE)"

definition inet_network :: "string \<Rightarrow> u32" where
  "inet_network s =
     (let ps = split_dots [] s; ns = map strtoul0 ps
      in if list_all part_ok ps \<and> length ps \<le> 4 \<and> list_all (\<lambda>n. n < 256) ns
         then of_nat (foldl (\<lambda>a n. a * 256 + n) 0 ns) else INADDR_NONE)"

definition mask_of_length :: "nat \<Rightarrow> u32" where
  "mask_of_length len = push_bit (32 - len) (drop_bit (32 - len) (0xFFFFFFFF :: u32))"

definition netdef_parse :: "string \<Rightarrow> netdef option" where
  "netdef_parse s =
     (if s = ''any'' then Some \<lparr>ipaddr = 0, netmask = 0\<rparr>
      else case read_address s of
        (_, ipbuf, rest) \<Rightarrow>
          let ip = inet_addr ipbuf
          in if ip = INADDR_NONE then None
             else (case rest of
                [] \<Rightarrow> Some \<lparr>ipaddr = ip, netmask = 0xFFFFFFFF\<rparr>
              | c # rest' \<Rightarrow>
                  if c \<noteq> CHR ''/'' then None
                  else (case read_address rest' of
                     (dots, buf, _) \<Rightarrow>
                       if dots = 0 then
                         if strtoul0 buf > 32 then None
                         else Some \<lparr>ipaddr = ip, netmask = mask_of_length (strtoul0 buf)\<rparr>
                       else Some \<lparr>ipaddr = ip, netmask = inet_network buf\<rparr>)))"

section \<open>Reading a list\<close>

datatype action = ACT_ALLOW | ACT_DENY

record acl =
  acl_re :: string
  acl_netlist :: "netdef list"
  acl_action :: action

text \<open>What the daemon asks of its surroundings: whether a regular expression compiles and matches, the home
  directory of a user, and the contents of a file.\<close>

record acl_env =
  regcomp :: "string \<Rightarrow> bool"
  regexec :: "string \<Rightarrow> string \<Rightarrow> bool"
  pw_dir :: "string \<Rightarrow> string option"
  file_text :: "string \<Rightarrow> string option"

text \<open>The pieces that \<open>fgets\<close> gives with a buffer of \<open>Suc n\<close> bytes: up to a newline, or \<open>n\<close> bytes.\<close>

fun fgets_pieces :: "nat \<Rightarrow> string \<Rightarrow> string \<Rightarrow> string list" where
  "fgets_pieces n acc [] = (if acc = [] then [] else [acc])"
| "fgets_pieces n acc (c # cs) =
     (if c = CHR 0x0A \<or> length acc + 1 \<ge> n then (acc @ [c]) # fgets_pieces n [] cs
      else fgets_pieces n (acc @ [c]) cs)"

definition chomp :: "string \<Rightarrow> string" where
  "chomp s = (if s \<noteq> [] \<and> last s = CHR 0x0A then butlast s else s)"

definition acl_line :: "acl_env \<Rightarrow> string \<Rightarrow> acl list" where
  "acl_line env piece =
     (let ptr = dropWhile ctype_space (chomp piece)
      in if ptr = [] \<or> hd ptr = CHR ''#'' then []
         else case argcv_get ptr [] of
             Some (kw # re # nets) \<Rightarrow>
               if kw = ''allow'' \<or> kw = ''deny'' then
                 if regcomp env re then
                   [\<lparr>acl_re = re, acl_netlist = List.map_filter netdef_parse nets,
                     acl_action = (if kw = ''allow'' then ACT_ALLOW else ACT_DENY)\<rparr>]
                 else []
               else []
           | _ \<Rightarrow> [])"

definition read_acl :: "acl_env \<Rightarrow> string \<Rightarrow> acl list \<Rightarrow> acl list" where
  "read_acl env config_file acls =
     (case file_text env config_file of
        None \<Rightarrow> acls
      | Some text \<Rightarrow> acls @ concat (map (acl_line env) (fgets_pieces 127 [] text)))"

section \<open>Deciding\<close>

definition open_users_acl :: "acl_env \<Rightarrow> string \<Rightarrow> acl list \<Rightarrow> nat option \<times> acl list" where
  "open_users_acl env name acls =
     (case pw_dir env name of
        None \<Rightarrow> (None, acls)
      | Some dir \<Rightarrow> (if acls = [] then None else Some (length acls), read_acl env (dir @ ''/.talkrc'') acls))"

definition discard_acl :: "nat option \<Rightarrow> acl list \<Rightarrow> acl list" where
  "discard_acl mark acls = (case mark of Some k \<Rightarrow> take k acls | None \<Rightarrow> [])"

definition acl_applies :: "acl_env \<Rightarrow> string \<Rightarrow> u32 \<Rightarrow> acl \<Rightarrow> bool" where
  "acl_applies env name ip a \<longleftrightarrow>
     (\<exists>net \<in> set (acl_netlist a). ipaddr net = ip AND netmask net) \<and> regexec env (acl_re a) name"

text \<open>
  The action of the first element that applies.  It is read after \<open>discard_acl\<close>, which has freed the
  elements behind the mark: \<open>None\<close> when it is one of these.
\<close>

definition acl_match :: "acl_env \<Rightarrow> CTL_MSG \<Rightarrow> u32 \<Rightarrow> acl list \<Rightarrow> action option \<times> acl list" where
  "acl_match env msg ip acls =
     (case open_users_acl env (r_name msg) acls of
        (mark, as) \<Rightarrow>
          (case dropWhile (\<lambda>a. \<not> acl_applies env (l_name msg) ip a) as of
             [] \<Rightarrow> (Some ACT_ALLOW, discard_acl mark as)
           | a # rest \<Rightarrow>
               (if mark \<noteq> None \<and> the mark \<le> length as - length (a # rest) then None else Some (acl_action a),
                discard_acl mark as)))"

section \<open>The list after a decision\<close>

lemma discard_opened:
  "open_users_acl env name acls = (mark, as) \<Longrightarrow>
     discard_acl mark as = (if pw_dir env name = None \<or> acls = [] then [] else acls)"
  by (auto simp: open_users_acl_def discard_acl_def read_acl_def split: option.splits if_splits)

lemma acl_match_keeps: "snd (acl_match env m ip acls) = (if pw_dir env (r_name m) = None \<or> acls = [] then [] else acls)"
proof -
  obtain mark as where o: "open_users_acl env (r_name m) acls = (mark, as)" by force
  from discard_opened [OF this] o show ?thesis by (simp add: acl_match_def split: list.splits)
qed

text \<open>The elements that the user's own file adds.\<close>

definition users_acl :: "acl_env \<Rightarrow> string \<Rightarrow> acl list" where
  "users_acl env name = (case pw_dir env name of None \<Rightarrow> [] | Some dir \<Rightarrow> read_acl env (dir @ ''/.talkrc'') [])"

lemma open_users_list: "snd (open_users_acl env name acls) = acls @ users_acl env name"
  by (simp add: open_users_acl_def users_acl_def read_acl_def split: option.splits)

lemma dropWhile_find: "find P xs = None \<Longrightarrow> dropWhile (\<lambda>x. \<not> P x) xs = []"
  "find P xs = Some x \<Longrightarrow> \<exists>r. dropWhile (\<lambda>x. \<not> P x) xs = x # r"
  by (induction xs) (auto split: if_splits)

lemma acl_match_alone:
  assumes "pw_dir env (r_name m) = None \<or> acls = []"
  shows "fst (acl_match env m ip acls) =
    (case find (acl_applies env (l_name m) ip) (acls @ users_acl env (r_name m)) of Some a \<Rightarrow> Some (acl_action a) | None \<Rightarrow> Some ACT_ALLOW)"
proof -
  let ?P = "acl_applies env (l_name m) ip"
  let ?as = "acls @ users_acl env (r_name m)"
  have o: "open_users_acl env (r_name m) acls = (None, ?as)"
    using assms open_users_list [of env "r_name m" acls] by (auto simp: open_users_acl_def split: option.splits)
  show ?thesis
  proof (cases "find ?P ?as")
    case None
    then show ?thesis using dropWhile_find(1) [OF None] o by (simp add: acl_match_def del: dropWhile_eq_Nil_conv)
  next
    case (Some a)
    then show ?thesis using dropWhile_find(2) [OF Some] o by (auto simp: acl_match_def)
  qed
qed

lemma acl_match_decides:
  assumes "pw_dir env (r_name m) \<noteq> None" "acls \<noteq> []"
  shows "fst (acl_match env m ip acls) =
    (case find (acl_applies env (l_name m) ip) acls of
       Some a \<Rightarrow> Some (acl_action a)
     | None \<Rightarrow> if find (acl_applies env (l_name m) ip) (users_acl env (r_name m)) = None then Some ACT_ALLOW else None)"
proof -
  let ?P = "acl_applies env (l_name m) ip"
  let ?u = "users_acl env (r_name m)"
  have o: "open_users_acl env (r_name m) acls = (Some (length acls), acls @ ?u)"
    using assms open_users_list [of env "r_name m" acls] by (auto simp: open_users_acl_def)
  show ?thesis
  proof (cases "find ?P acls")
    case (Some a)
    then obtain r where r: "dropWhile (\<lambda>x. \<not> ?P x) acls = a # r" using dropWhile_find(2) [OF Some] by auto
    then have "dropWhile (\<lambda>x. \<not> ?P x) (acls @ ?u) = a # r @ ?u"
      using Some by (simp add: dropWhile_append find_Some_iff) (metis append_Cons dropWhile_append1 dropWhile_eq_Nil_conv list.distinct(1))
    moreover have "length (a # r) \<le> length acls" using r length_dropWhile_le by metis
    ultimately show ?thesis using Some o by (simp add: acl_match_def)
  next
    case None
    then have d: "dropWhile (\<lambda>x. \<not> ?P x) (acls @ ?u) = dropWhile (\<lambda>x. \<not> ?P x) ?u"
      by (simp add: dropWhile_append2 find_None_iff)
    show ?thesis
    proof (cases "find ?P ?u")
      case N: None
      then show ?thesis using None d dropWhile_find(1) [OF N] o by (simp add: acl_match_def del: dropWhile_eq_Nil_conv)
    next
      case S: (Some a)
      then obtain r where r: "dropWhile (\<lambda>x. \<not> ?P x) ?u = a # r" using dropWhile_find(2) [OF S] by auto
      then have "length (a # r) \<le> length ?u" using length_dropWhile_le by metis
      then show ?thesis using None S d r o by (simp add: acl_match_def)
    qed
  qed
qed

section \<open>Properties\<close>

text \<open>
  (C31) How a request is decided, and what becomes of the access list.  The first element of the site's list that applies decides.  When none
  does, the first element of the list of the called user that applies ought to; but then its action is read from memory that has just been freed, unless
  the site's list is empty.  When none of them applies the request is allowed.  Afterwards the list is that of the site again, but it
  is lost when the called user does not exist.
\<close>

theorem acl_decision:
  "acl_match env m ip acls =
    (case find (acl_applies env (l_name m) ip) acls of
       Some a \<Rightarrow> Some (acl_action a)
     | None \<Rightarrow>
         (case find (acl_applies env (l_name m) ip) (users_acl env (r_name m)) of
            None \<Rightarrow> Some ACT_ALLOW
          | Some a \<Rightarrow> if acls = [] then Some (acl_action a) else None),
     if pw_dir env (r_name m) = None then [] else acls)"
proof -
  have f: "find P (xs @ ys) = (case find P xs of None \<Rightarrow> find P ys | Some x \<Rightarrow> Some x)" for P and xs ys :: "acl list"
    by (induction xs) auto
  have u: "users_acl env (r_name m) = []" if "pw_dir env (r_name m) = None" using that by (simp add: users_acl_def)
  have "snd (acl_match env m ip acls) = (if pw_dir env (r_name m) = None then [] else acls)"
    using acl_match_keeps [of env m ip acls] by auto
  moreover have "fst (acl_match env m ip acls) =
    (case find (acl_applies env (l_name m) ip) acls of
       Some a \<Rightarrow> Some (acl_action a)
     | None \<Rightarrow>
         (case find (acl_applies env (l_name m) ip) (users_acl env (r_name m)) of
            None \<Rightarrow> Some ACT_ALLOW
          | Some a \<Rightarrow> if acls = [] then Some (acl_action a) else None))"
    using acl_match_alone [of env m acls ip] acl_match_decides [of env m acls ip] u
    by (cases "pw_dir env (r_name m) = None"; cases "acls = []") (auto simp: f split: option.splits)
  ultimately show ?thesis by (simp add: prod_eq_iff)
qed

text \<open>
  A request to a user who does not exist empties the site's access list: \<open>open_users_acl\<close> then returns null,
  which \<open>discard_acl\<close> takes for the mark of an empty list.  From then on every request to a user without
  a list of his own is allowed.
\<close>

theorem acl_lost:
  assumes "pw_dir env (r_name m) = None"
  shows "snd (acl_match env m ip acls) = []
    \<and> (users_acl env (r_name m') = [] \<longrightarrow> acl_match env m' ip' (snd (acl_match env m ip acls)) = (Some ACT_ALLOW, []))"
proof -
  have e: "snd (acl_match env m ip acls) = []" using assms acl_match_keeps [of env m ip acls] by simp
  have "acl_match env m' ip' [] = (Some ACT_ALLOW, [])" if "users_acl env (r_name m') = []"
    using that open_users_list [of env "r_name m'" "[]"] discard_opened [of env "r_name m'" "[]"]
    by (cases "open_users_acl env (r_name m') []") (simp add: acl_match_def)
  then show ?thesis unfolding e by simp
qed

theorem acl_lost_witness:
  "let a = \<lparr>acl_re = ''.*'', acl_netlist = [\<lparr>ipaddr = 0, netmask = 0\<rparr>], acl_action = ACT_DENY\<rparr>;
       env = \<lparr>regcomp = \<lambda>_. True, regexec = \<lambda>_ _. True, pw_dir = [''bob'' \<mapsto> ''/root''], file_text = \<lambda>_. None\<rparr>;
       m = \<lparr>vers = 1, msg_type = LOOK_UP, id_num = 0, msg_addr = \<lparr>sa_family = 2, sa_data = []\<rparr>,
         ctl_addr = \<lparr>sa_family = 2, sa_data = []\<rparr>, pid = 1, l_name = ''ann'', r_name = ''bob'', r_tty = []\<rparr>
   in fst (acl_match env m 0x7F000001 [a]) = Some ACT_DENY
     \<and> acl_match env m 0x7F000001 (snd (acl_match env (m\<lparr>r_name := ''nobody''\<rparr>) 0x7F000001 [a])) = (Some ACT_ALLOW, [])"
proof -
  let ?a = "\<lparr>acl_re = ''.*'', acl_netlist = [\<lparr>ipaddr = 0, netmask = 0\<rparr>], acl_action = ACT_DENY\<rparr>"
  let ?env = "\<lparr>regcomp = \<lambda>_. True, regexec = \<lambda>_ _. True, pw_dir = [''bob'' \<mapsto> ''/root''], file_text = \<lambda>_. None\<rparr>"
  let ?m = "\<lparr>vers = 1, msg_type = LOOK_UP, id_num = 0, msg_addr = \<lparr>sa_family = 2, sa_data = []\<rparr>,
         ctl_addr = \<lparr>sa_family = 2, sa_data = []\<rparr>, pid = 1, l_name = ''ann'', r_name = ''bob'', r_tty = []\<rparr>"
  have "fst (acl_match ?env ?m 0x7F000001 [?a]) = Some ACT_DENY" by (subst acl_match_decides) (simp_all add: acl_applies_def)
  moreover have "users_acl ?env (r_name ?m) = []" by (simp add: users_acl_def read_acl_def)
  ultimately show ?thesis
    unfolding Let_def using acl_lost [where env = ?env and m = "?m\<lparr>r_name := ''nobody''\<rparr>" and m' = ?m and ip = "0x7F000001"
        and acls = "[?a]" and ip' = "0x7F000001"] by auto
qed

end
