(* ===== verification/Talkd.thy ===== *)
theory Talkd
  imports Talkd_Acl
begin

text \<open>
  The talk daemon: what it writes on the terminal of the user who is called (\<open>talkd/announce.c\<close>), what it does
  with a request (\<open>talkd/process.c\<close>) and the body of its loop (\<open>talkd/talkd.c\<close>).  The list of users, the
  terminals, the names of hosts and the writing to a terminal (\<open>ttymsg\<close>) are parameters.  The clock does not
  advance within a request.
\<close>

section \<open>State\<close>

record CTL_RESPONSE =
  rp_vers :: nat
  rp_type :: nat
  rp_answer :: nat
  rp_id :: int
  rp_addr :: osockaddr

record talkd =
  acls :: "acl list"
  table :: tbl

text \<open>\<open>tty_stat\<close> says whether a terminal is writable by its group and when it was last used.\<close>

record talk_env = acl_env +
  utmp :: "(string \<times> string) list"
  tty_stat :: "string \<Rightarrow> (bool \<times> int) option"
  host_by_addr :: "osockaddr \<Rightarrow> string option"
  ttymsg :: "string \<Rightarrow> string \<Rightarrow> bool"
  hostname :: string
  time_now :: int
  tm_hour :: nat
  tm_min :: nat
  max_request_ttl :: int

abbreviation (input) SUCCESS :: nat where "SUCCESS \<equiv> 0"
abbreviation (input) NOT_HERE :: nat where "NOT_HERE \<equiv> 1"
abbreviation (input) FAILED :: nat where "FAILED \<equiv> 2"
abbreviation (input) MACHINE_UNKNOWN :: nat where "MACHINE_UNKNOWN \<equiv> 3"
abbreviation (input) PERMISSION_DENIED :: nat where "PERMISSION_DENIED \<equiv> 4"
abbreviation (input) UNKNOWN_REQUEST :: nat where "UNKNOWN_REQUEST \<equiv> 5"
abbreviation (input) BADVERSION :: nat where "BADVERSION \<equiv> 6"
abbreviation (input) BADADDR :: nat where "BADADDR \<equiv> 7"
abbreviation (input) BADCTLADDR :: nat where "BADCTLADDR \<equiv> 8"
abbreviation (input) TALK_VERSION :: nat where "TALK_VERSION \<equiv> 1"
abbreviation (input) AF_INET :: nat where "AF_INET \<equiv> 2"

section \<open>The announcement\<close>

abbreviation (input) N_LINES :: nat where "N_LINES \<equiv> 5"
abbreviation (input) N_CHARS :: nat where "N_CHARS \<equiv> 256"

text \<open>The lines with their sizes before they were cut.\<close>

record LINE =
  ln_lines :: "(string \<times> nat) list"
  ln_max_size :: nat

definition init_line :: LINE where
  "init_line = \<lparr>ln_lines = [], ln_max_size = 0\<rparr>"

definition format_line :: "string \<Rightarrow> LINE \<Rightarrow> LINE" where
  "format_line txt lp =
     (if length (ln_lines lp) \<ge> N_LINES then lp
      else lp\<lparr>ln_lines := ln_lines lp @ [(take (N_CHARS - 1) txt, length txt)],
              ln_max_size := max (ln_max_size lp) (length txt)\<rparr>)"

text \<open>The text for the terminal, which is put into an array of \<open>N_LINES * N_CHARS + 3\<close> bytes.\<close>

definition finish_line :: "LINE \<Rightarrow> string" where
  "finish_line lp =
     [CHR 0x07, CHR 0x0D, CHR 0x0A]
     @ concat (map (\<lambda>(txt, n). txt @ replicate (ln_max_size lp + 2 - n) CHR '' '' @ [CHR 0x0D, CHR 0x0A]) (ln_lines lp))"

fun dec :: "nat \<Rightarrow> string" where
  "dec n = (if n < 10 then [char_of (48 + n)] else dec (n div 10) @ [char_of (48 + n mod 10)])"

declare dec.simps [simp del]

definition dec2 :: "nat \<Rightarrow> string" where
  "dec2 n = (if n < 10 then CHR ''0'' # dec n else dec n)"

definition mesg_lines :: "talk_env \<Rightarrow> string \<Rightarrow> string \<Rightarrow> LINE" where
  "mesg_lines env name remote =
     fold format_line
       [[], ''Message from Talk_Daemon@'' @ hostname env @ '' at '' @ dec (tm_hour env) @ '':'' @ dec2 (tm_min env) @ '' ...'',
        ''talk: connection requested by '' @ name @ ''@'' @ remote,
        ''talk: respond with:  talk '' @ name @ ''@'' @ remote, [], []] init_line"

definition print_mesg :: "talk_env \<Rightarrow> string \<Rightarrow> CTL_MSG \<Rightarrow> string \<Rightarrow> nat" where
  "print_mesg env tty request remote =
     (if ttymsg env tty (finish_line (mesg_lines env (l_name request) remote)) then SUCCESS else FAILED)"

definition announce :: "talk_env \<Rightarrow> CTL_MSG \<Rightarrow> string \<Rightarrow> nat" where
  "announce env request remote =
     (case tty_stat env (''/dev//'' @ r_tty request) of
        Some (True, _) \<Rightarrow> print_mesg env (r_tty request) request remote
      | _ \<Rightarrow> PERMISSION_DENIED)"

section \<open>Requests\<close>

text \<open>The loop over the users that are logged in; the result is the status and the terminal.\<close>

fun find_user_loop :: "talk_env \<Rightarrow> bool \<Rightarrow> string \<Rightarrow> (string \<times> string) list \<Rightarrow> nat \<Rightarrow> int \<Rightarrow> string \<Rightarrow> nat \<times> string" where
  "find_user_loop env notty name [] status last_time tty = (status, tty)"
| "find_user_loop env notty name ((user, line) # us) status last_time tty =
     (if take 32 user \<noteq> take 32 name then find_user_loop env notty name us status last_time tty
      else case (if notty then tty_stat env (''/dev/'' @ take 31 line) else None) of
          Some (False, _) \<Rightarrow>
            find_user_loop env notty name us (if status \<noteq> SUCCESS then PERMISSION_DENIED else status) last_time tty
        | Some (True, atime) \<Rightarrow>
            if atime > last_time then find_user_loop env notty name us SUCCESS atime line
            else find_user_loop env notty name us status last_time tty
        | None \<Rightarrow>
            if line = tty then (SUCCESS, tty) else find_user_loop env notty name us status last_time tty)"

definition find_user :: "talk_env \<Rightarrow> string \<Rightarrow> string \<Rightarrow> nat \<times> string" where
  "find_user env name tty = find_user_loop env (tty = []) name (utmp env) NOT_HERE 0 tty"

definition do_announce :: "talk_env \<Rightarrow> CTL_MSG \<Rightarrow> CTL_RESPONSE \<Rightarrow> tbl \<Rightarrow> (CTL_RESPONSE \<times> tbl) option" where
  "do_announce env mp0 rp tb =
     (case find_user env (r_name mp0) (r_tty mp0) of
        (result, tty) \<Rightarrow>
          let mp = mp0\<lparr>r_tty := tty\<rparr>
          in if result \<noteq> SUCCESS then Some (rp\<lparr>rp_answer := result\<rparr>, tb)
             else (case host_by_addr env (ctl_addr mp) of
                None \<Rightarrow> Some (rp\<lparr>rp_answer := MACHINE_UNKNOWN\<rparr>, tb)
              | Some h \<Rightarrow>
                  (case find_request (max_request_ttl env) (time_now env) mp tb of
                     None \<Rightarrow> None
                   | Some (None, tb1) \<Rightarrow>
                       (case insert_table (time_now env) mp tb1 of
                          (i, tb2) \<Rightarrow> Some (rp\<lparr>rp_id := i, rp_answer := announce env mp h\<rparr>, tb2))
                   | Some (Some p, tb1) \<Rightarrow>
                       let old = id_num (t_request (the (nodes tb1 p)))
                       in if id_num mp > old then
                            (case new_id tb1 of
                               (i, tb2) \<Rightarrow>
                                 (case upd_node p (\<lambda>n. n\<lparr>t_request := (t_request n)\<lparr>id_num := i\<rparr>\<rparr>) tb2 of
                                    None \<Rightarrow> None
                                  | Some tb3 \<Rightarrow> Some (rp\<lparr>rp_id := i, rp_answer := announce env mp h\<rparr>, tb3)))
                          else Some (rp\<lparr>rp_id := old, rp_answer := SUCCESS\<rparr>, tb1))))"

definition request_type :: "talk_env \<Rightarrow> CTL_MSG \<Rightarrow> CTL_RESPONSE \<Rightarrow> tbl \<Rightarrow> (CTL_RESPONSE \<times> tbl) option" where
  "request_type env msg rp tb =
     (if msg_type msg = ANNOUNCE then do_announce env msg rp tb
      else if msg_type msg = LEAVE_INVITE then
        (case found_msg (find_request (max_request_ttl env) (time_now env) msg tb) of
           None \<Rightarrow> None
         | Some (Some ptr, tb1) \<Rightarrow> Some (rp\<lparr>rp_id := id_num ptr, rp_answer := SUCCESS\<rparr>, tb1)
         | Some (None, tb1) \<Rightarrow>
             (case insert_table (time_now env) msg tb1 of (i, tb2) \<Rightarrow> Some (rp\<lparr>rp_id := i\<rparr>, tb2)))
      else if msg_type msg = LOOK_UP then
        (case found_msg (find_match (max_request_ttl env) (time_now env) msg tb) of
           None \<Rightarrow> None
         | Some (Some ptr, tb1) \<Rightarrow> Some (rp\<lparr>rp_id := id_num ptr, rp_addr := msg_addr ptr, rp_answer := SUCCESS\<rparr>, tb1)
         | Some (None, tb1) \<Rightarrow> Some (rp\<lparr>rp_answer := NOT_HERE\<rparr>, tb1))
      else if msg_type msg = DELETE then
        (case delete_invite (id_num msg) tb of
           None \<Rightarrow> None
         | Some (b, tb1) \<Rightarrow> Some (rp\<lparr>rp_answer := (if b then SUCCESS else NOT_HERE)\<rparr>, tb1))
      else Some (rp\<lparr>rp_answer := UNKNOWN_REQUEST\<rparr>, tb))"

text \<open>
  The response is put into the variable \<open>rp\<close>, which is not initialised.  The result has no response when the
  request is dropped; it is \<open>None\<close> when freed memory decides.
\<close>

definition process_request ::
  "talk_env \<Rightarrow> CTL_MSG \<Rightarrow> u32 \<Rightarrow> CTL_RESPONSE \<Rightarrow> talkd \<Rightarrow> (CTL_RESPONSE option \<times> talkd) option" where
  "process_request env msg ip rp0 s0 =
     (case acl_match (acl_env.truncate env) msg ip (acls s0) of
        (None, _) \<Rightarrow> None
      | (Some ACT_DENY, as) \<Rightarrow> Some (None, s0\<lparr>acls := as\<rparr>)
      | (Some ACT_ALLOW, as) \<Rightarrow>
          let s = s0\<lparr>acls := as\<rparr>;
              rp = rp0\<lparr>rp_vers := TALK_VERSION, rp_type := msg_type msg, rp_id := 0\<rparr>
          in if vers msg \<noteq> TALK_VERSION then Some (Some (rp\<lparr>rp_answer := BADVERSION\<rparr>), s)
             else if sa_family (msg_addr msg) \<noteq> AF_INET then Some (Some (rp\<lparr>rp_answer := BADADDR\<rparr>), s)
             else if sa_family (ctl_addr msg) \<noteq> AF_INET then Some (Some (rp\<lparr>rp_answer := BADCTLADDR\<rparr>), s)
             else (case request_type env msg rp (table s) of
                None \<Rightarrow> None
              | Some (rp1, tb) \<Rightarrow> Some (Some rp1, s\<lparr>table := tb\<rparr>)))"

text \<open>One turn of the loop: the datagram must have the size of a message (\<open>Some\<close>); the response goes to the control
  address.\<close>

definition talkd_turn ::
  "talk_env \<Rightarrow> CTL_MSG option \<Rightarrow> u32 \<Rightarrow> CTL_RESPONSE \<Rightarrow> talkd \<Rightarrow> ((osockaddr \<times> CTL_RESPONSE) option \<times> talkd) option" where
  "talkd_turn env packet ip rp s =
     (case packet of
        None \<Rightarrow> Some (None, s)
      | Some msg \<Rightarrow>
          map_option (\<lambda>(r, s1). (map_option (Pair (ctl_addr msg)) r, s1)) (process_request env msg ip rp s))"

section \<open>Lemmas\<close>

text \<open>Requests that pass the checks.\<close>

definition well_formed :: "CTL_MSG \<Rightarrow> bool" where
  "well_formed m \<longleftrightarrow> vers m = TALK_VERSION \<and> sa_family (msg_addr m) = AF_INET \<and> sa_family (ctl_addr m) = AF_INET"

lemma process_allowed:
  assumes "well_formed m" "acl_match (acl_env.truncate env) m ip (acls s) = (Some ACT_ALLOW, as)"
    "request_type env m (rp\<lparr>rp_vers := TALK_VERSION, rp_type := msg_type m, rp_id := 0\<rparr>) (table s) = Some (rp1, tb)"
  shows "process_request env m ip rp s = Some (Some rp1, s\<lparr>acls := as, table := tb\<rparr>)"
  using assms by (simp add: process_request_def well_formed_def)

lemma finish_length:
  assumes "\<forall>(txt, n) \<in> set (ln_lines lp). n \<le> ln_max_size lp \<and> length txt = min n (N_CHARS - 1)" "ln_max_size lp < N_CHARS"
  shows "length (finish_line lp) = 3 + length (ln_lines lp) * (ln_max_size lp + 4)"
proof -
  have "length (concat (map (\<lambda>(txt, n). txt @ replicate (k + 2 - n) CHR '' '' @ [CHR 0x0D, CHR 0x0A]) ls)) = length ls * (k + 4)"
    if "\<forall>(txt, n) \<in> set ls. n \<le> k \<and> length txt = n" for k and ls :: "(string \<times> nat) list"
    using that by (induction ls) auto
  moreover have "\<forall>(txt, n) \<in> set (ln_lines lp). n \<le> ln_max_size lp \<and> length txt = n" using assms by auto
  ultimately show ?thesis by (simp add: finish_line_def)
qed

lemma finish_length_long:
  assumes "\<forall>(txt, n) \<in> set (ln_lines lp). n \<le> ln_max_size lp \<and> length txt = min n (N_CHARS - 1)" "ln_max_size lp \<ge> 252"
  shows "length (finish_line lp) \<ge> 3 + length (ln_lines lp) * 256"
proof -
  have "length (concat (map (\<lambda>(txt, n). txt @ replicate (k + 2 - n) CHR '' '' @ [CHR 0x0D, CHR 0x0A]) ls)) \<ge> length ls * 256"
    if "\<forall>(txt, n) \<in> set ls. n \<le> k \<and> length txt = min n 255" "k \<ge> 252" for k and ls :: "(string \<times> nat) list"
    using that
  proof (induction ls)
    case (Cons l ls)
    obtain w n where l: "l = (w, n)" by force
    have "length w + (k + 2 - n) + 2 \<ge> 256" using Cons.prems l by (auto simp: min_def)
    then show ?case using Cons l by simp
  qed simp
  from this [of "ln_lines lp" "ln_max_size lp"] assms show ?thesis by (simp add: finish_line_def)
qed

section \<open>Properties\<close>



text \<open>
  The message to the called user is put together in an array of 1283 bytes.  It fits exactly when no
  line is longer than 251 characters: the lines are padded to the longest one, which contains the name of the
  caller's host.
\<close>

theorem announcement_overrun:
  "length (finish_line (mesg_lines env name remote)) + 1 \<le> N_LINES * N_CHARS + 3
   \<longleftrightarrow> length name + length remote \<le> 220
     \<and> length (hostname env) + length (dec (tm_hour env)) + length (dec2 (tm_min env)) \<le> 217"
proof -
  let ?lp = "mesg_lines env name remote"
  have lines: "length (ln_lines ?lp) = 5" by (simp add: mesg_lines_def format_line_def init_line_def)
  have sizes: "\<forall>(w, n) \<in> set (ln_lines ?lp). n \<le> ln_max_size ?lp \<and> length w = min n (N_CHARS - 1)"
    by (auto simp: mesg_lines_def format_line_def init_line_def)
  have mx: "ln_max_size ?lp \<le> 251 \<longleftrightarrow> length name + length remote \<le> 220
     \<and> length (hostname env) + length (dec (tm_hour env)) + length (dec2 (tm_min env)) \<le> 217"
    by (auto simp: mesg_lines_def format_line_def init_line_def)
  show ?thesis
  proof (cases "ln_max_size ?lp \<le> 251")
    case True
    then show ?thesis using finish_length [OF sizes] lines mx by simp
  next
    case False
    then have "length (finish_line ?lp) \<ge> 1283" using finish_length_long [OF sizes] lines by simp
    then show ?thesis using False mx by auto
  qed
qed

end
