(* ===== verification/Icmp.thy ===== *)
theory Icmp
  imports Prelude
begin

text \<open>
  The ICMP messages of \<open>src/libicmp/\<close>: the Internet checksum (\<open>icmp_cksum.c\<close>) and the encoding and
  decoding of a message in a buffer (\<open>icmp_echo.c\<close>, \<open>icmp_timestamp.c\<close>, \<open>icmp_address.c\<close>).

  A buffer is a map from indices to bytes, as large as the caller made it; the fields of
  \<open>struct icmp_header\<close> (\<open>icmp.h\<close>) are at the offsets an LP64 little-endian host gives them: type 0, code 1,
  checksum 2, identifier 4, sequence number 6 and the data from 8 on, where \<open>icmp_mask\<close> is an
  \<open>unsigned long\<close> of 8 bytes.  The sum of the checksum is an \<open>int\<close> of 32 bits in the code; it is a natural
  number here, which is the same for the messages of up to 65536 bytes that fit into a datagram.
\<close>

type_synonym buffer = "nat \<Rightarrow> byte"

abbreviation (input) ICMP_ECHOREPLY :: byte where "ICMP_ECHOREPLY \<equiv> 0"
abbreviation (input) ICMP_ECHO :: byte where "ICMP_ECHO \<equiv> 8"
abbreviation (input) ICMP_TIMESTAMP :: byte where "ICMP_TIMESTAMP \<equiv> 13"
abbreviation (input) ICMP_TIMESTAMPREPLY :: byte where "ICMP_TIMESTAMPREPLY \<equiv> 14"
abbreviation (input) ICMP_ADDRESS :: byte where "ICMP_ADDRESS \<equiv> 17"
abbreviation (input) ICMP_ADDRESSREPLY :: byte where "ICMP_ADDRESSREPLY \<equiv> 18"
abbreviation (input) ICMP_MINLEN :: nat where "ICMP_MINLEN \<equiv> 8"

section \<open>Fields\<close>

lemma byte_range: "unat (b :: byte) < 256"
  using unsigned_less [of b] by simp

lemma half_range: "unat (w :: u16) < 65536"
  using unsigned_less [of w] by simp

definition get16 :: "buffer \<Rightarrow> nat \<Rightarrow> u16" where
  "get16 m i = word_of_nat (unat (m i) + 256 * unat (m (i + 1)))"

definition put16 :: "nat \<Rightarrow> u16 \<Rightarrow> buffer \<Rightarrow> buffer" where
  "put16 i v m = m(i := word_of_nat (unat v mod 256), i + 1 := word_of_nat (unat v div 256))"

definition get32 :: "buffer \<Rightarrow> nat \<Rightarrow> u32" where
  "get32 m i = word_of_nat (unat (m i) + 256 * (unat (m (i + 1)) + 256 * (unat (m (i + 2)) + 256 * unat (m (i + 3)))))"

text \<open>\<open>htonl\<close> followed by a store: the most significant byte first.\<close>

definition put32_net :: "nat \<Rightarrow> u32 \<Rightarrow> buffer \<Rightarrow> buffer" where
  "put32_net i v m = m(i := word_of_nat (unat v div 16777216), i + 1 := word_of_nat (unat v div 65536),
     i + 2 := word_of_nat (unat v div 256), i + 3 := word_of_nat (unat v))"

lemma get16_put16 [simp]: "get16 (put16 i v m) i = v"
proof -
  have "unat v div 256 < 256" using half_range [of v] by (simp add: less_mult_imp_div_less)
  then have "unat (word_of_nat (unat v div 256) :: byte) = unat v div 256"
      "unat (word_of_nat (unat v mod 256) :: byte) = unat v mod 256"
    by (simp_all add: unat_of_nat)
  then show ?thesis by (simp add: get16_def put16_def)
qed

lemma get16_put16_other [simp]: "i + 2 \<le> j \<or> j + 2 \<le> i \<Longrightarrow> get16 (put16 i v m) j = get16 m j"
  by (auto simp: get16_def put16_def)

lemma put16_at [simp]: "j < i \<or> i + 1 < j \<Longrightarrow> put16 i v m j = m j"
  by (auto simp: put16_def)

lemma get16_upd [simp]: "k < j \<or> j + 1 < k \<Longrightarrow> get16 (m(k := b)) j = get16 m j"
  by (auto simp: get16_def)

section \<open>The checksum\<close>

text \<open>The loop: the sum of the 16-bit words, with an odd byte at the end taken as the low byte of a
  word.\<close>

fun cksum_loop :: "nat \<Rightarrow> byte list \<Rightarrow> nat" where
  "cksum_loop s (a # b # bs) = cksum_loop (s + unat a + 256 * unat b) bs"
| "cksum_loop s [a] = s + unat a"
| "cksum_loop s [] = s"

definition icmp_cksum :: "byte list \<Rightarrow> u16" where
  "icmp_cksum bs =
     (let s = cksum_loop 0 bs;
          s1 = s div 65536 + s mod 65536;
          s2 = s1 + s1 div 65536
      in NOT (word_of_nat s2))"

section \<open>Encoding and decoding\<close>

definition icmp_generic_encode :: "buffer \<Rightarrow> nat \<Rightarrow> byte \<Rightarrow> int \<Rightarrow> int \<Rightarrow> int \<times> buffer" where
  "icmp_generic_encode buf bufsize ty ident seqno =
     (if bufsize < 8 then (-1, buf)
      else let m1 = put16 2 0 (buf(0 := ty, 1 := 0));
               m2 = put16 4 (word_of_int ident) (put16 6 (word_of_int seqno) m1)
           in (0, put16 2 (icmp_cksum (slice m2 0 bufsize)) m2))"

text \<open>The message starts after the IP header, whose length in words is the low half of its first
  byte.  The result is the status, the length of the IP header, where the returned pointers point, and
  the buffer, in which the checksum has been recomputed.\<close>

definition ip_hlen :: "buffer \<Rightarrow> nat" where
  "ip_hlen m = 4 * (unat (m 0) mod 16)"

definition icmp_generic_decode :: "buffer \<Rightarrow> nat \<Rightarrow> int \<times> nat \<times> buffer" where
  "icmp_generic_decode buf bufsize =
     (let hlen = ip_hlen buf
      in if bufsize < hlen + ICMP_MINLEN then (-1, hlen, buf)
         else let cksum = get16 buf (hlen + 2);
                  m1 = put16 (hlen + 2) 0 buf;
                  ck = icmp_cksum (slice m1 hlen bufsize);
                  m2 = put16 (hlen + 2) ck m1
              in (if ck \<noteq> cksum then 1 else 0, hlen, m2))"

definition icmp_echo_encode :: "buffer \<Rightarrow> nat \<Rightarrow> int \<Rightarrow> int \<Rightarrow> int \<times> buffer" where
  "icmp_echo_encode buf bufsize ident seqno = icmp_generic_encode buf bufsize ICMP_ECHO ident seqno"

text \<open>The time of the day in milliseconds, from \<open>gettimeofday\<close>.\<close>

definition icmp_timestamp_encode :: "int \<times> int \<Rightarrow> buffer \<Rightarrow> nat \<Rightarrow> int \<Rightarrow> int \<Rightarrow> int \<times> buffer" where
  "icmp_timestamp_encode tv buf bufsize ident seqno =
     (if bufsize < 20 then (-1, buf)
      else let v = word_of_int ((fst tv mod 86400) * 1000 + snd tv div 1000);
               m1 = put32_net 16 v (put32_net 12 v (put32_net 8 v buf))
           in (0, snd (icmp_generic_encode m1 bufsize ICMP_TIMESTAMP ident seqno)))"

text \<open>The mask is eight bytes, of which a message of the least accepted size only has four.\<close>

definition icmp_address_encode :: "buffer \<Rightarrow> nat \<Rightarrow> int \<Rightarrow> int \<Rightarrow> int \<times> buffer" where
  "icmp_address_encode buf bufsize ident seqno =
     (if bufsize < 12 then (-1, buf)
      else (0, snd (icmp_generic_encode (buf_write buf 8 (replicate 8 0)) bufsize ICMP_ADDRESS ident seqno)))"

section \<open>One's complement arithmetic\<close>

text \<open>What the checksum means: the words added up modulo 65535 (RFC 1071), and the sum folded into
  16 bits.\<close>

fun word_sum :: "byte list \<Rightarrow> nat" where
  "word_sum (a # b # bs) = unat a + 256 * unat b + word_sum bs"
| "word_sum [a] = unat a"
| "word_sum [] = 0"

definition ck_fold :: "nat \<Rightarrow> nat" where
  "ck_fold s = (if s = 0 then 0 else (s - 1) mod 65535 + 1)"

lemma cksum_loop_sum: "cksum_loop k bs = k + word_sum bs"
  by (induction k bs rule: cksum_loop.induct) auto

lemma word_sum_bound: "2 * word_sum bs \<le> 65535 * (length bs + 1)"
proof (induction bs rule: word_sum.induct)
  case (1 a b bs)
  then show ?case using byte_range [of a] byte_range [of b] by simp
next
  case (2 a)
  then show ?case using byte_range [of a] by simp
qed simp

lemma fold_carry:
  assumes "s < 65536 * 65535"
  shows "(let s1 = s div 65536 + s mod 65536 in (s1 + s1 div 65536) mod 65536) = ck_fold s"
proof -
  define h l where "h = s div 65536" and "l = s mod 65536"
  have s: "s = 65536 * h + l" and l: "l < 65536" by (simp_all add: h_def l_def)
  have h: "h < 65535" using assms by (simp add: h_def less_mult_imp_div_less)
  show ?thesis
  proof (cases "h + l < 65536")
    case True
    have eq: "s = 65535 * h + (h + l)" using s by simp
    have "ck_fold s = h + l"
    proof (cases "h + l = 0")
      case False
      then have "s - 1 = 65535 * h + (h + l - 1)" using eq by simp
      then have "(s - 1) mod 65535 = h + l - 1" using True by simp
      with False eq show ?thesis by (simp add: ck_fold_def)
    qed (simp add: ck_fold_def eq)
    with True show ?thesis by (simp add: Let_def flip: h_def l_def)
  next
    case False
    have "s - 1 = 65535 * (h + 1) + (h + l - 65536)" using s False by simp
    then have "(s - 1) mod 65535 = (h + l - 65536) mod 65535" by (metis mod_mult_self4)
    also have "\<dots> = h + l - 65536" using h l by simp
    finally have "(s - 1) mod 65535 = h + l - 65536" .
    moreover have "s \<noteq> 0" using s False by linarith
    ultimately have "ck_fold s = h + l - 65536 + 1" by (simp add: ck_fold_def)
    moreover have "(h + l) div 65536 = 1" using h l False by simp
    moreover have "(h + l + 1) mod 65536 = h + l + 1 - 65536" using h l False
      by (simp add: le_mod_geq)
    ultimately show ?thesis using False by (simp add: Let_def flip: h_def l_def)
  qed
qed

lemma ck_fold_less: "ck_fold s < 65536"
  by (simp add: ck_fold_def)

lemma ck_fold_mod: "ck_fold s mod 65535 = s mod 65535"
  by (cases s) (simp_all add: ck_fold_def mod_Suc_eq)

lemma unat_ones: "unat (- 1 :: u16) = 65535"
  by (simp add: unsigned_minus_1_eq_mask mask_eq_exp_minus_1)

lemma mod_add_lcancel:
  assumes "(s + a) mod n = (s + b) mod (n :: nat)"
  shows "a mod n = b mod n"
proof -
  have "(int s + int a) mod int n = (int s + int b) mod int n"
    using arg_cong [OF assms, of int] by (simp add: zmod_int)
  then have "int a mod int n = int b mod int n" by (simp add: mod_eq_dvd_iff)
  then show ?thesis by (metis nat_int zmod_int)
qed

lemma unat_not16: "unat (NOT (w :: u16)) = 65535 - unat w"
proof -
  have "w \<le> - 1" by (rule word_order.extremum)
  then have "unat (- 1 - w) = unat (- 1 :: u16) - unat w" by (rule unat_sub)
  then have "unat (- 1 - w) = 65535 - unat w" by (simp add: unat_ones)
  moreover have "NOT w = - 1 - w" by (simp add: not_eq_complement)
  ultimately show ?thesis by simp
qed

lemma icmp_cksum_fold:
  assumes "length bs < 65536"
  shows "unat (icmp_cksum bs) = 65535 - ck_fold (word_sum bs)"
proof -
  have "word_sum bs < 65536 * 65535" using word_sum_bound [of bs] assms by simp
  note f = fold_carry [OF this]
  show ?thesis
    unfolding icmp_cksum_def cksum_loop_sum f [symmetric] Let_def
    by (simp only: unat_not16 unsigned_of_nat take_bit_eq_mod) simp
qed

lemma slice_upd: "i \<le> k \<Longrightarrow> k + 2 \<le> j \<Longrightarrow> slice m i j = slice m i k @ [m k, m (k + 1)] @ slice m (k + 2) j"
proof -
  assume a: "i \<le> k" "k + 2 \<le> j"
  have "slice m k (k + 2) = [m k, m (k + 1)]" by (simp add: slice_def)
  with a show ?thesis by (metis slice_append le_add1 le_trans)
qed

lemma word_sum_append: "even (length xs) \<Longrightarrow> word_sum (xs @ ys) = word_sum xs + word_sum ys"
  by (induction xs rule: word_sum.induct) auto

lemma unat_get16: "unat (get16 m i) = unat (m i) + 256 * unat (m (i + 1))"
proof -
  have "unat (m i) + 256 * unat (m (i + 1)) < 65536"
    using byte_range [of "m i"] byte_range [of "m (i + 1)"] by linarith
  then show ?thesis unfolding get16_def unat_of_nat by simp
qed

text \<open>Replacing a word of the message changes the sum by the difference.\<close>

lemma word_sum_get16:
  assumes "h + 2 * k + 2 \<le> n"
  shows "word_sum (slice m h n)
    = word_sum (slice m h (h + 2 * k)) + unat (get16 m (h + 2 * k)) + word_sum (slice m (h + 2 * k + 2) n)"
  using assms by (subst slice_upd [of h "h + 2 * k" n]) (auto simp: word_sum_append unat_get16)

lemma slice_put16_out: "j \<le> i \<or> i + 2 \<le> k \<Longrightarrow> slice (put16 i v m) k j = slice m k j"
  by (auto simp: slice_def)

lemma word_sum_put16:
  assumes "h + 2 * k + 2 \<le> n"
  shows "word_sum (slice (put16 (h + 2 * k) v m) h n) + unat (get16 m (h + 2 * k))
    = word_sum (slice m h n) + unat v"
  using assms by (simp add: word_sum_get16 [OF assms] slice_put16_out)

section \<open>Messages\<close>

text \<open>The checksum field is left out of the sum by being zero; with it, the words add up to a
  multiple of 65535.\<close>

lemma cksum_field:
  assumes "n \<le> h + 65535" "h + 4 \<le> n" "get16 m (h + 2) = 0"
  shows "icmp_cksum (slice (put16 (h + 2) (icmp_cksum (slice m h n)) m) h n) = 0"
proof -
  define s where "s = word_sum (slice m h n)"
  define c where "c = icmp_cksum (slice m h n)"
  have c: "unat c = 65535 - ck_fold s"
    using assms by (simp add: c_def s_def icmp_cksum_fold)
  have t: "word_sum (slice (put16 (h + 2) c m) h n) = s + unat c"
    using word_sum_put16 [of h 1 n c m] assms by (simp add: s_def)
  have "(s + (65535 - ck_fold s)) mod 65535 = (ck_fold s + (65535 - ck_fold s)) mod 65535"
    by (metis ck_fold_mod mod_add_left_eq)
  then have m: "(s + unat c) mod 65535 = 0" using c ck_fold_less [of s] by simp
  have "s + unat c \<noteq> 0" using c by (auto simp: ck_fold_def)
  then have "ck_fold (s + unat c) \<noteq> 0" by (simp add: ck_fold_def)
  moreover have "ck_fold (s + unat c) mod 65535 = 0" using m by (simp add: ck_fold_mod)
  ultimately have "ck_fold (s + unat c) = 65535"
    using ck_fold_less [of "s + unat c"] by (auto simp: mod_eq_0_iff_dvd elim!: dvdE)
  then have "unat (icmp_cksum (slice (put16 (h + 2) c m) h n)) = 0"
    using assms(1) by (simp add: icmp_cksum_fold t [simplified])
  then show ?thesis by (simp add: c_def unsigned_eq_0_iff)
qed

text \<open>Two words are equal modulo 65535 only when they are equal or the two zeros of one's complement
  arithmetic.\<close>

lemma half_mod_eq:
  assumes "unat (v :: u16) mod 65535 = unat w mod 65535"
  shows "v = w \<or> {v, w} = {0, - 1}"
proof -
  have r: "unat x mod 65535 = (if x = - 1 then 0 else unat x)" for x :: u16
  proof (cases "x = - 1")
    case False
    then have "unat x \<noteq> unat (- 1 :: u16)" by (simp add: word_unat_eq_iff)
    then show ?thesis using half_range [of x] False by (simp add: unat_ones)
  qed (simp add: unat_ones)
  have z: "unat x = 0 \<longleftrightarrow> x = 0" for x :: u16 by (simp add: unsigned_eq_0_iff)
  show ?thesis
    using assms r [of v] r [of w] z [of v] z [of w] by (auto simp: word_unat_eq_iff split: if_splits)
qed

lemma cksum_detects:
  assumes "h + 2 * k + 2 \<le> n" "n \<le> h + 65535"
    and "icmp_cksum (slice (put16 (h + 2 * k) v m) h n) = icmp_cksum (slice m h n)"
  shows "v = get16 m (h + 2 * k) \<or> {v, get16 m (h + 2 * k)} = {0, - 1}"
proof -
  let ?s = "word_sum (slice m h n)" and ?t = "word_sum (slice (put16 (h + 2 * k) v m) h n)"
  have "ck_fold ?t = ck_fold ?s"
  proof -
    have "65535 - ck_fold ?t = 65535 - ck_fold ?s"
      using assms icmp_cksum_fold [of "slice m h n"] icmp_cksum_fold [of "slice (put16 (h + 2 * k) v m) h n"]
      by simp
    then show ?thesis using ck_fold_less [of ?s] ck_fold_less [of ?t] by linarith
  qed
  then have e: "?t mod 65535 = ?s mod 65535" by (metis ck_fold_mod)
  have "?t + unat (get16 m (h + 2 * k)) = ?s + unat v" by (rule word_sum_put16) fact
  then have "(?s + unat (get16 m (h + 2 * k))) mod 65535 = (?s + unat v) mod 65535"
    by (metis e mod_add_left_eq)
  then have "unat v mod 65535 = unat (get16 m (h + 2 * k)) mod 65535"
    by (metis mod_add_lcancel)
  then show ?thesis by (rule half_mod_eq)
qed

text \<open>A message placed after the header of a packet.\<close>

definition packet :: "nat \<Rightarrow> buffer \<Rightarrow> buffer \<Rightarrow> buffer" where
  "packet h hdr msg = (\<lambda>i. if i < h then hdr i else msg (i - h))"

lemma packet_put16: "put16 (h + i) v (packet h hdr msg) = packet h hdr (put16 i v msg)"
  by (rule ext) (auto simp: packet_def put16_def)

lemma packet_get16 [simp]: "get16 (packet h hdr msg) (h + i) = get16 msg i"
  by (simp add: packet_def get16_def)

lemma packet_slice [simp]: "slice (packet h hdr msg) h (h + n) = slice msg 0 n"
  by (rule nth_equalityI) (auto simp: slice_def packet_def)

lemma packet_hlen [simp]: "0 < h \<Longrightarrow> ip_hlen (packet h hdr msg) = ip_hlen hdr"
  by (simp add: ip_hlen_def packet_def)

lemma put16_put16 [simp]: "put16 i v (put16 i w m) = put16 i v m"
  by (rule ext) (simp add: put16_def)

lemma put16_commute: "i + 2 \<le> j \<or> j + 2 \<le> i \<Longrightarrow> put16 i v (put16 j w m) = put16 j w (put16 i v m)"
  by (rule ext) (auto simp: put16_def)

lemma put16_same: "get16 m i = v \<Longrightarrow> put16 i v m = m"
proof -
  assume v: "get16 m i = v"
  have "unat v = unat (m i) + 256 * unat (m (i + 1))" using unat_get16 [of m i] v by simp
  then have "unat v mod 256 = unat (m i)" "unat v div 256 = unat (m (i + 1))"
    using byte_range [of "m i"] byte_range [of "m (i + 1)"] by simp_all
  then show ?thesis by (auto simp: put16_def)
qed

lemma decode_packet:
  assumes "0 < h" "ip_hlen hdr = h" "8 \<le> n"
  shows "icmp_generic_decode (packet h hdr msg) (h + n)
    = (let ck = icmp_cksum (slice (put16 2 0 msg) 0 n)
       in (if ck \<noteq> get16 msg 2 then 1 else 0, h, packet h hdr (put16 2 ck msg)))"
  using assms by (simp add: icmp_generic_decode_def packet_put16 Let_def del: add_2_eq_Suc')

text \<open>An encoded message is zero in its checksum field when the checksum is computed.\<close>

lemma encodeE:
  assumes "icmp_generic_encode buf n ty ident seqno = (r, msg)" "8 \<le> n"
  obtains m where "r = 0" "msg = put16 2 (icmp_cksum (slice m 0 n)) m" "get16 m 2 = 0" "m 0 = ty"
    "get16 m 4 = word_of_int ident" "get16 m 6 = word_of_int seqno" "\<And>i. 8 \<le> i \<Longrightarrow> m i = buf i"
  using assms that [of "put16 4 (word_of_int ident) (put16 6 (word_of_int seqno) (put16 2 0 (buf(0 := ty, 1 := 0))))"]
  by (auto simp: icmp_generic_encode_def Let_def)

lemma encoded_decode:
  assumes "icmp_generic_encode buf n ty ident seqno = (r, msg)" "8 \<le> n" "0 < h" "ip_hlen hdr = h"
  shows "icmp_generic_decode (packet h hdr msg) (h + n) = (0, h, packet h hdr msg)"
  using assms(1,2)
proof (rule encodeE)
  fix m assume m: "msg = put16 2 (icmp_cksum (slice m 0 n)) m" "get16 m 2 = 0"
  have "put16 2 0 msg = m" using m by (simp add: put16_same)
  then show ?thesis using assms m by (simp add: decode_packet)
qed

lemma encoded_change:
  assumes "icmp_generic_encode buf n ty ident seqno = (r, msg)" "8 \<le> n" "n \<le> 65535"
    and h: "0 < h" "ip_hlen hdr = h"
    and k: "2 * k + 2 \<le> n" "v \<noteq> get16 msg (2 * k)" "{v, get16 msg (2 * k)} \<noteq> {0, - 1}"
  shows "fst (icmp_generic_decode (put16 (h + 2 * k) v (packet h hdr msg)) (h + n)) = 1"
  using assms(1,2)
proof (rule encodeE)
  fix m assume m: "msg = put16 2 (icmp_cksum (slice m 0 n)) m" "get16 m 2 = 0"
  have m0: "put16 2 0 msg = m" using m by (simp add: put16_same)
  show ?thesis
  proof (cases "k = 1")
    case True
    then have "put16 2 0 (put16 2 v msg) = m" using m0 by simp
    then show ?thesis using True k(2) m assms(2) h
      by (simp add: packet_put16 decode_packet Let_def del: add_2_eq_Suc')
  next
    case False
    then have "2 * k + 2 \<le> 2 \<or> 4 \<le> 2 * k" by auto
    then have g: "get16 msg (2 * k) = get16 m (2 * k)"
        "get16 (put16 (2 * k) v msg) 2 = icmp_cksum (slice m 0 n)"
      and "put16 2 0 (put16 (2 * k) v msg) = put16 (2 * k) v (put16 2 0 msg)"
      using m(1) by (auto simp: put16_commute)
    note this(3) [unfolded m0]
    moreover have "icmp_cksum (slice (put16 (2 * k) v m) 0 n) \<noteq> icmp_cksum (slice m 0 n)"
      using cksum_detects [of 0 k n v m] assms(3) k g(1) by auto
    ultimately show ?thesis using assms(2) h g(2) by (simp add: packet_put16 decode_packet Let_def)
  qed
qed

text \<open>(C23) A message of \<open>icmp_generic_encode\<close> that arrives behind an IP header is accepted by
  \<open>icmp_generic_decode\<close>, which leaves it as it is; its type, identifier, sequence number and data are
  those that were put in, and its words including the checksum give the checksum 0.  When one 16-bit word of the
  message, the checksum itself included, is changed on the way, \<open>icmp_generic_decode\<close> reports a
  mismatch, unless the change is from one zero of one's complement arithmetic to the other.\<close>

theorem icmp_message_checked:
  assumes "icmp_generic_encode buf n ty ident seqno = (r, msg)" "8 \<le> n" "n \<le> 65535"
    and "20 \<le> h" "ip_hlen hdr = h"
  shows "r = 0 \<and> icmp_cksum (slice msg 0 n) = 0
    \<and> msg 0 = ty \<and> get16 msg 4 = word_of_int ident \<and> get16 msg 6 = word_of_int seqno
    \<and> slice msg 8 n = slice buf 8 n
    \<and> icmp_generic_decode (packet h hdr msg) (h + n) = (0, h, packet h hdr msg)
    \<and> (\<forall>k v. 2 * k + 2 \<le> n \<and> v \<noteq> get16 msg (2 * k) \<and> {v, get16 msg (2 * k)} \<noteq> {0, - 1}
        \<longrightarrow> fst (icmp_generic_decode (put16 (h + 2 * k) v (packet h hdr msg)) (h + n)) = 1)"
proof -
  have h: "0 < h" using assms by simp
  from assms(1,2) show ?thesis
  proof (rule encodeE)
    fix m assume m: "r = 0" "msg = put16 2 (icmp_cksum (slice m 0 n)) m" "get16 m 2 = 0" "m 0 = ty"
      "get16 m 4 = word_of_int ident" "get16 m 6 = word_of_int seqno" "\<And>i. 8 \<le> i \<Longrightarrow> m i = buf i"
    have "icmp_cksum (slice msg 0 n) = 0" using cksum_field [of n 0 m] assms m by (simp del: add_2_eq_Suc')
    moreover have "slice msg 8 n = slice buf 8 n" using m by (auto simp: slice_def)
    ultimately show ?thesis
      using m encoded_decode [OF assms(1,2) h assms(5)] encoded_change [OF assms(1,2,3) h assms(5)]
      by auto
  qed
qed

theorem icmp_message_checked_witness:
  "\<exists>msg. icmp_generic_encode (\<lambda>_. 7) 64 ICMP_ECHO 4711 3 = (0, msg)
    \<and> fst (icmp_generic_decode (packet 20 (\<lambda>_. 0x45) msg) 84) = 0
    \<and> fst (icmp_generic_decode (put16 30 0x0807 (packet 20 (\<lambda>_. 0x45) msg)) 84) = 1"
proof -
  obtain r msg where e: "icmp_generic_encode (\<lambda>_. 7) 64 ICMP_ECHO 4711 3 = (r, msg)" by fastforce
  note t = icmp_message_checked [OF e, of 20 "\<lambda>_. 0x45"]
  have s: "slice msg 8 64 = slice (\<lambda>_. 7) 8 64" using t by (simp add: ip_hlen_def)
  then have "slice msg 8 64 ! 2 = 7 \<and> slice msg 8 64 ! 3 = 7" by (simp add: slice_def)
  then have "get16 msg 10 = 0x0707" by (simp add: slice_def get16_def)
  moreover have "\<forall>k v. 2 * k + 2 \<le> 64 \<and> v \<noteq> get16 msg (2 * k) \<and> {v, get16 msg (2 * k)} \<noteq> {0, - 1}
      \<longrightarrow> fst (icmp_generic_decode (put16 (20 + 2 * k) v (packet 20 (\<lambda>_. 0x45) msg)) (20 + 64)) = 1"
    using t by (simp add: ip_hlen_def)
  from this [rule_format, of 5 "0x0807"]
  have "get16 msg 10 = 0x0707 \<Longrightarrow> fst (icmp_generic_decode (put16 30 0x0807 (packet 20 (\<lambda>_. 0x45) msg)) 84) = 1"
    by (simp add: doubleton_eq_iff)
  ultimately show ?thesis using t e by (simp add: ip_hlen_def)
qed

end
