(* ===== verification/Ping.thy ===== *)
theory Ping
  imports Icmp
begin

text \<open>
  The requests and replies of \<open>src/ping/\<close>: the library (\<open>libping.c\<close>, \<open>ping_common.c\<close>) with the table of
  the sequence numbers that were answered, and the loop of the program (\<open>ping_run\<close> and \<open>send_echo\<close> of
  \<open>ping.c\<close>).

  The answers of the system are arguments: the packet \<open>recvfrom\<close> gives, if any, with the address of its
  sender, the result of \<open>sendto\<close>, the times of \<open>gettimeofday\<close>, the outcome of \<open>select\<close> and the initial contents
  of memory from \<open>malloc\<close>, which always succeeds.  The effects outside of the program are the values of
  \<open>ping_out\<close>, in order.  The handler of an event prints; here the event itself is an output.
\<close>

section \<open>State\<close>

type_synonym timeval = "int \<times> int"

abbreviation (input) PING_CKTABSIZE :: nat where "PING_CKTABSIZE \<equiv> 128"
abbreviation (input) PING_HEADER_LEN :: nat where "PING_HEADER_LEN \<equiv> 16"
abbreviation (input) PING_DEFAULT_INTERVAL :: nat where "PING_DEFAULT_INTERVAL \<equiv> 1000"
abbreviation (input) PING_PRECISION :: nat where "PING_PRECISION \<equiv> 1000"
abbreviation (input) ICMPHDR_SIZE :: nat where "ICMPHDR_SIZE \<equiv> 32"
abbreviation (input) IP_SIZE :: nat where "IP_SIZE \<equiv> 20"
abbreviation (input) IPPROTO_ICMP :: byte where "IPPROTO_ICMP \<equiv> 1"

record ping_data =
  ping_type :: byte
  ping_count :: nat
  ping_start_time :: timeval
  ping_interval :: nat
  ping_dest :: u32
  ping_datalen :: nat
  ping_ident :: int
  ping_handler :: bool
  ping_cktab_size :: nat
  ping_cktab :: "byte list option"
  ping_buffer :: "buffer option"
  ping_from :: u32
  ping_num_xmit :: int
  ping_num_recv :: int
  ping_num_rept :: int

datatype pev = PEV_RESPONSE | PEV_DUPLICATE | PEV_NOECHO

datatype ping_out =
    Sendto "byte list"              \<comment> \<open>the datagram given to \<open>sendto\<close>\<close>
  | Sendto_failed
  | Wrote_short nat int
  | Too_short nat u32
  | Cksum_mismatch u32
  | Event pev nat nat               \<comment> \<open>the handler, with where the message starts and the length\<close>
  | Select timeval
  | Dot
  | Statistics int int int "int option"

definition PING_BUFLEN :: "ping_data \<Rightarrow> nat" where
  "PING_BUFLEN p = ping_datalen p + ICMPHDR_SIZE"

section \<open>The table of answered sequence numbers\<close>

definition C_IND :: "ping_data \<Rightarrow> int \<Rightarrow> nat" where
  "C_IND p b = nat (b mod (8 * int (ping_cktab_size p)))"

definition C_MASK :: "nat \<Rightarrow> byte" where
  "C_MASK n = push_bit (n mod 8) 1"

text \<open>The table is allocated together with the buffer, before the first packet is sent, and never used
  when it is not there.\<close>

definition cktab :: "ping_data \<Rightarrow> byte list" where
  "cktab p = (case ping_cktab p of Some t \<Rightarrow> t | None \<Rightarrow> [])"

definition PING_SET :: "int \<Rightarrow> ping_data \<Rightarrow> ping_data" where
  "PING_SET b p = (let n = C_IND p b
     in p\<lparr>ping_cktab := Some ((cktab p)[n div 8 := cktab p ! (n div 8) OR C_MASK n])\<rparr>)"

definition PING_CLR :: "int \<Rightarrow> ping_data \<Rightarrow> ping_data" where
  "PING_CLR b p = (let n = C_IND p b
     in p\<lparr>ping_cktab := Some ((cktab p)[n div 8 := cktab p ! (n div 8) AND NOT (C_MASK n)])\<rparr>)"

definition PING_TST :: "ping_data \<Rightarrow> int \<Rightarrow> bool" where
  "PING_TST p b \<longleftrightarrow> cktab p ! (C_IND p b div 8) AND C_MASK (C_IND p b) \<noteq> 0"

section \<open>The library\<close>

definition ping_packetsize :: "ping_data \<Rightarrow> nat" where
  "ping_packetsize p =
     (if ping_type p = ICMP_TIMESTAMP \<or> ping_type p = ICMP_TIMESTAMPREPLY then 20
      else 8 + ping_datalen p)"

text \<open>\<open>ping_init\<close> after the socket has been opened.\<close>

definition ping_init :: "byte \<Rightarrow> int \<Rightarrow> timeval \<Rightarrow> ping_data" where
  "ping_init ty ident now =
     \<lparr>ping_type = ty, ping_count = 0, ping_start_time = now, ping_interval = PING_DEFAULT_INTERVAL,
      ping_dest = 0, ping_datalen = ICMPHDR_SIZE, ping_ident = ident AND 0xFFFF, ping_handler = False,
      ping_cktab_size = PING_CKTABSIZE, ping_cktab = None, ping_buffer = None, ping_from = 0,
      ping_num_xmit = 0, ping_num_recv = 0, ping_num_rept = 0\<rparr>"

definition ping_reset :: "ping_data \<Rightarrow> ping_data" where
  "ping_reset p = p\<lparr>ping_num_xmit := 0, ping_num_recv := 0, ping_num_rept := 0\<rparr>"

definition ping_set_type :: "byte \<Rightarrow> ping_data \<Rightarrow> ping_data" where
  "ping_set_type ty p = p\<lparr>ping_type := ty\<rparr>"

definition ping_set_event_handler :: "ping_data \<Rightarrow> ping_data" where
  "ping_set_event_handler p = p\<lparr>ping_handler := True\<rparr>"

definition ping_set_packetsize :: "nat \<Rightarrow> ping_data \<Rightarrow> ping_data" where
  "ping_set_packetsize sz p = p\<lparr>ping_datalen := sz\<rparr>"

definition ping_set_count :: "nat \<Rightarrow> ping_data \<Rightarrow> ping_data" where
  "ping_set_count c p = p\<lparr>ping_count := c\<rparr>"

definition ping_set_interval :: "nat \<Rightarrow> ping_data \<Rightarrow> ping_data" where
  "ping_set_interval i p = p\<lparr>ping_interval := i\<rparr>"

definition ping_setbuf :: "buffer \<Rightarrow> ping_data \<Rightarrow> ping_data" where
  "ping_setbuf fresh p =
     (let p1 = (if ping_buffer p = None then p\<lparr>ping_buffer := Some fresh\<rparr> else p)
      in if ping_cktab p1 = None then p1\<lparr>ping_cktab := Some (replicate (ping_cktab_size p1) 0)\<rparr> else p1)"

definition ping_unset_data :: "ping_data \<Rightarrow> ping_data" where
  "ping_unset_data p = p\<lparr>ping_buffer := None, ping_cktab := None\<rparr>"

text \<open>The buffer, once it is there.\<close>

definition ping_buf :: "ping_data \<Rightarrow> buffer" where
  "ping_buf p = (case ping_buffer p of Some m \<Rightarrow> m | None \<Rightarrow> (\<lambda>_. 0))"

definition ping_set_data :: "buffer \<Rightarrow> byte list \<Rightarrow> nat \<Rightarrow> ping_data \<Rightarrow> int \<times> ping_data" where
  "ping_set_data fresh data off p =
     (let p1 = ping_setbuf fresh p
      in if ping_datalen p1 < off + length data then (-1, p1)
         else (0, p1\<lparr>ping_buffer := Some (buf_write (ping_buf p1) (8 + off) data)\<rparr>))"

definition ping_encode :: "timeval \<Rightarrow> ping_data \<Rightarrow> buffer" where
  "ping_encode tv p =
     (let n = ping_packetsize p
      in snd (if ping_type p = ICMP_ECHO then icmp_echo_encode (ping_buf p) n (ping_ident p) (ping_num_xmit p)
         else if ping_type p = ICMP_TIMESTAMP
           then icmp_timestamp_encode tv (ping_buf p) n (ping_ident p) (ping_num_xmit p)
         else if ping_type p = ICMP_ADDRESS then icmp_address_encode (ping_buf p) n (ping_ident p) (ping_num_xmit p)
         else icmp_generic_encode (ping_buf p) n (ping_type p) (ping_ident p) (ping_num_xmit p)))"

text \<open>\<open>sent\<close> is the result of \<open>sendto\<close>, negative when it fails.\<close>

definition ping_xmit :: "buffer \<Rightarrow> timeval \<Rightarrow> int \<Rightarrow> ping_data \<Rightarrow> ping_out list \<times> ping_data" where
  "ping_xmit fresh tv sent p =
     (let p1 = ping_setbuf fresh p;
          buflen = ping_packetsize p1;
          p2 = PING_CLR (ping_num_xmit p1) p1;
          m = ping_encode tv p2;
          p3 = p2\<lparr>ping_buffer := Some m\<rparr>;
          out = Sendto (slice m 0 buflen)
      in if sent < 0 then ([out, Sendto_failed], p3)
         else (if sent \<noteq> int buflen then [out, Wrote_short buflen sent] else [out],
               p3\<lparr>ping_num_xmit := ping_num_xmit p3 + 1\<rparr>))"

text \<open>The message of an error carries the IP header of the packet it is about, taken to be without
  options, and the message that followed.\<close>

definition my_echo_reply :: "ping_data \<Rightarrow> nat \<Rightarrow> bool" where
  "my_echo_reply p icmp =
     (let m = ping_buf p; orig_ip = icmp + 8; orig_icmp = orig_ip + IP_SIZE
      in get32 m (orig_ip + 16) = ping_dest p \<and> m (orig_ip + 9) = IPPROTO_ICMP
         \<and> m orig_icmp = ICMP_ECHO \<and> int (unat (get16 m (orig_icmp + 4))) = ping_ident p)"

definition ping_event :: "ping_data \<Rightarrow> ping_out \<Rightarrow> ping_out list" where
  "ping_event p e = (if ping_handler p then [e] else [])"

text \<open>A reply: the branch of \<open>ping_recv\<close> for the three types of reply.\<close>

definition ping_reply :: "nat \<Rightarrow> int \<Rightarrow> nat \<Rightarrow> ping_data \<Rightarrow> int \<times> ping_out list \<times> ping_data" where
  "ping_reply n rc icmp p =
     (if int (unat (get16 (ping_buf p) (icmp + 4))) \<noteq> ping_ident p then (-1, [], p)
      else let out = (if rc \<noteq> 0 then [Cksum_mismatch (ping_from p)] else []);
               sq = int (unat (get16 (ping_buf p) (icmp + 6)));
               p1 = p\<lparr>ping_num_recv := ping_num_recv p + 1\<rparr>
           in if PING_TST p1 sq
              then (0, out @ ping_event p (Event PEV_DUPLICATE icmp n),
                    p1\<lparr>ping_num_rept := ping_num_rept p1 + 1, ping_num_recv := ping_num_recv p1 - 1\<rparr>)
              else (0, out @ ping_event p (Event PEV_RESPONSE icmp n), PING_SET sq p1))"

definition ping_recv :: "(byte list \<times> u32) option \<Rightarrow> ping_data \<Rightarrow> int \<times> ping_out list \<times> ping_data" where
  "ping_recv rcv p =
     (if ping_buffer p = None then (-1, [], p)
      else case rcv of None \<Rightarrow> (-1, [], p)
      | Some (pkt, from) \<Rightarrow>
          (let bs = take (PING_BUFLEN p) pkt; n = length bs
           in case icmp_generic_decode (buf_write (ping_buf p) 0 bs) n of
                (rc, icmp, m) \<Rightarrow>
                  (let p1 = p\<lparr>ping_buffer := Some m, ping_from := from\<rparr>
                   in if rc < 0 then (-1, [Too_short n from], p1)
                      else if m icmp \<in> {ICMP_ECHOREPLY, ICMP_TIMESTAMPREPLY, ICMP_ADDRESSREPLY}
                        then ping_reply n rc icmp p1
                      else if m icmp \<in> {ICMP_ECHO, ICMP_TIMESTAMP, ICMP_ADDRESS} then (-1, [], p1)
                      else if \<not> my_echo_reply p1 icmp then (-1, [], p1)
                      else (0, ping_event p1 (Event PEV_NOECHO icmp n), p1))))"

section \<open>The program\<close>

record ping_cfg =
  data_length :: nat
  data_buffer :: "byte list option"
  preload :: nat
  opt_flood :: bool
  opt_quiet :: bool
  timeout :: int
  linger :: int

text \<open>The loop over the pattern: \<open>pat\<close> is read at \<open>len\<close>, too.\<close>

fun fill_pattern :: "buffer \<Rightarrow> nat \<Rightarrow> nat \<Rightarrow> nat \<Rightarrow> byte list" where
  "fill_pattern pat len i 0 = []"
| "fill_pattern pat len i (Suc n) = pat i # fill_pattern pat len (if len \<le> i then 0 else i + 1) n"

definition init_data_buffer :: "buffer option \<Rightarrow> nat \<Rightarrow> nat \<Rightarrow> byte list option" where
  "init_data_buffer pat len dlen =
     (if dlen = 0 then None
      else Some (case pat of Some f \<Rightarrow> fill_pattern f len 0 dlen | None \<Rightarrow> map word_of_nat [0..<dlen]))"

definition tvsub :: "timeval \<Rightarrow> timeval \<Rightarrow> timeval" where
  "tvsub out inn =
     (let usec = snd out - snd inn
      in if usec < 0 then (fst out - 1 - fst inn, usec + 1000000) else (fst out - fst inn, usec))"

definition ping_timeout_p :: "timeval \<Rightarrow> int \<Rightarrow> timeval \<Rightarrow> bool" where
  "ping_timeout_p start t now \<longleftrightarrow> t \<noteq> -1 \<and> t \<le> fst (tvsub now start)"

definition PING_SET_INTERVAL :: "nat \<Rightarrow> timeval" where
  "PING_SET_INTERVAL i = (int (i div PING_PRECISION), int (i mod PING_PRECISION) * (1000000 div int PING_PRECISION))"

text \<open>A \<open>struct timeval\<close> in memory: two longs of eight bytes.\<close>

definition long_bytes :: "int \<Rightarrow> byte list" where
  "long_bytes v = map (\<lambda>k. word_of_int (v div 256 ^ k)) [0..<8]"

definition timeval_bytes :: "timeval \<Rightarrow> byte list" where
  "timeval_bytes tv = long_bytes (fst tv) @ long_bytes (snd tv)"

text \<open>What one call of \<open>send_echo\<close> meets: fresh memory, the times read for the data and for the
  message, and the result of \<open>sendto\<close>.\<close>

record send_env =
  e_fresh :: buffer
  e_data_time :: timeval
  e_stamp :: timeval
  e_sent :: int

definition send_echo :: "ping_cfg \<Rightarrow> send_env \<Rightarrow> ping_data \<Rightarrow> ping_out list \<times> ping_data" where
  "send_echo cfg e p =
     (let timing = PING_HEADER_LEN \<le> data_length cfg;
          p1 = (if timing then snd (ping_set_data (e_fresh e) (timeval_bytes (e_data_time e)) 0 p) else p);
          off = (if timing then PING_HEADER_LEN else 0);
          len = (if PING_HEADER_LEN < data_length cfg then data_length cfg - PING_HEADER_LEN
                 else data_length cfg);
          p2 = (case data_buffer cfg of None \<Rightarrow> p1
                | Some d \<Rightarrow> snd (ping_set_data (e_fresh e) (take len d) off p1))
      in ping_xmit (e_fresh e) (e_stamp e) (e_sent e) p2)"

text \<open>The time that remains until the next packet is due, normalised and not negative.\<close>

function carry_down :: "timeval \<Rightarrow> timeval" where
  "carry_down (s, u) = (if u < 0 then carry_down (s - 1, u + 1000000) else (s, u))"
  by pat_completeness auto
termination by (relation "measure (\<lambda>(s, u). nat (- u))") auto

function carry_up :: "timeval \<Rightarrow> timeval" where
  "carry_up (s, u) = (if 1000000 \<le> u then carry_up (s + 1, u - 1000000) else (s, u))"
  by pat_completeness auto
termination by (relation "measure (\<lambda>(s, u). nat u)") auto

declare carry_down.simps [simp del] carry_up.simps [simp del]

definition resp_time :: "timeval \<Rightarrow> timeval \<Rightarrow> timeval \<Rightarrow> timeval" where
  "resp_time lst intvl now =
     (let t = carry_up (carry_down (fst lst + fst intvl - fst now, snd lst + snd intvl - snd now))
      in if fst t < 0 then (0, 0) else t)"

text \<open>The outcome of \<open>select\<close>, with what the branch for it meets: an error, a packet and the time, or
  the time being over, with the sending of a packet, the time after it and the time \<open>last\<close> is set to.\<close>

datatype sel = Sel_error | Sel_ready "(byte list \<times> u32) option" timeval | Sel_timeout send_env timeval timeval

record run =
  r_ping :: ping_data
  r_last :: timeval
  r_intvl :: timeval
  r_finishing :: bool
  r_nresp :: nat
  r_out :: "ping_out list"

definition emit :: "ping_out list \<Rightarrow> run \<Rightarrow> run" where
  "emit out r = r\<lparr>r_out := r_out r @ out\<rparr>"

definition run_ready :: "ping_cfg \<Rightarrow> (byte list \<times> u32) option \<Rightarrow> timeval \<Rightarrow> run \<Rightarrow> bool \<times> run" where
  "run_ready cfg rcv now r =
     (case ping_recv rcv (r_ping r) of
        (rc, out, p) \<Rightarrow>
          (let r1 = emit out (r\<lparr>r_ping := p, r_nresp := r_nresp r + (if rc = 0 then 1 else 0)\<rparr>)
           in (ping_timeout_p (ping_start_time p) (timeout cfg) now
                 \<or> ping_count p \<noteq> 0 \<and> ping_count p \<le> r_nresp r1, r1)))"

definition run_timeout :: "ping_cfg \<Rightarrow> send_env \<Rightarrow> timeval \<Rightarrow> timeval \<Rightarrow> run \<Rightarrow> bool \<times> run" where
  "run_timeout cfg e now lst r =
     (if ping_count (r_ping r) = 0 \<or> ping_num_xmit (r_ping r) < int (ping_count (r_ping r)) then
        (case send_echo cfg e (r_ping r) of
           (out, p) \<Rightarrow>
             (let r1 = emit (out @ (if \<not> opt_quiet cfg \<and> opt_flood cfg then [Dot] else [])) (r\<lparr>r_ping := p\<rparr>)
              in if ping_timeout_p (ping_start_time p) (timeout cfg) now then (True, r1)
                 else (False, r1\<lparr>r_last := lst\<rparr>)))
      else if r_finishing r then (True, r)
      else (False, r\<lparr>r_finishing := True, r_intvl := (linger cfg, snd (r_intvl r)), r_last := lst\<rparr>))"

text \<open>One turn of the loop: whether it is left, and the state.  \<open>now\<close> is the time at its beginning.\<close>

definition run_turn :: "ping_cfg \<Rightarrow> timeval \<Rightarrow> sel \<Rightarrow> run \<Rightarrow> bool \<times> run" where
  "run_turn cfg now s r =
     (let r1 = emit [Select (resp_time (r_last r) (r_intvl r) now)] r
      in case s of Sel_error \<Rightarrow> (False, r1)
         | Sel_ready rcv t \<Rightarrow> run_ready cfg rcv t r1
         | Sel_timeout e t lst \<Rightarrow> run_timeout cfg e t lst r1)"

text \<open>The loop over what happens, until it is left or a signal has come (the first component of a turn).
  The result is whether it is over.\<close>

fun run_loop :: "ping_cfg \<Rightarrow> (bool \<times> timeval \<times> sel) list \<Rightarrow> run \<Rightarrow> bool \<times> run" where
  "run_loop cfg [] r = (False, r)"
| "run_loop cfg ((stop, now, s) # evs) r =
     (if stop then (True, r)
      else case run_turn cfg now s r of (fin, r1) \<Rightarrow> if fin then (True, r1) else run_loop cfg evs r1)"

fun send_all :: "ping_cfg \<Rightarrow> send_env list \<Rightarrow> ping_data \<Rightarrow> ping_out list \<times> ping_data" where
  "send_all cfg [] p = ([], p)"
| "send_all cfg (e # es) p =
     (case send_echo cfg e p of (out, p1) \<Rightarrow> case send_all cfg es p1 of (out2, p2) \<Rightarrow> (out @ out2, p2))"

text \<open>Up to the loop: \<open>es\<close> are the packets of \<open>preload\<close> and the first one.\<close>

definition run_start :: "ping_cfg \<Rightarrow> send_env list \<Rightarrow> timeval \<Rightarrow> ping_data \<Rightarrow> run" where
  "run_start cfg es now p =
     (case send_all cfg es p of
        (out, p1) \<Rightarrow>
          \<lparr>r_ping = p1, r_last = now,
           r_intvl = (if opt_flood cfg then (0, 10000) else PING_SET_INTERVAL (ping_interval p)),
           r_finishing = False, r_nresp = 0, r_out = out\<rparr>)"

definition ping_finish :: "ping_data \<Rightarrow> ping_out" where
  "ping_finish p =
     Statistics (ping_num_xmit p) (ping_num_recv p) (ping_num_rept p)
       (if ping_num_xmit p = 0 \<or> ping_num_xmit p < ping_num_recv p then None
        else Some ((ping_num_xmit p - ping_num_recv p) * 100 div ping_num_xmit p))"

definition ping_run :: "ping_cfg \<Rightarrow> send_env list \<Rightarrow> timeval \<Rightarrow> (bool \<times> timeval \<times> sel) list \<Rightarrow> ping_data
    \<Rightarrow> (ping_out list \<times> ping_data) option" where
  "ping_run cfg es now evs p =
     (case run_loop cfg evs (run_start cfg es now p) of
        (fin, r) \<Rightarrow>
          if fin then let p1 = ping_unset_data (r_ping r) in Some (r_out r @ [ping_finish p1], p1)
          else None)"

text \<open>The pattern is repeated with one byte more than its length.\<close>

lemma fill_pattern_nth:
  "i \<le> len \<Longrightarrow> k < n \<Longrightarrow> fill_pattern pat len i n ! k = pat ((i + k) mod (len + 1))"
proof (induction n arbitrary: i k)
  case (Suc n)
  show ?case
  proof (cases k)
    case 0
    with Suc.prems show ?thesis by simp
  next
    case (Suc j)
    with Suc.prems Suc.IH [of "if len \<le> i then 0 else i + 1" j] show ?thesis
      using mod_add_self1 [of "Suc len" j] by (cases "i = len") auto
  qed
qed simp

text \<open>The time that \<open>select\<close> waits is what remains of the interval, in microseconds, or nothing.\<close>

definition micros :: "timeval \<Rightarrow> int" where
  "micros t = fst t * 1000000 + snd t"

lemma carry_down_micros: "micros (carry_down t) = micros t \<and> 0 \<le> snd (carry_down t)"
  by (induction t rule: carry_down.induct) (auto simp: carry_down.simps micros_def)

lemma carry_up_micros:
  "0 \<le> snd t \<Longrightarrow> micros (carry_up t) = micros t \<and> 0 \<le> snd (carry_up t) \<and> snd (carry_up t) < 1000000"
  by (induction t rule: carry_up.induct) (auto simp: carry_up.simps micros_def)

lemma resp_time_micros:
  "micros (resp_time lst intvl now) = max 0 (micros lst + micros intvl - micros now)
    \<and> 0 \<le> snd (resp_time lst intvl now) \<and> snd (resp_time lst intvl now) < 1000000"
proof -
  define t where "t = carry_up (carry_down (fst lst + fst intvl - fst now, snd lst + snd intvl - snd now))"
  have "micros t = micros lst + micros intvl - micros now" "0 \<le> snd t" "snd t < 1000000"
    using carry_up_micros carry_down_micros by (simp_all add: t_def micros_def algebra_simps)
  moreover have "resp_time lst intvl now = (if fst t < 0 then (0, 0) else t)"
    by (simp add: resp_time_def Let_def t_def)
  ultimately show ?thesis by (auto simp: micros_def)
qed

section \<open>The table as a set\<close>

definition tab_bit :: "byte list \<Rightarrow> nat \<Rightarrow> bool" where
  "tab_bit t n \<longleftrightarrow> bit (t ! (n div 8)) (n mod 8)"

lemma PING_TST_bit: "PING_TST p b \<longleftrightarrow> tab_bit (cktab p) (C_IND p b)"
  by (simp add: PING_TST_def C_MASK_def tab_bit_def bit_iff_and_push_bit_not_eq_0)

lemma bit_C_MASK: "bit (C_MASK n) k \<longleftrightarrow> k = n mod 8"
proof -
  have "n mod 8 < 8" by simp
  then show ?thesis by (auto simp: C_MASK_def bit_push_bit_iff bit_exp_iff bit_1_iff)
qed

lemma tab_bit_set:
  assumes "n < 8 * length t"
  shows "tab_bit (t[n div 8 := t ! (n div 8) OR C_MASK n]) k \<longleftrightarrow> tab_bit t k \<or> k = n"
proof -
  have n: "n div 8 < length t" using assms by (simp add: less_mult_imp_div_less mult.commute)
  have "k = n \<longleftrightarrow> k div 8 = n div 8 \<and> k mod 8 = n mod 8" by (metis div_mult_mod_eq)
  then show ?thesis
    using n by (auto simp: tab_bit_def nth_list_update bit_or_iff bit_C_MASK)
qed

lemma tab_bit_clr:
  assumes "n < 8 * length t"
  shows "tab_bit (t[n div 8 := t ! (n div 8) AND NOT (C_MASK n)]) k \<longleftrightarrow> tab_bit t k \<and> k \<noteq> n"
proof -
  have n: "n div 8 < length t" using assms by (simp add: less_mult_imp_div_less mult.commute)
  have "k = n \<longleftrightarrow> k div 8 = n div 8 \<and> k mod 8 = n mod 8" by (metis div_mult_mod_eq)
  moreover have "k mod 8 < 8" "n mod 8 < 8" by simp_all
  ultimately show ?thesis
    using n by (auto simp: tab_bit_def nth_list_update bit_and_iff bit_not_iff bit_C_MASK)
qed

lemma tab_bit_new: "n < 8 * k \<Longrightarrow> \<not> tab_bit (replicate k 0) n"
  by (simp add: tab_bit_def less_mult_imp_div_less mult.commute)

section \<open>Accounting\<close>

text \<open>What a received packet says: the sequence number, when it is a reply to this program.\<close>

definition reply_seq :: "ping_data \<Rightarrow> byte list \<Rightarrow> nat option" where
  "reply_seq p pkt =
     (let bs = take (PING_BUFLEN p) pkt; h = 4 * (unat (bs ! 0) mod 16)
      in if length bs < h + 8 then None
         else if bs ! h \<in> {ICMP_ECHOREPLY, ICMP_TIMESTAMPREPLY, ICMP_ADDRESSREPLY}
             \<and> int (unat (bs ! (h + 4)) + 256 * unat (bs ! (h + 5))) = ping_ident p
           then Some (unat (bs ! (h + 6)) + 256 * unat (bs ! (h + 7)))
         else None)"

lemma buf_write_at [simp]: "i < length bs \<Longrightarrow> buf_write m 0 bs i = bs ! i"
  by (simp add: buf_write_def)

lemma get16_id: "unat (get16 m (h + 4)) = unat (m (h + 4)) + 256 * unat (m (h + 5))"
proof -
  have "h + 4 + 1 = h + 5" by simp
  then show ?thesis by (simp only: unat_get16)
qed

lemma get16_seq: "unat (get16 m (h + 6)) = unat (m (h + 6)) + 256 * unat (m (h + 7))"
proof -
  have "h + 6 + 1 = h + 7" by simp
  then show ?thesis by (simp only: unat_get16)
qed

lemma decode_cases:
  assumes "icmp_generic_decode m n = (rc, h, m1)"
  obtains "n < ip_hlen m + 8" "rc = -1" "m1 = m"
  | c where "ip_hlen m + 8 \<le> n" "0 \<le> rc" "h = ip_hlen m" "m1 = put16 (ip_hlen m + 2) c m"
  using assms that(1) that(2) by (auto simp: icmp_generic_decode_def Let_def split: if_splits)

lemma ping_recv_packet:
  assumes "ping_buffer p \<noteq> None" "bs = take (PING_BUFLEN p) pkt"
    and "icmp_generic_decode (buf_write (ping_buf p) 0 bs) (length bs) = (rc, icmp, m)"
    and "p1 = p\<lparr>ping_buffer := Some m, ping_from := from\<rparr>"
  shows "ping_recv (Some (pkt, from)) p =
    (if rc < 0 then (-1, [Too_short (length bs) from], p1)
     else if m icmp \<in> {ICMP_ECHOREPLY, ICMP_TIMESTAMPREPLY, ICMP_ADDRESSREPLY} then ping_reply (length bs) rc icmp p1
     else if m icmp \<in> {ICMP_ECHO, ICMP_TIMESTAMP, ICMP_ADDRESS} then (-1, [], p1)
     else if \<not> my_echo_reply p1 icmp then (-1, [], p1)
     else (0, ping_event p1 (Event PEV_NOECHO icmp (length bs)), p1))"
  unfolding ping_recv_def using assms by (simp only: Let_def prod.case option.case if_False)

lemma PING_TST_frame [simp]:
  "PING_TST (p\<lparr>ping_buffer := m\<rparr>) b = PING_TST p b" "PING_TST (p\<lparr>ping_from := a\<rparr>) b = PING_TST p b"
  "PING_TST (p\<lparr>ping_num_recv := n\<rparr>) b = PING_TST p b"
  by (simp_all add: PING_TST_def C_IND_def cktab_def)

lemma ping_reply_counted:
  assumes "int (unat (get16 m (icmp + 4))) = ping_ident p" "unat (get16 m (icmp + 6)) = k"
  shows "\<exists>out. ping_reply n rc icmp (p\<lparr>ping_buffer := Some m, ping_from := from\<rparr>) = (0, out,
     let p1 = p\<lparr>ping_buffer := Some m, ping_from := from\<rparr>
     in if PING_TST p (int k) then p1\<lparr>ping_num_rept := ping_num_rept p + 1\<rparr>
        else PING_SET (int k) (p1\<lparr>ping_num_recv := ping_num_recv p + 1\<rparr>))"
proof -
  have b: "ping_buf (p\<lparr>ping_buffer := Some m, ping_from := from\<rparr>) = m" by (simp add: ping_buf_def)
  show ?thesis unfolding ping_reply_def b assms using assms(1) by (simp add: Let_def del: of_nat_unat)
qed

lemma recv_reply:
  assumes "ping_buffer p \<noteq> None" "reply_seq p pkt = Some k"
  obtains m out where "ping_recv (Some (pkt, from)) p = (0, out,
     let p1 = p\<lparr>ping_buffer := Some m, ping_from := from\<rparr>
     in if PING_TST p (int k) then p1\<lparr>ping_num_rept := ping_num_rept p + 1\<rparr>
        else PING_SET (int k) (p1\<lparr>ping_num_recv := ping_num_recv p + 1\<rparr>))"
proof -
  define bs where "bs = take (PING_BUFLEN p) pkt"
  define m where "m = buf_write (ping_buf p) 0 bs"
  obtain rc h m1 where d: "icmp_generic_decode m (length bs) = (rc, h, m1)" by (metis prod_cases3)
  have l: "4 * (unat (bs ! 0) mod 16) + 8 \<le> length bs"
      and t: "bs ! (4 * (unat (bs ! 0) mod 16)) \<in> {ICMP_ECHOREPLY, ICMP_TIMESTAMPREPLY, ICMP_ADDRESSREPLY}"
    using assms(2) by (auto simp: reply_seq_def Let_def simp flip: bs_def split: if_splits)
  have "0 < length bs" using l by linarith
  then have h: "ip_hlen m = 4 * (unat (bs ! 0) mod 16)" by (simp add: m_def ip_hlen_def)
  from d show thesis
  proof (cases rule: decode_cases)
    case 1
    with l h show ?thesis by simp
  next
    case (2 c)
    have at: "m1 i = bs ! i" if "i < length bs" "i < h + 2 \<or> h + 3 < i" for i
      using that 2 by (auto simp: m_def)
    have g: "unat (get16 m1 (h + 4)) = unat (bs ! (h + 4)) + 256 * unat (bs ! (h + 5))"
        "unat (get16 m1 (h + 6)) = unat (bs ! (h + 6)) + 256 * unat (bs ! (h + 7))"
      using l h 2(3) at [of "h + 4"] at [of "h + 5"] at [of "h + 6"] at [of "h + 7"]
      by (auto simp: get16_id get16_seq)
    have "m1 h = bs ! h" using l h 2(3) at [of h] by simp
    moreover have id: "int (unat (get16 m1 (h + 4))) = ping_ident p" and k: "unat (get16 m1 (h + 6)) = k"
      using assms(2) l h 2(3) g by (auto simp: reply_seq_def Let_def simp flip: bs_def split: if_splits)
    ultimately have "ping_recv (Some (pkt, from)) p
        = ping_reply (length bs) rc h (p\<lparr>ping_buffer := Some m1, ping_from := from\<rparr>)"
      using assms(1) 2 t h d [unfolded m_def] by (simp add: ping_recv_packet [OF _ bs_def])
    with id k ping_reply_counted show thesis using that by metis
  qed
qed

lemma recv_other:
  assumes "reply_seq p pkt = None"
  obtains rc out m frm where "ping_recv (Some (pkt, from)) p = (rc, out, p\<lparr>ping_buffer := m, ping_from := frm\<rparr>)"
    "m = None \<longleftrightarrow> ping_buffer p = None"
proof (cases "ping_buffer p = None")
  case True
  then show thesis using that [of "-1" "[]" "ping_from p" None] by (simp add: ping_recv_def)
next
  case False
  define bs where "bs = take (PING_BUFLEN p) pkt"
  define m where "m = buf_write (ping_buf p) 0 bs"
  obtain rc h m1 where d: "icmp_generic_decode m (length bs) = (rc, h, m1)" by (metis prod_cases3)
  have *: "\<exists>r out. ping_recv (Some (pkt, from)) p = (r, out, p\<lparr>ping_buffer := Some m1, ping_from := from\<rparr>)"
    if "rc \<ge> 0 \<longrightarrow> m1 h \<in> {ICMP_ECHOREPLY, ICMP_TIMESTAMPREPLY, ICMP_ADDRESSREPLY}
      \<longrightarrow> int (unat (get16 m1 (h + 4))) \<noteq> ping_ident p"
    using False d that
    by (simp add: ping_recv_packet [OF False bs_def d [unfolded m_def] refl] ping_reply_def ping_buf_def)
  have "rc \<ge> 0 \<longrightarrow> m1 h \<in> {ICMP_ECHOREPLY, ICMP_TIMESTAMPREPLY, ICMP_ADDRESSREPLY}
      \<longrightarrow> int (unat (get16 m1 (h + 4))) \<noteq> ping_ident p"
    using d
  proof (cases rule: decode_cases)
    case (2 c)
    then have "0 < length bs" by linarith
    then have h: "h = 4 * (unat (bs ! 0) mod 16)" using 2 by (simp add: m_def ip_hlen_def)
    have at: "m1 i = bs ! i" if "i < length bs" "i < h + 2 \<or> h + 3 < i" for i
      using that 2 by (auto simp: m_def)
    have "unat (get16 m1 (h + 4)) = unat (bs ! (h + 4)) + 256 * unat (bs ! (h + 5))" "m1 h = bs ! h"
      using 2 at [of "h + 4"] at [of "h + 5"] at [of h] by (auto simp: get16_id)
    then show ?thesis using assms 2 h
      by (auto simp: reply_seq_def Let_def simp flip: bs_def split: if_splits)
  qed simp
  from * [OF this] obtain r out
    where "ping_recv (Some (pkt, from)) p = (r, out, p\<lparr>ping_buffer := Some m1, ping_from := from\<rparr>)" by blast
  from that [OF this] False show thesis by simp
qed

text \<open>A session: the packets sent so far and the sequence numbers of the replies received, the latest
  first.  A reply belongs to one of the last 1023 packets sent; other packets may come at any time.\<close>

inductive session :: "ping_data \<Rightarrow> nat list \<Rightarrow> bool" where
  start: "session (ping_set_event_handler (ping_set_packetsize len (ping_set_type ty
      (ping_set_count c (ping_init ty0 ident now))))\<lparr>ping_dest := dest\<rparr>) []"
| send: "session p ks \<Longrightarrow> session (snd (send_echo cfg e p)) ks"
| reply: "session p ks \<Longrightarrow> reply_seq p pkt = Some (k mod 65536) \<Longrightarrow> int k < ping_num_xmit p
    \<Longrightarrow> ping_num_xmit p < int k + 1024 \<Longrightarrow> session (snd (snd (ping_recv (Some (pkt, from)) p))) (k # ks)"
| other: "session p ks \<Longrightarrow> reply_seq p pkt = None \<Longrightarrow> session (snd (snd (ping_recv (Some (pkt, from)) p))) ks"

definition ping_wf :: "ping_data \<Rightarrow> bool" where
  "ping_wf p \<longleftrightarrow> ping_cktab_size p = 128 \<and> (ping_cktab p = None \<longleftrightarrow> ping_buffer p = None)
     \<and> (\<forall>t. ping_cktab p = Some t \<longrightarrow> length t = 128) \<and> 0 \<le> ping_num_xmit p
     \<and> (ping_cktab p = None \<longrightarrow> ping_num_xmit p = 0)"

definition ping_acc :: "ping_data \<Rightarrow> nat list \<Rightarrow> bool" where
  "ping_acc p ks \<longleftrightarrow> ping_wf p
     \<and> ping_num_recv p = int (card (set ks)) \<and> ping_num_rept p = int (length ks) - int (card (set ks))
     \<and> (\<forall>k \<in> set ks. int k < ping_num_xmit p)
     \<and> (\<forall>k. int k < ping_num_xmit p \<longrightarrow> ping_num_xmit p < int k + 1024
          \<longrightarrow> (tab_bit (cktab p) (k mod 1024) \<longleftrightarrow> k \<in> set ks))"

text \<open>Setting up the buffers and the data keeps the account.\<close>

lemma setbuf_simps [simp]:
  "ping_num_xmit (ping_setbuf f p) = ping_num_xmit p" "ping_num_recv (ping_setbuf f p) = ping_num_recv p"
  "ping_num_rept (ping_setbuf f p) = ping_num_rept p" "ping_cktab_size (ping_setbuf f p) = ping_cktab_size p"
  "ping_count (ping_setbuf f p) = ping_count p" "ping_buffer (ping_setbuf f p) \<noteq> None"
  "ping_start_time (ping_setbuf f p) = ping_start_time p" "ping_cktab (ping_setbuf f p) \<noteq> None"
  by (auto simp: ping_setbuf_def Let_def)

lemma setbuf_acc: "ping_acc p ks \<Longrightarrow> ping_acc (ping_setbuf f p) ks"
  by (auto simp: ping_acc_def ping_wf_def ping_setbuf_def Let_def cktab_def split: option.splits)

lemma buffer_acc: "ping_acc p ks \<Longrightarrow> ping_buffer p \<noteq> None \<Longrightarrow> ping_acc (p\<lparr>ping_buffer := Some m\<rparr>) ks"
  by (auto simp: ping_acc_def ping_wf_def cktab_def)

lemma set_data_acc: "ping_acc p ks \<Longrightarrow> ping_acc (snd (ping_set_data f d off p)) ks"
  using setbuf_acc [of p ks f] by (auto simp: ping_set_data_def Let_def buffer_acc simp del: not_None_eq)

lemma C_IND_1024: "ping_cktab_size p = 128 \<Longrightarrow> C_IND p (int k) = k mod 1024"
  by (simp add: C_IND_def nat_mod_distrib)

lemma wf_length: "ping_wf p \<Longrightarrow> ping_cktab p \<noteq> None \<Longrightarrow> length (cktab p) = 128"
  by (auto simp: ping_wf_def cktab_def)

lemma recent_eq:
  assumes "j mod 1024 = k mod (1024::nat)" "j \<le> n" "k \<le> n" "n < j + 1024" "n < k + 1024"
  shows "j = k"
proof -
  have "int j mod 1024 = int k mod 1024" using arg_cong [OF assms(1), of int] by (simp add: zmod_int)
  then have "1024 dvd (int j - int k)" by (simp add: mod_eq_dvd_iff)
  moreover have "\<bar>int j - int k\<bar> < 1024" using assms(2-5) by linarith
  ultimately show ?thesis using dvd_imp_le_int [of "int j - int k" 1024] by fastforce
qed

lemma xmit_acc:
  assumes "ping_acc p ks"
  shows "ping_acc (snd (ping_xmit fresh tv sent p)) ks"
proof -
  define q where "q = ping_setbuf fresh p"
  have q: "ping_acc q ks" "ping_cktab q \<noteq> None" "ping_buffer q \<noteq> None"
    using setbuf_acc [OF assms, of fresh] by (simp_all add: q_def del: not_None_eq)
  obtain n where n: "ping_num_xmit q = int n" using q by (auto simp: ping_acc_def ping_wf_def intro: nonneg_int_cases)
  have i: "C_IND q (int n) = n mod 1024" using q by (auto simp: ping_acc_def ping_wf_def C_IND_1024)
  define p2 where "p2 = PING_CLR (int n) q"
  have len: "length (cktab q) = 128" using q by (auto simp: ping_acc_def wf_length simp del: not_None_eq)
  have bit: "tab_bit (cktab p2) k \<longleftrightarrow> tab_bit (cktab q) k \<and> k \<noteq> n mod 1024" for k
    using tab_bit_clr [of "n mod 1024" "cktab q" k] len
    by (simp add: p2_def PING_CLR_def i Let_def cktab_def [of "q\<lparr>ping_cktab := x\<rparr>" for x])
  have rest: "ping_num_recv p2 = ping_num_recv q" "ping_num_rept p2 = ping_num_rept q" "ping_num_xmit p2 = int n"
      "ping_cktab_size p2 = ping_cktab_size q" "ping_buffer p2 \<noteq> None" "ping_cktab p2 \<noteq> None" "length (cktab p2) = 128"
    using q n len by (simp_all add: p2_def PING_CLR_def Let_def cktab_def)
  have old: "tab_bit (cktab p2) (k mod 1024) \<longleftrightarrow> k \<in> set ks" if "k < n" "n < k + 1024" for k
    using that q(1) n recent_eq [of k n n] by (auto simp: bit ping_acc_def)
  have new: "n \<notin> set ks" using q(1) n by (auto simp: ping_acc_def)
  have now: "tab_bit (cktab p2) (k mod 1024) \<longleftrightarrow> k \<in> set ks" if "k < n + 1" "n + 1 < k + 1024" for k
    using that old [of k] new bit [of "n mod 1024"] by (cases "k = n") auto
  have a: "ping_acc (p2\<lparr>ping_buffer := Some m\<rparr>) ks" for m
    using q(1) rest old n by (auto simp: ping_acc_def ping_wf_def cktab_def)
  have b: "ping_acc (p2\<lparr>ping_buffer := Some m, ping_num_xmit := int n + 1\<rparr>) ks" for m
    using q(1) rest now n by (auto simp: ping_acc_def ping_wf_def cktab_def)
  show ?thesis
    using a b n rest(3) by (auto simp: ping_xmit_def Let_def simp flip: q_def p2_def)
qed

lemma send_echo_acc: "ping_acc p ks \<Longrightarrow> ping_acc (snd (send_echo cfg e p)) ks"
  by (auto simp: send_echo_def Let_def intro!: xmit_acc set_data_acc split: option.splits)

lemma reply_acc:
  assumes "ping_acc p ks" "reply_seq p pkt = Some (k mod 65536)" "int k < ping_num_xmit p"
    "ping_num_xmit p < int k + 1024"
  shows "ping_acc (snd (snd (ping_recv (Some (pkt, from)) p))) (k # ks)"
proof -
  have b: "ping_buffer p \<noteq> None" using assms(1,3) by (auto simp: ping_acc_def ping_wf_def)
  obtain m out where r: "ping_recv (Some (pkt, from)) p = (0, out,
     let p1 = p\<lparr>ping_buffer := Some m, ping_from := from\<rparr>
     in if PING_TST p (int (k mod 65536)) then p1\<lparr>ping_num_rept := ping_num_rept p + 1\<rparr>
        else PING_SET (int (k mod 65536)) (p1\<lparr>ping_num_recv := ping_num_recv p + 1\<rparr>))"
    using recv_reply [OF b assms(2)] .
  have i: "C_IND q (int (k mod 65536)) = k mod 1024" if "ping_cktab_size q = 128" for q
    using that by (simp only: C_IND_1024) (simp add: mod_mod_cancel)
  have t: "PING_TST p (int (k mod 65536)) \<longleftrightarrow> k \<in> set ks"
    using assms i by (auto simp: PING_TST_bit ping_acc_def ping_wf_def)
  show ?thesis
  proof (cases "k \<in> set ks")
    case True
    with assms t b show ?thesis unfolding r by (auto simp: ping_acc_def ping_wf_def insert_absorb cktab_def)
  next
    case False
    obtain n where n: "ping_num_xmit p = int n" using assms(3) by (metis nonneg_int_cases less_le_trans nle_le of_nat_0_le_iff less_imp_le order.trans)
    have len: "length (cktab p) = 128" using assms b by (auto simp: ping_acc_def ping_wf_def cktab_def)
    define p2 where "p2 = PING_SET (int (k mod 65536)) (p\<lparr>ping_buffer := Some m, ping_from := from, ping_num_recv := ping_num_recv p + 1\<rparr>)"
    have bit: "tab_bit (cktab p2) j \<longleftrightarrow> tab_bit (cktab p) j \<or> j = k mod 1024" for j
      using tab_bit_set [of "k mod 1024" "cktab p" j] len assms(1)
      by (simp add: p2_def PING_SET_def i Let_def cktab_def ping_acc_def ping_wf_def)
    have "ping_num_xmit p2 = int n" "ping_num_recv p2 = ping_num_recv p + 1" "ping_num_rept p2 = ping_num_rept p"
      "ping_wf p2"
      using assms b len n by (auto simp: p2_def PING_SET_def Let_def ping_acc_def ping_wf_def cktab_def)
    moreover have "tab_bit (cktab p2) (j mod 1024) \<longleftrightarrow> j \<in> set (k # ks)" if "j < n" "n < j + 1024" for j
      using that assms(1,3,4) n recent_eq [of j k n] by (auto simp: bit ping_acc_def)
    ultimately have "ping_acc p2 (k # ks)"
      using assms(1,3) False n by (auto simp: ping_acc_def)
    with t False show ?thesis by (simp add: r p2_def)
  qed
qed

lemma session_acc: "session p ks \<Longrightarrow> ping_acc p ks"
proof (induction rule: session.induct)
  case (start len ty c ty0 ident now dest)
  then show ?case
    by (simp add: ping_acc_def ping_wf_def ping_init_def ping_set_type_def ping_set_packetsize_def
        ping_set_event_handler_def ping_set_count_def)
next
  case (other p ks pkt a)
  from other(2) obtain rc out m frm where
    "ping_recv (Some (pkt, a)) p = (rc, out, p\<lparr>ping_buffer := m, ping_from := frm\<rparr>)" "m = None \<longleftrightarrow> ping_buffer p = None"
    by (rule recv_other)
  with other(3) show ?case by (auto simp: ping_acc_def ping_wf_def cktab_def)
qed (auto intro: send_echo_acc reply_acc)

lemma acc_bound: "ping_acc p ks \<Longrightarrow> ping_num_recv p \<le> ping_num_xmit p"
proof -
  assume a: "ping_acc p ks"
  then have "set ks \<subseteq> {..<nat (ping_num_xmit p)}" by (auto simp: ping_acc_def zless_nat_eq_int_zless)
  from card_mono [OF finite_lessThan this] have "card (set ks) \<le> nat (ping_num_xmit p)" by simp
  with a show ?thesis unfolding ping_acc_def ping_wf_def by linarith
qed

section \<open>What an operation keeps\<close>

lemma set_data_frame [simp]:
  "ping_count (snd (ping_set_data f d off p)) = ping_count p"
  "ping_start_time (snd (ping_set_data f d off p)) = ping_start_time p"
  "ping_num_xmit (snd (ping_set_data f d off p)) = ping_num_xmit p"
  "ping_ident (snd (ping_set_data f d off p)) = ping_ident p"
  "ping_datalen (snd (ping_set_data f d off p)) = ping_datalen p"
  by (simp_all add: ping_set_data_def ping_setbuf_def Let_def)

lemma xmit_frame [simp]:
  "ping_count (snd (ping_xmit f tv sent p)) = ping_count p"
  "ping_start_time (snd (ping_xmit f tv sent p)) = ping_start_time p"
  "ping_num_xmit (snd (ping_xmit f tv sent p)) = ping_num_xmit p + (if sent < 0 then 0 else 1)"
  "ping_ident (snd (ping_xmit f tv sent p)) = ping_ident p"
  "ping_datalen (snd (ping_xmit f tv sent p)) = ping_datalen p"
  by (simp_all add: ping_xmit_def ping_setbuf_def PING_CLR_def Let_def)

lemma send_echo_frame [simp]:
  "ping_count (snd (send_echo cfg e p)) = ping_count p"
  "ping_start_time (snd (send_echo cfg e p)) = ping_start_time p"
  "ping_num_xmit (snd (send_echo cfg e p)) = ping_num_xmit p + (if e_sent e < 0 then 0 else 1)"
  "ping_ident (snd (send_echo cfg e p)) = ping_ident p"
  "ping_datalen (snd (send_echo cfg e p)) = ping_datalen p"
  by (simp_all add: send_echo_def Let_def split: option.splits)

lemma reply_frame [simp]:
  "ping_count (snd (snd (ping_reply n rc icmp p))) = ping_count p"
  "ping_num_xmit (snd (snd (ping_reply n rc icmp p))) = ping_num_xmit p"
  "ping_ident (snd (snd (ping_reply n rc icmp p))) = ping_ident p"
  "ping_datalen (snd (snd (ping_reply n rc icmp p))) = ping_datalen p"
  by (simp_all add: ping_reply_def PING_SET_def Let_def)

lemma recv_frame [simp]:
  "ping_count (snd (snd (ping_recv rcv p))) = ping_count p"
  "ping_num_xmit (snd (snd (ping_recv rcv p))) = ping_num_xmit p"
  "ping_ident (snd (snd (ping_recv rcv p))) = ping_ident p"
  "ping_datalen (snd (snd (ping_recv rcv p))) = ping_datalen p"
  by (auto simp: ping_recv_def Let_def split: option.splits prod.splits if_splits)

text \<open>(C21) The statistics of \<open>ping\<close> are right.  In a session in which every reply that arrives answers one
  of the last 1023 packets sent, in whatever order and however often, whatever other packets arrive and whether
  or not packets could be sent, the number of packets received is the number of packets that were
  answered, each counted once however many replies it got; the further replies are counted as duplicates; so
  no more packets are received than were sent, and \<open>ping_finish\<close> reports the share of packets without an answer as
  the loss.  This includes more packets than the table of 1024 bits and the 16-bit sequence numbers can tell apart.\<close>

theorem ping_accounts:
  assumes "session p ks"
  shows "ping_num_recv p = int (card (set ks))
    \<and> ping_num_rept p = int (length ks) - int (card (set ks))
    \<and> set ks \<subseteq> {k. int k < ping_num_xmit p}
    \<and> (\<forall>x. ping_num_xmit p = int x \<longrightarrow> 0 < x \<longrightarrow>
         ping_finish p = Statistics (int x) (int (card (set ks))) (int (length ks) - int (card (set ks)))
           (Some ((int x - int (card (set ks))) * 100 div int x)))"
  using session_acc [OF assms] acc_bound [OF session_acc [OF assms]]
  by (auto simp: ping_acc_def ping_finish_def)

text \<open>One packet, answered twice.\<close>

theorem ping_accounts_witness:
  "\<exists>p. session p [0, 0] \<and> ping_num_recv p = 1 \<and> ping_num_rept p = 1
    \<and> ping_finish p = Statistics 1 1 1 (Some 0)"
proof -
  define p0 where "p0 = ping_set_event_handler (ping_set_packetsize 48 (ping_set_type ICMP_ECHO
      (ping_set_count 1 (ping_init ICMP_ECHO 1 (0, 0)))))\<lparr>ping_dest := 0x0100007F\<rparr>"
  define cfg where "cfg = \<lparr>data_length = 48, data_buffer = None, preload = 0, opt_flood = False,
    opt_quiet = False, timeout = - 1, linger = 10\<rparr>"
  define e where "e = \<lparr>e_fresh = \<lambda>_. 0, e_data_time = (0, 0), e_stamp = (0, 0), e_sent = 56\<rparr>"
  define p1 where "p1 = snd (send_echo cfg e p0)"
  define pkt :: "byte list" where "pkt = 0x45 # replicate 23 0 @ [1, 0, 0, 0]"
  have f: "ping_ident p1 = 1" "ping_datalen p1 = 48" "ping_num_xmit p1 = 1"
    by (simp_all add: p1_def e_def p0_def ping_init_def ping_set_event_handler_def ping_set_packetsize_def
        ping_set_type_def ping_set_count_def)
  have l: "length pkt = 28" "pkt ! 0 = 0x45" "pkt ! 20 = 0" "pkt ! 24 = 1" "pkt ! 25 = 0" "pkt ! 26 = 0" "pkt ! 27 = 0"
    by (simp_all add: pkt_def nth_Cons' nth_append)
  have r: "reply_seq q pkt = Some (0 mod 65536)" if "ping_ident q = 1" "ping_datalen q = 48" for q
    using that l by (simp add: reply_seq_def PING_BUFLEN_def Let_def)
  have "session p0 []" unfolding p0_def by (rule session.start)
  then have "session p1 []" unfolding p1_def by (rule session.send)
  then have "session (snd (snd (ping_recv (Some (pkt, 0)) p1))) [0]" by (rule session.reply) (simp_all add: r f)
  then have s: "session (snd (snd (ping_recv (Some (pkt, 0)) (snd (snd (ping_recv (Some (pkt, 0)) p1)))))) [0, 0]"
    by (rule session.reply) (simp_all add: r f)
  show ?thesis
    by (rule exI, rule conjI, rule s) (use ping_accounts [OF s] f in auto)
qed

section \<open>The end of a run\<close>

definition ok_send :: "send_env \<Rightarrow> bool" where
  "ok_send e \<longleftrightarrow> 0 \<le> e_sent e"

fun sel_sends :: "(send_env \<Rightarrow> bool) \<Rightarrow> sel \<Rightarrow> bool" where
  "sel_sends P (Sel_timeout e t lst) = P e"
| "sel_sends P (Sel_ready rcv t) = True"
| "sel_sends P Sel_error = True"

definition timeouts :: "(bool \<times> timeval \<times> sel) list \<Rightarrow> nat" where
  "timeouts evs = length (filter (\<lambda>(stop, now, s). case s of Sel_timeout e t lst \<Rightarrow> True | _ \<Rightarrow> False) evs)"

text \<open>How many more times the wait for a packet may time out.\<close>

definition turns_left :: "run \<Rightarrow> nat" where
  "turns_left r = (ping_count (r_ping r) - nat (ping_num_xmit (r_ping r))) + (if r_finishing r then 1 else 2)"

definition run_ok :: "run \<Rightarrow> bool" where
  "run_ok r \<longleftrightarrow> 0 < ping_count (r_ping r) \<and> 0 \<le> ping_num_xmit (r_ping r)"

lemma emit_simps [simp]:
  "r_ping (emit out r) = r_ping r" "r_finishing (emit out r) = r_finishing r"
  "turns_left (emit out r) = turns_left r" "run_ok (emit out r) = run_ok r"
  by (simp_all add: emit_def turns_left_def run_ok_def)

lemma run_ready_left:
  assumes "run_ready cfg rcv now r = (fin, r1)"
  shows "turns_left r1 = turns_left r \<and> run_ok r1 = run_ok r"
proof -
  obtain rc out p where p: "ping_recv rcv (r_ping r) = (rc, out, p)" by (metis prod_cases3)
  then have "ping_count p = ping_count (r_ping r)" "ping_num_xmit p = ping_num_xmit (r_ping r)"
    using recv_frame [of rcv "r_ping r"] by simp_all
  then show ?thesis using assms p by (auto simp: run_ready_def turns_left_def run_ok_def Let_def)
qed

lemma run_timeout_left:
  assumes "run_timeout cfg e now lst r = (False, r1)" "run_ok r" "ok_send e"
  shows "turns_left r = Suc (turns_left r1) \<and> run_ok r1"
proof -
  obtain out p where p: "send_echo cfg e (r_ping r) = (out, p)" by fastforce
  then have "ping_count p = ping_count (r_ping r)" "ping_num_xmit p = ping_num_xmit (r_ping r) + 1"
    using send_echo_frame [of cfg e "r_ping r"] assms(3) by (simp_all add: ok_send_def)
  then show ?thesis
    using assms p by (auto simp: run_timeout_def turns_left_def run_ok_def Let_def nat_add_distrib split: if_splits)
qed

lemma run_turn_left:
  assumes "run_turn cfg now s r = (False, r1)" "run_ok r" "sel_sends ok_send s"
  shows "run_ok r1 \<and> turns_left r = turns_left r1 + timeouts [(stop, now, s)]"
proof (cases s)
  case Sel_error
  then show ?thesis using assms by (auto simp: run_turn_def timeouts_def Let_def)
next
  case (Sel_ready rcv t)
  then show ?thesis using assms run_ready_left by (fastforce simp: run_turn_def timeouts_def Let_def)
next
  case (Sel_timeout e t lst)
  then show ?thesis using assms run_timeout_left by (fastforce simp: run_turn_def timeouts_def Let_def)
qed

lemma turns_left_pos: "0 < turns_left r"
  by (simp add: turns_left_def)

lemma run_loop_ends:
  assumes "run_ok r" "turns_left r \<le> timeouts evs" "\<forall>(stop, now, s) \<in> set evs. sel_sends ok_send s"
  shows "fst (run_loop cfg evs r)"
  using assms
proof (induction evs arbitrary: r)
  case Nil
  then show ?case using turns_left_pos [of r] by (simp add: timeouts_def)
next
  case (Cons ev evs)
  obtain stop now s where ev: "ev = (stop, now, s)" by (metis prod_cases3)
  obtain fin r1 where t: "run_turn cfg now s r = (fin, r1)" by fastforce
  show ?case
  proof (cases "stop \<or> fin")
    case False
    with run_turn_left [of cfg now s r r1 stop] t Cons.prems
    have "run_ok r1" "turns_left r = turns_left r1 + timeouts [ev]" by (auto simp: ev)
    moreover have "timeouts (ev # evs) = timeouts [ev] + timeouts evs" by (simp add: timeouts_def)
    ultimately show ?thesis using Cons False t by (auto simp: ev)
  qed (auto simp: ev t)
qed

lemma send_all_frame:
  "ping_count (snd (send_all cfg es p)) = ping_count p
    \<and> ping_num_xmit (snd (send_all cfg es p)) = ping_num_xmit p + int (length (filter ok_send es))"
proof (induction es arbitrary: p)
  case (Cons e es)
  obtain out p1 where p1: "send_echo cfg e p = (out, p1)" by fastforce
  then have "ping_count p1 = ping_count p" "ping_num_xmit p1 = ping_num_xmit p + (if ok_send e then 1 else 0)"
    using send_echo_frame [of cfg e p] by (auto simp: ok_send_def)
  moreover obtain out2 p2 where "send_all cfg es p1 = (out2, p2)" by fastforce
  ultimately show ?case using Cons [of p1] p1 by simp
qed simp

lemma run_start_frame:
  "ping_count (r_ping (run_start cfg es now p)) = ping_count p"
  "ping_num_xmit (r_ping (run_start cfg es now p)) = ping_num_xmit p + int (length (filter ok_send es))"
  "\<not> r_finishing (run_start cfg es now p)"
  using send_all_frame [of cfg es p] by (auto simp: run_start_def split: prod.splits)

text \<open>Packets are sent only up to the count.\<close>

lemma run_turn_bound:
  assumes "run_turn cfg now s r = (fin, r1)" "0 < ping_count (r_ping r)"
  shows "ping_count (r_ping r1) = ping_count (r_ping r)
    \<and> ping_num_xmit (r_ping r) \<le> ping_num_xmit (r_ping r1)
    \<and> ping_num_xmit (r_ping r1) \<le> max (ping_num_xmit (r_ping r)) (int (ping_count (r_ping r)))"
proof (cases s)
  case (Sel_ready rcv t)
  obtain rc out p where p: "ping_recv rcv (r_ping r) = (rc, out, p)" by (metis prod_cases3)
  then have "ping_count p = ping_count (r_ping r)" "ping_num_xmit p = ping_num_xmit (r_ping r)"
    using recv_frame [of rcv "r_ping r"] by simp_all
  with Sel_ready assms p show ?thesis by (auto simp: run_turn_def run_ready_def Let_def)
next
  case (Sel_timeout e t lst)
  obtain out p where p: "send_echo cfg e (r_ping r) = (out, p)" by fastforce
  then have "ping_count p = ping_count (r_ping r)"
      "ping_num_xmit p = ping_num_xmit (r_ping r) + (if e_sent e < 0 then 0 else 1)"
    using send_echo_frame [of cfg e "r_ping r"] by simp_all
  with Sel_timeout assms p show ?thesis by (auto simp: run_turn_def run_timeout_def Let_def split: if_splits)
qed (use assms in \<open>auto simp: run_turn_def Let_def\<close>)

lemma run_loop_bound:
  assumes "run_loop cfg evs r = (fin, r1)" "0 < ping_count (r_ping r)"
  shows "ping_num_xmit (r_ping r) \<le> ping_num_xmit (r_ping r1)
    \<and> ping_num_xmit (r_ping r1) \<le> max (ping_num_xmit (r_ping r)) (int (ping_count (r_ping r)))"
  using assms
proof (induction evs arbitrary: r)
  case (Cons ev evs)
  obtain stop now s where ev: "ev = (stop, now, s)" by (metis prod_cases3)
  obtain f r2 where t: "run_turn cfg now s r = (f, r2)" by fastforce
  note b = run_turn_bound [OF t Cons.prems(2)]
  show ?case
  proof (cases "stop \<or> f")
    case True
    with Cons.prems b t show ?thesis by (auto simp: ev split: if_splits)
  next
    case False
    with Cons.prems t have "run_loop cfg evs r2 = (fin, r1)" by (simp add: ev)
    from Cons.IH [OF this] b Cons.prems(2) show ?thesis by auto
  qed
qed simp

text \<open>When no packet can be sent, the count is never reached.\<close>

lemma run_loop_stuck:
  assumes "\<forall>(stop, now, s) \<in> set evs. \<not> stop \<and> (\<exists>e t lst. s = Sel_timeout e t lst \<and> \<not> ok_send e)"
    and "timeout cfg = - 1" "ping_num_xmit (r_ping r) < int (ping_count (r_ping r))"
  shows "\<not> fst (run_loop cfg evs r)"
  using assms(1,3)
proof (induction evs arbitrary: r)
  case (Cons ev evs)
  from Cons.prems obtain now e t lst where ev: "ev = (False, now, Sel_timeout e t lst)" "\<not> ok_send e"
    by (cases ev) auto
  obtain out p where p: "send_echo cfg e (r_ping r) = (out, p)" by fastforce
  have pp: "ping_count p = ping_count (r_ping r)" "ping_num_xmit p = ping_num_xmit (r_ping r)"
    using p ev(2) send_echo_frame [of cfg e "r_ping r"] by (simp_all add: ok_send_def)
  obtain r1 where "run_turn cfg now (Sel_timeout e t lst) r = (False, r1)" "r_ping r1 = p"
    using p Cons.prems(2) assms(2) by (simp add: run_turn_def run_timeout_def ping_timeout_p_def Let_def)
  with Cons.IH [of r1] Cons.prems pp ev show ?case by simp
qed simp

lemma ping_run_returns:
  assumes "ping_count p = c" "0 < c" "ping_num_xmit p = 0" "es \<noteq> []"
    and ok: "\<forall>e \<in> set es. ok_send e" "\<forall>(stop, now, s) \<in> set evs. sel_sends ok_send s" "c + 1 \<le> timeouts evs"
  shows "\<exists>out q. ping_run cfg es now evs p = Some (out, q)
    \<and> 0 < ping_num_xmit q \<and> ping_num_xmit q \<le> int (max c (length es))"
proof -
  define r where "r = run_start cfg es now p"
  note s = run_start_frame [of cfg es now p, folded r_def, unfolded assms(1,3)]
  obtain fin r1 where l: "run_loop cfg evs r = (fin, r1)" by fastforce
  have x: "ping_num_xmit (r_ping r) = int (length es)" using s ok(1) by (simp add: filter_True)
  have pos: "0 < length es" using assms(4) by simp
  have "c - length es + 2 \<le> timeouts evs" using pos assms(2) ok(3) by linarith
  then have "run_ok r" "turns_left r \<le> timeouts evs"
    using x s assms(2) by (simp_all add: run_ok_def turns_left_def)
  then have "fin" using run_loop_ends [OF _ _ ok(2), of r cfg] l by simp
  moreover have "0 < ping_num_xmit (r_ping r1)" "ping_num_xmit (r_ping r1) \<le> int (max c (length es))"
    using run_loop_bound [OF l, unfolded s(1)] x assms(2) pos by linarith+
  ultimately show ?thesis
    using l by (simp add: ping_run_def ping_unset_data_def Let_def flip: r_def)
qed

lemma ping_run_stuck:
  assumes "ping_count p = c" "0 < c" "ping_num_xmit p = 0"
    and bad: "\<forall>e \<in> set es. \<not> ok_send e" "timeout cfg = - 1"
      "\<forall>(stop, now, s) \<in> set evs. \<not> stop \<and> (\<exists>e t lst. s = Sel_timeout e t lst \<and> \<not> ok_send e)"
  shows "ping_run cfg es now evs p = None"
proof -
  define r where "r = run_start cfg es now p"
  have "ping_num_xmit (r_ping r) < int (ping_count (r_ping r))"
    using run_start_frame [of cfg es now p] bad(1) assms(1-3) by (simp add: r_def filter_False)
  from run_loop_stuck [OF bad(3,2) this] show ?thesis
    by (auto simp: ping_run_def simp flip: r_def split: prod.splits)
qed

text \<open>(C29) \<open>ping -c\<close> comes to an end.  When packets can be sent, \<open>ping_run\<close> with a count returns at the latest
  when its wait for a packet has timed out once more often than the count, whatever else arrives, and it has
  sent no more packets than the count or the preloaded ones.  When no packet can be sent, because the host cannot
  be reached, the packets are not counted and \<open>ping_run\<close> goes on for ever, unless a signal or the option for a timeout
  ends it.\<close>

theorem ping_run_ends:
  assumes "ping_count p = c" "0 < c" "ping_num_xmit p = 0" "es \<noteq> []"
  shows "((\<forall>e \<in> set es. ok_send e) \<and> (\<forall>(stop, now, s) \<in> set evs. sel_sends ok_send s) \<and> c + 1 \<le> timeouts evs
      \<longrightarrow> (\<exists>out q. ping_run cfg es now evs p = Some (out, q)
            \<and> 0 < ping_num_xmit q \<and> ping_num_xmit q \<le> int (max c (length es))))
    \<and> ((\<forall>e \<in> set es. \<not> ok_send e) \<and> timeout cfg = - 1
        \<and> (\<forall>(stop, now, s) \<in> set evs. \<not> stop \<and> (\<exists>e t lst. s = Sel_timeout e t lst \<and> \<not> ok_send e))
      \<longrightarrow> ping_run cfg es now evs p = None)"
  using ping_run_returns [OF assms, of evs cfg now] ping_run_stuck [OF assms(1-3), of es cfg evs now]
  by blast

theorem ping_run_ends_witness:
  "\<exists>out q. ping_run \<lparr>data_length = 0, data_buffer = None, preload = 0, opt_flood = False, opt_quiet = False,
        timeout = - 1, linger = 10\<rparr>
      [\<lparr>e_fresh = \<lambda>_. 0, e_data_time = (0, 0), e_stamp = (0, 0), e_sent = 8\<rparr>] (0, 0)
      (replicate 2 (False, (0, 0), Sel_timeout \<lparr>e_fresh = \<lambda>_. 0, e_data_time = (0, 0), e_stamp = (0, 0), e_sent = 8\<rparr> (1, 0) (1, 0)))
      (ping_set_packetsize 0 (ping_set_count 1 (ping_init ICMP_ECHO 1 (0, 0)))) = Some (out, q)
    \<and> ping_num_xmit q = 1"
proof -
  let ?p = "ping_set_packetsize 0 (ping_set_count 1 (ping_init ICMP_ECHO 1 (0, 0)))"
  have "ping_count ?p = 1" "ping_num_xmit ?p = 0"
    by (simp_all add: ping_set_packetsize_def ping_set_count_def ping_init_def)
  from ping_run_ends [OF this(1) _ this(2), of "[\<lparr>e_fresh = \<lambda>_. 0, e_data_time = (0, 0), e_stamp = (0, 0), e_sent = 8\<rparr>]"
    "replicate 2 (False, (0, 0), Sel_timeout \<lparr>e_fresh = \<lambda>_. 0, e_data_time = (0, 0), e_stamp = (0, 0), e_sent = 8\<rparr> (1, 0) (1, 0))"
    "\<lparr>data_length = 0, data_buffer = None, preload = 0, opt_flood = False, opt_quiet = False, timeout = - 1, linger = 10\<rparr>" "(0, 0)"]
  show ?thesis by (force simp: ok_send_def timeouts_def)
qed

end
