(* ===== verification/Syslogd_Config.thy ===== *)
theory Syslogd_Config
  imports Prelude
begin

text \<open>
  The configuration of \<open>src/syslogd.c\<close>: the names of priorities and facilities (\<open>logprio.h\<close>, \<open>decode\<close>), the
  entry for a line of the configuration file (\<open>cfline\<close>) and the lines of the file (\<open>init\<close>).

  A string is a list of characters without the null character at its end.  The array \<open>f_pmask\<close> of an
  entry is a map from indices to bytes, of which the first 25 are the array and the others what follows it
  in memory, so that an index out of range stays visible.  A shift of \<open>1\<close> by more than 31, which C leaves
  undefined, is by the count modulo 32, as the processor does it.  What the system knows (the addresses of hosts,
  which files can be opened, the time) are parameters.
\<close>

section \<open>Entries\<close>

abbreviation (input) LOG_NFACILITIES :: nat where "LOG_NFACILITIES \<equiv> 24"
abbreviation (input) LOG_PRIMASK :: int where "LOG_PRIMASK \<equiv> 7"
abbreviation (input) LOG_FACMASK :: int where "LOG_FACMASK \<equiv> 0x3F8"
abbreviation (input) INTERNAL_NOPRI :: int where "INTERNAL_NOPRI \<equiv> 16"
abbreviation (input) INET_RETRY_MAX :: int where "INET_RETRY_MAX \<equiv> 10"
abbreviation (input) TAB :: char where "TAB \<equiv> CHR 0x09"
abbreviation (input) LF :: char where "LF \<equiv> CHR 0x0A"

datatype ftype = F_UNUSED | F_FILE | F_TTY | F_CONSOLE | F_FORW | F_USERS | F_WALL
  | F_FORW_SUSP | F_FORW_UNKN | F_PIPE

text \<open>The union \<open>f_un\<close>; a name that has been freed is \<open>None\<close>.  For users the number that was counted goes
  with the names that were stored.\<close>

datatype f_un = Un_none | Un_user nat "string list" | Un_forw "string option" "u32 option" | Un_fname "string option"

record filed =
  f_type :: ftype
  f_file :: int
  f_time :: int
  f_pmask :: "nat \<Rightarrow> byte"
  f_un :: f_un
  f_prevline :: string
  f_lasttime :: string
  f_prevhost :: "string option"
  f_prevpri :: int
  f_prevlen :: nat
  f_prevcount :: int
  f_repeatcount :: nat
  f_omit_sync :: bool

text \<open>A new entry, as \<open>memset\<close> makes it; \<open>beyond\<close> is the memory behind the priority masks.\<close>

definition filed_zero :: "(nat \<Rightarrow> byte) \<Rightarrow> filed" where
  "filed_zero beyond = \<lparr>f_type = F_UNUSED, f_file = 0, f_time = 0,
     f_pmask = (\<lambda>i. if i \<le> LOG_NFACILITIES then 0 else beyond i), f_un = Un_none, f_prevline = [], f_lasttime = [],
     f_prevhost = None, f_prevpri = 0, f_prevlen = 0, f_prevcount = 0, f_repeatcount = 0, f_omit_sync = False\<rparr>"

section \<open>Names\<close>

definition LOG_FAC :: "int \<Rightarrow> nat" where
  "LOG_FAC p = nat (drop_bit 3 (p AND LOG_FACMASK))"

definition LOG_PRI :: "int \<Rightarrow> int" where
  "LOG_PRI p = p AND LOG_PRIMASK"

definition shl1 :: "int \<Rightarrow> u32" where
  "shl1 n = push_bit (nat (n mod 32)) 1"

definition LOG_MASK :: "int \<Rightarrow> u32" where
  "LOG_MASK p = shl1 p"

definition LOG_UPTO :: "int \<Rightarrow> u32" where
  "LOG_UPTO p = shl1 (p + 1) - 1"

definition prioritynames :: "(string \<times> int) list" where
  "prioritynames = [(''alert'', 1), (''crit'', 2), (''debug'', 7), (''emerg'', 0), (''err'', 3), (''error'', 3),
     (''info'', 6), (''none'', INTERNAL_NOPRI), (''notice'', 5), (''panic'', 0), (''warn'', 4), (''warning'', 4)]"

definition facilitynames :: "(string \<times> int) list" where
  "facilitynames = [(''auth'', 32), (''authpriv'', 80), (''cron'', 72), (''daemon'', 24), (''ftp'', 88),
     (''kern'', 0), (''lpr'', 48), (''mail'', 16), (''mark'', 192), (''news'', 56), (''security'', 32),
     (''syslog'', 40), (''user'', 8), (''uucp'', 64), (''local0'', 128), (''local1'', 136), (''local2'', 144),
     (''local3'', 152), (''local4'', 160), (''local5'', 168), (''local6'', 176), (''local7'', 184)]"

definition char_digit :: "char \<Rightarrow> bool" where
  "char_digit c \<longleftrightarrow> 48 \<le> (of_char c :: nat) \<and> (of_char c :: nat) \<le> 57"

definition char_lower :: "char \<Rightarrow> char" where
  "char_lower c = (if 65 \<le> (of_char c :: nat) \<and> (of_char c :: nat) \<le> 90 then char_of (of_char c + 32 :: nat) else c)"

definition strcaseeq :: "string \<Rightarrow> string \<Rightarrow> bool" where
  "strcaseeq a b \<longleftrightarrow> map char_lower a = map char_lower b"

definition atoi_digits :: "string \<Rightarrow> int" where
  "atoi_digits s = foldl (\<lambda>n c. 10 * n + (of_char c - 48)) 0 (takeWhile char_digit s)"

fun lookup_code :: "string \<Rightarrow> (string \<times> int) list \<Rightarrow> int" where
  "lookup_code name [] = -1"
| "lookup_code name ((n, v) # tab) = (if strcaseeq name n then v else lookup_code name tab)"

definition decode :: "string \<Rightarrow> (string \<times> int) list \<Rightarrow> int" where
  "decode name codetab =
     (if name \<noteq> [] \<and> char_digit (hd name) then atoi_digits name else lookup_code name codetab)"

section \<open>Selectors\<close>

text \<open>The end of a list of facilities: the character after the dot, or the tab, or the end.\<close>

fun after_dot :: "string \<Rightarrow> string" where
  "after_dot [] = []"
| "after_dot (c # s) = (if c = TAB then c # s else if c = CHR ''.'' then s else after_dot s)"

fun pri_flags :: "bool \<Rightarrow> bool \<Rightarrow> string \<Rightarrow> bool \<times> bool \<times> string" where
  "pri_flags neg excl (c # s) =
     (if c = CHR ''!'' then pri_flags True excl s
      else if c = CHR ''='' then pri_flags neg True s
      else (neg, excl, c # s))"
| "pri_flags neg excl [] = (neg, excl, [])"

text \<open>The bits to set and the bits to clear, or an error.\<close>

definition pri_masks :: "string \<Rightarrow> string + (u32 \<times> u32)" where
  "pri_masks b =
     (case pri_flags False False b of
        (neg, excl, name) \<Rightarrow>
          (let r = (if name \<noteq> [] \<and> hd name = CHR ''*'' then Inr (LOG_UPTO LOG_PRIMASK, 0)
                    else let pri = decode name prioritynames
                         in if pri < 0 then Inl (''unknown priority name '' @ name)
                            else if pri = INTERNAL_NOPRI then Inr (0, 255)
                            else Inr (if excl then LOG_MASK pri else LOG_UPTO pri, 0))
           in case r of Inl e \<Rightarrow> Inl e | Inr (st, cl) \<Rightarrow> if neg then Inr (cl, st) else Inr (st, cl)))"

definition set_mask :: "u32 \<times> u32 \<Rightarrow> nat \<Rightarrow> filed \<Rightarrow> filed" where
  "set_mask m i f = f\<lparr>f_pmask := (f_pmask f)(i := (f_pmask f i AND NOT (ucast (snd m))) OR ucast (fst m))\<rparr>"

text \<open>One facility: \<open>*\<close> is for all of them, \<open>**\<close> for those not seen so far.  The facility is noted before
  its name has been checked.\<close>

definition set_facility :: "u32 \<times> u32 \<Rightarrow> string \<Rightarrow> u32 \<Rightarrow> filed \<Rightarrow> (string option \<times> u32 \<times> filed)" where
  "set_facility m name seen f =
     (if name \<noteq> [] \<and> hd name = CHR ''*'' then
        (None, seen,
         fold (\<lambda>i f. if 1 < length name \<and> name ! 1 = CHR ''*'' \<and> shl1 (int i) AND seen \<noteq> 0 then f else set_mask m i f)
           [0..<LOG_NFACILITIES + 1] f)
      else let i = decode name facilitynames;
               seen1 = seen OR shl1 (int (LOG_FAC i))
           in if i < 0 then (Some (''unknown facility name '' @ name), seen1, f)
              else (None, seen1, set_mask m (LOG_FAC i) f))"

definition fac_stop :: "char \<Rightarrow> bool" where
  "fac_stop c \<longleftrightarrow> c \<in> set [TAB, CHR '' '', CHR ''.'', CHR '';'']"

definition name_stop :: "char \<Rightarrow> bool" where
  "name_stop c \<longleftrightarrow> c \<in> set [TAB, CHR '' '', CHR '','', CHR '';'', CHR ''.'']"

definition pri_stop :: "char \<Rightarrow> bool" where
  "pri_stop c \<longleftrightarrow> c \<in> set [TAB, CHR '' '', CHR '','', CHR '';'']"

lemma facilities_shorter:
  assumes "p \<noteq> []" "\<not> fac_stop (hd p)"
  shows "length (dropWhile (\<lambda>c. c = CHR '','' \<or> c = CHR '' '') (dropWhile (\<lambda>c. \<not> name_stop c) p)) < length p"
proof (cases p)
  case (Cons c s)
  let ?d = "dropWhile (\<lambda>c. c = CHR '','' \<or> c = CHR '' '')"
  have l: "length (dropWhile P xs) \<le> length xs" for P and xs :: string by (rule length_dropWhile_le)
  show ?thesis
  proof (cases "name_stop c")
    case True
    with assms Cons have "c = CHR '',''" by (auto simp: fac_stop_def name_stop_def)
    then show ?thesis using Cons l [of "\<lambda>c. c = CHR '','' \<or> c = CHR '' ''" s] by (simp add: name_stop_def)
  next
    case False
    then show ?thesis using Cons l [of "\<lambda>c. c = CHR '','' \<or> c = CHR '' ''" "dropWhile (\<lambda>c. \<not> name_stop c) s"]
        l [of "\<lambda>c. \<not> name_stop c" s] by simp
  qed
qed (use assms in simp)

function set_facilities :: "u32 \<times> u32 \<Rightarrow> string \<Rightarrow> u32 \<Rightarrow> filed \<Rightarrow> (string option \<times> u32 \<times> filed)" where
  "set_facilities m p seen f =
     (if p = [] \<or> fac_stop (hd p) then (None, seen, f)
      else case set_facility m (takeWhile (\<lambda>c. \<not> name_stop c) p) seen f of
             (Some e, seen1, f1) \<Rightarrow> (Some e, seen1, f1)
           | (None, seen1, f1) \<Rightarrow>
               set_facilities m (dropWhile (\<lambda>c. c = CHR '','' \<or> c = CHR '' '') (dropWhile (\<lambda>c. \<not> name_stop c) p)) seen1 f1)"
  by pat_completeness auto
termination
  by (relation "measure (\<lambda>(m, p, seen, f). length p)") (auto intro: facilities_shorter)

declare set_facilities.simps [simp del]

text \<open>The loop over the selectors.  The result is where the action starts, or an error.\<close>

lemma after_dot_length: "length (after_dot s) \<le> length s"
  by (induction s) auto

lemma selectors_shorter:
  assumes "p \<noteq> []" "hd p \<noteq> TAB"
  shows "length (dropWhile P (dropWhile Q (after_dot p))) < length p"
proof (cases p)
  case (Cons c s)
  have "length (dropWhile P (dropWhile Q (after_dot p))) \<le> length (after_dot p)"
    by (meson length_dropWhile_le order_trans)
  also have "\<dots> < length p" using assms Cons after_dot_length [of s] by auto
  finally show ?thesis .
qed (use assms in simp)

function selectors :: "string \<Rightarrow> u32 \<Rightarrow> filed \<Rightarrow> (string + string) \<times> u32 \<times> filed" where
  "selectors p seen f =
     (if p = [] \<or> hd p = TAB \<or> hd p = CHR '' '' then (Inr p, seen, f)
      else let q = after_dot p;
               b = takeWhile (\<lambda>c. \<not> pri_stop c) q;
               q1 = dropWhile (\<lambda>c. c = CHR '','' \<or> c = CHR '';'') (dropWhile (\<lambda>c. \<not> pri_stop c) q)
           in case pri_masks b of
                Inl e \<Rightarrow> (Inl e, seen, f)
              | Inr m \<Rightarrow>
                  (case set_facilities m p seen f of
                     (Some e, seen1, f1) \<Rightarrow> (Inl e, seen1, f1)
                   | (None, seen1, f1) \<Rightarrow> selectors q1 seen1 f1))"
  by pat_completeness auto
termination
  by (relation "measure (\<lambda>(p, seen, f). length p)") (auto intro: selectors_shorter)

declare selectors.simps [simp del]

section \<open>Actions\<close>

text \<open>What the system answers: the address of a host or an error, which may be temporary; the descriptor of an
  opened file, negative on failure; whether it is a terminal; the time.\<close>

datatype gai = Gai_found u32 | Gai_temporary | Gai_error

record sys =
  s_getaddrinfo :: "string \<Rightarrow> gai"
  s_open :: "string \<Rightarrow> int"
  s_isatty :: "int \<Rightarrow> bool"
  s_time :: int
  s_ctty :: string

text \<open>The names of users.  The number is that of the commas, also when there are fewer names.\<close>

lemma user_names_shorter:
  assumes "p \<noteq> []"
  shows "length (dropWhile (\<lambda>c. c = CHR '','' \<or> c = CHR '' '') (dropWhile (\<lambda>c. c \<noteq> CHR '','') p)) < length p"
proof (cases p)
  case (Cons c s)
  have l: "length (dropWhile P xs) \<le> length xs" for P and xs :: string by (rule length_dropWhile_le)
  show ?thesis
    using Cons l [of "\<lambda>c. c = CHR '','' \<or> c = CHR '' ''" s]
      l [of "\<lambda>c. c = CHR '','' \<or> c = CHR '' ''" "dropWhile (\<lambda>c. c \<noteq> CHR '','') s"] l [of "\<lambda>c. c \<noteq> CHR '','' " s]
    by (auto simp: le_imp_less_Suc)
qed (use assms in simp)

function user_names :: "string \<Rightarrow> string list" where
  "user_names p =
     (if p = [] then []
      else takeWhile (\<lambda>c. c \<noteq> CHR '','') p
        # user_names (dropWhile (\<lambda>c. c = CHR '','' \<or> c = CHR '' '') (dropWhile (\<lambda>c. c \<noteq> CHR '','') p)))"
  by pat_completeness auto
termination
  by (relation "measure length") (auto intro: user_names_shorter)

declare user_names.simps [simp del]

definition open_action :: "sys \<Rightarrow> ftype \<Rightarrow> string \<Rightarrow> string \<Rightarrow> filed \<Rightarrow> string list \<times> filed" where
  "open_action sy plain whole p f =
     (let fd = s_open sy p; f1 = f\<lparr>f_un := Un_fname (Some whole), f_file := fd\<rparr>
      in if fd < 0 then ([p], f1\<lparr>f_type := F_UNUSED, f_un := Un_fname None\<rparr>)
         else ([], f1\<lparr>f_type := if p = s_ctty sy then F_CONSOLE else if s_isatty sy fd then F_TTY else plain\<rparr>))"

definition forward_action :: "sys \<Rightarrow> string \<Rightarrow> filed \<Rightarrow> filed" where
  "forward_action sy p f =
     (let f1 = f\<lparr>f_un := Un_forw (Some p) None\<rparr>
      in case s_getaddrinfo sy p of
           Gai_temporary \<Rightarrow> f1\<lparr>f_type := F_FORW_UNKN, f_prevcount := INET_RETRY_MAX, f_time := s_time sy\<rparr>
         | Gai_error \<Rightarrow> f1\<lparr>f_type := F_UNUSED, f_time := s_time sy\<rparr>
         | Gai_found a \<Rightarrow> f1\<lparr>f_type := F_FORW, f_un := Un_forw (Some p) (Some a)\<rparr>)"

definition action_part :: "sys \<Rightarrow> string \<Rightarrow> filed \<Rightarrow> string list \<times> filed" where
  "action_part sy p f =
     (case p of
        [] \<Rightarrow> ([''empty action field''], f\<lparr>f_type := F_UNUSED\<rparr>)
      | c # s \<Rightarrow>
          if c = CHR ''@'' then ([], forward_action sy s f)
          else if c = CHR ''|'' then open_action sy F_PIPE p s f
          else if c = CHR ''/'' then open_action sy F_FILE p p f
          else if c = CHR ''*'' then ([], f\<lparr>f_type := F_WALL\<rparr>)
          else ([], f\<lparr>f_un := Un_user (Suc (length (filter (\<lambda>c. c = CHR '','') p))) (user_names p), f_type := F_USERS\<rparr>))"

text \<open>The entry for a line: the errors to be logged, the facilities seen, the entry.\<close>

definition cfline :: "sys \<Rightarrow> (nat \<Rightarrow> byte) \<Rightarrow> string \<Rightarrow> u32 \<Rightarrow> string list \<times> u32 \<times> filed" where
  "cfline sy beyond line seen =
     (case selectors line seen (filed_zero beyond) of
        (Inl e, seen1, f) \<Rightarrow> ([e], seen1, f)
      | (Inr p, seen1, f) \<Rightarrow>
          (let p1 = dropWhile (\<lambda>c. c = TAB \<or> c = CHR '' '') p;
               sync = (p1 \<noteq> [] \<and> hd p1 = CHR ''-'');
               f1 = (if sync then f\<lparr>f_omit_sync := True\<rparr> else f)
           in case action_part sy (if sync then tl p1 else p1) f1 of (es, f2) \<Rightarrow> (es, seen1, f2)))"

section \<open>The lines of the configuration file\<close>

abbreviation (input) LINE_MAX :: nat where "LINE_MAX \<equiv> 2048"

definition char_space :: "char \<Rightarrow> bool" where
  "char_space c \<longleftrightarrow> c = CHR '' '' \<or> 9 \<le> (of_char c :: nat) \<and> (of_char c :: nat) \<le> 13"

text \<open>\<open>fgets\<close> into \<open>n\<close> bytes: what is read and what is left.\<close>

definition fgets :: "nat \<Rightarrow> string \<Rightarrow> string \<times> string" where
  "fgets n s =
     (let w = takeWhile (\<lambda>c. c \<noteq> LF) s;
          k = min (n - 1) (if length w < length s then Suc (length w) else length w)
      in (take k s, drop k s))"

definition strip_end :: "string \<Rightarrow> string" where
  "strip_end s = rev (dropWhile char_space (rev s))"

text \<open>The loop of \<open>init\<close>.  \<open>pre\<close> is the part of the buffer before \<open>cline\<close>, \<open>cont\<close> whether a continuation is
  read; the result are the lines given to \<open>cfline\<close>.  A piece without a newline makes the buffer larger, and its
  last character is overwritten by what follows.  (The buffer always has room for a character; the test for an empty
  piece, which \<open>fgets\<close> never gives before the end of the file, makes the recursion end.)\<close>

function init_lines :: "string \<Rightarrow> nat \<Rightarrow> bool \<Rightarrow> string \<Rightarrow> string list" where
  "init_lines pre line_max cont s =
     (case fgets (line_max - length pre) s of
        (piece, rest) \<Rightarrow>
          if piece = [] then []
          else let piece1 = (if cont then dropWhile (\<lambda>c. c = CHR '' '' \<or> c = TAB) piece else piece)
               in if LF \<notin> set piece1 then init_lines (butlast (pre @ piece1)) (2 * line_max) False rest
                  else let p = dropWhile char_space (pre @ piece1)
                       in if p = [] \<or> hd p = CHR ''#'' then init_lines [] line_max False rest
                          else let l = strip_end p
                               in if last l = CHR 0x5C then init_lines (butlast l) line_max True rest
                                  else l # init_lines [] line_max False rest)"
  by pat_completeness auto

termination
  by (relation "measure (\<lambda>(pre, line_max, cont, s). length s)") (auto simp: fgets_def Let_def split: if_splits)

declare init_lines.simps [simp del]

definition default_lines :: "string \<Rightarrow> string list" where
  "default_lines console = [''*.ERR'' @ [TAB] @ console, ''*.PANIC'' @ [TAB] @ ''*'']"

fun cflines :: "sys \<Rightarrow> (nat \<Rightarrow> byte) \<Rightarrow> string list \<Rightarrow> u32 \<Rightarrow> string list \<times> filed list" where
  "cflines sy beyond [] seen = ([], [])"
| "cflines sy beyond (l # ls) seen =
     (case cfline sy beyond l seen of
        (es, seen1, f) \<Rightarrow> case cflines sy beyond ls seen1 of (es2, fs) \<Rightarrow> (es @ es2, f # fs))"

text \<open>The entries after \<open>init\<close>, from the contents of the file if it can be opened, with the errors.\<close>

definition init_files :: "sys \<Rightarrow> (nat \<Rightarrow> byte) \<Rightarrow> string option \<Rightarrow> string list \<times> filed list" where
  "init_files sy beyond conf =
     cflines sy beyond (case conf of None \<Rightarrow> default_lines (s_ctty sy) | Some s \<Rightarrow> init_lines [] LINE_MAX False s) 0"

end
