(* ===== verification/Syslogd_Select.thy ===== *)
theory Syslogd_Select
  imports Syslogd_Config
begin

text \<open>
  What the selectors of a line of \<open>syslog.conf\<close> mean: a set of pairs of a facility and a level, built from left to
  right; and that \<open>cfline\<close> sets the priority masks of the entry accordingly.  The second part is about which
  lines of the file reach \<open>cfline\<close>.
\<close>

section \<open>Meaning\<close>

datatype fac = Fac_all | Fac_rest | Fac_name string

record selector =
  facs :: "fac list"
  neg :: bool
  excl :: bool
  pri :: string

fun fac_text :: "fac \<Rightarrow> string" where
  "fac_text Fac_all = ''*''"
| "fac_text Fac_rest = ''**''"
| "fac_text (Fac_name n) = n"

fun comma_text :: "string list \<Rightarrow> string" where
  "comma_text [] = []"
| "comma_text [x] = x"
| "comma_text (x # xs) = x @ '','' @ comma_text xs"

definition pri_text :: "selector \<Rightarrow> string" where
  "pri_text s = (if neg s then ''!'' else []) @ (if excl s then ''='' else []) @ pri s"

definition selector_text :: "selector \<Rightarrow> string" where
  "selector_text s = comma_text (map fac_text (facs s)) @ ''.'' @ pri_text s"

fun selectors_text :: "selector list \<Rightarrow> string" where
  "selectors_text [] = []"
| "selectors_text [s] = selector_text s"
| "selectors_text (s # ss) = selector_text s @ '';'' @ selectors_text ss"

text \<open>The levels a selector adds and those it removes.\<close>

definition pri_levels :: "selector \<Rightarrow> nat set \<times> nat set" where
  "pri_levels s =
     (let v = decode (pri s) prioritynames;
          base = (if pri s = ''*'' then ({..7}, {}) else if v = INTERNAL_NOPRI then ({}, {..7})
                  else (if excl s then {nat v} else {..nat v}, {}))
      in if neg s then (snd base, fst base) else base)"

fun fac_chosen :: "nat set \<Rightarrow> fac \<Rightarrow> nat set" where
  "fac_chosen seen Fac_all = {..24}"
| "fac_chosen seen Fac_rest = {..24} - seen"
| "fac_chosen seen (Fac_name n) = {LOG_FAC (decode n facilitynames)}"

fun fac_seen :: "nat set \<Rightarrow> fac \<Rightarrow> nat set" where
  "fac_seen seen (Fac_name n) = insert (LOG_FAC (decode n facilitynames)) seen"
| "fac_seen seen x = seen"

fun facs_meaning :: "nat set \<times> nat set \<Rightarrow> fac list \<Rightarrow> nat set \<times> (nat \<times> nat) set \<Rightarrow> nat set \<times> (nat \<times> nat) set" where
  "facs_meaning lv [] st = st"
| "facs_meaning lv (x # xs) (seen, a) =
     facs_meaning lv xs (fac_seen seen x,
       (a - fac_chosen (fac_seen seen x) x \<times> snd lv) \<union> fac_chosen (fac_seen seen x) x \<times> fst lv)"

fun meaning :: "selector list \<Rightarrow> nat set \<times> (nat \<times> nat) set \<Rightarrow> nat set \<times> (nat \<times> nat) set" where
  "meaning [] st = st"
| "meaning (s # ss) st = meaning ss (facs_meaning (pri_levels s) (facs s) st)"

text \<open>Names that are known, and free of the characters that end a name.\<close>

fun good_fac :: "fac \<Rightarrow> bool" where
  "good_fac (Fac_name n) \<longleftrightarrow> n \<noteq> [] \<and> hd n \<noteq> CHR ''*'' \<and> (\<forall>c \<in> set n. \<not> name_stop c)
     \<and> 0 \<le> decode n facilitynames \<and> LOG_FAC (decode n facilitynames) \<le> 24"
| "good_fac x \<longleftrightarrow> True"

definition good_selector :: "selector \<Rightarrow> bool" where
  "good_selector s \<longleftrightarrow> facs s \<noteq> [] \<and> (\<forall>x \<in> set (facs s). good_fac x)
     \<and> pri s \<noteq> [] \<and> hd (pri s) \<notin> {CHR ''!'', CHR ''=''} \<and> (\<forall>c \<in> set (pri s). \<not> pri_stop c)
     \<and> (pri s = ''*'' \<or> hd (pri s) \<noteq> CHR ''*''
          \<and> (decode (pri s) prioritynames = INTERNAL_NOPRI
             \<or> 0 \<le> decode (pri s) prioritynames \<and> decode (pri s) prioritynames \<le> 7))"

section \<open>Masks\<close>

definition accepted :: "filed \<Rightarrow> (nat \<times> nat) set" where
  "accepted f = {(i, l). i \<le> 24 \<and> l \<le> 7 \<and> bit (f_pmask f i) l}"

definition mask_levels :: "u32 \<Rightarrow> nat set" where
  "mask_levels w = {l. l \<le> 7 \<and> bit w l}"

definition seen_set :: "u32 \<Rightarrow> nat set" where
  "seen_set w = {i. i \<le> 24 \<and> bit w i}"

lemma bit_shl1: "0 \<le> n \<Longrightarrow> n < 32 \<Longrightarrow> bit (shl1 n) k \<longleftrightarrow> k = nat n"
  by (auto simp: shl1_def bit_push_bit_iff bit_exp_iff bit_1_iff)

lemma mask_levels_MASK: "0 \<le> v \<Longrightarrow> v \<le> 7 \<Longrightarrow> mask_levels (LOG_MASK v) = {nat v}"
  by (auto simp: mask_levels_def LOG_MASK_def bit_shl1)

lemma LOG_UPTO_mask: "0 \<le> v \<Longrightarrow> v \<le> 7 \<Longrightarrow> LOG_UPTO v = mask (Suc (nat v))"
  by (simp add: LOG_UPTO_def shl1_def mask_eq_exp_minus_1 nat_add_distrib push_bit_eq_mult)

lemma mask_levels_UPTO: "0 \<le> v \<Longrightarrow> v \<le> 7 \<Longrightarrow> mask_levels (LOG_UPTO v) = {..nat v}"
  by (auto simp: mask_levels_def LOG_UPTO_mask bit_mask_iff)

lemma mask_levels_const [simp]: "mask_levels 0 = {}" "mask_levels 255 = {..7}"
proof -
  show "mask_levels 0 = {}" by (simp add: mask_levels_def)
  have "(255 :: u32) = mask 8" by (simp add: mask_eq_exp_minus_1)
  moreover have "mask_levels (mask 8) = {..7}" unfolding mask_levels_def bit_mask_iff by auto
  ultimately show "mask_levels 255 = {..7}" by (simp only:)
qed

lemma accepted_set_mask:
  "i \<le> 24 \<Longrightarrow> accepted (set_mask m i f)
    = (accepted f - {i} \<times> mask_levels (snd m)) \<union> {i} \<times> mask_levels (fst m)"
  by (auto simp: accepted_def set_mask_def mask_levels_def bit_or_iff bit_and_iff bit_not_iff bit_unsigned_iff
      split: if_splits)

lemma pri_flags_text:
  "pri s \<noteq> [] \<Longrightarrow> hd (pri s) \<notin> {CHR ''!'', CHR ''=''}
    \<Longrightarrow> pri_flags False False (pri_text s) = (neg s, excl s, pri s)"
  by (cases "pri s") (auto simp: pri_text_def)

lemma pri_masks_levels:
  assumes "good_selector s"
  obtains m where "pri_masks (pri_text s) = Inr m" "pri_levels s = (mask_levels (fst m), mask_levels (snd m))"
proof -
  let ?v = "decode (pri s) prioritynames"
  have f: "pri_flags False False (pri_text s) = (neg s, excl s, pri s)" "pri s \<noteq> []"
    using assms pri_flags_text [of s] by (auto simp: good_selector_def)
  define m0 :: "u32 \<times> u32" where "m0 = (if pri s = ''*'' then (LOG_UPTO 7, 0) else if ?v = INTERNAL_NOPRI then (0, 255)
    else (if excl s then LOG_MASK ?v else LOG_UPTO ?v, 0))"
  have "pri_masks (pri_text s) = Inr (if neg s then (snd m0, fst m0) else m0)"
    using assms f by (auto simp: pri_masks_def good_selector_def m0_def Let_def)
  moreover have "pri_levels s = (let m = (if neg s then (snd m0, fst m0) else m0)
      in (mask_levels (fst m), mask_levels (snd m)))"
    using assms by (auto simp: pri_levels_def m0_def good_selector_def mask_levels_MASK mask_levels_UPTO Let_def)
  ultimately show thesis using that by (simp add: Let_def)
qed

lemma accepted_fold:
  assumes "\<forall>i \<in> set is. i \<le> 24"
  shows "accepted (fold (\<lambda>i f. if P i then f else set_mask m i f) is f)
    = (accepted f - {i \<in> set is. \<not> P i} \<times> mask_levels (snd m)) \<union> {i \<in> set is. \<not> P i} \<times> mask_levels (fst m)"
  using assms
proof (induction "is" arbitrary: f)
  case (Cons i xs)
  then show ?case by (cases "P i") (auto simp: accepted_set_mask)
qed simp

text \<open>One facility.\<close>

lemma set_facility_meaning:
  assumes "good_fac x"
  obtains w f1 where "set_facility m (fac_text x) seen f = (None, w, f1)" "seen_set w = fac_seen (seen_set seen) x"
    "accepted f1 = (accepted f - fac_chosen (seen_set w) x \<times> mask_levels (snd m))
       \<union> fac_chosen (seen_set w) x \<times> mask_levels (fst m)"
proof (cases x)
  case Fac_all
  have "{i \<in> set [0..<25]. \<not> False} = {..24::nat}" by auto
  with Fac_all show thesis
    using that accepted_fold [of "[0..<25]" "\<lambda>i. False" m f] by (simp add: set_facility_def)
next
  case Fac_rest
  have b: "shl1 (int i) AND seen \<noteq> 0 \<longleftrightarrow> bit seen i" if "i \<le> 24" for i
  proof -
    have "shl1 (int i) = push_bit i 1" using that by (simp add: shl1_def)
    then show ?thesis by (simp add: bit_iff_and_push_bit_not_eq_0 and.commute)
  qed
  have "{i \<in> set [0..<25]. \<not> (shl1 (int i) AND seen \<noteq> 0)} = {..24} - seen_set seen"
    using b by (auto simp: seen_set_def)
  with Fac_rest show thesis
    using that accepted_fold [of "[0..<25]" "\<lambda>i. shl1 (int i) AND seen \<noteq> 0" m f] by (simp add: set_facility_def)
next
  case (Fac_name n)
  let ?i = "LOG_FAC (decode n facilitynames)"
  have g: "n \<noteq> []" "hd n \<noteq> CHR ''*''" "0 \<le> decode n facilitynames" "?i \<le> 24"
    using assms Fac_name by auto
  have "seen_set (seen OR shl1 (int ?i)) = insert ?i (seen_set seen)"
    using g(4) by (auto simp: seen_set_def bit_or_iff bit_shl1)
  with Fac_name g show thesis
    using that [of "seen OR shl1 (int ?i)" "set_mask m ?i f"] accepted_set_mask [OF g(4), of m f]
    by (simp add: set_facility_def Let_def)
qed

section \<open>Texts\<close>

lemma fac_text_clean: "good_fac x \<Longrightarrow> fac_text x \<noteq> [] \<and> (\<forall>c \<in> set (fac_text x). \<not> name_stop c)"
  by (cases x) (auto simp: name_stop_def)

lemma name_stop_cases: "\<not> name_stop c \<Longrightarrow> \<not> fac_stop c \<and> c \<noteq> CHR '','' \<and> c \<noteq> CHR '';'' \<and> c \<noteq> CHR '' '' \<and> c \<noteq> TAB \<and> c \<noteq> CHR ''.''"
  by (auto simp: name_stop_def fac_stop_def)

lemma takeWhile_stop: "\<forall>c \<in> set t. \<not> P c \<Longrightarrow> P d \<Longrightarrow> takeWhile (\<lambda>c. \<not> P c) (t @ d # r) = t \<and> dropWhile (\<lambda>c. \<not> P c) (t @ d # r) = d # r"
  by (induction t) auto

lemma facs_text_hd:
  assumes "xs \<noteq> []" "\<forall>x \<in> set xs. good_fac x"
  obtains c t where "comma_text (map fac_text xs) = c # t" "\<not> name_stop c"
proof -
  obtain x ys where xs: "xs = x # ys" using assms(1) by (cases xs) auto
  then obtain c t where x: "fac_text x = c # t" "\<not> name_stop c"
    using fac_text_clean [of x] assms(2) by (cases "fac_text x") auto
  then show thesis using that xs by (cases ys) auto
qed

lemma set_facilities_step:
  assumes "good_fac x" "set_facility m (fac_text x) seen f = (None, w, f1)" "name_stop d"
  shows "set_facilities m (fac_text x @ d # r) seen f
    = set_facilities m (dropWhile (\<lambda>c. c = CHR '','' \<or> c = CHR '' '') (d # r)) w f1"
proof -
  have c: "fac_text x \<noteq> []" "\<forall>c \<in> set (fac_text x). \<not> name_stop c" using fac_text_clean [OF assms(1)] by auto
  then have "\<not> fac_stop (hd (fac_text x @ d # r))" using name_stop_cases by (cases "fac_text x") auto
  with c takeWhile_stop [OF c(2) assms(3), of r] assms(2) show ?thesis
    by (subst set_facilities.simps) simp
qed

lemma set_facilities_meaning:
  assumes "xs \<noteq> []" "\<forall>x \<in> set xs. good_fac x"
  shows "\<exists>w f1. set_facilities m (comma_text (map fac_text xs) @ CHR ''.'' # r) seen f = (None, w, f1)
    \<and> (seen_set w, accepted f1)
      = facs_meaning (mask_levels (fst m), mask_levels (snd m)) xs (seen_set seen, accepted f)"
  using assms
proof (induction xs arbitrary: seen f)
  case (Cons x xs)
  obtain w f1 where s: "set_facility m (fac_text x) seen f = (None, w, f1)" "seen_set w = fac_seen (seen_set seen) x"
    "accepted f1 = (accepted f - fac_chosen (seen_set w) x \<times> mask_levels (snd m))
       \<union> fac_chosen (seen_set w) x \<times> mask_levels (fst m)"
    using set_facility_meaning [of x m seen f] Cons.prems by auto
  have x: "good_fac x" using Cons.prems by simp
  show ?case
  proof (cases "xs = []")
    case True
    have "set_facilities m (fac_text x @ CHR ''.'' # r) seen f = set_facilities m (CHR ''.'' # r) w f1"
      using set_facilities_step [OF x s(1), of "CHR ''.''" r] by (simp add: name_stop_def)
    also have "\<dots> = (None, w, f1)" by (subst set_facilities.simps) (simp add: fac_stop_def)
    finally show ?thesis using True s by simp
  next
    case False
    with Cons.prems obtain c t where t: "comma_text (map fac_text xs) = c # t" "\<not> name_stop c"
      using facs_text_hd [of xs] by auto
    have "comma_text (map fac_text (x # xs)) = fac_text x @ CHR '','' # comma_text (map fac_text xs)"
      using False by (cases xs) auto
    then have "set_facilities m (comma_text (map fac_text (x # xs)) @ CHR ''.'' # r) seen f
        = set_facilities m (comma_text (map fac_text xs) @ CHR ''.'' # r) w f1"
      using set_facilities_step [OF x s(1), of "CHR '',''" "comma_text (map fac_text xs) @ CHR ''.'' # r"]
        t name_stop_cases [OF t(2)] by (simp add: name_stop_def)
    with Cons.IH [of w f1] False Cons.prems s show ?thesis by auto
  qed
qed simp

lemma fac_text_plain: "good_fac x \<Longrightarrow> \<forall>c \<in> set (fac_text x). c \<noteq> TAB \<and> c \<noteq> CHR ''.''"
  using fac_text_clean [of x] name_stop_cases by blast

lemma comma_text_clean:
  "\<forall>x \<in> set xs. good_fac x \<Longrightarrow> \<forall>c \<in> set (comma_text (map fac_text xs)). c \<noteq> TAB \<and> c \<noteq> CHR ''.''"
proof (induction xs rule: induct_list012)
  case (3 x y zs)
  have "\<forall>c \<in> set (fac_text x). c \<noteq> TAB \<and> c \<noteq> CHR ''.''" using 3 fac_text_plain [of x] by simp
  moreover have "\<forall>c \<in> set (comma_text (map fac_text (y # zs))). c \<noteq> TAB \<and> c \<noteq> CHR ''.''" using 3 by simp
  ultimately show ?case by auto
qed (simp_all add: fac_text_plain)

lemma after_dot_text: "\<forall>c \<in> set t. c \<noteq> TAB \<and> c \<noteq> CHR ''.'' \<Longrightarrow> after_dot (t @ CHR ''.'' # r) = r"
  by (induction t) auto

lemma selectors_step:
  assumes s: "good_selector s" and d: "pri_stop d"
  shows "\<exists>w f1. selectors (selector_text s @ d # r) seen f
      = selectors (dropWhile (\<lambda>c. c = CHR '','' \<or> c = CHR '';'') (d # r)) w f1
    \<and> (seen_set w, accepted f1) = facs_meaning (pri_levels s) (facs s) (seen_set seen, accepted f)"
proof -
  let ?p = "selector_text s @ d # r"
  have g: "facs s \<noteq> []" "\<forall>x \<in> set (facs s). good_fac x" using s by (auto simp: good_selector_def)
  from facs_text_hd [OF g] obtain c t where t: "comma_text (map fac_text (facs s)) = c # t" "\<not> name_stop c" .
  have p: "?p = comma_text (map fac_text (facs s)) @ CHR ''.'' # (pri_text s @ d # r)" by (simp add: selector_text_def)
  have h: "?p \<noteq> []" "hd ?p \<noteq> TAB" "hd ?p \<noteq> CHR '' ''" using t name_stop_cases [OF t(2)] by (simp_all add: p)
  have a: "after_dot ?p = pri_text s @ d # r" unfolding p by (rule after_dot_text [OF comma_text_clean [OF g(2)]])
  have "\<forall>c \<in> set (pri_text s). \<not> pri_stop c" using s by (auto simp: pri_text_def good_selector_def pri_stop_def)
  note w = takeWhile_stop [OF this d, of r]
  from pri_masks_levels [OF s] obtain m where m: "pri_masks (pri_text s) = Inr m"
    "pri_levels s = (mask_levels (fst m), mask_levels (snd m))" .
  from set_facilities_meaning [OF g, of m "pri_text s @ d # r" seen f] obtain v f1 where
    v: "set_facilities m ?p seen f = (None, v, f1)"
    "(seen_set v, accepted f1) = facs_meaning (pri_levels s) (facs s) (seen_set seen, accepted f)"
    by (auto simp: p m(2))
  show ?thesis
    using h v m(1) a w by (subst selectors.simps) (auto simp: Let_def)
qed

lemma selectors_text_hd:
  assumes "ss \<noteq> []" "\<forall>s \<in> set ss. good_selector s"
  obtains c t where "selectors_text ss = c # t" "\<not> name_stop c"
proof -
  obtain s ts where ss: "ss = s # ts" using assms(1) by (cases ss) auto
  with assms(2) have g: "facs s \<noteq> []" "\<forall>x \<in> set (facs s). good_fac x" by (auto simp: good_selector_def)
  from facs_text_hd [OF g] obtain c t where "comma_text (map fac_text (facs s)) = c # t" "\<not> name_stop c" .
  then show thesis using that ss by (cases ts) (auto simp: selector_text_def)
qed

lemma selectors_meaning:
  assumes "\<forall>s \<in> set ss. good_selector s"
  shows "\<exists>w f1. selectors (selectors_text ss @ TAB # act) seen f = (Inr (TAB # act), w, f1)
    \<and> (seen_set w, accepted f1) = meaning ss (seen_set seen, accepted f)"
  using assms
proof (induction ss arbitrary: seen f)
  case Nil
  then show ?case by (subst selectors.simps) simp
next
  case (Cons s ss)
  show ?case
  proof (cases "ss = []")
    case True
    with selectors_step [of s TAB act seen f] Cons.prems obtain w f1 where
      "selectors (selector_text s @ TAB # act) seen f = selectors (TAB # act) w f1"
      "(seen_set w, accepted f1) = facs_meaning (pri_levels s) (facs s) (seen_set seen, accepted f)"
      by (auto simp: pri_stop_def)
    then show ?thesis using True by (simp add: selectors.simps [of "TAB # act"])
  next
    case False
    with selectors_text_hd [of ss] Cons.prems obtain c t where t: "selectors_text ss = c # t" "\<not> name_stop c"
      by (metis list.set_intros(2))
    have e: "selectors_text (s # ss) = selector_text s @ CHR '';'' # selectors_text ss" using False by (cases ss) auto
    from selectors_step [of s "CHR '';''" "selectors_text ss @ TAB # act" seen f] Cons.prems obtain w f1 where
      "selectors (selectors_text (s # ss) @ TAB # act) seen f = selectors (selectors_text ss @ TAB # act) w f1"
      "(seen_set w, accepted f1) = facs_meaning (pri_levels s) (facs s) (seen_set seen, accepted f)"
      using t name_stop_cases [OF t(2)] by (auto simp: e pri_stop_def)
    with Cons.IH [of w f1] Cons.prems show ?thesis by simp
  qed
qed

text \<open>The action keeps the masks.\<close>

lemma action_masks: "f_pmask (snd (action_part sy p f)) = f_pmask f"
  by (auto simp: action_part_def open_action_def forward_action_def Let_def split: list.splits gai.splits)

lemma cfline_masks:
  assumes "selectors line seen (filed_zero beyond) = (Inr p, v, f1)"
  shows "fst (snd (cfline sy beyond line seen)) = v \<and> f_pmask (snd (snd (cfline sy beyond line seen))) = f_pmask f1"
  using assms by (simp add: cfline_def Let_def split_beta action_masks)

lemma accepted_zero: "accepted (filed_zero b) = {}"
  by (auto simp: accepted_def filed_zero_def)

lemma cfline_meaning:
  assumes "\<forall>s \<in> set ss. good_selector s" "cfline sy beyond (selectors_text ss @ TAB # act) seen = (es, w, f)"
  shows "(seen_set w, accepted f) = meaning ss (seen_set seen, {})"
proof -
  obtain v f1 where v: "selectors (selectors_text ss @ TAB # act) seen (filed_zero beyond) = (Inr (TAB # act), v, f1)"
      "(seen_set v, accepted f1) = meaning ss (seen_set seen, {})"
    using selectors_meaning [OF assms(1), of act seen "filed_zero beyond"] accepted_zero by metis
  have "w = v \<and> f_pmask f = f_pmask f1" using cfline_masks [OF v(1), of sy] assms(2) by simp
  then show ?thesis using v(2) by (simp add: accepted_def)
qed

section \<open>The lines that are read\<close>

lemma fgets_line:
  assumes "LF \<notin> set l" "length l + 1 < n"
  shows "fgets n (l @ LF # s) = (l @ [LF], s)"
proof -
  have t: "takeWhile (\<lambda>c. c \<noteq> LF) (l @ LF # s) = l" using assms(1) by (subst takeWhile_append2) auto
  have "min (n - 1) (Suc (length l)) = Suc (length l)" using assms(2) by simp
  with t show ?thesis by (simp add: fgets_def Let_def)
qed

definition blank_line :: "string \<Rightarrow> bool" where
  "blank_line l \<longleftrightarrow> (let p = dropWhile char_space l in p = [] \<or> hd p = CHR ''#'')"

definition trim :: "string \<Rightarrow> string" where
  "trim l = strip_end (dropWhile char_space l)"

text \<open>A line that is neither too long nor continued on the next one.\<close>

definition plain_line :: "string \<Rightarrow> bool" where
  "plain_line l \<longleftrightarrow> LF \<notin> set l \<and> length l + 1 < LINE_MAX \<and> last (trim l) \<noteq> CHR 0x5C"

lemma LF_space: "char_space LF" by (simp add: char_space_def)

lemma strip_LF: "strip_end (p @ [LF]) = strip_end p"
  by (simp add: strip_end_def LF_space)

lemma dropWhile_LF:
  "dropWhile char_space (l @ [LF]) = (if dropWhile char_space l = [] then [] else dropWhile char_space l @ [LF])"
  by (induction l) (auto simp: LF_space)

lemma init_line:
  assumes "plain_line l"
  shows "init_lines [] LINE_MAX False (l @ LF # s)
    = (if blank_line l then [] else [trim l]) @ init_lines [] LINE_MAX False s"
proof -
  have f: "fgets LINE_MAX (l @ LF # s) = (l @ [LF], s)" using assms by (auto simp: plain_line_def intro: fgets_line)
  show ?thesis
    using assms f
    by (subst init_lines.simps)
      (auto simp: Let_def dropWhile_LF blank_line_def trim_def strip_LF plain_line_def simp del: dropWhile_eq_Nil_conv)
qed

lemma init_rest: "LF \<notin> set s \<Longrightarrow> init_lines pre n c s = []"
proof (induction pre n c s rule: init_lines.induct)
  case (1 pre line_max cont s)
  obtain piece rest where f: "fgets (line_max - length pre) s = (piece, rest)" by fastforce
  then have "LF \<notin> set piece" "LF \<notin> set rest"
    using 1(5) by (auto simp: fgets_def Let_def dest: in_set_takeD in_set_dropD)
  moreover have "LF \<notin> set (if cont then dropWhile (\<lambda>c. c = CHR '' '' \<or> c = TAB) piece else piece)"
    using calculation(1) by (auto dest: set_dropWhileD)
  ultimately show ?case using 1(1) [OF f [symmetric] _ refl] f by (subst init_lines.simps) (auto simp: Let_def)
qed

lemma init_lines_plain:
  assumes "\<forall>l \<in> set ls. plain_line l" "LF \<notin> set s"
  shows "init_lines [] LINE_MAX False (concat (map (\<lambda>l. l @ [LF]) ls) @ s) = map trim (filter (\<lambda>l. \<not> blank_line l) ls)"
  using assms(1)
proof (induction ls)
  case Nil
  then show ?case using init_rest [OF assms(2)] by simp
qed (simp add: init_line)

text \<open>(C22) The entry that \<open>cfline\<close> makes from the text of any selectors with known names accepts a message of a
  facility and a level exactly when the selectors choose it: from left to right a selector adds the levels up to
  its priority, the priority alone with \<open>=\<close>, or all with \<open>*\<close>, for each of its facilities in turn; \<open>none\<close> removes all of them,
  and \<open>!\<close> removes what the selector would have added.  \<open>**\<close> stands for the facilities not named
  before, in this or in an earlier line.  The facilities of \<open>*\<close> are all 25, also the one of the marks, which the manual
  says an asterisk does not enable.\<close>

theorem cfline_selects:
  assumes "\<forall>s \<in> set ss. good_selector s" "cfline sy beyond (selectors_text ss @ TAB # act) seen = (es, w, f)"
    and "fac \<le> 24" "lev \<le> 7"
  shows "(bit (f_pmask f fac) lev \<longleftrightarrow> (fac, lev) \<in> snd (meaning ss (seen_set seen, {})))
    \<and> seen_set w = fst (meaning ss (seen_set seen, {}))"
proof -
  have "accepted f = snd (meaning ss (seen_set seen, {}))" "seen_set w = fst (meaning ss (seen_set seen, {}))"
    using cfline_meaning [OF assms(1,2)] by (metis snd_conv fst_conv)+
  then show ?thesis using assms(3,4) by (auto simp: accepted_def)
qed

text \<open>The line \<open>mail.info;*.=err\<close>.\<close>

theorem cfline_selects_witness:
  "\<exists>es w f. cfline \<lparr>s_getaddrinfo = \<lambda>_. Gai_error, s_open = \<lambda>_. 3, s_isatty = \<lambda>_. False, s_time = 0, s_ctty = ''/dev/console''\<rparr>
      (\<lambda>_. 0) (''mail.info;*.=err'' @ TAB # ''/var/log/x'') 0 = (es, w, f)
    \<and> bit (f_pmask f 2) 6 \<and> \<not> bit (f_pmask f 3) 6 \<and> bit (f_pmask f 3) 3 \<and> \<not> bit (f_pmask f 3) 2"
proof -
  let ?sy = "\<lparr>s_getaddrinfo = \<lambda>_. Gai_error, s_open = \<lambda>_. 3, s_isatty = \<lambda>_. False, s_time = 0, s_ctty = ''/dev/console''\<rparr>"
  let ?ss = "[\<lparr>facs = [Fac_name ''mail''], neg = False, excl = False, pri = ''info''\<rparr>,
    \<lparr>facs = [Fac_all], neg = False, excl = True, pri = ''err''\<rparr>]"
  have d: "decode ''mail'' facilitynames = 16" "decode ''info'' prioritynames = 6" "decode ''err'' prioritynames = 3"
    "LOG_FAC 16 = 2"
    by (simp_all add: decode_def facilitynames_def prioritynames_def strcaseeq_def char_lower_def char_digit_def LOG_FAC_def)
  have g: "\<forall>s \<in> set ?ss. good_selector s"
    by (simp add: good_selector_def d name_stop_def pri_stop_def)
  have t: "selectors_text ?ss @ TAB # ''/var/log/x'' = ''mail.info;*.=err'' @ TAB # ''/var/log/x''"
    by (simp add: selector_text_def pri_text_def)
  obtain es w f where c: "cfline ?sy (\<lambda>_. 0) (selectors_text ?ss @ TAB # ''/var/log/x'') 0 = (es, w, f)"
    by (metis prod_cases3)
  have m: "snd (meaning ?ss (seen_set 0, {})) = {2} \<times> {..6} \<union> {..24} \<times> {3}"
    by (auto simp: pri_levels_def d Let_def)
  from cfline_selects [OF g c, of 2 6] cfline_selects [OF g c, of 3 6] cfline_selects [OF g c, of 3 3]
    cfline_selects [OF g c, of 3 2] have "bit (f_pmask f 2) 6 \<and> \<not> bit (f_pmask f 3) 6 \<and> bit (f_pmask f 3) 3 \<and> \<not> bit (f_pmask f 3) 2"
    unfolding m by auto
  with c show ?thesis unfolding t by blast
qed

text \<open>The manual says that the marks, which \<open>logmsg\<close> looks up as facility \<open>LOG_NFACILITIES\<close> at the level \<open>info\<close> (6), are not enabled by an
  asterisk.  They are: the entry of a line \<open>*.info\<close> takes them.\<close>

theorem asterisk_selects_mark:
  assumes "cfline sy beyond (''*.info'' @ TAB # act) seen = (es, w, f)"
  shows "bit (f_pmask f LOG_NFACILITIES) 6"
proof -
  let ?s = "\<lparr>facs = [Fac_all], neg = False, excl = False, pri = ''info''\<rparr>"
  have d: "decode ''info'' prioritynames = 6"
    by (simp add: decode_def prioritynames_def strcaseeq_def char_lower_def char_digit_def)
  then have "good_selector ?s" by (simp add: good_selector_def name_stop_def pri_stop_def)
  moreover have "''*.info'' = selectors_text [?s]" by (simp add: selector_text_def pri_text_def)
  ultimately have "accepted f = {..24} \<times> {..6}"
    using cfline_meaning [of "[?s]" sy beyond act seen es w f] assms d by (auto simp: pri_levels_def Let_def)
  then have "(24, 6) \<in> accepted f" by simp
  then show ?thesis by (simp add: accepted_def)
qed

text \<open>The lines of the configuration file that are not too long and not continued reach \<open>cfline\<close> in order, without
  the white space around them, and without comments and empty lines; but what follows the last newline is lost: the
  last line of a file that does not end with a newline has no effect.\<close>

theorem init_reads_lines:
  assumes "\<forall>l \<in> set ls. plain_line l" "LF \<notin> set s"
  shows "init_files sy beyond (Some (concat (map (\<lambda>l. l @ [LF]) ls) @ s))
    = cflines sy beyond (map trim (filter (\<lambda>l. \<not> blank_line l) ls)) 0"
  by (simp only: init_files_def option.case init_lines_plain [OF assms])

theorem init_reads_lines_witness:
  "length (snd (init_files \<lparr>s_getaddrinfo = \<lambda>_. Gai_error, s_open = \<lambda>_. 3, s_isatty = \<lambda>_. False, s_time = 0, s_ctty = []\<rparr>
    (\<lambda>_. 0) (Some (concat (map (\<lambda>l. l @ [LF]) [''# log'', ''*.* /log'']) @ ''mail.* /mail'')))) = 1"
  using init_reads_lines [of "[''# log'', ''*.* /log'']" "''mail.* /mail''"]
  by (simp add: plain_line_def trim_def blank_line_def strip_end_def char_space_def split: prod.splits)

end
