(* ===== verification/Syslogd.thy ===== *)
theory Syslogd
  imports Syslogd_Config
begin

text \<open>
  Messages in \<open>src/syslogd.c\<close>: how a datagram is read (\<open>printline\<close>, \<open>printsys\<close>, \<open>cvthname\<close>), how a message is
  given to the entries of the configuration (\<open>logmsg\<close>, \<open>fprintlog\<close>, \<open>wallmsg\<close>) and what the timer does (\<open>domark\<close>).

  The results of the writes and sends to come are the sequence \<open>io\<close>: 0 for success, otherwise \<open>errno\<close>.  The effects are the values of \<open>log_out\<close> in \<open>outs\<close>, in order.  An error while logging is logged, too
  (\<open>logerror\<close> calls \<open>logmsg\<close>): \<open>fprintlog\<close> has the \<open>logmsg\<close> it calls as an argument, and \<open>logmsg\<close> has
  fuel for the depth of such calls; the loop that opens a terminal again and again has the fuel \<open>s_tries\<close>.  \<open>stuck\<close> is
  set when one of them runs out.  The clock stands still during a call.
\<close>

abbreviation (input) MAXLINE :: nat where "MAXLINE \<equiv> 1024"
abbreviation (input) MAXSVLINE :: nat where "MAXSVLINE \<equiv> 240"
abbreviation (input) DEFUPRI :: int where "DEFUPRI \<equiv> 13"
abbreviation (input) DEFSPRI :: int where "DEFSPRI \<equiv> 2"
abbreviation (input) LOG_KERN :: nat where "LOG_KERN \<equiv> 0"
abbreviation (input) LOG_USER :: int where "LOG_USER \<equiv> 8"
abbreviation (input) LOG_SYSLOG_ERR :: int where "LOG_SYSLOG_ERR \<equiv> 43"
abbreviation (input) LOG_INFO :: int where "LOG_INFO \<equiv> 6"
abbreviation (input) TIMERINTVL :: int where "TIMERINTVL \<equiv> 30"
abbreviation (input) INET_SUSPEND_TIME :: int where "INET_SUSPEND_TIME \<equiv> 180"
abbreviation (input) EAGAIN :: int where "EAGAIN \<equiv> 11"
abbreviation (input) EIO :: int where "EIO \<equiv> 5"
abbreviation (input) EBADF :: int where "EBADF \<equiv> 9"

section \<open>State\<close>

record flags =
  ign_cons :: bool
  sync_file :: bool
  adddate :: bool
  mark :: bool

definition no_flags :: flags where
  "no_flags = \<lparr>ign_cons = False, sync_file = False, adddate = False, mark = False\<rparr>"

text \<open>The last part of an entry of the log: a message or how often the last one was repeated.\<close>

datatype body = Msg string | Repeated int

record entry =
  e_stamp :: string
  e_host :: "string option"
  e_body :: body

datatype log_out =
    Out_write int entry string          \<comment> \<open>descriptor, entry, end of the line\<close>
  | Out_fsync int
  | Out_close int
  | Out_sendto u32 string
  | Out_tty string entry                \<comment> \<open>the terminal of a user\<close>

text \<open>What the system knows besides \<open>sys\<close>: \<open>ctime\<close>, whether a socket for forwarding can be had, the users on
  terminals (line and name) and the result of \<open>ttymsg\<close>.\<close>

record logsys = sys +
  s_ctime :: "int \<Rightarrow> string"
  s_socket :: bool
  s_utmp :: "(string \<times> string) list"
  s_ttymsg :: "string \<Rightarrow> string option"
  s_strerror :: "int \<Rightarrow> string"
  s_tries :: nat

record syslogd =
  Files :: "filed list"
  consfile :: filed
  Initialized :: bool
  now :: int
  MarkInterval :: int
  MarkSeq :: int
  NoHops :: bool
  NoForward :: bool
  force_sync :: bool
  LocalHostName :: string
  reenter :: bool
  io :: "nat \<Rightarrow> int"
  outs :: "log_out list"
  stuck :: bool

type_synonym logger = "int \<Rightarrow> string \<Rightarrow> string \<Rightarrow> flags \<Rightarrow> syslogd \<Rightarrow> syslogd"

definition emit_log :: "log_out \<Rightarrow> syslogd \<Rightarrow> syslogd" where
  "emit_log x s = s\<lparr>outs := outs s @ [x]\<rparr>"

definition next_io :: "syslogd \<Rightarrow> int \<times> syslogd" where
  "next_io s = (io s 0, s\<lparr>io := (\<lambda>i. io s (Suc i))\<rparr>)"

text \<open>The entry an operation works on: one of the list, or that of the console.\<close>

datatype target = Entry nat | Console

definition get_filed :: "target \<Rightarrow> syslogd \<Rightarrow> filed" where
  "get_filed t s = (case t of Entry i \<Rightarrow> Files s ! i | Console \<Rightarrow> consfile s)"

definition upd_filed :: "target \<Rightarrow> (filed \<Rightarrow> filed) \<Rightarrow> syslogd \<Rightarrow> syslogd" where
  "upd_filed t g s =
     (case t of Entry i \<Rightarrow> s\<lparr>Files := (Files s)[i := g (Files s ! i)]\<rparr> | Console \<Rightarrow> s\<lparr>consfile := g (consfile s)\<rparr>)"

section \<open>Reading messages\<close>

definition wrap32 :: "int \<Rightarrow> int" where
  "wrap32 n = sint (word_of_int n :: u32)"

fun pri_digits :: "int \<Rightarrow> string \<Rightarrow> int \<times> string" where
  "pri_digits p (c # s) = (if char_digit c then pri_digits (wrap32 (10 * p + (of_char c - 48))) s else (p, c # s))"
| "pri_digits p [] = (p, [])"

text \<open>The priority in angle brackets at the start of a message, and whether there is one.\<close>

definition parse_pri :: "int \<Rightarrow> string \<Rightarrow> bool \<times> int \<times> string" where
  "parse_pri dflt msg =
     (let (found, pri, p) =
        (if msg \<noteq> [] \<and> hd msg = CHR ''<'' then
           case pri_digits 0 (tl msg) of (n, r) \<Rightarrow> (True, n, if r \<noteq> [] \<and> hd r = CHR ''>'' then tl r else r)
         else (False, dflt, msg))
      in (found, if pri AND NOT 0x3FF \<noteq> 0 then dflt else pri, p))"

text \<open>The loop that copies the message; \<open>n\<close> is the number of characters stored so far.  A character is
  stored as one or two, and the room is only checked for one.\<close>

fun clean_line :: "nat \<Rightarrow> string \<Rightarrow> string" where
  "clean_line n [] = []"
| "clean_line n (c # s) =
     (if MAXLINE \<le> n then []
      else if (of_char c :: nat) < 32 \<or> of_char c = (127 :: nat) then
        (if c = LF then CHR '' '' # clean_line (n + 1) s
         else if c = TAB then TAB # clean_line (n + 1) s
         else if of_char c = (127 :: nat) then c # clean_line (n + 1) s
         else CHR ''^'' # char_of (of_char c + 64 :: nat) # clean_line (n + 2) s)
      else c # clean_line (n + 1) s)"

text \<open>What \<open>printline\<close> logs: the priority and the text.\<close>

definition user_message :: "string \<Rightarrow> int \<times> string" where
  "user_message msg =
     (case parse_pri DEFUPRI msg of
        (found, pri, p) \<Rightarrow> (if LOG_FAC pri = LOG_KERN then LOG_USER OR LOG_PRI pri else pri, clean_line 0 p))"

definition printline :: "logger \<Rightarrow> string \<Rightarrow> string \<Rightarrow> syslogd \<Rightarrow> syslogd" where
  "printline logm hname msg s =
     (case user_message msg of
        (pri, line) \<Rightarrow>
          (let s1 = (if force_sync s then logm pri line hname (no_flags\<lparr>sync_file := True\<rparr>) s else s)
           in logm pri line hname no_flags s1))"

text \<open>The messages of the kernel: lines, each with its priority.  When a line fills the buffer, the character after
  it is lost and the next one starts there.\<close>

definition kern_prefix :: string where "kern_prefix = ''vmunix: ''"

definition kern_line :: "string \<Rightarrow> string" where
  "kern_line p = take (MAXLINE - length kern_prefix) (takeWhile (\<lambda>c. c \<noteq> LF) p)"

lemma pri_digits_length: "length (snd (pri_digits n s)) \<le> length s"
  by (induction n s rule: pri_digits.induct) auto

lemma parse_pri_length: "parse_pri d p = (found, pri, p1) \<Longrightarrow> length p1 \<le> length p"
  using pri_digits_length [of 0 "tl p"]
  by (cases p) (auto simp: parse_pri_def Let_def split: prod.splits if_splits)

lemma printsys_shorter: "p \<noteq> [] \<Longrightarrow> parse_pri d p = (found, pri, p1) \<Longrightarrow> length (drop (Suc k) p1) < length p"
  using parse_pri_length [of d p found pri p1] by (cases p1) auto

function printsys :: "logger \<Rightarrow> string \<Rightarrow> syslogd \<Rightarrow> syslogd" where
  "printsys logm p s =
     (if p = [] then s
      else case parse_pri DEFSPRI p of
        (found, pri, p1) \<Rightarrow>
          printsys logm (drop (Suc (length (kern_line p1))) p1)
            (logm pri (kern_prefix @ kern_line p1) (LocalHostName s)
               \<lparr>ign_cons = \<not> found, sync_file = True, adddate = True, mark = False\<rparr> s))"
  by pat_completeness auto
termination
  by (relation "measure (\<lambda>(logm, p, s). length p)") (auto dest: printsys_shorter [OF _ sym])

declare printsys.simps [simp del]

text \<open>The name of a host, from its address as text and its full name if these are known.  A domain to be
  stripped, or the local one, is cut off, and so is that of a host to be logged by its name.\<close>

definition cvthname :: "string \<Rightarrow> string list \<Rightarrow> string list \<Rightarrow> string option \<Rightarrow> string option \<Rightarrow> string" where
  "cvthname localdomain stripdomains localhosts addrstr addrname =
     (case addrstr of None \<Rightarrow> ''???''
      | Some a \<Rightarrow>
          (case addrname of None \<Rightarrow> a
           | Some h \<Rightarrow>
               (let short = takeWhile (\<lambda>c. c \<noteq> CHR ''.'') h; dom = drop (Suc (length short)) h
                in if CHR ''.'' \<notin> set h then h
                   else if strcaseeq dom localdomain then short
                   else if \<exists>d \<in> set stripdomains. strcaseeq dom d then short
                   else if \<exists>l \<in> set localhosts. strcaseeq h l then short
                   else h)))"

section \<open>Writing\<close>

definition repeatinterval :: "int list" where "repeatinterval = [30, 60]"

definition MAXREPEAT :: nat where "MAXREPEAT = length repeatinterval - 1"

definition REPEATTIME :: "filed \<Rightarrow> int" where
  "REPEATTIME f = f_time f + repeatinterval ! f_repeatcount f"

definition BACKOFF :: "filed \<Rightarrow> filed" where
  "BACKOFF f = f\<lparr>f_repeatcount := min (f_repeatcount f + 1) MAXREPEAT\<rparr>"

definition logerror :: "logsys \<Rightarrow> logger \<Rightarrow> int \<Rightarrow> string \<Rightarrow> syslogd \<Rightarrow> syslogd" where
  "logerror sy logm errno ty s =
     logm LOG_SYSLOG_ERR
       (take 99 (''syslogd: '' @ ty @ (if errno \<noteq> 0 then '': '' @ s_strerror sy errno else [])))
       (LocalHostName s) (no_flags\<lparr>adddate := True\<rparr>) s"

text \<open>The time, the host and the last part.\<close>

definition log_entry :: "filed \<Rightarrow> string option \<Rightarrow> entry" where
  "log_entry f msg =
     \<lparr>e_stamp = f_lasttime f, e_host = f_prevhost f,
      e_body = (case msg of Some m \<Rightarrow> Msg m
                | None \<Rightarrow> if 1 < f_prevcount f then Repeated (f_prevcount f) else Msg (take (f_prevlen f) (f_prevline f)))\<rparr>"

fun dec_digits :: "nat \<Rightarrow> string" where
  "dec_digits n = (if n < 10 then [] else dec_digits (n div 10)) @ [char_of (48 + n mod 10)]"

declare dec_digits.simps [simp del]

definition dec_text :: "int \<Rightarrow> string" where
  "dec_text n = (if n < 0 then ''-'' else []) @ dec_digits (nat \<bar>n\<bar>)"

definition body_text :: "body \<Rightarrow> string" where
  "body_text b = (case b of Msg m \<Rightarrow> m | Repeated n \<Rightarrow> ''last message repeated '' @ dec_text n @ '' times'')"

text \<open>The text that is forwarded is the fifth part of the vector, which is only there when the host is.\<close>

definition forward_text :: "filed \<Rightarrow> entry \<Rightarrow> string" where
  "forward_text f e =
     take MAXLINE (''<'' @ dec_text (f_prevpri f) @ ''>'' @ take 15 (e_stamp e) @ '' ''
       @ (if e_host e = None then ''(null)'' else body_text (e_body e)))"

definition f_forw :: "logsys \<Rightarrow> logger \<Rightarrow> target \<Rightarrow> string \<Rightarrow> entry \<Rightarrow> syslogd \<Rightarrow> syslogd" where
  "f_forw sy logm t from e s =
     (if \<not> strcaseeq from (LocalHostName s) \<and> NoHops s \<or> NoForward s \<or> \<not> s_socket sy then s
      else case f_un (get_filed t s) of
        Un_forw h (Some a) \<Rightarrow>
          (let s1 = upd_filed t (\<lambda>f. f\<lparr>f_time := now s\<rparr>) s;
               s2 = emit_log (Out_sendto a (forward_text (get_filed t s1) e)) s1
           in case next_io s2 of
                (err, s3) \<Rightarrow>
                  if err = 0 then s3
                  else logerror sy logm err ''sendto'' (upd_filed t (\<lambda>f. f\<lparr>f_type := F_FORW_SUSP\<rparr>) s3))
      | _ \<Rightarrow> s)"

text \<open>\<open>writev\<close>, with up to \<open>k\<close> attempts to open a terminal again.\<close>

definition fname :: "filed \<Rightarrow> string" where
  "fname f = (case f_un f of Un_fname (Some n) \<Rightarrow> n | _ \<Rightarrow> [])"

definition give_up :: "logsys \<Rightarrow> logger \<Rightarrow> target \<Rightarrow> int \<Rightarrow> syslogd \<Rightarrow> syslogd" where
  "give_up sy logm t err s =
     (let name = fname (get_filed t s);
          s1 = upd_filed t (\<lambda>f. f\<lparr>f_type := F_UNUSED\<rparr>) s
      in upd_filed t (\<lambda>f. f\<lparr>f_un := Un_fname None\<rparr>) (logerror sy logm err name s1))"

fun write_file :: "nat \<Rightarrow> logsys \<Rightarrow> logger \<Rightarrow> target \<Rightarrow> flags \<Rightarrow> entry \<Rightarrow> syslogd \<Rightarrow> syslogd" where
  "write_file k sy logm t fl e s =
     (let f = get_filed t s; tty = (f_type f = F_TTY \<or> f_type f = F_CONSOLE)
      in case next_io s of
           (err, s1) \<Rightarrow>
             if err = 0 then
               (let s2 = emit_log (Out_write (f_file f) e (if tty then [CHR 0x0D, LF] else [LF])) s1
                in if sync_file fl \<and> \<not> f_omit_sync f then emit_log (Out_fsync (f_file f)) s2 else s2)
             else if f_type f = F_PIPE \<and> err = EAGAIN then s1
             else let s2 = emit_log (Out_close (f_file f)) s1
                  in if (err = EIO \<or> err = EBADF) \<and> tty then
                       (let fd = s_open sy (fname f);
                            s3 = upd_filed t (\<lambda>f. f\<lparr>f_file := fd\<rparr>) s2
                        in if fd < 0 then give_up sy logm t (- fd) s3
                           else case k of 0 \<Rightarrow> s3\<lparr>stuck := True\<rparr> | Suc k' \<Rightarrow> write_file k' sy logm t fl e s3)
                     else give_up sy logm t err s2)"

declare write_file.simps [simp del]

text \<open>Messages to users.  \<open>reenter\<close> keeps an error on a terminal from being sent to terminals.\<close>

fun wall_users :: "logsys \<Rightarrow> logger \<Rightarrow> (string \<Rightarrow> bool) \<Rightarrow> entry \<Rightarrow> (string \<times> string) list \<Rightarrow> syslogd \<Rightarrow> syslogd" where
  "wall_users sy logm P e [] s = s"
| "wall_users sy logm P e ((line, user) # us) s =
     (if P user then
        (let s1 = emit_log (Out_tty line e) s
         in wall_users sy logm P e us
              (case s_ttymsg sy line of None \<Rightarrow> s1 | Some err \<Rightarrow> logerror sy logm 0 err s1))
      else wall_users sy logm P e us s)"

text \<open>The names that were stored; the places counted but not filled are not looked at here.\<close>

definition wall_wanted :: "filed \<Rightarrow> string \<Rightarrow> bool" where
  "wall_wanted f u \<longleftrightarrow> f_type f = F_WALL \<or> (case f_un f of Un_user n names \<Rightarrow> u \<in> set names | _ \<Rightarrow> False)"

definition wallmsg :: "logsys \<Rightarrow> logger \<Rightarrow> target \<Rightarrow> entry \<Rightarrow> syslogd \<Rightarrow> syslogd" where
  "wallmsg sy logm t e s =
     (if reenter s then s
      else (wall_users sy logm (wall_wanted (get_filed t s)) e (s_utmp sy) (s\<lparr>reenter := True\<rparr>))\<lparr>reenter := False\<rparr>)"

definition set_time :: "target \<Rightarrow> syslogd \<Rightarrow> syslogd" where
  "set_time t s = upd_filed t (\<lambda>f. f\<lparr>f_time := now s\<rparr>) s"

text \<open>Looking up the name of a host again, which may fail a number of times.\<close>

definition retry_host :: "logsys \<Rightarrow> logger \<Rightarrow> target \<Rightarrow> string \<Rightarrow> entry \<Rightarrow> syslogd \<Rightarrow> syslogd" where
  "retry_host sy logm t from e s =
     (let f = get_filed t s
      in if s_time sy - f_time f < INET_SUSPEND_TIME then s
         else case f_un f of
           Un_forw (Some h) a \<Rightarrow>
             (case s_getaddrinfo sy h of
                Gai_found b \<Rightarrow>
                  f_forw sy logm t from e
                    (upd_filed t (\<lambda>f. f\<lparr>f_un := Un_forw (Some h) (Some b), f_prevcount := 0, f_type := F_FORW\<rparr>) s)
              | _ \<Rightarrow>
                  upd_filed t (\<lambda>f. let f1 = f\<lparr>f_prevcount := f_prevcount f - 1\<rparr>
                                 in if f_prevcount f1 < 0 then f1\<lparr>f_type := F_UNUSED, f_un := Un_forw None a\<rparr> else f1) s)
         | _ \<Rightarrow> s)"

definition fprintlog_out :: "logsys \<Rightarrow> logger \<Rightarrow> target \<Rightarrow> string \<Rightarrow> flags \<Rightarrow> entry \<Rightarrow> syslogd \<Rightarrow> syslogd" where
  "fprintlog_out sy logm t from fl e s =
     (case f_type (get_filed t s) of
        F_UNUSED \<Rightarrow> set_time t s
      | F_FORW_SUSP \<Rightarrow>
          if INET_SUSPEND_TIME \<le> s_time sy - f_time (get_filed t s)
          then f_forw sy logm t from e (upd_filed t (\<lambda>f. f\<lparr>f_type := F_FORW\<rparr>) s) else s
      | F_FORW_UNKN \<Rightarrow> retry_host sy logm t from e s
      | F_FORW \<Rightarrow> f_forw sy logm t from e s
      | F_CONSOLE \<Rightarrow>
          if ign_cons fl then set_time t s else write_file (s_tries sy) sy logm t fl e (set_time t s)
      | F_USERS \<Rightarrow> wallmsg sy logm t e (set_time t s)
      | F_WALL \<Rightarrow> wallmsg sy logm t e (set_time t s)
      | _ \<Rightarrow> write_file (s_tries sy) sy logm t fl e (set_time t s))"

definition fprintlog :: "logsys \<Rightarrow> logger \<Rightarrow> target \<Rightarrow> string \<Rightarrow> flags \<Rightarrow> string option \<Rightarrow> syslogd \<Rightarrow> syslogd" where
  "fprintlog sy logm t from fl msg s =
     (let s1 = fprintlog_out sy logm t from fl (log_entry (get_filed t s) msg) s
      in if f_type (get_filed t s1) \<noteq> F_FORW_UNKN then upd_filed t (\<lambda>f. f\<lparr>f_prevcount := 0\<rparr>) s1 else s1)"

section \<open>Logging\<close>

text \<open>Whether a message brings its own time, which is then taken off.\<close>

definition standard_stamp :: "string \<Rightarrow> bool" where
  "standard_stamp m \<longleftrightarrow> 16 \<le> length m \<and> m ! 3 = CHR '' '' \<and> m ! 6 = CHR '' '' \<and> m ! 9 = CHR '':''
     \<and> m ! 12 = CHR '':'' \<and> m ! 15 = CHR '' ''"

definition log_fac :: "int \<Rightarrow> flags \<Rightarrow> nat" where
  "log_fac pri fl = (if mark fl then LOG_NFACILITIES else LOG_FAC pri)"

text \<open>The tests that make an entry skip a message.\<close>

definition skipped :: "int \<Rightarrow> flags \<Rightarrow> syslogd \<Rightarrow> filed \<Rightarrow> bool" where
  "skipped pri fl s f \<longleftrightarrow>
     f_pmask f (log_fac pri fl) AND ucast (LOG_MASK (LOG_PRI pri)) = 0
     \<or> f_type f = F_CONSOLE \<and> ign_cons fl
     \<or> mark fl \<and> now s - f_time f < MarkInterval s div 2"

definition same_line :: "string \<Rightarrow> string \<Rightarrow> flags \<Rightarrow> filed \<Rightarrow> bool" where
  "same_line msg from fl f \<longleftrightarrow>
     \<not> mark fl \<and> length msg = f_prevlen f \<and> f_prevhost f = Some from \<and> msg = f_prevline f"

definition log_repeat :: "logsys \<Rightarrow> logger \<Rightarrow> string \<Rightarrow> string \<Rightarrow> flags \<Rightarrow> target \<Rightarrow> syslogd \<Rightarrow> syslogd" where
  "log_repeat sy logm stamp from fl t s =
     (let s1 = upd_filed t (\<lambda>f. f\<lparr>f_lasttime := take 15 stamp, f_prevcount := f_prevcount f + 1\<rparr>) s
      in if REPEATTIME (get_filed t s1) < now s1
         then upd_filed t BACKOFF (fprintlog sy logm t from fl None s1) else s1)"

definition log_new :: "logsys \<Rightarrow> logger \<Rightarrow> int \<Rightarrow> string \<Rightarrow> string \<Rightarrow> string \<Rightarrow> flags \<Rightarrow> target \<Rightarrow> syslogd \<Rightarrow> syslogd" where
  "log_new sy logm pri stamp msg from fl t s =
     (let s1 = (if f_prevcount (get_filed t s) \<noteq> 0 then fprintlog sy logm t from no_flags None s else s);
          s2 = upd_filed t (\<lambda>f. f\<lparr>f_repeatcount := 0, f_lasttime := take 15 stamp, f_prevhost := Some from\<rparr>) s1
      in if length msg < MAXSVLINE
         then fprintlog sy logm t from fl None
                (upd_filed t (\<lambda>f. f\<lparr>f_prevlen := length msg, f_prevpri := pri, f_prevline := msg\<rparr>) s2)
         else fprintlog sy logm t from fl (Some msg)
                (upd_filed t (\<lambda>f. f\<lparr>f_prevline := [], f_prevlen := 0\<rparr>) s2))"

definition log_file :: "logsys \<Rightarrow> logger \<Rightarrow> int \<Rightarrow> string \<Rightarrow> string \<Rightarrow> string \<Rightarrow> flags \<Rightarrow> nat \<Rightarrow> syslogd \<Rightarrow> syslogd" where
  "log_file sy logm pri stamp msg from fl i s =
     (if skipped pri fl s (Files s ! i) then s
      else if same_line msg from fl (Files s ! i) then log_repeat sy logm stamp from fl (Entry i) s
      else log_new sy logm pri stamp msg from fl (Entry i) s)"

definition log_console :: "logsys \<Rightarrow> logger \<Rightarrow> string \<Rightarrow> string \<Rightarrow> flags \<Rightarrow> syslogd \<Rightarrow> syslogd" where
  "log_console sy logm msg from fl s =
     (let fd = s_open sy (s_ctty sy);
          s1 = upd_filed Console (\<lambda>f. f\<lparr>f_file := fd, f_prevhost := Some (LocalHostName s)\<rparr>) s
      in if fd < 0 then s1
         else emit_log (Out_close fd) (fprintlog sy logm Console from fl (Some msg) s1))"

definition logmsg_body :: "logsys \<Rightarrow> logger \<Rightarrow> logger" where
  "logmsg_body sy logm pri msg from fl s =
     (let std = standard_stamp msg \<and> \<not> adddate fl;
          fl1 = (if std then fl else fl\<lparr>adddate := True\<rparr>);
          s1 = s\<lparr>now := s_time sy\<rparr>;
          stamp = (if std then msg else drop 4 (s_ctime sy (s_time sy)));
          msg1 = (if std then drop 16 msg else msg)
      in if Initialized s1 then fold (log_file sy logm pri stamp msg1 from fl1) [0..<length (Files s1)] s1
         else log_console sy logm msg1 from fl1 s1)"

primrec logmsg :: "nat \<Rightarrow> logsys \<Rightarrow> logger" where
  "logmsg 0 sy = (\<lambda>pri msg from fl s. s\<lparr>stuck := True\<rparr>)"
| "logmsg (Suc n) sy = logmsg_body sy (logmsg n sy)"

section \<open>The timer and the end\<close>

definition flush_file :: "logsys \<Rightarrow> logger \<Rightarrow> (syslogd \<Rightarrow> filed \<Rightarrow> bool) \<Rightarrow> (filed \<Rightarrow> filed) \<Rightarrow> nat \<Rightarrow> syslogd \<Rightarrow> syslogd" where
  "flush_file sy logm due g i s =
     (if f_prevcount (Files s ! i) \<noteq> 0 \<and> due s (Files s ! i)
      then upd_filed (Entry i) g (fprintlog sy logm (Entry i) (LocalHostName s) no_flags None s) else s)"

definition domark :: "logsys \<Rightarrow> logger \<Rightarrow> syslogd \<Rightarrow> syslogd" where
  "domark sy logm s =
     (let s1 = s\<lparr>now := s_time sy\<rparr>;
          s2 = (if 0 < MarkInterval s1 then
                  (let s2 = s1\<lparr>MarkSeq := MarkSeq s1 + TIMERINTVL\<rparr>
                   in if MarkInterval s2 \<le> MarkSeq s2
                      then (logm LOG_INFO ''-- MARK --'' (LocalHostName s2)
                        (no_flags\<lparr>adddate := True, mark := True\<rparr>) s2)\<lparr>MarkSeq := 0\<rparr>
                      else s2)
                else s1)
      in fold (flush_file sy logm (\<lambda>s f. REPEATTIME f \<le> now s) BACKOFF) [0..<length (Files s2)] s2)"

text \<open>What \<open>die\<close> and \<open>init\<close> do first: everything pending is written.\<close>

definition flush_all :: "logsys \<Rightarrow> logger \<Rightarrow> syslogd \<Rightarrow> syslogd" where
  "flush_all sy logm s = fold (flush_file sy logm (\<lambda>s f. True) (\<lambda>f. f)) [0..<length (Files s)] (s\<lparr>Initialized := False\<rparr>)"

definition die :: "logsys \<Rightarrow> logger \<Rightarrow> int \<Rightarrow> syslogd \<Rightarrow> syslogd" where
  "die sy logm signo s =
     (let s1 = (flush_all sy logm s)\<lparr>Initialized := Initialized s\<rparr>
      in if signo \<noteq> 0 then logerror sy logm 0 (''exiting on signal '' @ dec_text signo) s1 else s1)"

end
