(* ===== verification/Syslogd_Account.thy ===== *)
theory Syslogd_Account
  imports Syslogd
begin

text \<open>
  No message is lost: although \<open>syslogd\<close> writes a repeated message only as a count, and with a delay, what
  is written to a file always accounts for every message the entry of the file has taken.
\<close>

section \<open>Reading a log back\<close>

text \<open>The hosts and messages that the entries of a log stand for.\<close>

definition read_entry :: "(string \<times> string) list \<Rightarrow> entry \<Rightarrow> (string \<times> string) list" where
  "read_entry ms e = ms @ (case e_body e of Msg m \<Rightarrow> [(the (e_host e), m)] | Repeated n \<Rightarrow> replicate (nat n) (last ms))"

definition read_log :: "entry list \<Rightarrow> (string \<times> string) list" where
  "read_log es = foldl read_entry [] es"

definition written :: "int \<Rightarrow> log_out list \<Rightarrow> entry list" where
  "written fd os = concat (map (\<lambda>x. case x of Out_write fd1 e eol \<Rightarrow> if fd1 = fd then [e] else [] | _ \<Rightarrow> []) os)"

lemma read_log_snoc: "read_log (es @ [e]) = read_entry (read_log es) e"
  by (simp add: read_log_def)

lemma written_append [simp]: "written fd (xs @ ys) = written fd xs @ written fd ys"
  by (simp add: written_def)

lemma written_Nil [simp]: "written fd [] = []"
  by (simp add: written_def)

section \<open>Entries that can be written\<close>

text \<open>Every entry is a file, a pipe or a terminal, they are different ones, and writes succeed.\<close>

definition quiet :: "syslogd \<Rightarrow> bool" where
  "quiet s \<longleftrightarrow> io s = (\<lambda>_. 0) \<and> (\<forall>f \<in> set (Files s). f_type f \<in> {F_FILE, F_PIPE, F_TTY}) \<and> distinct (map f_file (Files s))"

text \<open>A step that only changes one entry and only writes to its file.\<close>

definition touches :: "nat \<Rightarrow> syslogd \<Rightarrow> syslogd \<Rightarrow> bool" where
  "touches i s s1 \<longleftrightarrow> (\<exists>f os. s1 = s\<lparr>Files := (Files s)[i := f], outs := outs s @ os\<rparr>
     \<and> f_file f = f_file (Files s ! i) \<and> f_type f = f_type (Files s ! i)
     \<and> (\<forall>fd. fd \<noteq> f_file (Files s ! i) \<longrightarrow> written fd os = []))"

lemma touches_refl: "touches i s s"
  unfolding touches_def by (rule exI [of _ "Files s ! i"], rule exI [of _ "[]"]) simp

lemma touches_trans:
  assumes "touches i s s1" "touches i s1 s2" "i < length (Files s)"
  shows "touches i s s2"
proof -
  obtain f os where a: "s1 = s\<lparr>Files := (Files s)[i := f], outs := outs s @ os\<rparr>" "f_file f = f_file (Files s ! i)"
      "f_type f = f_type (Files s ! i)" "\<And>fd. fd \<noteq> f_file (Files s ! i) \<Longrightarrow> written fd os = []"
    using assms(1) unfolding touches_def by blast
  obtain g ps where b: "s2 = s1\<lparr>Files := (Files s1)[i := g], outs := outs s1 @ ps\<rparr>" "f_file g = f_file (Files s1 ! i)"
      "f_type g = f_type (Files s1 ! i)" "\<And>fd. fd \<noteq> f_file (Files s1 ! i) \<Longrightarrow> written fd ps = []"
    using assms(2) unfolding touches_def by blast
  show ?thesis
    unfolding touches_def
    by (rule exI [of _ g], rule exI [of _ "os @ ps"]) (use a b assms(3) in simp)
qed

lemma touches_upd:
  assumes "\<And>f. f_file (g f) = f_file f" "\<And>f. f_type (g f) = f_type f"
  shows "touches i s (upd_filed (Entry i) g s)"
  unfolding touches_def upd_filed_def
  by (rule exI [of _ "g (Files s ! i)"], rule exI [of _ "[]"]) (simp add: assms)

lemma touches_quiet:
  assumes "touches i s s1" "quiet s" "i < length (Files s)"
  shows "quiet s1 \<and> length (Files s1) = length (Files s) \<and> f_file (Files s1 ! i) = f_file (Files s ! i)"
proof -
  obtain f os where a: "s1 = s\<lparr>Files := (Files s)[i := f], outs := outs s @ os\<rparr>" "f_file f = f_file (Files s ! i)"
      "f_type f = f_type (Files s ! i)"
    using assms(1) unfolding touches_def by blast
  have "map f_file ((Files s)[i := f]) = map f_file (Files s)"
    using a(2) assms(3) by (metis map_update list_update_id nth_map)
  moreover have "f_type f \<in> {F_FILE, F_PIPE, F_TTY}" using a(3) assms(2,3) by (auto simp: quiet_def)
  then have "\<forall>g \<in> set ((Files s)[i := f]). f_type g \<in> {F_FILE, F_PIPE, F_TTY}"
    using assms(2) set_update_subset_insert [of "Files s" i f] unfolding quiet_def by blast
  ultimately show ?thesis using a assms(2,3) by (auto simp: quiet_def)
qed

text \<open>Writing one entry.\<close>

lemma fprintlog_quiet:
  assumes "quiet s" "i < length (Files s)"
  obtains os where "fprintlog sy logm (Entry i) from fl msg s
      = s\<lparr>Files := (Files s)[i := (Files s ! i)\<lparr>f_time := now s, f_prevcount := 0\<rparr>], outs := outs s @ os\<rparr>"
    "\<And>fd. written fd os = (if fd = f_file (Files s ! i) then [log_entry (Files s ! i) msg] else [])"
proof -
  let ?f = "Files s ! i"
  have ty: "f_type ?f \<in> {F_FILE, F_PIPE, F_TTY}" and io: "io s = (\<lambda>_. 0)" using assms by (auto simp: quiet_def)
  define eol where "eol = (if f_type ?f = F_TTY then [CHR 0x0D, LF] else [LF])"
  define os where "os = Out_write (f_file ?f) (log_entry ?f msg) eol
    # (if sync_file fl \<and> \<not> f_omit_sync ?f then [Out_fsync (f_file ?f)] else [])"
  have w: "written fd os = (if fd = f_file ?f then [log_entry ?f msg] else [])" for fd
    by (simp add: os_def written_def)
  have "fprintlog sy logm (Entry i) from fl msg s
      = s\<lparr>Files := (Files s)[i := ?f\<lparr>f_time := now s, f_prevcount := 0\<rparr>], outs := outs s @ os\<rparr>"
    using ty io assms(2)
    by (auto simp: fprintlog_def fprintlog_out_def set_time_def upd_filed_def get_filed_def write_file.simps next_io_def emit_log_def
        Let_def os_def eol_def)
  then show thesis using that w by blast
qed

lemma touches_fprintlog:
  assumes "quiet s" "i < length (Files s)"
  shows "touches i s (fprintlog sy logm (Entry i) from fl msg s)"
proof -
  obtain os where "fprintlog sy logm (Entry i) from fl msg s
      = s\<lparr>Files := (Files s)[i := (Files s ! i)\<lparr>f_time := now s, f_prevcount := 0\<rparr>], outs := outs s @ os\<rparr>"
    "\<And>fd. written fd os = (if fd = f_file (Files s ! i) then [log_entry (Files s ! i) msg] else [])"
    using fprintlog_quiet [OF assms] by metis
  then show ?thesis
    unfolding touches_def
    by (intro exI [of _ "(Files s ! i)\<lparr>f_time := now s, f_prevcount := 0\<rparr>"] exI [of _ os]) auto
qed

section \<open>The account of an entry\<close>

text \<open>What is written and what is still counted are the messages taken; and what is counted is the message
  written last.\<close>

definition pending :: "filed \<Rightarrow> (string \<times> string) list" where
  "pending f = replicate (nat (f_prevcount f)) (the (f_prevhost f), f_prevline f)"

definition account :: "syslogd \<Rightarrow> nat \<Rightarrow> (string \<times> string) list \<Rightarrow> bool" where
  "account s i ms \<longleftrightarrow>
     (let f = Files s ! i; w = read_log (written (f_file f) (outs s))
      in w @ pending f = ms \<and> 0 \<le> f_prevcount f
         \<and> (0 < f_prevcount f \<longrightarrow> 0 < f_prevlen f \<and> f_prevhost f \<noteq> None)
         \<and> (0 < f_prevlen f \<longrightarrow> f_prevlen f = length (f_prevline f) \<and> w \<noteq> []
              \<and> (f_prevhost f \<noteq> None \<longrightarrow> last w = (the (f_prevhost f), f_prevline f))))"

lemma account_frame:
  assumes "touches j s s1" "quiet s" "i < length (Files s)" "j < length (Files s)" "i \<noteq> j"
  shows "account s1 i ms = account s i ms \<and> Files s1 ! i = Files s ! i"
proof -
  obtain f os where a: "s1 = s\<lparr>Files := (Files s)[j := f], outs := outs s @ os\<rparr>"
      "\<And>fd. fd \<noteq> f_file (Files s ! j) \<Longrightarrow> written fd os = []"
    using assms(1) unfolding touches_def by blast
  have "f_file (Files s ! i) \<noteq> f_file (Files s ! j)"
    using assms(2-5) unfolding quiet_def by (metis length_map nth_eq_iff_index_eq nth_map)
  then show ?thesis using a assms(5) by (simp add: account_def Let_def)
qed

text \<open>Writing what is pending.\<close>

lemma flush_account:
  assumes "account s i ms" "quiet s" "i < length (Files s)" "f_prevcount (Files s ! i) \<noteq> 0"
  shows "account (fprintlog sy logm (Entry i) from fl None s) i ms"
proof -
  let ?f = "Files s ! i" and ?w = "read_log (written (f_file (Files s ! i)) (outs s))"
  obtain os where o: "fprintlog sy logm (Entry i) from fl None s
      = s\<lparr>Files := (Files s)[i := ?f\<lparr>f_time := now s, f_prevcount := 0\<rparr>], outs := outs s @ os\<rparr>"
    "\<And>fd. written fd os = (if fd = f_file ?f then [log_entry ?f None] else [])"
    using fprintlog_quiet [OF assms(2,3)] by metis
  have c: "0 < f_prevcount ?f" "0 < f_prevlen ?f" "f_prevlen ?f = length (f_prevline ?f)" "?w \<noteq> []"
      "last ?w = (the (f_prevhost ?f), f_prevline ?f)" "?w @ pending ?f = ms"
    using assms(1,4) by (auto simp: account_def Let_def)
  have "read_entry ?w (log_entry ?f None) = ms"
  proof (cases "f_prevcount ?f = 1")
    case True
    then show ?thesis using c by (simp add: read_entry_def log_entry_def pending_def)
  next
    case False
    then show ?thesis using c by (simp add: read_entry_def log_entry_def pending_def)
  qed
  moreover have "last ms = (the (f_prevhost ?f), f_prevline ?f)" "ms \<noteq> []"
    using c by (auto simp: pending_def last_append)
  ultimately show ?thesis using o c assms(3) by (simp add: account_def Let_def read_log_snoc pending_def)
qed

lemma flush_zero:
  assumes "quiet s" "i < length (Files s)"
  shows "f_prevcount (Files (fprintlog sy logm (Entry i) from fl msg s) ! i) = 0"
proof -
  obtain os where "fprintlog sy logm (Entry i) from fl msg s
      = s\<lparr>Files := (Files s)[i := (Files s ! i)\<lparr>f_time := now s, f_prevcount := 0\<rparr>], outs := outs s @ os\<rparr>"
    using fprintlog_quiet [OF assms] by metis
  then show ?thesis using assms(2) by simp
qed

lemma account_upd:
  assumes "account s i ms" "i < length (Files s)"
    "\<And>f. f_file (g f) = f_file f" "\<And>f. f_prevcount (g f) = f_prevcount f" "\<And>f. f_prevhost (g f) = f_prevhost f"
    "\<And>f. f_prevline (g f) = f_prevline f" "\<And>f. f_prevlen (g f) = f_prevlen f"
  shows "account (upd_filed (Entry i) g s) i ms"
  using assms by (simp add: account_def upd_filed_def pending_def Let_def)

lemma BACKOFF_fields [simp]:
  "f_file (BACKOFF f) = f_file f" "f_type (BACKOFF f) = f_type f" "f_prevcount (BACKOFF f) = f_prevcount f"
  "f_prevhost (BACKOFF f) = f_prevhost f" "f_prevline (BACKOFF f) = f_prevline f" "f_prevlen (BACKOFF f) = f_prevlen f"
  by (simp_all add: BACKOFF_def)

lemma log_repeat_account:
  assumes "account s i ms" "quiet s" "i < length (Files s)" "same_line msg from fl (Files s ! i)" "msg \<noteq> []"
  shows "account (log_repeat sy logm stamp from fl (Entry i) s) i (ms @ [(from, msg)])
    \<and> touches i s (log_repeat sy logm stamp from fl (Entry i) s)"
proof -
  let ?f = "Files s ! i"
  define s1 where "s1 = upd_filed (Entry i) (\<lambda>f. f\<lparr>f_lasttime := take 15 stamp, f_prevcount := f_prevcount f + 1\<rparr>) s"
  have t: "touches i s s1" unfolding s1_def by (rule touches_upd) simp_all
  have q: "quiet s1" "i < length (Files s1)" using touches_quiet [OF t assms(2,3)] assms(3) by auto
  have sl: "f_prevlen ?f = length msg" "f_prevhost ?f = Some from" "f_prevline ?f = msg"
    using assms(4) by (auto simp: same_line_def)
  have a: "account s1 i (ms @ [(from, msg)])"
  proof -
    have n: "0 \<le> f_prevcount ?f" using assms(1) by (auto simp: account_def Let_def)
    then have "replicate (nat (f_prevcount ?f + 1)) x = replicate (nat (f_prevcount ?f)) x @ [x]" for x :: "string \<times> string"
      by (simp add: nat_add_distrib replicate_append_same [symmetric])
    then show ?thesis using assms(1,3,5) sl n
      by (auto simp: s1_def account_def upd_filed_def pending_def Let_def)
  qed
  have c: "f_prevcount (Files s1 ! i) \<noteq> 0"
    using assms(1,3) by (auto simp: s1_def account_def upd_filed_def Let_def)
  define s2 where "s2 = fprintlog sy logm (Entry i) from fl None s1"
  have t2: "touches i s1 s2" unfolding s2_def by (rule touches_fprintlog [OF q])
  have "account s2 i (ms @ [(from, msg)])" unfolding s2_def by (rule flush_account [OF a q c])
  moreover have "i < length (Files s2)" using touches_quiet [OF t2 q] q by simp
  ultimately have "account (upd_filed (Entry i) BACKOFF s2) i (ms @ [(from, msg)])" by (intro account_upd) simp_all
  moreover have "touches i s (upd_filed (Entry i) BACKOFF s2)"
    using t t2 assms(3) q(2) touches_upd [of BACKOFF i s2] touches_trans BACKOFF_fields by (metis touches_trans)
  ultimately show ?thesis using a t by (simp add: log_repeat_def Let_def flip: s1_def s2_def)
qed

lemma log_new_account:
  assumes "account s i ms" "quiet s" "i < length (Files s)" "msg \<noteq> []"
  shows "account (log_new sy logm pri stamp msg from fl (Entry i) s) i (ms @ [(from, msg)])
    \<and> touches i s (log_new sy logm pri stamp msg from fl (Entry i) s)"
proof -
  define s1 where "s1 = (if f_prevcount (get_filed (Entry i) s) \<noteq> 0 then fprintlog sy logm (Entry i) from no_flags None s else s)"
  have t1: "touches i s s1" using touches_fprintlog [OF assms(2,3)] touches_refl by (simp add: s1_def)
  note q1 = touches_quiet [OF t1 assms(2,3)]
  have i1: "i < length (Files s1)" using q1 assms(3) by simp
  have a1: "account s1 i ms" "f_prevcount (Files s1 ! i) = 0"
    using flush_account [OF assms(1-3)] flush_zero [OF assms(2,3)] assms(1) by (auto simp: s1_def get_filed_def)
  define msg1 where "msg1 = (if length msg < MAXSVLINE then None else Some msg)"
  define g :: "filed \<Rightarrow> filed" where "g = (\<lambda>f. if length msg < MAXSVLINE
      then f\<lparr>f_repeatcount := 0, f_lasttime := take 15 stamp, f_prevhost := Some from, f_prevlen := length msg,
        f_prevpri := pri, f_prevline := msg\<rparr>
      else f\<lparr>f_repeatcount := 0, f_lasttime := take 15 stamp, f_prevhost := Some from, f_prevline := [], f_prevlen := 0\<rparr>)"
  have gf: "f_file (g f) = f_file f" "f_type (g f) = f_type f" "f_prevcount (g f) = f_prevcount f"
    "f_prevhost (g f) = Some from" for f by (simp_all add: g_def)
  define s3 where "s3 = upd_filed (Entry i) g s1"
  have e: "log_new sy logm pri stamp msg from fl (Entry i) s = fprintlog sy logm (Entry i) from fl msg1 s3"
    using i1 by (auto simp: log_new_def Let_def s3_def g_def msg1_def upd_filed_def simp flip: s1_def)
  have t3: "touches i s1 s3" unfolding s3_def by (rule touches_upd) (simp_all add: gf)
  note q3 = touches_quiet [OF t3 conjunct1 [OF q1] i1]
  have i3: "i < length (Files s3)" using q3 i1 by simp
  have f3: "Files s3 ! i = g (Files s1 ! i)" "outs s3 = outs s1" using i1 by (simp_all add: s3_def upd_filed_def)
  obtain os where o: "fprintlog sy logm (Entry i) from fl msg1 s3
      = s3\<lparr>Files := (Files s3)[i := (Files s3 ! i)\<lparr>f_time := now s3, f_prevcount := 0\<rparr>], outs := outs s3 @ os\<rparr>"
    "\<And>fd. written fd os = (if fd = f_file (Files s3 ! i) then [log_entry (Files s3 ! i) msg1] else [])"
    using fprintlog_quiet [OF conjunct1 [OF q3] i3] by metis
  have le: "log_entry (Files s3 ! i) msg1 = \<lparr>e_stamp = take 15 stamp, e_host = Some from, e_body = Msg msg\<rparr>"
    using a1(2) by (simp add: log_entry_def f3 msg1_def g_def)
  have "read_log (written (f_file (Files s1 ! i)) (outs s1)) = ms" using a1 by (simp add: account_def Let_def pending_def)
  then have "account (fprintlog sy logm (Entry i) from fl msg1 s3) i (ms @ [(from, msg)])"
    using o le i3 by (auto simp: account_def f3 gf read_log_snoc read_entry_def pending_def Let_def g_def)
  moreover have "touches i s (fprintlog sy logm (Entry i) from fl msg1 s3)"
    using t1 t3 touches_fprintlog [OF conjunct1 [OF q3] i3] assms(3) i1 by (metis touches_trans)
  ultimately show ?thesis by (simp add: e)
qed

section \<open>All entries\<close>

definition same_env :: "syslogd \<Rightarrow> syslogd \<Rightarrow> bool" where
  "same_env s s1 \<longleftrightarrow> (\<exists>fs os. s1 = s\<lparr>Files := fs, outs := os\<rparr>)"

lemma touches_env: "touches i s s1 \<Longrightarrow> same_env s s1"
  unfolding touches_def same_env_def by blast

lemma same_env_refl: "same_env s s"
  unfolding same_env_def by (rule exI [of _ "Files s"], rule exI [of _ "outs s"]) simp

lemma same_env_trans: "same_env s s1 \<Longrightarrow> same_env s1 s2 \<Longrightarrow> same_env s s2"
  unfolding same_env_def by (elim exE, simp, intro exI, rule refl)

text \<open>A step for every entry in turn: \<open>N s f\<close> is what it adds to the messages taken.\<close>

lemma fold_account:
  assumes step: "\<And>i s ms. quiet s \<Longrightarrow> i < length (Files s) \<Longrightarrow> account s i ms
      \<Longrightarrow> account (F i s) i (ms @ N s (Files s ! i)) \<and> touches i s (F i s) \<and> Q (Files (F i s) ! i)"
    and env: "\<And>s s1 f. same_env s s1 \<Longrightarrow> N s1 f = N s f"
    and s: "quiet s" "\<forall>i < length (Files s). account s i (ms i)"
  shows "k \<le> length (Files s) \<Longrightarrow> quiet (fold F [0..<k] s) \<and> same_env s (fold F [0..<k] s)
    \<and> length (Files (fold F [0..<k] s)) = length (Files s)
    \<and> (\<forall>i < length (Files s). account (fold F [0..<k] s) i (ms i @ (if i < k then N s (Files s ! i) else [])))
    \<and> (\<forall>i < length (Files s). k \<le> i \<longrightarrow> Files (fold F [0..<k] s) ! i = Files s ! i)
    \<and> (\<forall>i < k. Q (Files (fold F [0..<k] s) ! i))"
proof (induction k)
  case 0
  then show ?case using s same_env_refl by simp
next
  case (Suc k)
  define t where "t = fold F [0..<k] s"
  have k: "k < length (Files s)" using Suc.prems by simp
  have t: "quiet t" "same_env s t" "length (Files t) = length (Files s)"
      "\<And>i. i < length (Files s) \<Longrightarrow> account t i (ms i @ (if i < k then N s (Files s ! i) else []))"
      "\<And>i. i < length (Files s) \<Longrightarrow> k \<le> i \<Longrightarrow> Files t ! i = Files s ! i" "\<And>i. i < k \<Longrightarrow> Q (Files t ! i)"
    using Suc unfolding t_def by simp_all
  have kt: "k < length (Files t)" using k t(3) by simp
  have a: "account (F k t) k (ms k @ N s (Files s ! k))" and tt: "touches k t (F k t)" and Qk: "Q (Files (F k t) ! k)"
    using step [OF t(1) kt, of "ms k"] t(4) [OF k] t(5) [OF k] env [OF t(2)] by auto
  note q = touches_quiet [OF tt t(1) kt]
  have fr: "account (F k t) i m = account t i m" "Files (F k t) ! i = Files t ! i" if "i < length (Files s)" "i \<noteq> k" for i m
    using account_frame [OF tt t(1) _ kt] that t(3) by simp_all
  have "account (F k t) i (ms i @ (if i < Suc k then N s (Files s ! i) else []))" if "i < length (Files s)" for i
    using fr(1) [OF that, of "ms i @ (if i < k then N s (Files s ! i) else [])"] a t(4) [OF that]
    by (cases "i = k") (auto simp: less_Suc_eq)
  moreover have "Files (F k t) ! i = Files s ! i" if "i < length (Files s)" "Suc k \<le> i" for i
    using fr(2) [OF that(1)] that t(5) by simp
  moreover have "Q (Files (F k t) ! i)" if "i < Suc k" for i
    using that Qk fr(2) [of i] t(6) [of i] k by (cases "i = k") auto
  moreover have "same_env s (F k t)" using same_env_trans [OF t(2) touches_env [OF tt]] .
  moreover have "fold F [0..<Suc k] s = F k t" by (simp add: t_def)
  ultimately show ?case using q t(3) by simp
qed

lemma log_file_account:
  assumes "quiet s" "i < length (Files s)" "account s i ms" "msg \<noteq> []"
  shows "account (log_file sy logm pri stamp msg from fl i s) i
      (ms @ (if skipped pri fl s (Files s ! i) then [] else [(from, msg)]))
    \<and> touches i s (log_file sy logm pri stamp msg from fl i s)"
  using assms log_repeat_account [OF assms(3,1,2)] log_new_account [OF assms(3,1,2,4)] touches_refl
  by (auto simp: log_file_def)

lemma flush_file_account:
  assumes "quiet s" "i < length (Files s)" "account s i ms"
    and g: "\<And>f. f_file (g f) = f_file f" "\<And>f. f_type (g f) = f_type f" "\<And>f. f_prevcount (g f) = f_prevcount f"
      "\<And>f. f_prevhost (g f) = f_prevhost f" "\<And>f. f_prevline (g f) = f_prevline f" "\<And>f. f_prevlen (g f) = f_prevlen f"
  shows "account (flush_file sy logm due g i s) i (ms @ []) \<and> touches i s (flush_file sy logm due g i s)
    \<and> ((\<forall>s f. due s f) \<longrightarrow> f_prevcount (Files (flush_file sy logm due g i s) ! i) = 0)"
proof (cases "f_prevcount (Files s ! i) \<noteq> 0 \<and> due s (Files s ! i)")
  case True
  define s1 where "s1 = fprintlog sy logm (Entry i) (LocalHostName s) no_flags None s"
  have t: "touches i s s1" unfolding s1_def by (rule touches_fprintlog [OF assms(1,2)])
  have "account s1 i ms" using flush_account [OF assms(3,1,2)] True by (simp add: s1_def)
  then have "account (upd_filed (Entry i) g s1) i ms"
    using touches_quiet [OF t assms(1,2)] assms(2) g by (intro account_upd) simp_all
  moreover have "touches i s (upd_filed (Entry i) g s1)" by (rule touches_trans [OF t touches_upd assms(2)]) (simp_all add: g)
  moreover have "f_prevcount (Files (upd_filed (Entry i) g s1) ! i) = 0"
    using flush_zero [OF assms(1,2)] touches_quiet [OF t assms(1,2)] assms(2) by (simp add: upd_filed_def s1_def g)
  ultimately show ?thesis using True by (simp add: flush_file_def s1_def)
qed (use assms touches_refl in \<open>auto simp: flush_file_def\<close>)

lemma skipped_env: "same_env s s1 \<Longrightarrow> skipped pri fl s1 f = skipped pri fl s f"
  by (auto simp: same_env_def skipped_def)

section \<open>Runs\<close>

datatype event = Message int string string flags | Timer

text \<open>The text of a message without its time.\<close>

definition stripped :: "string \<Rightarrow> flags \<Rightarrow> string" where
  "stripped msg fl = (if standard_stamp msg \<and> \<not> adddate fl then drop 16 msg else msg)"

definition mark_flags :: flags where
  "mark_flags = no_flags\<lparr>adddate := True, mark := True\<rparr>"

fun do_event :: "nat \<Rightarrow> logsys \<times> event \<Rightarrow> syslogd \<Rightarrow> syslogd" where
  "do_event n (sy, Message pri msg from fl) s = logmsg (Suc n) sy pri msg from fl s"
| "do_event n (sy, Timer) s = domark sy (logmsg (Suc n) sy) s"

text \<open>The messages an entry takes at an event: those its masks accept, and the marks, unless it was written
  recently.\<close>

fun takes :: "logsys \<times> event \<Rightarrow> syslogd \<Rightarrow> filed \<Rightarrow> (string \<times> string) list" where
  "takes (sy, Message pri msg from fl) s f =
     (if skipped pri fl (s\<lparr>now := s_time sy\<rparr>) f then [] else [(from, stripped msg fl)])"
| "takes (sy, Timer) s f =
     (if 0 < MarkInterval s \<and> MarkInterval s \<le> MarkSeq s + TIMERINTVL
         \<and> \<not> skipped LOG_INFO mark_flags (s\<lparr>now := s_time sy\<rparr>) f
      then [(LocalHostName s, ''-- MARK --'')] else [])"

fun taken :: "nat \<Rightarrow> (logsys \<times> event) list \<Rightarrow> nat \<Rightarrow> syslogd \<Rightarrow> (string \<times> string) list" where
  "taken n [] i s = []"
| "taken n (ev # evs) i s = takes ev s (Files s ! i) @ taken n evs i (do_event n ev s)"

fun has_text :: "logsys \<times> event \<Rightarrow> bool" where
  "has_text (sy, Message pri msg from fl) = (stripped msg fl \<noteq> [])"
| "has_text (sy, Timer) = True"

definition accounts :: "syslogd \<Rightarrow> (nat \<Rightarrow> (string \<times> string) list) \<Rightarrow> bool" where
  "accounts s ms \<longleftrightarrow> quiet s \<and> Initialized s \<and> (\<forall>i < length (Files s). account s i (ms i))"

lemma quiet_now [simp]: "quiet (s\<lparr>now := t\<rparr>) = quiet s" "quiet (s\<lparr>MarkSeq := m\<rparr>) = quiet s"
  "quiet (s\<lparr>Initialized := b\<rparr>) = quiet s"
  by (simp_all add: quiet_def)

lemma account_now [simp]: "account (s\<lparr>now := t\<rparr>) i ms = account s i ms" "account (s\<lparr>MarkSeq := m\<rparr>) i ms = account s i ms"
  "account (s\<lparr>Initialized := b\<rparr>) i ms = account s i ms"
  by (simp_all add: account_def)

lemma skipped_adddate [simp]: "skipped pri (fl\<lparr>adddate := b\<rparr>) s f = skipped pri fl s f"
  by (simp add: skipped_def log_fac_def)

lemma logmsg_accounts:
  assumes "accounts s ms" "stripped msg fl \<noteq> []"
  shows "accounts (logmsg (Suc n) sy pri msg from fl s) (\<lambda>i. ms i @ takes (sy, Message pri msg from fl) s (Files s ! i))
    \<and> same_env (s\<lparr>now := s_time sy\<rparr>) (logmsg (Suc n) sy pri msg from fl s)
    \<and> length (Files (logmsg (Suc n) sy pri msg from fl s)) = length (Files s)"
proof -
  define fl1 where "fl1 = (if standard_stamp msg \<and> \<not> adddate fl then fl else fl\<lparr>adddate := True\<rparr>)"
  define stamp where "stamp = (if standard_stamp msg \<and> \<not> adddate fl then msg else drop 4 (s_ctime sy (s_time sy)))"
  define s1 where "s1 = s\<lparr>now := s_time sy\<rparr>"
  define F where "F = log_file sy (logmsg n sy) pri stamp (stripped msg fl) from fl1"
  have e: "logmsg (Suc n) sy pri msg from fl s = fold F [0..<length (Files s1)] s1"
    using assms(1) by (simp add: logmsg_body_def Let_def F_def stripped_def fl1_def stamp_def s1_def accounts_def)
  have s1: "quiet s1" "\<forall>i < length (Files s1). account s1 i (ms i)" "length (Files s1) = length (Files s)" "Files s1 = Files s"
    using assms(1) by (simp_all add: s1_def accounts_def)
  have sk: "skipped pri fl1 s f = skipped pri fl s f" for s f by (simp add: fl1_def)
  define N where "N = (\<lambda>s f. if skipped pri fl s f then [] else [(from, stripped msg fl)])"
  have st: "account (F i s) i (ms @ N s (Files s ! i)) \<and> touches i s (F i s)"
    if "quiet s" "i < length (Files s)" "account s i ms" for i s ms
    using log_file_account [OF that assms(2), of sy "logmsg n sy" pri stamp "from" fl1] by (simp add: F_def N_def sk)
  have env: "N s1 f = N s f" if "same_env s s1" for s s1 f using skipped_env [OF that] by (simp add: N_def)
  have r: "quiet (fold F [0..<length (Files s1)] s1) \<and> same_env s1 (fold F [0..<length (Files s1)] s1)
    \<and> length (Files (fold F [0..<length (Files s1)] s1)) = length (Files s1)
    \<and> (\<forall>i < length (Files s1). account (fold F [0..<length (Files s1)] s1) i (ms i @ N s1 (Files s1 ! i)))"
    using fold_account [of F N "\<lambda>f. True" s1 ms "length (Files s1)", OF _ env s1(1,2)] st by simp
  have "Initialized (fold F [0..<length (Files s1)] s1)"
    using r assms(1) by (auto simp: same_env_def s1_def accounts_def)
  then show ?thesis using r unfolding e accounts_def by (simp add: s1_def N_def)
qed

lemma flush_accounts:
  assumes "quiet s" "\<forall>i < length (Files s). account s i (ms i)"
    and g: "\<And>f. f_file (g f) = f_file f" "\<And>f. f_type (g f) = f_type f" "\<And>f. f_prevcount (g f) = f_prevcount f"
      "\<And>f. f_prevhost (g f) = f_prevhost f" "\<And>f. f_prevline (g f) = f_prevline f" "\<And>f. f_prevlen (g f) = f_prevlen f"
  shows "quiet (fold (flush_file sy logm due g) [0..<length (Files s)] s)
    \<and> same_env s (fold (flush_file sy logm due g) [0..<length (Files s)] s)
    \<and> length (Files (fold (flush_file sy logm due g) [0..<length (Files s)] s)) = length (Files s)
    \<and> (\<forall>i < length (Files s). account (fold (flush_file sy logm due g) [0..<length (Files s)] s) i (ms i))
    \<and> ((\<forall>s f. due s f) \<longrightarrow> (\<forall>i < length (Files s). f_prevcount (Files (fold (flush_file sy logm due g) [0..<length (Files s)] s) ! i) = 0))"
proof -
  let ?Q = "\<lambda>f :: filed. (\<forall>s f. due s f) \<longrightarrow> f_prevcount f = 0"
  have st: "account (flush_file sy logm due g i s) i (ms @ []) \<and> touches i s (flush_file sy logm due g i s)
      \<and> ?Q (Files (flush_file sy logm due g i s) ! i)"
    if "quiet s" "i < length (Files s)" "account s i ms" for i s ms
    using flush_file_account [OF that g] by simp
  show ?thesis
    using fold_account [of "flush_file sy logm due g" "\<lambda>s f. []" ?Q s ms "length (Files s)", OF st _ assms(1,2)] by simp
qed

lemma domark_accounts:
  assumes "accounts s ms"
  shows "accounts (domark sy (logmsg (Suc n) sy) s) (\<lambda>i. ms i @ takes (sy, Timer) s (Files s ! i))
    \<and> length (Files (domark sy (logmsg (Suc n) sy) s)) = length (Files s)"
proof -
  define s1 where "s1 = s\<lparr>now := s_time sy, MarkSeq := MarkSeq s + TIMERINTVL\<rparr>"
  define s2 where "s2 = (if 0 < MarkInterval s then
      (if MarkInterval s \<le> MarkSeq s1 then (logmsg (Suc n) sy LOG_INFO ''-- MARK --'' (LocalHostName s) mark_flags s1)\<lparr>MarkSeq := 0\<rparr>
       else s1) else s\<lparr>now := s_time sy\<rparr>)"
  have a1: "accounts s1 ms" using assms by (simp add: accounts_def s1_def)
  have m: "stripped ''-- MARK --'' mark_flags = ''-- MARK --''" by (simp add: stripped_def mark_flags_def)
  have sk: "skipped LOG_INFO mark_flags (s1\<lparr>now := s_time sy\<rparr>) f = skipped LOG_INFO mark_flags (s\<lparr>now := s_time sy\<rparr>) f" for f
    by (simp add: skipped_def s1_def)
  have s2: "accounts s2 (\<lambda>i. ms i @ takes (sy, Timer) s (Files s ! i)) \<and> length (Files s2) = length (Files s)"
    using logmsg_accounts [OF a1, of "''-- MARK --''" mark_flags n sy LOG_INFO "LocalHostName s"] assms a1 m
    by (auto simp: s2_def accounts_def sk) (auto simp: s1_def)
  then have q: "quiet s2" "\<forall>i < length (Files s2). account s2 i (ms i @ takes (sy, Timer) s (Files s ! i))" "Initialized s2"
    by (auto simp: accounts_def)
  note f = flush_accounts [OF q(1,2), of BACKOFF sy "logmsg (Suc n) sy" "\<lambda>s f. REPEATTIME f \<le> now s"]
  have e: "domark sy (logmsg (Suc n) sy) s
      = fold (flush_file sy (logmsg (Suc n) sy) (\<lambda>s f. REPEATTIME f \<le> now s) BACKOFF) [0..<length (Files s2)] s2"
    unfolding domark_def s2_def s1_def mark_flags_def Let_def by (rule arg_cong2 [where f = "\<lambda>xs s. fold _ xs s"]) simp_all
  have "Initialized (domark sy (logmsg (Suc n) sy) s)"
    using f q(3) unfolding e by (auto simp: same_env_def)
  then show ?thesis using f s2 unfolding e accounts_def by simp
qed

lemma run_accounts:
  assumes "accounts s ms" "\<forall>ev \<in> set evs. has_text ev"
  shows "accounts (fold (do_event n) evs s) (\<lambda>i. ms i @ taken n evs i s)
    \<and> length (Files (fold (do_event n) evs s)) = length (Files s)"
  using assms
proof (induction evs arbitrary: s ms)
  case (Cons ev evs)
  have "accounts (do_event n ev s) (\<lambda>i. ms i @ takes ev s (Files s ! i)) \<and> length (Files (do_event n ev s)) = length (Files s)"
    using logmsg_accounts [OF Cons.prems(1)] domark_accounts [OF Cons.prems(1)] Cons.prems(2)
    by (cases ev rule: has_text.cases) auto
  with Cons.IH [of "do_event n ev s" "\<lambda>i. ms i @ takes ev s (Files s ! i)"] Cons.prems(2) show ?case by simp
qed simp

text \<open>The state after the configuration has been read.\<close>

definition fresh_log :: "syslogd \<Rightarrow> bool" where
  "fresh_log s \<longleftrightarrow> quiet s \<and> Initialized s \<and> outs s = []
     \<and> (\<forall>f \<in> set (Files s). f_prevcount f = 0 \<and> f_prevlen f = 0)"

lemma fresh_accounts: "fresh_log s \<Longrightarrow> accounts s (\<lambda>i. [])"
  by (auto simp: fresh_log_def accounts_def account_def read_log_def pending_def Let_def)

text \<open>(C20) No message is lost and none is made up, in spite of the counting of repetitions.  For any sequence of messages
  and timer signals with any times, as long as the files can be written and no message is empty, reading back what
  has been written to a file, where \<open>last message repeated n times\<close> stands for n copies of the message before it, gives the
  messages the entry of the file has taken, with their hosts and in order, up to those still being
  counted; and after the last write of \<open>die\<close> or \<open>init\<close> all of them.\<close>

theorem log_complete:
  assumes "fresh_log s" "\<forall>ev \<in> set evs. has_text ev" "i < length (Files s)"
    and "s1 = fold (do_event n) evs s" "s2 = flush_all sy logm s1"
  shows "read_log (written (f_file (Files s1 ! i)) (outs s1)) @ pending (Files s1 ! i) = taken n evs i s
    \<and> read_log (written (f_file (Files s2 ! i)) (outs s2)) = taken n evs i s"
proof -
  have a: "accounts s1 (\<lambda>i. [] @ taken n evs i s)" "length (Files s1) = length (Files s)"
    using run_accounts [OF fresh_accounts [OF assms(1)] assms(2), of n] by (auto simp: assms(4))
  define t where "t = s1\<lparr>Initialized := False\<rparr>"
  have t: "quiet t" "\<forall>i < length (Files t). account t i (taken n evs i s)" "Files t = Files s1"
    using a by (simp_all add: t_def accounts_def)
  have "s2 = fold (flush_file sy logm (\<lambda>s f. True) (\<lambda>f. f)) [0..<length (Files t)] t"
    by (simp add: assms(5) flush_all_def t_def)
  with flush_accounts [OF t(1,2), of "\<lambda>f. f" sy logm "\<lambda>s f. True"] a(2) t(3) assms(3)
  have "account s2 i (taken n evs i s)" "f_prevcount (Files s2 ! i) = 0" by auto
  then show ?thesis using a assms(3) by (auto simp: accounts_def account_def pending_def Let_def)
qed

text \<open>Three times the same message.\<close>

definition ex_sys :: logsys where
  "ex_sys = \<lparr>s_getaddrinfo = \<lambda>_. Gai_error, s_open = \<lambda>_. 3, s_isatty = \<lambda>_. False, s_time = 100, s_ctty = [],
     s_ctime = \<lambda>_. ''Thu Jan  1 00:01:40 1970'', s_socket = False, s_utmp = [], s_ttymsg = \<lambda>_. None, s_strerror = \<lambda>_. [], s_tries = 0\<rparr>"

definition ex_log :: syslogd where
  "ex_log = \<lparr>Files = [(filed_zero (\<lambda>_. 0))\<lparr>f_type := F_FILE, f_file := 3, f_pmask := \<lambda>_. 255\<rparr>], consfile = filed_zero (\<lambda>_. 0),
     Initialized = True, now = 0, MarkInterval = 1200, MarkSeq = 0, NoHops = True, NoForward = False, force_sync = False,
     LocalHostName = ''h'', reenter = False, io = \<lambda>_. 0, outs = [], stuck = False\<rparr>"

definition ex_evs :: "(logsys \<times> event) list" where
  "ex_evs = replicate 3 (ex_sys, Message 13 ''su: no'' ''h'' no_flags)"

lemma ex_taken: "taken 0 ex_evs 0 ex_log = replicate 3 (''h'', ''su: no'')"
  by code_simp

lemma ex_file: "f_file (Files (flush_all ex_sys (logmsg 1 ex_sys) (fold (do_event 0) ex_evs ex_log)) ! 0) = 3"
  by code_simp

theorem log_complete_witness:
  "read_log (written 3 (outs (flush_all ex_sys (logmsg 1 ex_sys) (fold (do_event 0) ex_evs ex_log))))
    = replicate 3 (''h'', ''su: no'')"
proof -
  have f: "fresh_log ex_log" by (simp add: fresh_log_def quiet_def ex_log_def filed_zero_def)
  have t: "\<forall>ev \<in> set ex_evs. has_text ev" by (simp add: ex_evs_def stripped_def standard_stamp_def)
  have i: "0 < length (Files ex_log)" by (simp add: ex_log_def)
  from log_complete [OF f t i refl refl, of 0 ex_sys "logmsg 1 ex_sys"] show ?thesis
    unfolding ex_taken ex_file by blast
qed

end
