(* ===== verification/Syslogd_Errors.thy ===== *)
theory Syslogd_Errors
  imports Syslogd
begin

text \<open>
  Errors in \<open>syslogd\<close>: an error while a message is written is itself logged, which may fail again; that this
  comes to an end.  And the bounds of what is read from the network: the line that is built from a message and the
  index of its facility.
\<close>

section \<open>Errors while logging\<close>

text \<open>An entry for which writing can fail, and how many there are.  A user message is another source of errors,
  unless one is being sent.\<close>

definition live :: "logsys \<Rightarrow> filed \<Rightarrow> bool" where
  "live sy f \<longleftrightarrow> f_type f \<in> {F_FILE, F_TTY, F_CONSOLE, F_PIPE, F_FORW, F_FORW_UNKN}
     \<or> f_type f = F_FORW_SUSP \<and> INET_SUSPEND_TIME \<le> s_time sy - f_time f"

definition sources :: "logsys \<Rightarrow> syslogd \<Rightarrow> nat" where
  "sources sy s = length (filter (live sy) (Files s)) + of_bool (live sy (consfile s)) + of_bool (\<not> reenter s)"

text \<open>
  The clock is right, and of any \<open>s_tries\<close> and one results in a row at least one is not that of a lost terminal, so that
  opening it again comes to an end.
\<close>

definition tame :: "nat \<Rightarrow> (nat \<Rightarrow> int) \<Rightarrow> bool" where
  "tame k es \<longleftrightarrow> (\<forall>i. \<exists>j \<le> k. es (i + j) \<noteq> EIO \<and> es (i + j) \<noteq> EBADF)"

definition ready :: "logsys \<Rightarrow> syslogd \<Rightarrow> bool" where
  "ready sy s \<longleftrightarrow> now s = s_time sy \<and> tame (s_tries sy) (io s)"

text \<open>A step that does not run out of fuel and adds no source of errors.\<close>

definition settles :: "logsys \<Rightarrow> syslogd \<Rightarrow> syslogd \<Rightarrow> bool" where
  "settles sy s s1 \<longleftrightarrow> stuck s1 = stuck s \<and> sources sy s1 \<le> sources sy s \<and> reenter s1 = reenter s
     \<and> length (Files s1) = length (Files s) \<and> now s1 = now s \<and> (\<forall>k. tame k (io s) \<longrightarrow> tame k (io s1))"

definition good_logger :: "logsys \<Rightarrow> nat \<Rightarrow> logger \<Rightarrow> bool" where
  "good_logger sy n logm \<longleftrightarrow>
     (\<forall>pri msg from fl s. sources sy s < n \<longrightarrow> ready sy s \<longrightarrow> settles sy s (logm pri msg from fl s))"

definition valid_target :: "target \<Rightarrow> syslogd \<Rightarrow> bool" where
  "valid_target t s \<longleftrightarrow> (case t of Entry i \<Rightarrow> i < length (Files s) | Console \<Rightarrow> True)"

lemma settles_refl: "settles sy s s"
  by (simp add: settles_def)

lemma settles_trans: "settles sy s s1 \<Longrightarrow> settles sy s1 s2 \<Longrightarrow> settles sy s s2"
  by (auto simp: settles_def)

lemma settles_valid: "settles sy s s1 \<Longrightarrow> valid_target t s1 = valid_target t s"
  by (auto simp: settles_def valid_target_def split: target.splits)

lemma filter_update:
  "i < length xs \<Longrightarrow> length (filter P (xs[i := y])) + of_bool (P (xs ! i)) = length (filter P xs) + of_bool (P y)"
proof (induction xs arbitrary: i)
  case (Cons x xs)
  then show ?case by (cases i) auto
qed simp

lemma sources_upd:
  assumes "valid_target t s"
  shows "sources sy (upd_filed t g s) + of_bool (live sy (get_filed t s))
    = sources sy s + of_bool (live sy (g (get_filed t s)))"
proof (cases t)
  case (Entry i)
  with assms filter_update [of i "Files s" "live sy" "g (Files s ! i)"] show ?thesis
    by (simp add: sources_def upd_filed_def get_filed_def valid_target_def)
qed (simp add: sources_def upd_filed_def get_filed_def)

lemma get_upd [simp]: "valid_target t s \<Longrightarrow> get_filed t (upd_filed t g s) = g (get_filed t s)"
  by (auto simp: get_filed_def upd_filed_def valid_target_def split: target.splits)

lemma upd_fields [simp]:
  "stuck (upd_filed t g s) = stuck s" "reenter (upd_filed t g s) = reenter s" "now (upd_filed t g s) = now s"
  "length (Files (upd_filed t g s)) = length (Files s)" "io (upd_filed t g s) = io s"
  by (simp_all add: upd_filed_def split: target.splits)

lemma emit_log_fields [simp]:
  "stuck (emit_log x s) = stuck s" "reenter (emit_log x s) = reenter s" "now (emit_log x s) = now s"
  "Files (emit_log x s) = Files s" "consfile (emit_log x s) = consfile s" "io (emit_log x s) = io s"
  by (simp_all add: emit_log_def)

lemma settles_emit: "settles sy s (emit_log x s)"
  by (simp add: settles_def sources_def)

lemma tame_later: "tame k es \<Longrightarrow> tame k (\<lambda>i. es (Suc i))"
  unfolding tame_def by (metis add_Suc)

lemma settles_io: "settles sy s (s\<lparr>io := (\<lambda>i. io s (Suc i))\<rparr>)"
  by (simp add: settles_def sources_def tame_later)

lemma ready_fields [simp]:
  "ready sy (upd_filed t g s) = ready sy s" "ready sy (emit_log x s) = ready sy s" "ready sy (s\<lparr>reenter := b\<rparr>) = ready sy s"
  by (simp_all add: ready_def)

lemma settles_ready: "settles sy s s1 \<Longrightarrow> ready sy s \<Longrightarrow> ready sy s1"
  by (simp add: settles_def ready_def)

lemma settles_upd:
  assumes "valid_target t s" "live sy (g (get_filed t s)) \<longrightarrow> live sy (get_filed t s)"
  shows "settles sy s (upd_filed t g s)"
  using sources_upd [OF assms(1), of sy g] assms(2) by (auto simp: settles_def of_bool_def split: if_splits)

lemma sources_dead:
  assumes "valid_target t s" "live sy (get_filed t s)" "\<not> live sy (g (get_filed t s))"
  shows "sources sy (upd_filed t g s) < sources sy s"
  using sources_upd [OF assms(1), of sy g] assms(2,3) by simp

text \<open>What the parts of \<open>fprintlog\<close> do, for a \<open>logmsg\<close> that is good for fewer sources of errors.\<close>

lemma logerror_settles:
  "good_logger sy n logm \<Longrightarrow> sources sy s < n \<Longrightarrow> ready sy s \<Longrightarrow> settles sy s (logerror sy logm errno ty s)"
  by (simp add: logerror_def good_logger_def)

lemma live_un: "live sy (f\<lparr>f_un := u\<rparr>) = live sy f" "live sy (f\<lparr>f_file := fd\<rparr>) = live sy f"
  "live sy (f\<lparr>f_prevcount := c\<rparr>) = live sy f"
  by (simp_all add: live_def)

lemma give_up_settles:
  assumes "good_logger sy n logm" "sources sy s \<le> n" "ready sy s" "valid_target t s" "live sy (get_filed t s)"
  shows "settles sy s (give_up sy logm t errno s)"
proof -
  define s1 where "s1 = upd_filed t (\<lambda>f. f\<lparr>f_type := F_UNUSED\<rparr>) s"
  have d: "sources sy s1 < sources sy s" unfolding s1_def by (rule sources_dead) (use assms in \<open>simp_all add: live_def\<close>)
  have a: "settles sy s s1" unfolding s1_def by (rule settles_upd) (use assms in \<open>simp_all add: live_def\<close>)
  have b: "settles sy s1 (logerror sy logm errno (fname (get_filed t s)) s1)"
    by (rule logerror_settles [OF assms(1)]) (use d assms in \<open>simp_all add: s1_def\<close>)
  have v: "valid_target t (logerror sy logm errno (fname (get_filed t s)) s1)"
    using settles_valid [OF settles_trans [OF a b]] assms(4) by simp
  have c: "settles sy (logerror sy logm errno (fname (get_filed t s)) s1)
      (upd_filed t (\<lambda>f. f\<lparr>f_un := Un_fname None\<rparr>) (logerror sy logm errno (fname (get_filed t s)) s1))"
    by (rule settles_upd [OF v]) (simp add: live_un)
  show ?thesis using settles_trans [OF settles_trans [OF a b] c] by (simp add: give_up_def Let_def s1_def)
qed

lemma next_io_settles: "next_io s = (err, s1) \<Longrightarrow> settles sy s s1 \<and> get_filed t s1 = get_filed t s"
  by (auto simp: next_io_def settles_io get_filed_def split: target.splits)

lemma get_emit [simp]: "get_filed t (emit_log x s) = get_filed t s"
  by (simp add: get_filed_def split: target.splits)

lemma settles_keeps:
  "settles sy s s1 \<Longrightarrow> sources sy s \<le> n \<Longrightarrow> ready sy s \<Longrightarrow> valid_target t s
    \<Longrightarrow> sources sy s1 \<le> n \<and> ready sy s1 \<and> valid_target t s1"
  using settles_valid [of sy s s1 t] settles_ready [of sy s s1] by (auto simp: settles_def)

text \<open>Opening a terminal again: within \<open>k\<close> attempts there is a result of another kind.\<close>

definition soon :: "nat \<Rightarrow> syslogd \<Rightarrow> bool" where
  "soon k s \<longleftrightarrow> (\<exists>j \<le> k. io s j \<noteq> EIO \<and> io s j \<noteq> EBADF)"

lemma ready_soon: "ready sy s \<Longrightarrow> soon (s_tries sy) s"
  unfolding ready_def tame_def soon_def by (metis add_0)

lemma soon_next:
  assumes "next_io s = (err, s1)" "soon k s" "err = EIO \<or> err = EBADF"
  obtains k' where "k = Suc k'" "soon k' s1"
proof -
  obtain j where j: "j \<le> k" "io s j \<noteq> EIO" "io s j \<noteq> EBADF" using assms(2) by (auto simp: soon_def)
  have e: "io s 0 = err" "io s1 = (\<lambda>i. io s (Suc i))" using assms(1) by (auto simp: next_io_def)
  then obtain i where i: "j = Suc i" using j assms(3) by (cases j) auto
  then show thesis using j e that [of "k - 1"] by (cases k) (auto simp: soon_def)
qed

lemma soon_fields [simp]: "soon k (upd_filed t g s) = soon k s" "soon k (emit_log x s) = soon k s"
  by (simp_all add: soon_def)

lemma write_file_settles:
  assumes "good_logger sy n logm" "sources sy s \<le> n" "ready sy s" "valid_target t s" "live sy (get_filed t s)" "soon k s"
  shows "settles sy s (write_file k sy logm t fl e s)"
  using assms
proof (induction k arbitrary: s rule: less_induct)
  case (less k)
  obtain err s1 where n: "next_io s = (err, s1)" by fastforce
  let ?f = "get_filed t s"
  define s2 where "s2 = emit_log (Out_close (f_file ?f)) s1"
  have a2: "settles sy s s2" and g2: "get_filed t s2 = ?f"
    using next_io_settles [OF n, of sy t] settles_trans [OF _ settles_emit] by (auto simp: s2_def)
  note k2 = settles_keeps [OF a2 less.prems(2-4)]
  define s3 where "s3 = upd_filed t (\<lambda>f. f\<lparr>f_file := s_open sy (fname ?f)\<rparr>) s2"
  have a3: "settles sy s s3" unfolding s3_def
    by (rule settles_trans [OF a2 settles_upd]) (use k2 in \<open>simp_all add: live_un\<close>)
  have g3: "live sy (get_filed t s3)" using k2 less.prems(5) by (simp add: s3_def g2 live_un)
  note k3 = settles_keeps [OF a3 less.prems(2-4)]
  have gu: "settles sy s (give_up sy logm t err s2)" "settles sy s (give_up sy logm t x s3)" for x
    using settles_trans [OF a2 give_up_settles [OF less.prems(1)]] settles_trans [OF a3 give_up_settles [OF less.prems(1)]]
      k2 k3 less.prems(5) g2 g3 by simp_all
  have ok: "settles sy s (emit_log y (emit_log x s1))" "settles sy s (emit_log x s1)" "settles sy s s1" for x y
    using next_io_settles [OF n, of sy t] settles_trans settles_emit by metis+
  show ?case
  proof (cases "err \<noteq> 0 \<and> \<not> (f_type ?f = F_PIPE \<and> err = EAGAIN) \<and> (err = EIO \<or> err = EBADF)
      \<and> (f_type ?f = F_TTY \<or> f_type ?f = F_CONSOLE) \<and> \<not> s_open sy (fname ?f) < 0")
    case True
    then obtain k' where k': "k = Suc k'" "soon k' s1" using soon_next [OF n less.prems(6)] by blast
    then have "settles sy s3 (write_file k' sy logm t fl e s3)"
      using less.IH [of k' s3] k3 g3 less.prems(1) by (simp add: s3_def s2_def)
    with True show ?thesis using settles_trans [OF a3] n k'(1)
      by (subst write_file.simps) (auto simp: Let_def simp flip: s2_def s3_def)
  next
    case False
    then show ?thesis using n gu ok
      by (subst write_file.simps) (auto simp: Let_def simp flip: s2_def s3_def)
  qed
qed

lemma f_forw_settles:
  assumes "good_logger sy n logm" "sources sy s \<le> n" "ready sy s" "valid_target t s"
    "f_type (get_filed t s) = F_FORW"
  shows "settles sy s (f_forw sy logm t from e s)"
proof -
  have lv: "live sy (get_filed t s)" using assms(5) by (simp add: live_def)
  define s1 where "s1 = upd_filed t (\<lambda>f. f\<lparr>f_time := now s\<rparr>) s"
  have a1: "settles sy s s1" unfolding s1_def by (rule settles_upd) (use assms lv in simp_all)
  have g1: "f_type (get_filed t s1) = F_FORW" "f_time (get_filed t s1) = s_time sy" using assms by (simp_all add: s1_def ready_def)
  have b: "settles sy s (case next_io (emit_log x s1) of (err, s3) \<Rightarrow> if err = 0 then s3
      else logerror sy logm err ''sendto'' (upd_filed t (\<lambda>f. f\<lparr>f_type := F_FORW_SUSP\<rparr>) s3))" for x
  proof -
    obtain err s3 where n: "next_io (emit_log x s1) = (err, s3)" by fastforce
    have a3: "settles sy s s3" and g3: "get_filed t s3 = get_filed t s1"
      using next_io_settles [OF n, of sy t] settles_trans [OF settles_trans [OF a1 settles_emit]] by auto
    note k3 = settles_keeps [OF a3 assms(2-4)]
    define s4 where "s4 = upd_filed t (\<lambda>f. f\<lparr>f_type := F_FORW_SUSP\<rparr>) s3"
    have nl: "\<not> live sy ((get_filed t s3)\<lparr>f_type := F_FORW_SUSP\<rparr>)" using g1 g3 by (simp add: live_def)
    have "sources sy s4 < sources sy s3" unfolding s4_def
      by (rule sources_dead) (use k3 g1 g3 nl in \<open>simp_all add: live_def\<close>)
    then have lt: "sources sy s4 < n" "ready sy s4" using k3 by (simp_all add: s4_def)
    have a4: "settles sy s s4" unfolding s4_def by (rule settles_trans [OF a3 settles_upd]) (use k3 nl in simp_all)
    show ?thesis using a3 settles_trans [OF a4 logerror_settles [OF assms(1) lt]] by (simp add: n s4_def)
  qed
  show ?thesis using b settles_refl
    by (auto simp: f_forw_def Let_def s1_def split: f_un.splits option.splits)
qed

lemma wall_users_settles:
  assumes "good_logger sy n logm" "sources sy s < n" "ready sy s"
  shows "settles sy s (wall_users sy logm P e us s)"
  using assms(2,3)
proof (induction us arbitrary: s)
  case (Cons u us)
  obtain line user where u: "u = (line, user)" by fastforce
  define s1 where "s1 = emit_log (Out_tty line e) s"
  define s2 where "s2 = (case s_ttymsg sy line of None \<Rightarrow> s1 | Some err \<Rightarrow> logerror sy logm 0 err s1)"
  have k1: "sources sy s1 < n" "ready sy s1" using Cons.prems by (simp_all add: s1_def sources_def)
  have a2: "settles sy s s2"
    using settles_emit [of sy s "Out_tty line e"] logerror_settles [OF assms(1) k1]
    by (auto simp: s2_def s1_def intro: settles_trans split: option.splits)
  then have "sources sy s2 < n" "ready sy s2" using Cons.prems settles_ready [OF a2] by (auto simp: settles_def)
  from settles_trans [OF a2 Cons.IH [OF this]] Cons.IH [OF Cons.prems] show ?case
    by (simp add: u Let_def flip: s1_def s2_def)
qed (simp add: settles_refl)

lemma wallmsg_settles:
  assumes "good_logger sy n logm" "sources sy s \<le> n" "ready sy s"
  shows "settles sy s (wallmsg sy logm t e s)"
proof (cases "reenter s")
  case False
  have lt: "sources sy (s\<lparr>reenter := True\<rparr>) < n" using False assms(2) by (simp add: sources_def)
  from wall_users_settles [OF assms(1) lt, of "wall_wanted (get_filed t s)" e "s_utmp sy"] assms(3) False show ?thesis
    by (simp add: wallmsg_def settles_def sources_def)
qed (simp add: wallmsg_def settles_refl)

lemma set_time_settles:
  assumes "valid_target t s" "f_type (get_filed t s) \<noteq> F_FORW_SUSP"
  shows "settles sy s (set_time t s) \<and> f_type (get_filed t (set_time t s)) = f_type (get_filed t s)"
proof -
  have "live sy ((get_filed t s)\<lparr>f_time := now s\<rparr>) = live sy (get_filed t s)" using assms(2) by (simp add: live_def)
  then show ?thesis using assms(1) settles_upd by (simp add: set_time_def)
qed

lemma retry_host_settles:
  assumes "good_logger sy n logm" "sources sy s \<le> n" "ready sy s" "valid_target t s"
    "f_type (get_filed t s) = F_FORW_UNKN"
  shows "settles sy s (retry_host sy logm t from e s)"
proof -
  have lv: "live sy (get_filed t s)" using assms(5) by (simp add: live_def)
  have a: "settles sy s (upd_filed t g s)" for g by (rule settles_upd) (use assms lv in simp_all)
  have b: "settles sy s (f_forw sy logm t from e (upd_filed t g s))" if "\<And>f. f_type (g f) = F_FORW" for g
    using settles_trans [OF a f_forw_settles [OF assms(1)]] settles_keeps [OF a assms(2-4)] assms(4) that by simp
  show ?thesis using a b settles_refl
    by (auto simp: retry_host_def Let_def split: f_un.splits option.splits gai.splits)
qed

lemma fprintlog_settles:
  assumes "good_logger sy n logm" "sources sy s \<le> n" "ready sy s" "valid_target t s"
  shows "settles sy s (fprintlog sy logm t from fl msg s)"
proof -
  let ?f = "get_filed t s" and ?e = "log_entry (get_filed t s) msg"
  define s0 where "s0 = set_time t s"
  have w: "settles sy s (set_time t s)" "settles sy s (write_file (s_tries sy) sy logm t fl ?e (set_time t s))"
    if "f_type ?f \<in> {F_FILE, F_TTY, F_CONSOLE, F_PIPE}"
  proof -
    have a: "settles sy s s0" "f_type (get_filed t s0) = f_type ?f"
      using set_time_settles [OF assms(4), of sy] that by (auto simp: s0_def)
    moreover have "live sy (get_filed t s0)" using a(2) that by (auto simp: live_def)
    ultimately show "settles sy s (set_time t s)" "settles sy s (write_file (s_tries sy) sy logm t fl ?e (set_time t s))"
      using settles_trans [OF a(1) write_file_settles [OF assms(1)]] settles_keeps [OF a(1) assms(2-4)] ready_soon
      by (auto simp: s0_def)
  qed
  have u: "settles sy s (set_time t s)" "settles sy s (wallmsg sy logm t ?e (set_time t s))"
    if "f_type ?f \<in> {F_UNUSED, F_USERS, F_WALL}"
  proof -
    have a: "settles sy s s0" using set_time_settles [OF assms(4), of sy] that by (auto simp: s0_def)
    then show "settles sy s (set_time t s)" "settles sy s (wallmsg sy logm t ?e (set_time t s))"
      using settles_trans [OF a wallmsg_settles [OF assms(1)]] settles_keeps [OF a assms(2-4)] by (auto simp: s0_def)
  qed
  have p: "settles sy s (f_forw sy logm t from ?e (upd_filed t (\<lambda>f. f\<lparr>f_type := F_FORW\<rparr>) s))"
    if "f_type ?f = F_FORW_SUSP" "INET_SUSPEND_TIME \<le> s_time sy - f_time ?f"
  proof -
    have a: "settles sy s (upd_filed t (\<lambda>f. f\<lparr>f_type := F_FORW\<rparr>) s)"
      by (rule settles_upd) (use assms that in \<open>simp_all add: live_def\<close>)
    show ?thesis
      using settles_trans [OF a f_forw_settles [OF assms(1)]] settles_keeps [OF a assms(2-4)] assms(4) by simp
  qed
  define s1 where "s1 = fprintlog_out sy logm t from fl ?e s"
  have a1: "settles sy s s1"
    unfolding s1_def fprintlog_out_def
    using w u p f_forw_settles [OF assms, of "from" ?e] retry_host_settles [OF assms, of "from" ?e] settles_refl
    by (cases "f_type ?f") auto
  have "settles sy s (upd_filed t (\<lambda>f. f\<lparr>f_prevcount := 0\<rparr>) s1)"
    by (rule settles_trans [OF a1 settles_upd]) (use settles_keeps [OF a1 assms(2-4)] in \<open>simp_all add: live_un\<close>)
  with a1 show ?thesis by (simp add: fprintlog_def Let_def s1_def)
qed

text \<open>The loop over the entries.\<close>

lemma upd_same_settles:
  assumes "valid_target t s" "\<And>f. f_type (g f) = f_type f" "\<And>f. f_time (g f) = f_time f"
  shows "settles sy s (upd_filed t g s)"
  by (rule settles_upd) (use assms in \<open>simp_all add: live_def\<close>)

lemma upd_fprintlog_settles:
  assumes "good_logger sy n logm" "sources sy s \<le> n" "ready sy s" "valid_target t s"
    and "\<And>f. f_type (g f) = f_type f" "\<And>f. f_time (g f) = f_time f"
  shows "settles sy s (fprintlog sy logm t from fl msg (upd_filed t g s))"
proof -
  have a: "settles sy s (upd_filed t g s)" by (rule upd_same_settles) (use assms in simp_all)
  show ?thesis using settles_trans [OF a fprintlog_settles [OF assms(1)]] settles_keeps [OF a assms(2-4)] by simp
qed

lemma log_repeat_settles:
  assumes "good_logger sy n logm" "sources sy s \<le> n" "ready sy s" "valid_target t s"
  shows "settles sy s (log_repeat sy logm stamp from fl t s)"
proof -
  let ?g = "\<lambda>f :: filed. f\<lparr>f_lasttime := take 15 stamp, f_prevcount := f_prevcount f + 1\<rparr>"
  have a: "settles sy s (upd_filed t ?g s)" by (rule upd_same_settles) (use assms in simp_all)
  have b: "settles sy s (fprintlog sy logm t from fl None (upd_filed t ?g s))"
    by (rule upd_fprintlog_settles [OF assms]) simp_all
  have c: "settles sy s (upd_filed t BACKOFF (fprintlog sy logm t from fl None (upd_filed t ?g s)))"
    by (rule settles_trans [OF b upd_same_settles]) (use settles_keeps [OF b assms(2-4)] in \<open>simp_all add: BACKOFF_def\<close>)
  show ?thesis using a c by (simp add: log_repeat_def Let_def)
qed

lemma log_new_settles:
  assumes "good_logger sy n logm" "sources sy s \<le> n" "ready sy s" "valid_target t s"
  shows "settles sy s (log_new sy logm pri stamp msg from fl t s)"
proof -
  let ?g = "\<lambda>f :: filed. f\<lparr>f_repeatcount := 0, f_lasttime := take 15 stamp, f_prevhost := Some from\<rparr>"
  define s1 where "s1 = (if f_prevcount (get_filed t s) \<noteq> 0 then fprintlog sy logm t from no_flags None s else s)"
  have a1: "settles sy s s1" using fprintlog_settles [OF assms] settles_refl by (simp add: s1_def)
  note k1 = settles_keeps [OF a1 assms(2-4)]
  have a2: "settles sy s (upd_filed t ?g s1)"
    by (rule settles_trans [OF a1 upd_same_settles]) (use k1 in simp_all)
  note k2 = settles_keeps [OF a2 assms(2-4)]
  have b: "settles sy s (fprintlog sy logm t from fl m (upd_filed t h (upd_filed t ?g s1)))"
    if "\<And>f. f_type (h f) = f_type f" "\<And>f. f_time (h f) = f_time f" for m h
    by (rule settles_trans [OF a2 upd_fprintlog_settles [OF assms(1)]]) (use k2 that in simp_all)
  show ?thesis using b by (simp add: log_new_def Let_def flip: s1_def)
qed

lemma fold_settles:
  assumes "\<And>i s. i \<in> set is \<Longrightarrow> sources sy s \<le> n \<Longrightarrow> ready sy s \<Longrightarrow> length (Files s) = k \<Longrightarrow> settles sy s (F i s)"
    and "sources sy s \<le> n" "ready sy s" "length (Files s) = k"
  shows "settles sy s (fold F is s)"
  using assms
proof (induction "is" arbitrary: s)
  case (Cons i xs)
  then have a: "settles sy s (F i s)" by simp
  have k: "sources sy (F i s) \<le> n" "ready sy (F i s)" "length (Files (F i s)) = k"
    using a Cons.prems(2-4) settles_ready [OF a] by (simp_all add: settles_def)
  have "settles sy (F i s) (fold F xs (F i s))" by (rule Cons.IH [OF Cons.prems(1) k]) simp
  with a show ?case by (auto intro: settles_trans)
qed (simp add: settles_refl)

lemma log_console_settles:
  assumes "good_logger sy n logm" "sources sy s \<le> n" "ready sy s"
  shows "settles sy s (log_console sy logm msg from fl s)"
proof -
  let ?g = "\<lambda>f :: filed. f\<lparr>f_file := s_open sy (s_ctty sy), f_prevhost := Some (LocalHostName s)\<rparr>"
  have v: "valid_target Console s" by (simp add: valid_target_def)
  have a: "settles sy s (upd_filed Console ?g s)" by (rule upd_same_settles [OF v]) simp_all
  have b: "settles sy s (fprintlog sy logm Console from fl m (upd_filed Console ?g s))" for m
    by (rule upd_fprintlog_settles [OF assms v]) simp_all
  show ?thesis using a settles_trans [OF b settles_emit] by (simp add: log_console_def Let_def)
qed

lemma logmsg_body_settles:
  assumes "good_logger sy n logm" "sources sy s \<le> n" "ready sy s"
  shows "settles sy s (logmsg_body sy logm pri msg from fl s)"
proof -
  have now: "s\<lparr>now := s_time sy\<rparr> = s" using assms(3) by (simp add: ready_def)
  have "settles sy s (fold (log_file sy logm pri stamp m from fl1) [0..<length (Files s)] s)" for stamp m fl1
  proof (rule fold_settles [where n = n and k = "length (Files s)"])
    fix i s1 assume i: "i \<in> set [0..<length (Files s)]" "sources sy s1 \<le> n" "ready sy s1" "length (Files s1) = length (Files s)"
    then have v: "valid_target (Entry i) s1" by (simp add: valid_target_def)
    show "settles sy s1 (log_file sy logm pri stamp m from fl1 i s1)"
      using log_repeat_settles [OF assms(1) i(2,3) v] log_new_settles [OF assms(1) i(2,3) v] settles_refl
      by (simp add: log_file_def)
  qed (use assms in simp_all)
  then show ?thesis using log_console_settles [OF assms] by (simp add: logmsg_body_def Let_def now)
qed

lemma logmsg_good: "good_logger sy n (logmsg n sy)"
proof (induction n)
  case (Suc n)
  then show ?case using logmsg_body_settles by (auto simp: good_logger_def [of sy "Suc n"])
qed (simp add: good_logger_def)

lemma sources_bound: "sources sy s \<le> length (Files s) + 2"
  using length_filter_le [of "live sy" "Files s"] by (auto simp: sources_def of_bool_def le_SucI)

lemma logmsg_settles:
  assumes "length (Files s) + 2 < n" "tame (s_tries sy) (io s)"
  shows "settles sy (s\<lparr>now := s_time sy\<rparr>) (logmsg n sy pri msg from fl s)"
proof -
  obtain m where m: "n = Suc m" using assms by (cases n) auto
  let ?s = "s\<lparr>now := s_time sy\<rparr>"
  have "settles sy ?s (logmsg_body sy (logmsg m sy) pri msg from fl ?s)"
    by (rule logmsg_body_settles [OF logmsg_good]) (use sources_bound [of sy ?s] assms m in \<open>auto simp: ready_def\<close>)
  moreover have "logmsg_body sy (logmsg m sy) pri msg from fl ?s = logmsg_body sy (logmsg m sy) pri msg from fl s"
    by (simp add: logmsg_body_def Let_def)
  ultimately show ?thesis by (simp add: m)
qed

text \<open>(C24) Errors while logging come to an end.  Whatever writes, sends and lookups fail, \<open>logmsg\<close> and \<open>printline\<close>
  return: the calls of \<open>logmsg\<close> from \<open>logerror\<close> are never nested deeper than the number of entries and three,
  because an entry that failed is given up or suspended before its error is logged, and an error of a
  terminal is not sent to terminals.  Excepted is a terminal that can be opened but not written to, which \<open>fprintlog\<close> opens again
  as long as the error is \<open>EIO\<close> or \<open>EBADF\<close>: these errors may come at any time, but only up to \<open>s_tries\<close> times
  in a row, for a bound \<open>s_tries\<close> that may be any number.\<close>

theorem errors_end:
  assumes "length (Files s) + 2 < n" "\<not> stuck s" "\<forall>i. \<exists>j \<le> s_tries sy. io s (i + j) \<notin> {EIO, EBADF}"
  shows "\<not> stuck (logmsg n sy pri msg from fl s) \<and> \<not> stuck (printline (logmsg n sy) hname line s)"
proof -
  have a: "\<not> stuck (logmsg n sy pri msg from fl s) \<and> length (Files (logmsg n sy pri msg from fl s)) = length (Files s)
      \<and> tame (s_tries sy) (io (logmsg n sy pri msg from fl s))"
    if "length (Files s) + 2 < n" "\<not> stuck s" "tame (s_tries sy) (io s)" for pri msg "from" fl s
    using logmsg_settles [OF that(1,3), of pri msg "from" fl] that(2,3) by (simp add: settles_def)
  have "tame (s_tries sy) (io s)" using assms(3) by (simp add: tame_def)
  then show ?thesis using a assms(1,2) by (simp add: printline_def Let_def split: prod.splits)
qed

text \<open>A full disk with two entries: both writes fail.\<close>

theorem errors_end_witness:
  "\<not> stuck (logmsg 5 \<lparr>s_getaddrinfo = \<lambda>_. Gai_error, s_open = \<lambda>_. 3, s_isatty = \<lambda>_. False, s_time = 100, s_ctty = [],
      s_ctime = \<lambda>_. ''Thu Jan  1 00:01:40 1970'', s_socket = False, s_utmp = [], s_ttymsg = \<lambda>_. None, s_strerror = \<lambda>_. [],
      s_tries = 0\<rparr>
    13 ''su: no'' ''h'' no_flags
    \<lparr>Files = replicate 2 ((filed_zero (\<lambda>_. 0))\<lparr>f_type := F_FILE, f_file := 3, f_pmask := \<lambda>_. 255\<rparr>), consfile = filed_zero (\<lambda>_. 0),
     Initialized = True, now = 0, MarkInterval = 1200, MarkSeq = 0, NoHops = True, NoForward = False, force_sync = False,
     LocalHostName = ''h'', reenter = False, io = \<lambda>_. 28, outs = [], stuck = False\<rparr>)"
  by (rule conjunct1 [OF errors_end]) simp_all

text \<open>
  The loop in \<open>fprintlog\<close> itself has no end: for a terminal that can be opened while every write to it fails, no number of
  attempts is enough.
\<close>

theorem reopening_never_ends:
  assumes "valid_target t s" "f_type (get_filed t s) = F_TTY \<or> f_type (get_filed t s) = F_CONSOLE"
    "0 \<le> s_open sy (fname (get_filed t s))" "\<forall>i. io s i \<in> {EIO, EBADF}"
  shows "stuck (write_file k sy logm t fl e s)"
  using assms
proof (induction k arbitrary: s)
  case 0
  have "io s 0 = EIO \<or> io s 0 = EBADF" using 0(4) by auto
  then show ?case using 0(2,3) by (elim disjE; subst write_file.simps) (auto simp: next_io_def Let_def)
next
  case (Suc k)
  let ?f = "get_filed t s"
  define s3 where "s3 = upd_filed t (\<lambda>f. f\<lparr>f_file := s_open sy (fname ?f)\<rparr>) (emit_log (Out_close (f_file ?f)) (s\<lparr>io := (\<lambda>i. io s (Suc i))\<rparr>))"
  have e: "io s 0 = EIO \<or> io s 0 = EBADF" using Suc.prems(4) by auto
  have v: "valid_target t (emit_log (Out_close (f_file ?f)) (s\<lparr>io := (\<lambda>i. io s (Suc i))\<rparr>))" "valid_target t s3"
    using Suc.prems(1) by (auto simp: s3_def valid_target_def split: target.splits)
  have g: "get_filed t s3 = ?f\<lparr>f_file := s_open sy (fname ?f)\<rparr>"
    using get_upd [OF v(1)] by (simp add: s3_def) (simp add: get_filed_def split: target.splits)
  have "fname (get_filed t s3) = fname ?f" by (simp add: g fname_def)
  moreover have "io s3 = (\<lambda>i. io s (Suc i))" by (simp add: s3_def)
  ultimately have "stuck (write_file k sy logm t fl e s3)" using Suc.IH [OF v(2)] Suc.prems(2-4) g by simp
  then show ?case using e Suc.prems(2,3)
    by (elim disjE; subst write_file.simps) (auto simp: next_io_def Let_def simp flip: s3_def)
qed

section \<open>Bounds of the input\<close>

lemma LOG_FAC_le: "LOG_FAC p \<le> 127"
proof -
  have "p AND LOG_FACMASK \<le> LOG_FACMASK" by (rule AND_upper2) simp
  then have "(p AND LOG_FACMASK) div 8 \<le> 127" by linarith
  then show ?thesis by (simp add: LOG_FAC_def drop_bit_eq_div)
qed

lemma LOG_FAC_user: "LOG_FAC (LOG_USER OR LOG_PRI p) = 1"
proof -
  have "(LOG_USER OR (p AND 7)) AND LOG_FACMASK = 8" by (simp add: bit.conj_disj_distrib2 and.assoc)
  then show ?thesis by (simp add: LOG_FAC_def LOG_PRI_def)
qed

lemma clean_line_length: "n \<le> MAXLINE + 1 \<Longrightarrow> n + length (clean_line n s) \<le> MAXLINE + 1"
proof (induction n s rule: clean_line.induct)
  case (2 n c s)
  then show ?case by (auto simp: Let_def)
qed simp

lemma clean_line_plain:
  "list_all (\<lambda>c. c = TAB \<or> 32 \<le> (of_char c :: nat)) (clean_line n s)"
proof (induction n s rule: clean_line.induct)
  case (2 n c s)
  have "of_char (char_of (of_char c + 64 :: nat)) = (of_char c + 64 :: nat)" if "(of_char c :: nat) < 32"
    using that by simp
  with 2 show ?case by auto
qed simp

lemma clean_line_full: "n + k = MAXLINE - 1 \<Longrightarrow> length (clean_line n (replicate k CHR ''a'' @ [CHR 0x01])) = k + 2"
  by (induction k arbitrary: n) auto

text \<open>(C34) What reaches \<open>logmsg\<close> from the network.  The line has no control characters besides the tab and \<open>DEL\<close>, and a
  message is never taken for one of the kernel.  But the line may have 1025 characters, one more than fits with its null
  character into the array of 1025, which happens for a message of 1024 bytes that ends with a control character;
  and the facility, the index into \<open>f_pmask\<close> with its 25 elements, may be as large as 127, and is 124 for
  the priority 999.\<close>

theorem message_bounds:
  "list_all (\<lambda>c. c = TAB \<or> 32 \<le> (of_char c :: nat)) (snd (user_message msg))
    \<and> LOG_FAC (fst (user_message msg)) \<noteq> LOG_KERN
    \<and> length (snd (user_message msg)) \<le> MAXLINE + 1 \<and> LOG_FAC (fst (user_message msg)) \<le> 127
    \<and> length (snd (user_message (replicate (MAXLINE - 1) CHR ''a'' @ [CHR 0x01]))) = MAXLINE + 1
    \<and> log_fac (fst (user_message ''<999>x'')) no_flags = 124"
proof (intro conjI)
  show "list_all (\<lambda>c. c = TAB \<or> 32 \<le> (of_char c :: nat)) (snd (user_message msg))"
    by (simp add: user_message_def clean_line_plain split: prod.splits)
  show "LOG_FAC (fst (user_message msg)) \<noteq> LOG_KERN"
    using LOG_FAC_user by (simp add: user_message_def split: prod.splits)
  show "length (snd (user_message msg)) \<le> MAXLINE + 1"
    using clean_line_length [of 0] by (simp add: user_message_def split: prod.splits)
  show "LOG_FAC (fst (user_message msg)) \<le> 127" by (rule LOG_FAC_le)
  show "length (snd (user_message (replicate (MAXLINE - 1) CHR ''a'' @ [CHR 0x01]))) = MAXLINE + 1"
    using clean_line_full [of 0 "MAXLINE - 1"] by (simp add: user_message_def parse_pri_def)
  show "log_fac (fst (user_message ''<999>x'')) no_flags = 124" by code_simp
qed

end
