(* ===== verification/Inetd_Config.thy ===== *)
theory Inetd_Config
  imports Prelude Argcv
begin

text \<open>
  The configuration parser of \<open>src/inetd.c\<close>: entries of the service table (\<open>struct servtab\<close>), the services inetd
  provides itself (\<open>biltins\<close>, \<open>bi_lookup\<close>), the lines of a configuration file (\<open>getconfigent\<close>) and the lists of
  nodes in front of service names (\<open>next_node_sep\<close>).

  The globals of the parser are a record, with the static \<open>serv\<close> that \<open>getconfigent\<close> returns.
  \<open>global_serv_node\<close> is a pointer that may be left pointing to freed memory.  Uses of such memory and of null
  pointers end the program: they are values of \<open>fault\<close>.  IPv6 is compiled in.
\<close>

section \<open>Services\<close>

abbreviation (input) SOCK_STREAM :: int where "SOCK_STREAM \<equiv> 1"
abbreviation (input) SOCK_DGRAM :: int where "SOCK_DGRAM \<equiv> 2"
abbreviation (input) SOCK_RAW :: int where "SOCK_RAW \<equiv> 3"
abbreviation (input) SOCK_RDM :: int where "SOCK_RDM \<equiv> 4"
abbreviation (input) SOCK_SEQPACKET :: int where "SOCK_SEQPACKET \<equiv> 5"
abbreviation (input) AF_INET :: int where "AF_INET \<equiv> 2"
abbreviation (input) AF_INET6 :: int where "AF_INET6 \<equiv> 10"
abbreviation (input) INETD_SERVICE :: nat where "INETD_SERVICE \<equiv> 0"
abbreviation (input) INETD_SOCKET :: nat where "INETD_SOCKET \<equiv> 1"
abbreviation (input) INETD_PROTOCOL :: nat where "INETD_PROTOCOL \<equiv> 2"
abbreviation (input) INETD_WAIT :: nat where "INETD_WAIT \<equiv> 3"
abbreviation (input) INETD_USER :: nat where "INETD_USER \<equiv> 4"
abbreviation (input) INETD_SERVER_PATH :: nat where "INETD_SERVER_PATH \<equiv> 5"
abbreviation (input) INETD_SERVER_ARGS :: nat where "INETD_SERVER_ARGS \<equiv> 6"
abbreviation (input) INETD_FIELDS_MIN :: nat where "INETD_FIELDS_MIN \<equiv> 6"

datatype se_kind = NORM_TYPE | MUX_TYPE | MUXPLUS_TYPE

datatype bi_fn = Echo_stream | Echo_dg | Discard_stream | Discard_dg | Machtime_stream | Machtime_dg
  | Daytime_stream | Daytime_dg | Chargen_stream | Chargen_dg | Tcpmux

record biltin =
  bi_service :: string
  bi_socktype :: int
  bi_fork :: bool
  bi_wait :: int
  bi_fn :: bi_fn

text \<open>Arrays of arguments are the block of memory they are in: \<open>None\<close> in it is a null pointer; there may be none
  at the end.\<close>

record servtab =
  se_file :: string
  se_line :: nat
  se_node :: "string option"
  se_service :: string
  se_socktype :: int
  se_proto :: string
  se_wait :: int
  se_max :: u32
  se_checked :: bool
  se_user :: "string option"
  se_bi :: "biltin option"
  se_server :: string
  se_argv :: "string option list option"
  se_argc :: nat
  se_fd :: int
  se_type :: se_kind
  se_family :: int
  se_v4mapped :: bool
  se_ctrladdr :: "byte list"
  se_addrlen :: nat
  se_count :: int
  se_time :: int

definition ISMUX :: "servtab \<Rightarrow> bool" where
  "ISMUX sep \<longleftrightarrow> se_type sep = MUX_TYPE \<or> se_type sep = MUXPLUS_TYPE"

definition ISMUXPLUS :: "servtab \<Rightarrow> bool" where
  "ISMUXPLUS sep \<longleftrightarrow> se_type sep = MUXPLUS_TYPE"

text \<open>The bytes of a \<open>sockaddr_storage\<close>, cleared before an address is copied to it.\<close>

definition sockaddr_storage :: "byte list \<Rightarrow> byte list" where
  "sockaddr_storage a = take 128 (a @ replicate 128 0)"

text \<open>An entry after \<open>memset\<close>.\<close>

definition serv_zero :: servtab where
  "serv_zero = \<lparr>se_file = [], se_line = 0, se_node = None, se_service = [], se_socktype = 0, se_proto = [],
     se_wait = 0, se_max = 0, se_checked = False, se_user = None, se_bi = None, se_server = [], se_argv = None,
     se_argc = 0, se_fd = 0, se_type = NORM_TYPE, se_family = 0, se_v4mapped = False,
     se_ctrladdr = sockaddr_storage [], se_addrlen = 0, se_count = 0, se_time = 0\<rparr>"

definition biltins :: "biltin list" where
  "biltins =
    [\<lparr>bi_service = ''echo'', bi_socktype = SOCK_STREAM, bi_fork = True, bi_wait = 0, bi_fn = Echo_stream\<rparr>,
     \<lparr>bi_service = ''echo'', bi_socktype = SOCK_DGRAM, bi_fork = False, bi_wait = 0, bi_fn = Echo_dg\<rparr>,
     \<lparr>bi_service = ''discard'', bi_socktype = SOCK_STREAM, bi_fork = True, bi_wait = 0, bi_fn = Discard_stream\<rparr>,
     \<lparr>bi_service = ''discard'', bi_socktype = SOCK_DGRAM, bi_fork = False, bi_wait = 0, bi_fn = Discard_dg\<rparr>,
     \<lparr>bi_service = ''time'', bi_socktype = SOCK_STREAM, bi_fork = False, bi_wait = 0, bi_fn = Machtime_stream\<rparr>,
     \<lparr>bi_service = ''time'', bi_socktype = SOCK_DGRAM, bi_fork = False, bi_wait = 0, bi_fn = Machtime_dg\<rparr>,
     \<lparr>bi_service = ''daytime'', bi_socktype = SOCK_STREAM, bi_fork = False, bi_wait = 0, bi_fn = Daytime_stream\<rparr>,
     \<lparr>bi_service = ''daytime'', bi_socktype = SOCK_DGRAM, bi_fork = False, bi_wait = 0, bi_fn = Daytime_dg\<rparr>,
     \<lparr>bi_service = ''chargen'', bi_socktype = SOCK_STREAM, bi_fork = True, bi_wait = 0, bi_fn = Chargen_stream\<rparr>,
     \<lparr>bi_service = ''chargen'', bi_socktype = SOCK_DGRAM, bi_fork = False, bi_wait = 0, bi_fn = Chargen_dg\<rparr>,
     \<lparr>bi_service = ''tcpmux'', bi_socktype = SOCK_STREAM, bi_fork = True, bi_wait = 0, bi_fn = Tcpmux\<rparr>]"

definition bi_lookup :: "servtab \<Rightarrow> biltin option" where
  "bi_lookup sep = find (\<lambda>bi. bi_socktype bi = se_socktype sep \<and> bi_service bi = se_service sep) biltins"

section \<open>The parser\<close>

datatype fault = Use_after_free | Double_free | Before_string | Null_user

datatype diag = Not_enough_fields | Bad_socket_type | Bad_wait_type | Invalid_number string
  | Bad_mux_protocol string | Bad_mux_socket string | Internal_unknown string

datatype node_ptr = Null | Live string | Freed

record parser =
  global_serv_node :: node_ptr
  serv_node :: "string option"
  serv_node_offset :: nat
  serv :: servtab
  diags :: "(string \<times> nat \<times> diag) list"

definition report :: "string \<Rightarrow> nat \<Rightarrow> diag \<Rightarrow> parser \<Rightarrow> parser" where
  "report file line d p = p\<lparr>diags := diags p @ [(file, line, d)]\<rparr>"

text \<open>The next element of the list of nodes.\<close>

definition next_node_sep :: "parser \<Rightarrow> parser" where
  "next_node_sep p =
     (case serv_node p of
        None \<Rightarrow> p
      | Some s \<Rightarrow>
          let r = drop (serv_node_offset p) s;
              i = length (takeWhile (\<lambda>c. c \<noteq> CHR '','') r);
              off = serv_node_offset p + i;
              q = p\<lparr>serv := (serv p)\<lparr>se_node := Some (take i r)\<rparr>\<rparr>
          in if off < length s then q\<lparr>serv_node_offset := off + 1\<rparr>
             else q\<lparr>serv_node_offset := off, serv_node := None\<rparr>)"

text \<open>What \<open>strrchr\<close> and \<open>strchr\<close> find, as the strings before and after the character.\<close>

definition split_rchr :: "char \<Rightarrow> string \<Rightarrow> (string \<times> string) option" where
  "split_rchr c s =
     (if c \<in> set s
      then Some (rev (tl (dropWhile (\<lambda>d. d \<noteq> c) (rev s))), rev (takeWhile (\<lambda>d. d \<noteq> c) (rev s))) else None)"

definition split_chr :: "char \<Rightarrow> string \<Rightarrow> (string \<times> string) option" where
  "split_chr c s =
     (if c \<in> set s then Some (takeWhile (\<lambda>d. d \<noteq> c) s, tl (dropWhile (\<lambda>d. d \<noteq> c) s)) else None)"

definition c_digit :: "char \<Rightarrow> bool" where
  "c_digit c \<longleftrightarrow> 48 \<le> (of_char c :: nat) \<and> (of_char c :: nat) \<le> 57"

text \<open>\<open>strtoul\<close> with base 10: the value and what follows the number.\<close>

definition strtoul10 :: "string \<Rightarrow> nat \<times> string" where
  "strtoul10 s =
     (let t = dropWhile ctype_space s;
          neg = (t \<noteq> [] \<and> hd t = CHR ''-'');
          u = (if t \<noteq> [] \<and> (hd t = CHR ''-'' \<or> hd t = CHR ''+'') then tl t else t);
          ds = takeWhile c_digit u;
          n = foldl (\<lambda>n c. 10 * n + (of_char c - 48)) 0 ds
      in if ds = [] then (0, s)
         else (if n \<ge> 2 ^ 64 then 2 ^ 64 - 1 else if neg then (2 ^ 64 - n) mod 2 ^ 64 else n, dropWhile c_digit u))"

text \<open>The first field: the node and the service.  The node becomes the list \<open>next_node_sep\<close> works on.\<close>

definition parse_service :: "string \<Rightarrow> parser \<Rightarrow> fault + string \<times> parser" where
  "parse_service field p =
     (case split_rchr (CHR '':'') field of
        None \<Rightarrow>
          (case global_serv_node p of
             Null \<Rightarrow> Inr (field, p)
           | Live node \<Rightarrow> Inr (field, p\<lparr>serv_node := Some node, serv_node_offset := 0\<rparr>)
           | Freed \<Rightarrow> Inl Use_after_free)
      | Some (node, service) \<Rightarrow>
          Inr (service, if node = ''*'' then p else p\<lparr>serv_node := Some node, serv_node_offset := 0\<rparr>))"

definition parse_mux :: "string \<Rightarrow> se_kind \<times> string" where
  "parse_mux service =
     (if take 7 service = ''tcpmux/'' then
        let c = drop 7 service
        in if c \<noteq> [] \<and> hd c = CHR ''+'' then (MUXPLUS_TYPE, tl c) else (MUX_TYPE, c)
      else (NORM_TYPE, service))"

definition parse_socktype :: "string \<Rightarrow> int \<times> diag list" where
  "parse_socktype w =
     (if w = ''stream'' then (SOCK_STREAM, []) else if w = ''dgram'' then (SOCK_DGRAM, [])
      else if w = ''rdm'' then (SOCK_RDM, []) else if w = ''seqpacket'' then (SOCK_SEQPACKET, [])
      else if w = ''raw'' then (SOCK_RAW, []) else (-1, [Bad_socket_type]))"

definition parse_family :: "string \<Rightarrow> int \<times> bool" where
  "parse_family proto =
     (if take 3 proto = ''tcp'' \<or> take 3 proto = ''udp'' then
        if drop 3 proto \<noteq> [] \<and> proto ! 3 = CHR ''6'' then (AF_INET6, False) else (AF_INET, True)
      else (AF_INET, True))"

definition parse_wait :: "string \<Rightarrow> int \<times> u32 \<times> diag list" where
  "parse_wait field =
     (let w = (case split_chr (CHR ''.'') field of None \<Rightarrow> field | Some (w, _) \<Rightarrow> w);
          m = (case split_chr (CHR ''.'') field of
                 None \<Rightarrow> (0, [])
               | Some (_, p) \<Rightarrow>
                   case strtoul10 p of (n, q) \<Rightarrow> (of_nat n, if q \<noteq> [] then [Invalid_number p] else []))
      in if w = ''wait'' then (1, m)
         else if w = ''nowait'' then (0, m)
         else (0, fst m, Bad_wait_type # snd m))"

text \<open>The array of arguments.  The words after the path are followed by the null pointer of \<open>argv\<close>, which the
  loop copies, too.\<close>

definition parse_args :: "string \<Rightarrow> string list \<Rightarrow> string option list" where
  "parse_args server argv =
     (let ws = map Some (drop INETD_SERVER_ARGS argv) @ [None];
          argv0 = (case split_rchr (CHR ''/'') server of None \<Rightarrow> server | Some (_, b) \<Rightarrow> b)
      in (if length argv - INETD_FIELDS_MIN + 1 = 1 then ws[0 := Some argv0] else ws) @ [None])"

datatype parsed = Again parser | Entry parser

definition parse_entry :: "string \<Rightarrow> nat \<Rightarrow> string list \<Rightarrow> parser \<Rightarrow> fault + parsed" where
  "parse_entry file line argv p =
     (case parse_service (argv ! INETD_SERVICE) p of
        Inl f \<Rightarrow> Inl f
      | Inr (service, p0) \<Rightarrow>
          let (kind, name) = parse_mux service;
              (sock, d1) = parse_socktype (argv ! INETD_SOCKET);
              proto = argv ! INETD_PROTOCOL;
              (fam, v4) = parse_family proto;
              (wt, mx, d2) = parse_wait (argv ! INETD_WAIT);
              p1 = fold (report file line) (d1 @ d2) p0;
              mux = (kind \<noteq> NORM_TYPE);
              server = argv ! INETD_SERVER_PATH;
              sep = serv_zero\<lparr>se_file := file, se_line := line, se_type := kind, se_service := name,
                se_socktype := sock, se_proto := proto, se_family := fam, se_v4mapped := v4,
                se_wait := (if mux then 0 else wt), se_max := mx,
                se_user := Some (argv ! INETD_USER), se_server := server\<rparr>;
              bi = (if server = ''internal'' then bi_lookup sep else None)
          in if mux \<and> take 3 proto \<noteq> ''tcp'' then Inr (Again (report file line (Bad_mux_protocol name) p1))
             else if mux \<and> sock \<noteq> SOCK_STREAM then Inr (Again (report file line (Bad_mux_socket name) p1))
             else if server = ''internal'' \<and> bi = None then Inr (Again (report file line (Internal_unknown name) p1))
             else Inr (Entry (p1\<lparr>serv := sep\<lparr>se_bi := bi,
               se_wait := (case bi of None \<Rightarrow> se_wait sep | Some b \<Rightarrow> bi_wait b),
               se_argc := length argv - INETD_FIELDS_MIN + 1,
               se_argv := Some (parse_args server argv)\<rparr>\<rparr>)))"

text \<open>A line of one word that ends in a colon sets the node for the lines after it.\<close>

definition parse_line :: "string \<Rightarrow> nat \<Rightarrow> string list \<Rightarrow> parser \<Rightarrow> fault + parsed" where
  "parse_line file line argv p =
     (if length argv < INETD_FIELDS_MIN then
        if length argv = 1 \<and> argv ! 0 = [] then Inl Before_string
        else if length argv = 1 \<and> last (argv ! 0) = CHR '':'' then
          if global_serv_node p = Freed then Inl Double_free
          else Inr (Again (p\<lparr>global_serv_node :=
            (if butlast (argv ! 0) \<noteq> ''*'' then Live (butlast (argv ! 0))
             else if global_serv_node p = Null then Null else Freed)\<rparr>))
        else Inr (Again (report file line Not_enough_fields p))
      else parse_entry file line argv p)"

text \<open>The next line that is not empty and not a comment, with its number and what follows it.\<close>

function next_line :: "nat \<Rightarrow> string \<Rightarrow> (string \<times> nat \<times> string) option" where
  "next_line line t =
     (if t = [] then None
      else let l = takeWhile (\<lambda>c. c \<noteq> CHR 0x0A) t;
               s = takeWhile (\<lambda>c. c \<noteq> CHR 0x00) l;
               r = drop (Suc (length l)) t
           in if s = [] \<or> hd s = CHR ''#'' then next_line (line + 1) r else Some (s, line + 1, r))"
  by auto
termination by (relation "measure (\<lambda>(line, t). length t)") auto

declare next_line.simps [simp del]

lemma next_line_shorter: "next_line line t = Some (s, line', r) \<Longrightarrow> length r < length t"
proof (induction line t arbitrary: s line' r rule: next_line.induct)
  case (1 line t)
  then show ?case
    by (subst (asm) (2) next_line.simps) (fastforce simp: Let_def split: if_splits)
qed

text \<open>The loop of \<open>getconfigent\<close>: whether there is an entry, the parser, and where to go on.\<close>

function conf_loop :: "string \<Rightarrow> nat \<Rightarrow> string \<Rightarrow> parser \<Rightarrow> fault + bool \<times> parser \<times> nat \<times> string" where
  "conf_loop file line t p =
     (case next_line line t of
        None \<Rightarrow> Inr (False, p\<lparr>serv := serv_zero\<rparr>, line, [])
      | Some (s, line', r) \<Rightarrow>
          (case argcv_get s [] of
             None \<Rightarrow> conf_loop file line' r p
           | Some argv \<Rightarrow>
               (case parse_line file line' argv p of
                  Inl f \<Rightarrow> Inl f
                | Inr (Again p') \<Rightarrow> conf_loop file line' r p'
                | Inr (Entry p') \<Rightarrow> Inr (True, next_node_sep p', line', r))))"
  by pat_completeness auto
termination
  by (relation "measure (\<lambda>(file, line, t, p). length t)") (auto dest: next_line_shorter)

declare conf_loop.simps [simp del]

definition getconfigent :: "string \<Rightarrow> nat \<Rightarrow> string \<Rightarrow> parser \<Rightarrow> fault + bool \<times> parser \<times> nat \<times> string" where
  "getconfigent file line t p =
     (if serv_node p \<noteq> None then Inr (True, next_node_sep p, line, t) else conf_loop file line t p)"

end
