(* ===== verification/Inetd_Table.thy ===== *)
theory Inetd_Table
  imports Inetd_Config
begin

text \<open>
  The table of services of \<open>src/inetd.c\<close> and its sockets: \<open>setup\<close>, \<open>servent_setup\<close>, \<open>retry\<close>, \<open>close_sep\<close>,
  \<open>enter\<close>, \<open>expand_enter\<close>, \<open>nextconfig\<close>, \<open>fix_tcpmux\<close> and \<open>config\<close>.

  The linked list \<open>servtab\<close> is a list, a pointer into it an index.  Of the system the state has the open
  descriptors \<open>fds\<close>, of which a call that opens one takes the lowest number that is free, the sockets that
  have been made to listen, and the errors \<open>io\<close> that the next calls of \<open>socket\<close> and \<open>bind\<close> meet (0 for none).  Names of users,
  protocols, addresses and files are looked up in a \<open>host\<close>.  Failures of \<open>setsockopt\<close> are only logged by the
  program and left out.
\<close>

section \<open>State\<close>

abbreviation (input) EAFNOSUPPORT :: int where "EAFNOSUPPORT \<equiv> 97"
abbreviation (input) EADDRNOTAVAIL :: int where "EADDRNOTAVAIL \<equiv> 99"

datatype gai_error = EAI_ADDRFAMILY | EAI_other

datatype fsnode = Regular "string option" | Directory "string list option" | Special

record host =
  getpwnam :: "string \<Rightarrow> (int \<times> int) option"
  getprotobyname :: "string \<Rightarrow> int option"
  getaddrinfo :: "string option \<Rightarrow> string \<Rightarrow> bool \<times> bool \<times> int \<times> int \<times> int \<Rightarrow> gai_error + byte list list"
  file_at :: "string \<Rightarrow> fsnode option"

datatype event = Socket_error string string | Bind_error string string | Unknown_protocol string
  | Getaddrinfo_error string string | No_such_user string string string | No_file string
  | Inserting_tcpmux | Looping string string | Accept_error string | Fork_error | Exit_status string int

record inetd =
  services :: "servtab list"
  nsock :: int
  maxsock :: int
  allsock :: "int set"
  timingout :: bool
  fds :: "int list"
  listening :: "int list"
  io :: "int list"
  events :: "event list"

definition logs :: "event \<Rightarrow> inetd \<Rightarrow> inetd" where
  "logs e s = s\<lparr>events := events s @ [e]\<rparr>"

definition take_io :: "inetd \<Rightarrow> int \<times> inetd" where
  "take_io s = (case io s of [] \<Rightarrow> (0, s) | e # es \<Rightarrow> (e, s\<lparr>io := es\<rparr>))"

definition new_fd :: "int list \<Rightarrow> int" where
  "new_fd xs = int (hd (filter (\<lambda>n. int n \<notin> set xs) [0..<Suc (length xs)]))"

definition open_fd :: "inetd \<Rightarrow> int \<times> inetd" where
  "open_fd s = (let fd = new_fd (fds s) in (fd, s\<lparr>fds := fd # fds s\<rparr>))"

definition close_fd :: "int \<Rightarrow> inetd \<Rightarrow> inetd" where
  "close_fd fd s = s\<lparr>fds := removeAll fd (fds s), listening := removeAll fd (listening s)\<rparr>"

text \<open>The retry timer, unless it is set.\<close>

definition set_alarm :: "inetd \<Rightarrow> inetd" where
  "set_alarm s = s\<lparr>timingout := True\<rparr>"

section \<open>Sockets\<close>

function setup_sock :: "servtab \<Rightarrow> inetd \<Rightarrow> bool \<times> servtab \<times> inetd" where
  "setup_sock sep s =
     (case take_io s of
        (e, s1) \<Rightarrow>
          if e \<noteq> 0 then
            if e = EAFNOSUPPORT \<and> se_family sep = AF_INET6 \<and> se_v4mapped sep
            then setup_sock (sep\<lparr>se_fd := -1, se_family := AF_INET\<rparr>) s1
            else (False, sep\<lparr>se_fd := -1\<rparr>, logs (Socket_error (se_service sep) (se_proto sep)) s1)
          else
            (case open_fd s1 of
               (fd, s2) \<Rightarrow>
                 (case take_io s2 of
                    (e, s3) \<Rightarrow>
                      if e \<noteq> 0 then
                        if (e = EADDRNOTAVAIL \<or> e = EAFNOSUPPORT) \<and> se_family sep = AF_INET6 \<and> se_v4mapped sep
                        then setup_sock (sep\<lparr>se_fd := fd, se_family := AF_INET\<rparr>) (close_fd fd s3)
                        else (False, sep\<lparr>se_fd := -1\<rparr>,
                              set_alarm (close_fd fd (logs (Bind_error (se_service sep) (se_proto sep)) s3)))
                      else (True, sep\<lparr>se_fd := fd\<rparr>, s3))))"
  by auto
termination by (relation "measure (\<lambda>(sep, s). if se_family sep = AF_INET6 then 1 else 0)") auto

declare setup_sock.simps [simp del]

definition setup_service :: "nat \<Rightarrow> inetd \<Rightarrow> bool \<times> inetd" where
  "setup_service i s =
     (case setup_sock (services s ! i) s of (ok, sep, s') \<Rightarrow> (ok, s'\<lparr>services := (services s')[i := sep]\<rparr>))"

definition servent_setup :: "nat \<Rightarrow> inetd \<Rightarrow> inetd" where
  "servent_setup i s =
     (let s0 = s\<lparr>services := (services s)[i := (services s ! i)\<lparr>se_checked := True\<rparr>]\<rparr>
      in if se_fd (services s0 ! i) = -1 then
           (case setup_service i s0 of
              (ok, s1) \<Rightarrow>
                if ok then
                  let fd = se_fd (services s1 ! i);
                      s2 = (if se_socktype (services s1 ! i) = SOCK_STREAM then s1\<lparr>listening := fd # listening s1\<rparr> else s1)
                  in s2\<lparr>allsock := insert fd (allsock s2), nsock := nsock s2 + 1,
                        maxsock := (if fd > maxsock s2 then fd else maxsock s2)\<rparr>
                else s1)
         else s0)"

text \<open>The handler of the timer.\<close>

definition retry_one :: "nat \<Rightarrow> inetd \<Rightarrow> inetd" where
  "retry_one i s = (if se_fd (services s ! i) = -1 \<and> \<not> ISMUX (services s ! i) then snd (setup_service i s) else s)"

definition retry :: "inetd \<Rightarrow> inetd" where
  "retry s = fold retry_one [0..<length (services s)] (s\<lparr>timingout := False\<rparr>)"

definition close_sep :: "servtab \<Rightarrow> inetd \<Rightarrow> servtab \<times> inetd" where
  "close_sep sep s =
     (let s' = (if se_fd sep \<ge> 0
                then close_fd (se_fd sep) (s\<lparr>nsock := nsock s - 1, allsock := allsock s - {se_fd sep}\<rparr>) else s)
      in (sep\<lparr>se_fd := (if se_fd sep \<ge> 0 then -1 else se_fd sep), se_count := 0,
              se_wait := (if se_wait sep > 1 then 1 else se_wait sep)\<rparr>, s'))"

section \<open>Entries of the table\<close>

definition same_service :: "servtab \<Rightarrow> servtab \<Rightarrow> bool" where
  "same_service sep cp \<longleftrightarrow> se_ctrladdr sep = se_ctrladdr cp \<and> se_service sep = se_service cp
     \<and> se_proto sep = se_proto cp \<and> ISMUX sep = ISMUX cp"

fun index_of :: "('a \<Rightarrow> bool) \<Rightarrow> 'a list \<Rightarrow> nat option" where
  "index_of P [] = None"
| "index_of P (x # xs) = (if P x then Some 0 else map_option Suc (index_of P xs))"

text \<open>An entry that is there already takes the user, the server and the arguments of the new one, which is left
  with the old user and server.\<close>

definition merge :: "servtab \<Rightarrow> servtab \<Rightarrow> servtab \<times> servtab" where
  "merge sep cp =
     (sep\<lparr>se_wait := (if se_bi cp = None \<and> (se_wait sep = 1 \<or> se_wait cp = 0) then se_wait cp else se_wait sep),
          se_user := (if se_user cp \<noteq> None then se_user cp else se_user sep),
          se_server := se_server cp, se_argc := se_argc cp, se_argv := se_argv cp, se_checked := True\<rparr>,
      cp\<lparr>se_user := (if se_user cp \<noteq> None then se_user sep else None),
         se_server := se_server sep, se_argc := 0, se_argv := None\<rparr>)"

text \<open>A new entry has a copy of the arguments, \<open>se_argc\<close> elements of the array.\<close>

definition copy_entry :: "servtab \<Rightarrow> servtab" where
  "copy_entry cp =
     cp\<lparr>se_argv := Some (case se_argv cp of None \<Rightarrow> [] | Some b \<Rightarrow> take (se_argc cp) b), se_fd := -1\<rparr>"

definition enter :: "servtab \<Rightarrow> inetd \<Rightarrow> servtab \<times> nat \<times> inetd" where
  "enter cp s =
     (case index_of (\<lambda>sep. same_service sep cp) (services s) of
        Some i \<Rightarrow>
          (case merge (services s ! i) cp of
             (sep, cp') \<Rightarrow> (cp', i, s\<lparr>services := (services s)[i := sep]\<rparr>))
      | None \<Rightarrow> (cp, 0, s\<lparr>services := copy_entry cp # services s\<rparr>))"

definition numeric_address :: "string \<Rightarrow> bool" where
  "numeric_address node \<longleftrightarrow> list_all (\<lambda>c. c \<in> set ''.0123456789'') node
     \<or> CHR '':'' \<in> set node \<and> takeWhile (\<lambda>c. c \<in> set ''.:0123456789abcdefABCDEF'') node \<noteq> []"

text \<open>The hints are: with \<open>AI_V4MAPPED\<close>, with \<open>AI_NUMERICHOST\<close>, the family, the type and the protocol.\<close>

definition inetd_getaddrinfo :: "host \<Rightarrow> servtab \<Rightarrow> int \<Rightarrow> gai_error + byte list list" where
  "inetd_getaddrinfo h sep proto =
     getaddrinfo h (se_node sep) (se_service sep)
       (se_v4mapped sep \<and> se_family sep \<noteq> AF_INET,
        (case se_node sep of None \<Rightarrow> False | Some node \<Rightarrow> numeric_address node),
        se_family sep, se_socktype sep, proto)"

definition enter_addr :: "byte list \<Rightarrow> servtab \<times> inetd \<Rightarrow> servtab \<times> inetd" where
  "enter_addr a = (\<lambda>(cp, s).
     case enter (cp\<lparr>se_ctrladdr := sockaddr_storage a, se_addrlen := length a\<rparr>) s of
       (cp', i, s') \<Rightarrow> (cp', servent_setup i s'))"

definition expand_enter :: "host \<Rightarrow> servtab \<Rightarrow> inetd \<Rightarrow> servtab \<times> inetd" where
  "expand_enter h sep s =
     (let name = (if take 3 (se_proto sep) = ''tcp'' then ''tcp''
                  else if take 3 (se_proto sep) = ''udp'' then ''udp'' else se_proto sep)
      in case getprotobyname h name of
           None \<Rightarrow> (sep, logs (Unknown_protocol (se_proto sep)) s)
         | Some proto \<Rightarrow>
             let r = inetd_getaddrinfo h sep proto;
                 again = (r = Inl EAI_ADDRFAMILY \<and> se_family sep = AF_INET6 \<and> se_v4mapped sep);
                 sep' = (if again then sep\<lparr>se_family := AF_INET\<rparr> else sep)
             in case (if again then inetd_getaddrinfo h sep' proto else r) of
                  Inl _ \<Rightarrow> (sep', logs (Getaddrinfo_error (se_service sep) (se_proto sep)) s)
                | Inr addrs \<Rightarrow> fold enter_addr addrs (sep', s))"

section \<open>Reading the configuration\<close>

lemma next_node_sep_left:
  assumes "serv_node p = Some n"
  shows "(case serv_node (next_node_sep p) of None \<Rightarrow> 0 | Some n' \<Rightarrow> Suc (length n' - serv_node_offset (next_node_sep p)))
    < Suc (length n - serv_node_offset p)"
  using assms by (auto simp: next_node_sep_def Let_def)

lemma conf_loop_shorter: "conf_loop file line t p = Inr (True, p', line', t') \<Longrightarrow> length t' < length t"
proof (induction "file" line t p rule: conf_loop.induct)
  case (1 conf line t p)
  note ps = conf_loop.simps [of conf line t p]
  show ?case
  proof (cases "next_line line t")
    case None
    then show ?thesis using 1(3) ps by simp
  next
    case (Some x)
    obtain l n r where x: "x = (l, n, r)" by (cases x)
    note nl = Some [unfolded x]
    have sh: "length r < length t" using next_line_shorter [OF nl] .
    show ?thesis
      using 1(1) [OF nl refl refl] 1(2) [OF nl refl refl _ _ refl] 1(3) ps nl sh
      by (auto split: option.splits sum.splits parsed.splits dest: less_trans)
  qed
qed

definition nodes_left :: "parser \<Rightarrow> nat" where
  "nodes_left p = (case serv_node p of None \<Rightarrow> 0 | Some n \<Rightarrow> Suc (length n - serv_node_offset p))"

lemma nodes_left_serv [simp]: "nodes_left (p\<lparr>serv := sep\<rparr>) = nodes_left p"
  by (simp add: nodes_left_def split: option.split)

lemma getconfigent_progress:
  "getconfigent file line t p = Inr (True, p', line', t') \<Longrightarrow>
     length t' < length t \<or> t' = t \<and> nodes_left p' < nodes_left p"
  using conf_loop_shorter next_node_sep_left unfolding nodes_left_def
  by (fastforce simp: getconfigent_def split: if_splits)

definition enter_service :: "host \<Rightarrow> servtab \<Rightarrow> inetd \<Rightarrow> servtab \<times> inetd" where
  "enter_service h sep s =
     (if ISMUX sep
      then (case enter (sep\<lparr>se_fd := -1, se_checked := True\<rparr>) s of (cp, i, s') \<Rightarrow> (cp, s'))
      else expand_enter h sep s)"

text \<open>The loop of \<open>nextconfig\<close>.\<close>

function conf_entries ::
  "host \<Rightarrow> string \<Rightarrow> nat \<Rightarrow> string \<Rightarrow> parser \<Rightarrow> inetd \<Rightarrow> fault + parser \<times> inetd" where
  "conf_entries h file line t p s =
     (case getconfigent file line t p of
        Inl f \<Rightarrow> Inl f
      | Inr (found, p', line', t') \<Rightarrow>
          if \<not> found then Inr (p', s)
          else
            (case se_user (serv p') of
               None \<Rightarrow> Inl Null_user
             | Some u \<Rightarrow>
                 if getpwnam h u = None
                 then conf_entries h file line' t' p' (logs (No_such_user (se_service (serv p')) (se_proto (serv p')) u) s)
                 else (case enter_service h (serv p') s of
                         (cp, s') \<Rightarrow> conf_entries h file line' t' (p'\<lparr>serv := cp\<rparr>) s')))"
  by pat_completeness auto
termination
  by (relation "measures [\<lambda>(h, file, line, t, p, s). length t, \<lambda>(h, file, line, t, p, s). nodes_left p]")
    (auto dest!: getconfigent_progress)

declare conf_entries.simps [simp del]

text \<open>Entries that were not looked at are removed.\<close>

fun purge :: "servtab list \<Rightarrow> inetd \<Rightarrow> servtab list \<times> inetd" where
  "purge [] s = ([], s)"
| "purge (sep # seps) s =
     (if se_checked sep then (case purge seps s of (seps', s') \<Rightarrow> (sep # seps', s'))
      else purge seps (if se_fd sep \<ge> 0 then snd (close_sep sep s) else s))"

definition purge_services :: "inetd \<Rightarrow> inetd" where
  "purge_services s = (case purge (services s) s of (seps, s') \<Rightarrow> s'\<lparr>services := seps\<rparr>)"

definition nextconfig :: "host \<Rightarrow> string \<Rightarrow> string \<Rightarrow> parser \<times> inetd \<Rightarrow> fault + parser \<times> inetd" where
  "nextconfig h file text = (\<lambda>(p, s).
     case open_fd s of
       (fd, s1) \<Rightarrow>
         (case conf_entries h file 0 text p s1 of
            Inl f \<Rightarrow> Inl f
          | Inr (p', s2) \<Rightarrow> Inr (p', purge_services (close_fd fd s2))))"

text \<open>\<open>None\<close> when the loop returns from the function.\<close>

fun tcpmux_flags :: "servtab list \<Rightarrow> bool \<Rightarrow> bool \<Rightarrow> (bool \<times> bool) option" where
  "tcpmux_flags [] need has = Some (need, has)"
| "tcpmux_flags (sep # seps) need has =
     (if se_checked sep then
        if ISMUX sep \<and> has then None
        else let need' = (need \<or> ISMUX sep)
             in if se_service sep = ''tcpmux'' then if need' then None else tcpmux_flags seps need' True
                else tcpmux_flags seps need' has
      else tcpmux_flags seps need has)"

definition tcpmux_serv :: servtab where
  "tcpmux_serv = serv_zero\<lparr>se_file := ''fix_tcpmux'', se_service := ''tcpmux'', se_socktype := SOCK_STREAM,
     se_checked := True, se_user := Some ''root'',
     se_bi := bi_lookup (serv_zero\<lparr>se_service := ''tcpmux'', se_socktype := SOCK_STREAM\<rparr>), se_wait := 0,
     se_server := ''internal'', se_fd := -1, se_type := NORM_TYPE, se_proto := ''tcp6'', se_family := AF_INET6,
     se_v4mapped := True\<rparr>"

definition fix_tcpmux :: "host \<Rightarrow> inetd \<Rightarrow> inetd" where
  "fix_tcpmux h s =
     (case tcpmux_flags (services s) False False of
        Some (True, False) \<Rightarrow> snd (expand_enter h tcpmux_serv (logs Inserting_tcpmux s))
      | _ \<Rightarrow> s)"

fun config_files :: "host \<Rightarrow> (string \<times> string option) list \<Rightarrow> parser \<times> inetd \<Rightarrow> fault + parser \<times> inetd" where
  "config_files h [] ps = Inr ps"
| "config_files h ((file, None) # fs) ps = config_files h fs (fst ps, logs (No_file file) (snd ps))"
| "config_files h ((file, Some text) # fs) ps =
     (case nextconfig h file text ps of Inl f \<Rightarrow> Inl f | Inr ps' \<Rightarrow> config_files h fs ps')"

text \<open>What \<open>config\<close> reads for a path: a file, or the regular files of a directory.\<close>

definition files_of :: "host \<Rightarrow> string \<Rightarrow> (string \<times> string option) list" where
  "files_of h path =
     (case file_at h path of
        None \<Rightarrow> [(path, None)]
      | Some (Regular t) \<Rightarrow> [(path, t)]
      | Some (Directory None) \<Rightarrow> []
      | Some (Directory (Some names)) \<Rightarrow>
          concat (map (\<lambda>n. case file_at h (path @ ''/'' @ n) of Some (Regular t) \<Rightarrow> [(path @ ''/'' @ n, t)] | _ \<Rightarrow> []) names)
      | Some Special \<Rightarrow> [])"

definition config :: "host \<Rightarrow> string list \<Rightarrow> parser \<times> inetd \<Rightarrow> fault + parser \<times> inetd" where
  "config h paths ps =
     (case config_files h (concat (map (files_of h) paths))
             (fst ps, (snd ps)\<lparr>services := map (\<lambda>sep. sep\<lparr>se_checked := False\<rparr>) (services (snd ps))\<rparr>) of
        Inl f \<Rightarrow> Inl f
      | Inr (p, s) \<Rightarrow> Inr (p, fix_tcpmux h s))"

end
