(* ===== verification/Inetd_Builtin.thy ===== *)
theory Inetd_Builtin
  imports Inetd_Table
begin

unbundle bit_operations_syntax

text \<open>
  What runs for a request in \<open>src/inetd.c\<close>: the services inetd has itself (echo, discard, chargen, time, daytime and
  the multiplexer \<open>tcpmux\<close>), the start of servers (\<open>run_service\<close>) and their environment (\<open>prepenv\<close>).

  What a \<open>read\<close> returns is a value of \<open>reading\<close>.  The functions return what they write; where the outcome of
  \<open>write\<close> matters it is an argument.  A \<open>long\<close> has 64 bits and its first byte is the lowest.  A title in
  the list of processes (\<open>set_proc_title\<close>) is left out.
\<close>

section \<open>Echo and discard\<close>

abbreviation (input) BUFSIZE :: nat where "BUFSIZE \<equiv> 8192"

datatype reading = Got "byte list" | End_of_input | Interrupted | Failed

text \<open>One element of \<open>ws\<close> for every \<open>write\<close>: whether it wrote something, and how much.\<close>

fun echo_stream :: "reading list \<Rightarrow> nat list \<Rightarrow> byte list list" where
  "echo_stream (Got b # rs) (w # ws) =
     (let b' = take BUFSIZE b
      in if b' = [] then [] else if w > 0 then take w b' # echo_stream rs ws else [])"
| "echo_stream _ _ = []"

definition echo_dg :: "reading \<Rightarrow> byte list list" where
  "echo_dg r = (case r of Got b \<Rightarrow> [take BUFSIZE b] | End_of_input \<Rightarrow> [[]] | _ \<Rightarrow> [])"

text \<open>How many of the readings are used up.\<close>

fun discard_stream :: "reading list \<Rightarrow> nat" where
  "discard_stream [] = 0"
| "discard_stream (r # rs) = (case r of Got _ \<Rightarrow> Suc (discard_stream rs) | Interrupted \<Rightarrow> Suc (discard_stream rs) | _ \<Rightarrow> 1)"

section \<open>The character generator\<close>

abbreviation (input) LINESIZ :: nat where "LINESIZ \<equiv> 72"

definition isprint :: "nat \<Rightarrow> bool" where
  "isprint i \<longleftrightarrow> 32 \<le> i \<and> i < 127"

text \<open>The characters \<open>initring\<close> stores, and their number \<open>endring - ring\<close>.\<close>

definition ring :: "byte list" where
  "ring = map of_nat (filter isprint [0..<129])"

abbreviation (input) endring :: nat where "endring \<equiv> length ring"

definition chargen_text :: "nat \<Rightarrow> byte list" where
  "chargen_text rs =
     (let len = endring - rs
      in (if len \<ge> LINESIZ then take LINESIZ (drop rs ring)
          else take len (drop rs ring) @ take (LINESIZ - len) ring) @ [13, 10])"

definition chargen_next :: "nat \<Rightarrow> nat" where
  "chargen_next rs = (if rs + 1 = endring then 0 else rs + 1)"

text \<open>The lines written until a \<open>write\<close> fails, which is the one after the first \<open>n\<close>.\<close>

fun chargen_lines :: "nat \<Rightarrow> nat \<Rightarrow> byte list list" where
  "chargen_lines rs 0 = []"
| "chargen_lines rs (Suc n) = chargen_text rs # chargen_lines (chargen_next rs) n"

definition chargen_stream :: "nat \<Rightarrow> byte list list" where
  "chargen_stream n = chargen_lines 0 n"

text \<open>The static position is \<open>None\<close> before the ring has been filled.\<close>

definition chargen_dg :: "reading \<Rightarrow> nat option \<Rightarrow> nat option \<times> byte list list" where
  "chargen_dg r pos =
     (let rs = (case pos of None \<Rightarrow> 0 | Some rs \<Rightarrow> rs)
      in case r of
           Got _ \<Rightarrow> (Some (chargen_next rs), [chargen_text rs])
         | End_of_input \<Rightarrow> (Some (chargen_next rs), [chargen_text rs])
         | _ \<Rightarrow> (Some rs, []))"

section \<open>Time\<close>

abbreviation (input) OFFSET :: ulong where "OFFSET \<equiv> 25567 * 24 * 60 * 60"

definition htonl :: "u32 \<Rightarrow> u32" where
  "htonl w = push_bit 24 w OR push_bit 8 (w AND push_bit 8 (mask 8)) OR drop_bit 8 (w AND push_bit 16 (mask 8)) OR drop_bit 24 w"

text \<open>The bytes of a word in memory, the lowest first.\<close>

definition bytes_of :: "ulong \<Rightarrow> byte list" where
  "bytes_of w = map (\<lambda>i. ucast (drop_bit (8 * i) w)) [0..<8]"

definition machtime :: "ulong option \<Rightarrow> ulong" where
  "machtime tv = (case tv of None \<Rightarrow> 0 | Some sec \<Rightarrow> ucast (htonl (ucast (sec + OFFSET))))"

definition machtime_stream :: "ulong option \<Rightarrow> byte list list" where
  "machtime_stream tv = [bytes_of (machtime tv)]"

definition machtime_dg :: "reading \<Rightarrow> ulong option \<Rightarrow> byte list list" where
  "machtime_dg r tv = (if r = Failed \<or> r = Interrupted then [] else [bytes_of (machtime tv)])"

definition daytime_text :: "byte list \<Rightarrow> byte list" where
  "daytime_text ctime = take 24 ctime @ [13, 10]"

definition daytime_dg :: "reading \<Rightarrow> byte list \<Rightarrow> byte list list" where
  "daytime_dg r ctime = (if r = Failed \<or> r = Interrupted then [] else [daytime_text ctime])"

section \<open>The multiplexer\<close>

abbreviation (input) MAX_SERV_LEN :: nat where "MAX_SERV_LEN \<equiv> 258"

definition line_end :: "char \<Rightarrow> bool" where
  "line_end c \<longleftrightarrow> c = CHR 0x0D \<or> c = CHR 0x0A \<or> c = CHR 0x00"

text \<open>The characters before the end of the line; \<open>None\<close> when reading fails.  Each element of the list is what has
  arrived for one \<open>read\<close>, or a failure; the \<open>read\<close> takes no more than \<open>len - count\<close> characters of it, and the others stay.
  Without further elements the input has ended.\<close>

function fd_getline :: "string option list \<Rightarrow> string \<Rightarrow> nat \<Rightarrow> string option" where
  "fd_getline chunks buf len =
     (case chunks of
        [] \<Rightarrow> Some buf
      | None # cs \<Rightarrow> None
      | Some c # cs \<Rightarrow>
          if c = [] then Some buf
          else let got = take (len - length buf) c;
                   line = takeWhile (\<lambda>c. \<not> line_end c) got;
                   buf' = buf @ line;
                   r = drop (len - length buf) c
               in if line \<noteq> got then Some buf'
                  else if length buf' < len then fd_getline (if r = [] then cs else Some r # cs) buf' len
                  else Some buf')"
  by pat_completeness auto
termination
proof (relation "measure (\<lambda>(chunks, buf, len). len - length buf)", goal_cases)
  case (2 chunks buf len a cs x got line buf' r)
  have l: "line = got" "buf' = buf @ line" using 2 by blast+
  have "got \<noteq> []" "length buf' < len" using 2 by (simp_all split: if_splits)
  then show ?case using l by (cases got) simp_all
qed simp

declare fd_getline.simps [simp del]

datatype child = Exits int | Execs string "string option list option" "(int \<times> int) option" | Builtin bi_fn | Returns

definition char_lower :: "char \<Rightarrow> char" where
  "char_lower c = (if 65 \<le> (of_char c :: nat) \<and> (of_char c :: nat) \<le> 90 then char_of (of_char c + 32 :: nat) else c)"

definition strcaseeq :: "string \<Rightarrow> string \<Rightarrow> bool" where
  "strcaseeq a b \<longleftrightarrow> map char_lower a = map char_lower b"

text \<open>A server in a child: the user is looked up, and the ids are set unless they are those of root.
  The two booleans are whether \<open>setgid\<close> and \<open>setuid\<close> succeed.\<close>

definition exec_service :: "host \<Rightarrow> bool \<Rightarrow> bool \<Rightarrow> servtab \<Rightarrow> child" where
  "exec_service h setgid_ok setuid_ok sep =
     (case Option.bind (se_user sep) (getpwnam h) of
        None \<Rightarrow> Exits 1
      | Some (uid, gid) \<Rightarrow>
          if uid \<noteq> 0 then
            if \<not> setgid_ok then Exits 1
            else if \<not> setuid_ok then Exits 1
            else Execs (se_server sep) (se_argv sep) (Some (uid, gid))
          else Execs (se_server sep) (se_argv sep) None)"

text \<open>The answer of the multiplexer and the service it runs.\<close>

definition tcpmux :: "string option list \<Rightarrow> servtab list \<Rightarrow> string list \<times> (int + servtab)" where
  "tcpmux input table =
     (case fd_getline input [] MAX_SERV_LEN of
        None \<Rightarrow> ([''-Error reading service name'' @ [CHR 0x0D, CHR 0x0A]], Inl 1)
      | Some service \<Rightarrow>
          if strcaseeq service ''help'' then
            (concat (map (\<lambda>sep. [se_service sep, [CHR 0x0D, CHR 0x0A]]) (filter ISMUX table)), Inl 1)
          else
            (case find (\<lambda>sep. ISMUX sep \<and> strcaseeq service (se_service sep)) table of
               Some sep \<Rightarrow> (if ISMUXPLUS sep then [''+Go'' @ [CHR 0x0D, CHR 0x0A]] else [], Inr sep)
             | None \<Rightarrow> ([''-Service not available'' @ [CHR 0x0D, CHR 0x0A]], Inl 1)))"

text \<open>Whether the function of a service ends the process it runs in.\<close>

definition bi_exits :: "bi_fn \<Rightarrow> bool" where
  "bi_exits f \<longleftrightarrow> f \<in> {Echo_stream, Discard_stream, Chargen_stream}"

text \<open>What a child does with a connection, and in the end.  The multiplexer may run itself again: the inputs of
  its runs are the elements of a list.\<close>

fun run_service :: "host \<Rightarrow> bool \<Rightarrow> bool \<Rightarrow> servtab list \<Rightarrow> string option list list \<Rightarrow> servtab \<Rightarrow> string list \<times> child list" where
  "run_service h g u table inputs sep =
     (case se_bi sep of
        None \<Rightarrow> ([], [exec_service h g u sep])
      | Some bi \<Rightarrow>
          if bi_fn bi = Tcpmux then
            (case inputs of
               [] \<Rightarrow> ([], [])
             | i # is \<Rightarrow>
                 (case tcpmux i table of
                    (out, Inl c) \<Rightarrow> (out, [Exits c])
                  | (out, Inr sep') \<Rightarrow> (case run_service h g u table is sep' of (out', cs) \<Rightarrow> (out @ out', cs))))
          else ([], [Builtin (bi_fn bi), if bi_exits (bi_fn bi) then Exits 0 else Returns]))"

declare run_service.simps [simp del]

section \<open>Environment\<close>

text \<open>What \<open>getsockname\<close> and \<open>getnameinfo\<close> find for a connection.\<close>

record names =
  sockname_ok :: bool
  local_number :: "(string \<times> string) option"
  local_name :: "string option"
  remote_number :: "(string \<times> string) option"
  remote_name :: "string option"

definition set_number :: "string \<Rightarrow> string \<Rightarrow> (string \<times> string) option \<Rightarrow> (string \<rightharpoonup> string) \<Rightarrow> (string \<rightharpoonup> string)" where
  "set_number ip port r env = (case r of None \<Rightarrow> env | Some (a, p) \<Rightarrow> env(ip \<mapsto> a, port \<mapsto> p))"

definition set_host :: "bool \<Rightarrow> string \<Rightarrow> string option \<Rightarrow> (string \<rightharpoonup> string) \<Rightarrow> (string \<rightharpoonup> string)" where
  "set_host resolve_option var r env = (if resolve_option then case r of None \<Rightarrow> env | Some a \<Rightarrow> env(var \<mapsto> a) else env)"

definition prepenv :: "bool \<Rightarrow> names \<Rightarrow> (string \<rightharpoonup> string) \<Rightarrow> (string \<rightharpoonup> string)" where
  "prepenv resolve_option q env =
     (let e0 = env(''PROTO'' \<mapsto> ''TCP'', ''TCPLOCALIP'' := None, ''TCPLOCALHOST'' := None, ''TCPLOCALPORT'' := None,
                   ''TCPREMOTEIP'' := None, ''TCPREMOTEPORT'' := None, ''TCPREMOTEHOST'' := None);
          e1 = (if sockname_ok q
                then set_host resolve_option ''TCPLOCALHOST'' (local_name q)
                       (set_number ''TCPLOCALIP'' ''TCPLOCALPORT'' (local_number q) e0)
                else e0);
          e2 = set_number ''TCPREMOTEIP'' ''TCPREMOTEPORT'' (remote_number q) e1
      in if remote_number q = None then e1 else set_host resolve_option ''TCPREMOTEHOST'' (remote_name q) e2)"

end
