(* ===== verification/Inetd.thy ===== *)
theory Inetd
  imports Inetd_Builtin
begin

text \<open>
  The main loop of \<open>src/inetd.c\<close> and its signal handlers: a turn of the loop over the services that are ready
  (\<open>main\<close>), the end of servers (\<open>reapchild\<close>), the timer (\<open>retry\<close>) and the configuration being read again
  (\<open>config\<close>).

  Signals arrive between the turns of the loop.  The processes that have been started and not
  yet reaped are in \<open>running\<close>, with the entry they were started for.  What the system answers in a turn (to
  \<open>accept\<close>, \<open>fork\<close>, \<open>gettimeofday\<close>, \<open>recvfrom\<close>) is a \<open>request\<close>.
\<close>

section \<open>A request\<close>

abbreviation (input) CNT_INTVL :: int where "CNT_INTVL \<equiv> 60"

record request =
  accept_errno :: int
  fork_pid :: int
  now :: int
  datagram :: reading
  ctime :: "byte list"
  peer :: names

record master =
  inet :: inetd
  parse :: parser
  toomany :: int
  env_option :: bool
  resolve_option :: bool
  environ :: "string \<rightharpoonup> string"
  running :: "(int \<times> servtab) list"
  ring_pos :: "nat option"
  sent :: "(int \<times> byte list) list"

text \<open>The limit on the rate of starts: the entry with its counter, and whether a server is started.\<close>

definition admit :: "int \<Rightarrow> int \<Rightarrow> servtab \<Rightarrow> servtab \<times> bool" where
  "admit many t sep =
     (let sep' = sep\<lparr>se_count := se_count sep + 1\<rparr>
      in if se_count sep = 0 then (sep'\<lparr>se_time := t\<rparr>, True)
         else if se_max sep \<noteq> 0 \<and> se_max sep < word_of_int (se_count sep') \<or> many \<le> se_count sep' then
           if t - se_time sep > CNT_INTVL then (sep'\<lparr>se_time := t, se_count := 1\<rparr>, True) else (sep', False)
         else (sep', True))"

text \<open>The services inetd runs in its own process.\<close>

definition run_builtin :: "bi_fn \<Rightarrow> request \<Rightarrow> nat option \<Rightarrow> nat option \<times> byte list list" where
  "run_builtin f rq pos =
     (case f of
        Echo_dg \<Rightarrow> (pos, echo_dg (datagram rq))
      | Machtime_stream \<Rightarrow> (pos, machtime_stream (Some (word_of_int (now rq))))
      | Machtime_dg \<Rightarrow> (pos, machtime_dg (datagram rq) (Some (word_of_int (now rq))))
      | Daytime_stream \<Rightarrow> (pos, [daytime_text (ctime rq)])
      | Daytime_dg \<Rightarrow> (pos, daytime_dg (datagram rq) (ctime rq))
      | Chargen_dg \<Rightarrow> chargen_dg (datagram rq) pos
      | _ \<Rightarrow> (pos, []))"

definition set_service :: "nat \<Rightarrow> servtab \<Rightarrow> inetd \<Rightarrow> inetd" where
  "set_service i sep s = s\<lparr>services := (services s)[i := sep]\<rparr>"

text \<open>\<open>accept\<close> gives a connection its descriptor; other services use their socket.\<close>

definition takes_connection :: "servtab \<Rightarrow> bool" where
  "takes_connection sep \<longleftrightarrow> se_wait sep = 0 \<and> se_socktype sep = SOCK_STREAM"

definition get_ctrl :: "servtab \<Rightarrow> inetd \<Rightarrow> int \<times> inetd" where
  "get_ctrl sep s = (if takes_connection sep then open_fd s else (se_fd sep, s))"

definition drop_ctrl :: "servtab \<Rightarrow> int \<Rightarrow> inetd \<Rightarrow> inetd" where
  "drop_ctrl sep ctrl s = (if takes_connection sep then close_fd ctrl s else s)"

text \<open>A service that is started too often is closed, and the timer is set.\<close>

definition terminate :: "nat \<Rightarrow> servtab \<Rightarrow> int \<Rightarrow> inetd \<Rightarrow> inetd" where
  "terminate i sep ctrl s =
     (case close_sep sep (logs (Looping (se_service sep) (se_proto sep)) s) of
        (sep', s') \<Rightarrow> set_alarm (drop_ctrl sep' ctrl (set_service i sep' s')))"

text \<open>After \<open>fork\<close>, in the parent: the socket of a service that waits is left to its server.\<close>

definition started :: "nat \<Rightarrow> servtab \<Rightarrow> int \<Rightarrow> inetd \<Rightarrow> inetd" where
  "started i sep pid s =
     (if se_wait sep \<noteq> 0 then
        set_service i (sep\<lparr>se_wait := pid\<rparr>)
          (if se_fd sep \<ge> 0 then s\<lparr>allsock := allsock s - {se_fd sep}, nsock := nsock s - 1\<rparr> else s)
      else set_service i sep s)"

text \<open>A request that needs a process of its own.\<close>

definition fork_service :: "request \<Rightarrow> nat \<Rightarrow> int \<Rightarrow> servtab \<Rightarrow> inetd \<Rightarrow> master \<Rightarrow> master" where
  "fork_service rq i ctrl sep s m =
     (case admit (toomany m) (now rq) sep of
        (sep', ok) \<Rightarrow>
          if \<not> ok then m\<lparr>inet := terminate i sep' ctrl s\<rparr>
          else if fork_pid rq < 0 then m\<lparr>inet := drop_ctrl sep' ctrl (set_service i sep' (logs Fork_error s))\<rparr>
          else m\<lparr>inet := drop_ctrl sep' ctrl (started i sep' (fork_pid rq) s), running := (fork_pid rq, sep') # running m\<rparr>)"

definition serve_builtin :: "request \<Rightarrow> biltin \<Rightarrow> int \<Rightarrow> servtab \<Rightarrow> inetd \<Rightarrow> master \<Rightarrow> master" where
  "serve_builtin rq bi ctrl sep s m =
     (case run_builtin (bi_fn bi) rq (ring_pos m) of
        (pos, out) \<Rightarrow> m\<lparr>inet := drop_ctrl sep ctrl s, ring_pos := pos, sent := sent m @ map (Pair ctrl) out\<rparr>)"

definition serve :: "request \<Rightarrow> nat \<Rightarrow> master \<Rightarrow> master" where
  "serve rq i m =
     (let s = inet m; sep = services s ! i
      in if takes_connection sep \<and> accept_errno rq \<noteq> 0 then
           m\<lparr>inet := if accept_errno rq \<noteq> 4 then logs (Accept_error (se_service sep)) s else s\<rparr>
         else
           (case get_ctrl sep s of
              (ctrl, s1) \<Rightarrow>
                let m1 = (if takes_connection sep \<and> env_option m
                          then m\<lparr>environ := prepenv (resolve_option m) (peer rq) (environ m)\<rparr> else m)
                in case se_bi sep of
                     None \<Rightarrow> fork_service rq i ctrl sep s1 m1
                   | Some bi \<Rightarrow>
                       if bi_fork bi then fork_service rq i ctrl sep s1 m1 else serve_builtin rq bi ctrl sep s1 m1))"

section \<open>The loop\<close>

text \<open>The pass over the services, of which \<open>n\<close> are ready.\<close>

fun serve_all :: "int set \<Rightarrow> (nat \<Rightarrow> request) \<Rightarrow> nat \<Rightarrow> nat list \<Rightarrow> master \<Rightarrow> master" where
  "serve_all ready rq n [] m = m"
| "serve_all ready rq n (i # is) m =
     (if n = 0 then m
      else let fd = se_fd (services (inet m) ! i)
           in if fd \<noteq> -1 \<and> fd \<in> ready then serve_all ready rq (n - 1) is (serve (rq i) i m)
              else serve_all ready rq n is m)"

text \<open>A turn of the loop, with the descriptors that have become ready.  Without sockets it waits for a signal.\<close>

definition main_turn :: "int set \<Rightarrow> (nat \<Rightarrow> request) \<Rightarrow> master \<Rightarrow> master" where
  "main_turn ready rq m =
     (let readable = ready \<inter> allsock (inet m)
      in if nsock (inet m) = 0 then m
         else serve_all readable rq (card readable) [0..<length (services (inet m))] m)"

section \<open>Signals\<close>

definition reap_one :: "int \<Rightarrow> int \<Rightarrow> nat \<Rightarrow> inetd \<Rightarrow> inetd" where
  "reap_one pid status i s =
     (let sep = services s ! i
      in if se_wait sep = pid then
           let s1 = (if status \<noteq> 0 then logs (Exit_status (se_server sep) status) s else s)
           in set_service i (sep\<lparr>se_wait := 1\<rparr>) (s1\<lparr>allsock := insert (se_fd sep) (allsock s1), nsock := nsock s1 + 1\<rparr>)
         else s)"

definition reap_pid :: "int \<times> int \<Rightarrow> inetd \<Rightarrow> inetd" where
  "reap_pid = (\<lambda>(pid, status) s. fold (reap_one pid status) [0..<length (services s)] s)"

definition reapchild :: "(int \<times> int) list \<Rightarrow> master \<Rightarrow> master" where
  "reapchild dead m =
     m\<lparr>inet := fold reap_pid dead (inet m), running := filter (\<lambda>(pid, _). pid \<notin> fst ` set dead) (running m)\<rparr>"

definition hup :: "host \<Rightarrow> string list \<Rightarrow> master \<Rightarrow> fault + master" where
  "hup h paths m = map_sum id (\<lambda>(p, s). m\<lparr>parse := p, inet := s\<rparr>) (config h paths (parse m, inet m))"

text \<open>The processes that \<open>fork\<close> makes are new, and \<open>wait3\<close> returns processes that were made and not yet returned.  The timer
  expires when it is set.\<close>

definition fresh_pids :: "(nat \<Rightarrow> request) \<Rightarrow> master \<Rightarrow> bool" where
  "fresh_pids rq m \<longleftrightarrow> (\<forall>i < length (services (inet m)). fork_pid (rq i) < 0 \<or>
     1 < fork_pid (rq i) \<and> fork_pid (rq i) \<notin> fst ` set (running m)
     \<and> (\<forall>j < i. fork_pid (rq i) \<noteq> fork_pid (rq j)))"

datatype signal = Turned | Reaped | Expired | Reread

inductive inetd_step :: "signal \<Rightarrow> master \<Rightarrow> master \<Rightarrow> bool" where
  Turned: "fresh_pids rq m \<Longrightarrow> inetd_step Turned m (main_turn ready rq m)"
| Reaped: "fst ` set dead \<subseteq> fst ` set (running m) \<Longrightarrow> distinct (map fst dead) \<Longrightarrow> inetd_step Reaped m (reapchild dead m)"
| Expired: "timingout (inet m) \<Longrightarrow> inetd_step Expired m (m\<lparr>inet := retry (inet m)\<rparr>)"
| Reread: "hup h paths m = Inr m' \<Longrightarrow> inetd_step Reread m m'"

inductive inetd_run :: "signal set \<Rightarrow> master \<Rightarrow> master \<Rightarrow> bool" for S where
  start: "inetd_run S m m"
| more: "inetd_run S m m' \<Longrightarrow> a \<in> S \<Longrightarrow> inetd_step a m' m'' \<Longrightarrow> inetd_run S m m''"

inductive_cases inetd_stepE: "inetd_step a m m'"

end
