(* ===== verification/Inetd_Invariant.thy ===== *)
theory Inetd_Invariant
  imports Inetd "HOL-Library.Multiset"
begin

text \<open>
  The invariants of the service table of inetd.  \<open>table_ok\<close>: the open descriptors are those inetd was started with and
  one for every service that has a socket, and \<open>select\<close> is only given sockets of services.
  \<open>safe\<close> adds that the counter \<open>nsock\<close> is at most the number of the sockets given to \<open>select\<close>, and that the
  socket of a service whose server is being waited for is not one of them.  \<open>exact\<close>: the counter is that
  number, and every socket that no server has is given to \<open>select\<close>.
\<close>

section \<open>Invariants\<close>

definition sock1 :: "servtab \<Rightarrow> int multiset" where
  "sock1 sep = (if se_fd sep \<ge> 0 then {#se_fd sep#} else {#})"

fun socks :: "servtab list \<Rightarrow> int multiset" where
  "socks [] = {#}"
| "socks (sep # seps) = sock1 sep + socks seps"

definition table_ok :: "int set \<Rightarrow> inetd \<Rightarrow> bool" where
  "table_ok base s \<longleftrightarrow> base \<subseteq> set (fds s) \<and> socks (services s) = mset_set (set (fds s) - base)
     \<and> allsock s \<subseteq> set (fds s) - base \<and> (\<forall>fd \<in> allsock s. fd \<le> maxsock s)
     \<and> (\<forall>sep \<in> set (services s). -1 \<le> se_fd sep)"

definition waiting_ok :: "inetd \<Rightarrow> bool" where
  "waiting_ok s \<longleftrightarrow> (\<forall>sep \<in> set (services s). 1 < se_wait sep \<longrightarrow>
     0 \<le> se_fd sep \<and> se_fd sep \<le> maxsock s \<and> se_fd sep \<notin> allsock s)"

definition safe :: "int set \<Rightarrow> inetd \<Rightarrow> bool" where
  "safe base s \<longleftrightarrow> table_ok base s \<and> waiting_ok s \<and> nsock s \<le> int (card (allsock s))"

definition exact :: "inetd \<Rightarrow> bool" where
  "exact s \<longleftrightarrow> nsock s = int (card (allsock s))
     \<and> (\<forall>sep \<in> set (services s). 0 \<le> se_fd sep \<and> se_wait sep \<le> 1 \<longrightarrow> se_fd sep \<in> allsock s)"

section \<open>Sockets of a table\<close>

lemma socks_update: "i < length xs \<Longrightarrow> socks (xs[i := y]) + sock1 (xs ! i) = socks xs + sock1 y"
proof (induction xs arbitrary: i)
  case (Cons x xs)
  then show ?case by (cases i) (auto simp: ac_simps)
qed simp

lemma socks_update_fd: "i < length xs \<Longrightarrow> se_fd y = se_fd (xs ! i) \<Longrightarrow> socks (xs[i := y]) = socks xs"
  using socks_update [of i xs y] by (simp add: sock1_def split: if_splits)

lemma socks_member: "sep \<in> set xs \<Longrightarrow> 0 \<le> se_fd sep \<Longrightarrow> se_fd sep \<in># socks xs"
  by (induction xs) (auto simp: sock1_def)

lemma socks_inj:
  assumes "socks xs = mset_set F" "i < length xs" "j < length xs" "i \<noteq> j" "0 \<le> se_fd (xs ! i)"
  shows "se_fd (xs ! j) \<noteq> se_fd (xs ! i)"
proof
  assume eq: "se_fd (xs ! j) = se_fd (xs ! i)"
  let ?fd = "se_fd (xs ! i)"
  let ?ys = "xs[i := (xs ! i)\<lparr>se_fd := -1\<rparr>]"
  have "socks xs = add_mset ?fd (socks ?ys)"
    using socks_update [OF assms(2), of "(xs ! i)\<lparr>se_fd := -1\<rparr>"] assms(5) by (simp add: sock1_def)
  then have c: "count (socks xs) ?fd = Suc (count (socks ?ys) ?fd)" by simp
  have "?ys ! j \<in> set ?ys" using assms(3) by (intro nth_mem) simp
  then have "?fd \<in># socks ?ys" using socks_member [of "?ys ! j" ?ys] assms(4,5) eq by simp
  then have "count (socks ?ys) ?fd > 0" by simp
  moreover have "count (socks xs) ?fd \<le> 1" unfolding assms(1) by (simp add: count_mset_set')
  ultimately show False using c by linarith
qed

lemma in_update: "sep \<in> set (xs[i := y]) \<Longrightarrow> i < length xs \<Longrightarrow> sep = y \<or> (\<exists>j < length xs. j \<noteq> i \<and> sep = xs ! j)"
  by (metis in_set_conv_nth length_list_update nth_list_update nth_list_update_neq)

section \<open>Descriptors\<close>

lemma new_fd_new: "new_fd xs \<notin> set xs" "0 \<le> new_fd xs"
proof -
  let ?l = "filter (\<lambda>n. int n \<notin> set xs) [0..<Suc (length xs)]"
  have "?l \<noteq> []"
  proof
    assume "?l = []"
    then have "int ` {0..<Suc (length xs)} \<subseteq> set xs" by (auto simp: filter_empty_conv simp del: upt_Suc)
    then have "card (int ` {0..<Suc (length xs)}) \<le> card (set xs)" by (intro card_mono) auto
    then show False using card_length [of xs] by (simp add: card_image)
  qed
  then have "hd ?l \<in> set ?l" by (rule hd_in_set)
  then show "new_fd xs \<notin> set xs" "0 \<le> new_fd xs" by (auto simp: new_fd_def simp del: upt_Suc)
qed

lemma open_fd_ok:
  assumes "table_ok base s" "open_fd s = (fd, s')"
  shows "table_ok (insert fd base) s'" "fd \<notin> set (fds s)" "0 \<le> fd" "fd \<notin> base" "s' = s\<lparr>fds := fd # fds s\<rparr>"
proof -
  show s': "s' = s\<lparr>fds := fd # fds s\<rparr>" and fd: "fd \<notin> set (fds s)" "0 \<le> fd"
    using assms(2) new_fd_new [of "fds s"] by (auto simp: open_fd_def Let_def)
  then show "fd \<notin> base" using assms(1) by (auto simp: table_ok_def)
  have "insert fd (set (fds s)) - insert fd base = set (fds s) - base" using fd by auto
  then show "table_ok (insert fd base) s'" using assms(1) fd by (auto simp: table_ok_def s')
qed

lemma close_fd_ok:
  assumes "table_ok (insert fd base) s" "fd \<notin> base"
  shows "table_ok base (close_fd fd s)"
proof -
  have "set (fds s) - {fd} - base = set (fds s) - insert fd base" by auto
  then show ?thesis using assms by (auto simp: table_ok_def close_fd_def)
qed

lemma close_fd_simps [simp]:
  "services (close_fd fd s) = services s" "allsock (close_fd fd s) = allsock s" "nsock (close_fd fd s) = nsock s"
  "maxsock (close_fd fd s) = maxsock s" "set (fds (close_fd fd s)) = set (fds s) - {fd}"
  "set (listening (close_fd fd s)) = set (listening s) - {fd}"
  by (auto simp: close_fd_def)

lemma logs_simps [simp]:
  "services (logs e s) = services s" "allsock (logs e s) = allsock s" "nsock (logs e s) = nsock s"
  "maxsock (logs e s) = maxsock s" "fds (logs e s) = fds s" "listening (logs e s) = listening s"
  by (auto simp: logs_def)

lemma set_alarm_simps [simp]:
  "services (set_alarm s) = services s" "allsock (set_alarm s) = allsock s" "nsock (set_alarm s) = nsock s"
  "maxsock (set_alarm s) = maxsock s" "fds (set_alarm s) = fds s" "listening (set_alarm s) = listening s"
  by (auto simp: set_alarm_def)

lemma set_service_simps [simp]:
  "services (set_service i sep s) = (services s)[i := sep]" "allsock (set_service i sep s) = allsock s"
  "nsock (set_service i sep s) = nsock s" "maxsock (set_service i sep s) = maxsock s"
  "fds (set_service i sep s) = fds s" "listening (set_service i sep s) = listening s"
  by (auto simp: set_service_def)

lemma take_io_simps:
  "take_io s = (e, s') \<Longrightarrow> services s' = services s \<and> allsock s' = allsock s \<and> nsock s' = nsock s
     \<and> maxsock s' = maxsock s \<and> fds s' = fds s \<and> listening s' = listening s"
  by (auto simp: take_io_def split: list.splits)

text \<open>The parts of a state the invariants are about.\<close>

definition same_state :: "inetd \<Rightarrow> inetd \<Rightarrow> bool" where
  "same_state s s' \<longleftrightarrow> services s' = services s \<and> allsock s' = allsock s \<and> nsock s' = nsock s
     \<and> maxsock s' = maxsock s \<and> set (fds s') = set (fds s)"

lemma invariants_same:
  "same_state s s' \<Longrightarrow> table_ok base s' = table_ok base s"
  "same_state s s' \<Longrightarrow> safe base s' = safe base s"
  "same_state s s' \<Longrightarrow> exact s' = exact s"
  by (simp_all add: same_state_def safe_def table_ok_def waiting_ok_def exact_def)

section \<open>Making and closing sockets\<close>

lemma setup_sock_result:
  "setup_sock sep s = (ok, sep', s') \<Longrightarrow>
     \<exists>fd f. sep' = sep\<lparr>se_fd := fd, se_family := f\<rparr> \<and> services s' = services s \<and> allsock s' = allsock s
       \<and> nsock s' = nsock s \<and> maxsock s' = maxsock s \<and> set (listening s') \<subseteq> set (listening s)
       \<and> (if ok then 0 \<le> fd \<and> fd \<notin> set (fds s) \<and> set (fds s') = insert fd (set (fds s))
          else fd = -1 \<and> set (fds s') = set (fds s))"
proof (induction sep s arbitrary: ok sep' s' rule: setup_sock.induct)
  case (1 sep s)
  obtain e s1 where t1: "take_io s = (e, s1)" by (cases "take_io s")
  obtain fd s2 where o: "open_fd s1 = (fd, s2)" by (cases "open_fd s1")
  obtain e' s3 where t2: "take_io s2 = (e', s3)" by (cases "take_io s2")
  note f1 = take_io_simps [OF t1] and f3 = take_io_simps [OF t2]
  have f2: "s2 = s1\<lparr>fds := fd # fds s1\<rparr>" "fd \<notin> set (fds s1)" "0 \<le> fd"
    using o new_fd_new [of "fds s1"] by (auto simp: open_fd_def Let_def)
  note u = setup_sock.simps [of sep s, unfolded t1 o t2 prod.case]
  have fdset: "insert fd (set (fds s)) - {fd} = set (fds s)" using f1 f2 by auto
  show ?case
  proof (cases "e \<noteq> 0")
    case e: True
    show ?thesis
    proof (cases "e = EAFNOSUPPORT \<and> se_family sep = AF_INET6 \<and> se_v4mapped sep")
      case True
      then have "setup_sock (sep\<lparr>se_fd := -1, se_family := AF_INET\<rparr>) s1 = (ok, sep', s')"
        using 1(3) e by (simp add: u)
      from 1(1) [OF t1 [symmetric] e True this] show ?thesis using f1 by auto
    next
      case False
      then have "ok = False" "sep' = sep\<lparr>se_fd := -1, se_family := se_family sep\<rparr>"
        "s' = logs (Socket_error (se_service sep) (se_proto sep)) s1"
        using 1(3) e by (simp_all add: u split: if_splits)
      then show ?thesis using f1 by (intro exI [of _ "-1"] exI [of _ "se_family sep"]) simp
    qed
  next
    case e: False
    show ?thesis
    proof (cases "e' \<noteq> 0")
      case e': True
      show ?thesis
      proof (cases "(e' = EADDRNOTAVAIL \<or> e' = EAFNOSUPPORT) \<and> se_family sep = AF_INET6 \<and> se_v4mapped sep")
        case True
        then have "setup_sock (sep\<lparr>se_fd := fd, se_family := AF_INET\<rparr>) (close_fd fd s3) = (ok, sep', s')"
          using 1(3) e e' by (simp_all add: u split: if_splits)
        from 1(2) [OF t1 [symmetric] e o [symmetric] t2 [symmetric] e' True this]
        show ?thesis using f1 f2 f3 fdset by auto
      next
        case False
        then have "ok = False" "sep' = sep\<lparr>se_fd := -1, se_family := se_family sep\<rparr>"
          "s' = set_alarm (close_fd fd (logs (Bind_error (se_service sep) (se_proto sep)) s3))"
          using 1(3) e e' by (simp_all add: u split: if_splits)
        then show ?thesis using f1 f2(1) f3 fdset
          by (intro exI [of _ "-1"] exI [of _ "se_family sep"]) (simp add: Diff_subset)
      qed
    next
      case False
      then have "ok = True" "sep' = sep\<lparr>se_fd := fd, se_family := se_family sep\<rparr>" "s' = s3"
        using 1(3) e by (auto simp: u)
      then show ?thesis using f1 f2 f3
        by (intro exI [of _ fd] exI [of _ "se_family sep"]) simp
    qed
  qed
qed

lemma gain_socket:
  assumes "table_ok base s" "i < length (services s)" "se_fd (services s ! i) = -1"
    "0 \<le> fd" "fd \<notin> set (fds s)" "se_fd y = fd"
    "services s' = (services s)[i := y]" "set (fds s') = insert fd (set (fds s))"
    "allsock s' \<subseteq> insert fd (allsock s)" "maxsock s \<le> maxsock s'" "fd \<in> allsock s' \<Longrightarrow> fd \<le> maxsock s'"
  shows "table_ok base s'"
proof -
  have b: "fd \<notin> base" using assms(1,5) by (auto simp: table_ok_def)
  then have F: "set (fds s') - base = insert fd (set (fds s) - base)" using assms(8) by auto
  have "socks (services s') = add_mset fd (socks (services s))"
    using socks_update [OF assms(2), of y] assms(3,4,6,7) by (simp add: sock1_def)
  moreover have "mset_set (set (fds s') - base) = add_mset fd (mset_set (set (fds s) - base))"
    unfolding F using assms(5) by simp
  ultimately have "socks (services s') = mset_set (set (fds s') - base)" using assms(1) by (simp add: table_ok_def)
  moreover have "fd' \<le> maxsock s'" if "fd' \<in> allsock s'" for fd'
    using that assms(1,9,10,11) by (cases "fd' = fd") (fastforce simp: table_ok_def)+
  moreover have "-1 \<le> se_fd sep" if "sep \<in> set (services s')" for sep
    using in_update [of sep "services s" i y] that assms(1,2,4,6,7) by (auto simp: table_ok_def)
  ultimately show ?thesis using assms(1,8,9) F by (auto simp: table_ok_def)
qed

lemma lose_socket:
  assumes "table_ok base s" "socks xs + {#fd#} = socks (services s)" "services s' = xs"
    "set (fds s') = set (fds s) - {fd}" "allsock s' = allsock s - {fd}" "maxsock s' = maxsock s"
    "\<forall>sep \<in> set xs. -1 \<le> se_fd sep"
  shows "table_ok base s'"
proof -
  have "fd \<in># mset_set (set (fds s) - base)" using assms(1,2) by (metis table_ok_def multi_member_last union_iff)
  then have fd: "fd \<in> set (fds s) - base" by simp
  have "mset_set (set (fds s) - base) = add_mset fd (mset_set (set (fds s) - base - {fd}))"
    using fd by (intro mset_set.remove) auto
  moreover have "set (fds s) - base - {fd} = set (fds s') - base" using assms(4) by auto
  ultimately have "socks (services s') = mset_set (set (fds s') - base)"
    using assms(1,2,3) by (simp add: table_ok_def)
  then show ?thesis using assms fd by (auto simp: table_ok_def)
qed

lemma waiting_update:
  assumes "waiting_ok s" "i < length (services s)" "services s' = (services s)[i := y]" "maxsock s \<le> maxsock s'"
    "1 < se_wait y \<Longrightarrow> 0 \<le> se_fd y \<and> se_fd y \<le> maxsock s' \<and> se_fd y \<notin> allsock s'"
    "\<And>j. j < length (services s) \<Longrightarrow> j \<noteq> i \<Longrightarrow> 0 \<le> se_fd (services s ! j) \<Longrightarrow> se_fd (services s ! j) \<notin> allsock s
       \<Longrightarrow> se_fd (services s ! j) \<notin> allsock s'"
  shows "waiting_ok s'"
  unfolding waiting_ok_def
proof (intro ballI impI)
  fix sep
  assume sep: "sep \<in> set (services s')" "1 < se_wait sep"
  then consider "sep = y" | j where "j < length (services s)" "j \<noteq> i" "sep = services s ! j"
    using in_update [of sep "services s" i y] assms(2,3) by auto
  then show "0 \<le> se_fd sep \<and> se_fd sep \<le> maxsock s' \<and> se_fd sep \<notin> allsock s'"
  proof cases
    case 1
    then show ?thesis using assms(5) sep(2) by simp
  next
    case 2
    then have "0 \<le> se_fd sep \<and> se_fd sep \<le> maxsock s \<and> se_fd sep \<notin> allsock s" using assms(1) sep(2) by (auto simp: waiting_ok_def)
    then show ?thesis using assms(4,6) 2 by simp
  qed
qed

lemma setup_service_ok:
  assumes "safe base s" "i < length (services s)" "se_fd (services s ! i) = -1" "setup_service i s = (ok, s')"
  shows "safe base s'" "allsock s' = allsock s" "nsock s' = nsock s" "maxsock s' = maxsock s"
    "set (listening s') \<subseteq> set (listening s)"
    "\<exists>fd f. services s' = (services s)[i := (services s ! i)\<lparr>se_fd := fd, se_family := f\<rparr>]
       \<and> (if ok then 0 \<le> fd \<and> fd \<notin> set (fds s) \<and> set (fds s') = insert fd (set (fds s))
          else fd = -1 \<and> set (fds s') = set (fds s))"
proof -
  obtain sep s1 where u: "setup_sock (services s ! i) s = (ok, sep, s1)" "s' = s1\<lparr>services := (services s1)[i := sep]\<rparr>"
    using assms(4) by (auto simp: setup_service_def split: prod.splits)
  from setup_sock_result [OF u(1)] obtain fd f where r:
    "sep = (services s ! i)\<lparr>se_fd := fd, se_family := f\<rparr>" "services s1 = services s" "allsock s1 = allsock s"
    "nsock s1 = nsock s" "maxsock s1 = maxsock s" "set (listening s1) \<subseteq> set (listening s)"
    "if ok then 0 \<le> fd \<and> fd \<notin> set (fds s) \<and> set (fds s1) = insert fd (set (fds s)) else fd = -1 \<and> set (fds s1) = set (fds s)"
    by blast
  show fr: "allsock s' = allsock s" "nsock s' = nsock s" "maxsock s' = maxsock s" "set (listening s') \<subseteq> set (listening s)"
    using u(2) r by simp_all
  show "\<exists>fd f. services s' = (services s)[i := (services s ! i)\<lparr>se_fd := fd, se_family := f\<rparr>]
       \<and> (if ok then 0 \<le> fd \<and> fd \<notin> set (fds s) \<and> set (fds s') = insert fd (set (fds s))
          else fd = -1 \<and> set (fds s') = set (fds s))"
    using u(2) r by (intro exI [of _ fd] exI [of _ f]) simp
  have t: "table_ok base s" and w: "waiting_ok s" and n: "nsock s \<le> int (card (allsock s))"
    using assms(1) by (simp_all add: safe_def)
  have sv: "services s' = (services s)[i := sep]" using u(2) r by simp
  have "table_ok base s'"
  proof (cases ok)
    case True
    then show ?thesis
      using t r u(2) assms(2,3) sv fr by (intro gain_socket [OF t assms(2,3), of fd sep]) (auto simp: table_ok_def)
  next
    case False
    then have "socks (services s') = socks (services s)" "set (fds s') = set (fds s)"
      using sv r u(2) assms(2,3) by (simp_all add: socks_update_fd)
    moreover have "-1 \<le> se_fd x" if "x \<in> set (services s')" for x
      using in_update [of x "services s" i sep] that sv assms(2) t r False by (auto simp: table_ok_def)
    ultimately show ?thesis using t fr by (simp add: table_ok_def)
  qed
  moreover have "se_wait (services s ! i) \<le> 1"
    using w assms(2,3) nth_mem by (force simp: waiting_ok_def)
  then have "waiting_ok s'" using w sv fr r(1) by (intro waiting_update [OF w assms(2) sv]) auto
  ultimately show "safe base s'" using n fr by (simp add: safe_def)
qed

lemma nth_in_table: "i < length (services s) \<Longrightarrow> table_ok base s \<Longrightarrow> 0 \<le> se_fd (services s ! i) \<Longrightarrow>
    se_fd (services s ! i) \<in> set (fds s) - base"
  using socks_member [of "services s ! i" "services s"] by (auto simp: table_ok_def)

lemma entry_update:
  assumes "i < length (services s)" "services s' = (services s)[i := y]" "se_fd y = se_fd (services s ! i)"
    "se_wait y = se_wait (services s ! i)" "allsock s' = allsock s" "nsock s' = nsock s" "maxsock s' = maxsock s"
    "set (fds s') = set (fds s)"
  shows "safe base s' = safe base s" "exact s' = exact s" "table_ok base s' = table_ok base s"
    "map se_wait (services s') = map se_wait (services s)"
proof -
  have all: "(\<forall>sep \<in> set (services s'). P (se_fd sep) (se_wait sep)) \<longleftrightarrow> (\<forall>sep \<in> set (services s). P (se_fd sep) (se_wait sep))" for P
    using assms(1-4) by (auto simp: all_set_conv_all_nth nth_list_update split: if_splits)
  show t: "table_ok base s' = table_ok base s"
    using assms all [of "\<lambda>fd _. -1 \<le> fd"] by (simp add: table_ok_def socks_update_fd)
  have "waiting_ok s' = waiting_ok s"
    using assms(5,7) all [of "\<lambda>fd wt. 1 < wt \<longrightarrow> 0 \<le> fd \<and> fd \<le> maxsock s \<and> fd \<notin> allsock s"] by (simp add: waiting_ok_def)
  then show "safe base s' = safe base s" using t assms by (simp add: safe_def)
  show "exact s' = exact s"
    using assms all [of "\<lambda>fd wt. 0 \<le> fd \<and> wt \<le> 1 \<longrightarrow> fd \<in> allsock s"] by (simp add: exact_def)
  show "map se_wait (services s') = map se_wait (services s)"
    using assms(1,2,4) by (intro nth_equalityI) (auto simp: nth_list_update)
qed

text \<open>A new socket that is given to \<open>select\<close>.\<close>

lemma register_ok:
  assumes "safe base s" "i < length (services s)" "se_fd (services s ! i) = -1" "0 \<le> x" "x \<notin> set (fds s)"
    "se_fd y = x" "se_wait y = se_wait (services s ! i)" "services s' = (services s)[i := y]" "set (fds s') = insert x (set (fds s))"
    "allsock s' = insert x (allsock s)" "nsock s' = nsock s + 1" "maxsock s \<le> maxsock s'" "x \<le> maxsock s'"
  shows "safe base s'" "exact s \<Longrightarrow> exact s'"
proof -
  have t: "table_ok base s" and w: "waiting_ok s" and n: "nsock s \<le> int (card (allsock s))"
    using assms(1) by (simp_all add: safe_def)
  have na: "x \<notin> allsock s" using t assms(5) by (auto simp: table_ok_def)
  have fin: "finite (allsock s)" using t by (auto simp: table_ok_def intro: finite_subset)
  have "table_ok base s'" by (rule gain_socket [OF t assms(2-6,8,9)]) (use assms(10-13) in auto)
  moreover have "se_wait (services s ! i) \<le> 1" using w nth_mem [OF assms(2)] assms(3) by (force simp: waiting_ok_def)
  then have "waiting_ok s'"
    using waiting_update [OF w assms(2,8,12)] nth_in_table [OF _ t] assms(5,7,10) by fastforce
  ultimately show "safe base s'" using n na fin assms(10,11) by (simp add: safe_def)
  show "exact s'" if "exact s"
    using that na fin in_update [of _ "services s" i y] assms(2,6,8,10,11) by (fastforce simp: exact_def)
qed

lemma servent_setup_ok:
  assumes "safe base s" "i < length (services s)"
  shows "safe base (servent_setup i s) \<and> (exact s \<longrightarrow> exact (servent_setup i s))
    \<and> map se_wait (services (servent_setup i s)) = map se_wait (services s)"
proof -
  define s0 where "s0 = s\<lparr>services := (services s)[i := (services s ! i)\<lparr>se_checked := True\<rparr>]\<rparr>"
  have l0: "i < length (services s0)" using assms(2) by (simp add: s0_def)
  note m0 = entry_update [of i s s0 "(services s ! i)\<lparr>se_checked := True\<rparr>", OF assms(2)]
  have s0: "safe base s0" "exact s0 = exact s" "map se_wait (services s0) = map se_wait (services s)"
    using m0 assms(1) by (simp_all add: s0_def)
  show ?thesis
  proof (cases "se_fd (services s0 ! i) = -1")
    case False
    then have "servent_setup i s = s0" by (simp add: servent_setup_def flip: s0_def)
    then show ?thesis using s0 by simp
  next
    case fd: True
    obtain ok s1 where u: "setup_service i s0 = (ok, s1)" by (cases "setup_service i s0")
    note r = setup_service_ok [OF s0(1) l0 fd u]
    from r(6) obtain x f where x: "services s1 = (services s0)[i := (services s0 ! i)\<lparr>se_fd := x, se_family := f\<rparr>]"
      "if ok then 0 \<le> x \<and> x \<notin> set (fds s0) \<and> set (fds s1) = insert x (set (fds s0)) else x = -1 \<and> set (fds s1) = set (fds s0)" by blast
    have m1: "map se_wait (services s1) = map se_wait (services s)"
      unfolding s0(3) [symmetric] x(1) using l0 by (intro nth_equalityI) (auto simp: nth_list_update)
    have sx: "se_fd (services s1 ! i) = x" using x(1) l0 by simp
    show ?thesis
    proof (cases ok)
      case False
      then have "servent_setup i s = s1" using fd u by (simp add: servent_setup_def flip: s0_def)
      moreover have "exact s1 = exact s0"
        by (rule entry_update(2) [OF l0 x(1)]) (use r(2-4) x(2) False fd in auto)
      ultimately show ?thesis using r(1) s0 m1 by simp
    next
      case True
      let ?r = "servent_setup i s"
      have req: "services ?r = services s1" "allsock ?r = insert x (allsock s0)" "nsock ?r = nsock s0 + 1" "fds ?r = fds s1"
        "maxsock ?r = (if x > maxsock s0 then x else maxsock s0)"
        using fd u True r(2-4) by (simp_all add: servent_setup_def Let_def sx flip: s0_def)
      have "safe base ?r \<and> (exact s0 \<longrightarrow> exact ?r)"
        using register_ok [OF s0(1) l0 fd, of x "(services s0 ! i)\<lparr>se_fd := x, se_family := f\<rparr>" ?r] x True by (simp add: req)
      then show ?thesis using s0(2) m1 req(1) by simp
    qed
  qed
qed

lemma setup_service_length: "length (services (snd (setup_service i s))) = length (services s)"
  using setup_sock_result [of "services s ! i" s] by (fastforce simp: setup_service_def split: prod.splits)

lemma retry_ok:
  assumes "safe base s"
  shows "safe base (retry s)" "allsock (retry s) = allsock s" "nsock (retry s) = nsock s"
    "set (listening (retry s)) \<subseteq> set (listening s)"
proof -
  have one: "safe base (retry_one i s) \<and> allsock (retry_one i s) = allsock s \<and> nsock (retry_one i s) = nsock s
      \<and> set (listening (retry_one i s)) \<subseteq> set (listening s) \<and> length (services (retry_one i s)) = length (services s)"
    if "safe base s" "i < length (services s)" for i s
    using setup_service_ok [OF that, of "fst (setup_service i s)" "snd (setup_service i s)"] that setup_service_length
    by (simp add: retry_one_def)
  have "safe base (fold retry_one is s) \<and> allsock (fold retry_one is s) = allsock s \<and> nsock (fold retry_one is s) = nsock s
      \<and> set (listening (fold retry_one is s)) \<subseteq> set (listening s)"
    if "safe base s" "\<forall>i \<in> set is. i < length (services s)" for "is" s
    using that
  proof (induction "is" arbitrary: s)
    case (Cons i "is")
    then show ?case using one [of s i] by fastforce
  qed simp
  from this [of "s\<lparr>timingout := False\<rparr>" "[0..<length (services s)]"] assms
  show "safe base (retry s)" "allsock (retry s) = allsock s" "nsock (retry s) = nsock s"
    "set (listening (retry s)) \<subseteq> set (listening s)"
    by (simp_all add: retry_def invariants_same [of s "s\<lparr>timingout := False\<rparr>"] same_state_def)
qed

section \<open>Reading the configuration\<close>

definition quiet :: "inetd \<Rightarrow> bool" where
  "quiet s \<longleftrightarrow> (\<forall>sep \<in> set (services s). se_wait sep \<le> 1)"

text \<open>The processes that are being waited for.\<close>

definition waits :: "inetd \<Rightarrow> int set" where
  "waits s = {w \<in> se_wait ` set (services s). 1 < w}"

text \<open>What an operation does to the invariants when no server is being waited for, and when one may be.\<close>

definition keeps :: "int set \<Rightarrow> inetd \<Rightarrow> inetd \<Rightarrow> bool" where
  "keeps base s s' \<longleftrightarrow> safe base s' \<and> waits s' \<subseteq> waits s \<and> (exact s \<and> quiet s \<longrightarrow> exact s' \<and> quiet s')"

lemma keeps_trans: "keeps base s s' \<Longrightarrow> keeps base s' s'' \<Longrightarrow> keeps base s s''"
  by (auto simp: keeps_def)

lemma keeps_same: "same_state s s' \<Longrightarrow> safe base s \<Longrightarrow> keeps base s s'"
  using invariants_same(1,2) [of s s' base] invariants_same(3) [of s s'] by (auto simp: keeps_def same_state_def quiet_def waits_def)

lemma keeps_logs: "keeps base s s' \<Longrightarrow> keeps base s (logs e s')"
proof -
  assume k: "keeps base s s'"
  then have "keeps base s' (logs e s')" by (intro keeps_same) (simp_all add: same_state_def keeps_def)
  then show ?thesis by (rule keeps_trans [OF k])
qed

lemma quiet_map: "map se_wait (services s') = map se_wait (services s) \<Longrightarrow> quiet s' = quiet s"
proof -
  assume m: "map se_wait (services s') = map se_wait (services s)"
  have "quiet t \<longleftrightarrow> (\<forall>w \<in> set (map se_wait (services t)). w \<le> 1)" for t by (simp add: quiet_def)
  from this [of s] this [of s'] m show ?thesis by presburger
qed

lemma waits_map: "map se_wait (services s') = map se_wait (services s) \<Longrightarrow> waits s' = waits s"
  unfolding waits_def by (metis list.set_map)

lemma servent_setup_keeps: "safe base s \<Longrightarrow> i < length (services s) \<Longrightarrow> keeps base s (servent_setup i s)"
  using servent_setup_ok [of base s i] quiet_map [of "servent_setup i s" s] waits_map [of "servent_setup i s" s] by (simp add: keeps_def)

lemma index_of_bound: "index_of P xs = Some i \<Longrightarrow> i < length xs \<and> P (xs ! i)"
  by (induction xs arbitrary: i) (auto split: if_splits)

lemma new_entry_ok:
  assumes "safe base s" "se_fd y = -1" "se_wait y \<le> 1"
  shows "keeps base s (s\<lparr>services := y # services s\<rparr>)"
  using assms by (auto simp: keeps_def safe_def table_ok_def waiting_ok_def exact_def quiet_def sock1_def waits_def)

lemma merge_entry_ok:
  assumes "safe base s" "i < length (services s)" "se_wait cp \<le> 1"
  shows "keeps base s (s\<lparr>services := (services s)[i := fst (merge (services s ! i) cp)]\<rparr>)"
proof -
  let ?y = "fst (merge (services s ! i) cp)"
  let ?s = "s\<lparr>services := (services s)[i := ?y]\<rparr>"
  have fd: "se_fd ?y = se_fd (services s ! i)" and wt: "1 < se_wait ?y \<Longrightarrow> se_wait ?y = se_wait (services s ! i)"
    using assms(3) by (auto simp: merge_def split: if_splits)
  have t: "table_ok base s" and w: "waiting_ok s" and n: "nsock s \<le> int (card (allsock s))"
    using assms(1) by (simp_all add: safe_def)
  have y: "services s ! i \<in> set (services s)" using assms(2) by simp
  have up: "sep \<in> set (services ?s) \<Longrightarrow> sep = ?y \<or> sep \<in> set (services s)" for sep
    using set_update_subset_insert [of "services s" i ?y] by auto
  have "-1 \<le> se_fd sep" if "sep \<in> set (services ?s)" for sep
    using up [OF that] y t fd by (auto simp: table_ok_def)
  then have "table_ok base ?s" using t fd assms(2) by (simp add: table_ok_def socks_update_fd)
  moreover have "0 \<le> se_fd ?y \<and> se_fd ?y \<le> maxsock s \<and> se_fd ?y \<notin> allsock s" if "1 < se_wait ?y"
    using w y wt [OF that] that unfolding waiting_ok_def fd by (metis (no_types))
  then have "waiting_ok ?s" by (intro waiting_update [OF w assms(2), of ?s ?y]) simp_all
  moreover have "se_wait sep \<le> 1" if "sep \<in> set (services ?s)" "quiet s" for sep
    using up [OF that(1)] that(2) y wt by (fastforce simp: quiet_def not_less)
  then have "quiet ?s" if "quiet s" using that by (simp add: quiet_def)
  moreover have "se_fd sep \<in> allsock ?s" if "sep \<in> set (services ?s)" "exact s" "quiet s" "0 \<le> se_fd sep" for sep
    using up [OF that(1)] that(2-) y fd by (auto simp: exact_def quiet_def)
  then have "exact ?s" if "exact s" "quiet s" using that by (simp add: exact_def)
  moreover have "se_wait sep \<in> waits s" if "sep \<in> set (services ?s)" "1 < se_wait sep" for sep
    using up [OF that(1)] that(2) y wt by (auto simp: waits_def)
  then have "waits ?s \<subseteq> waits s" by (auto simp: waits_def)
  ultimately show ?thesis using n by (simp add: keeps_def safe_def)
qed

lemma enter_ok:
  assumes "safe base s" "se_wait cp \<le> 1" "enter cp s = (cp', i, s')"
  shows "keeps base s s'" "i < length (services s')" "se_wait cp' = se_wait cp"
proof -
  have "keeps base s s' \<and> i < length (services s') \<and> se_wait cp' = se_wait cp"
  proof (cases "index_of (\<lambda>sep. same_service sep cp) (services s)")
    case None
    then have "s' = s\<lparr>services := copy_entry cp # services s\<rparr>" "i = 0" "cp' = cp" using assms(3) by (auto simp: enter_def)
    then show ?thesis using new_entry_ok [OF assms(1), of "copy_entry cp"] assms(2) by (simp add: copy_entry_def)
  next
    case (Some j)
    then show ?thesis
      using assms(3) index_of_bound [OF Some] merge_entry_ok [OF assms(1) _ assms(2), of j]
      by (auto simp: enter_def merge_def)
  qed
  then show "keeps base s s'" "i < length (services s')" "se_wait cp' = se_wait cp" by simp_all
qed

lemma enter_addr_ok:
  assumes "safe base s" "se_wait cp \<le> 1" "enter_addr a (cp, s) = (cp', s')"
  shows "keeps base s s'" "se_wait cp' = se_wait cp"
proof -
  obtain i s1 where e: "enter (cp\<lparr>se_ctrladdr := sockaddr_storage a, se_addrlen := length a\<rparr>) s = (cp', i, s1)"
    "s' = servent_setup i s1"
    using assms(3) by (auto simp: enter_addr_def split: prod.splits)
  note r = enter_ok [OF assms(1) _ e(1)]
  have "safe base s1" using r(1) assms(2) by (simp add: keeps_def)
  then have "keeps base s1 s'" using servent_setup_keeps r(2) assms(2) e(2) by simp
  then show "keeps base s s'" using keeps_trans r(1) assms(2) by simp
  show "se_wait cp' = se_wait cp" using r(3) assms(2) by simp
qed

lemma keeps_refl: "safe base s \<Longrightarrow> keeps base s s"
  by (simp add: keeps_def)

lemma enter_addrs_ok:
  "safe base s \<Longrightarrow> se_wait cp \<le> 1 \<Longrightarrow> fold enter_addr as (cp, s) = (cp', s') \<Longrightarrow>
     keeps base s s' \<and> se_wait cp' = se_wait cp"
proof (induction as arbitrary: cp s)
  case (Cons a as)
  obtain cp1 s1 where e: "enter_addr a (cp, s) = (cp1, s1)" by (cases "enter_addr a (cp, s)")
  note r = enter_addr_ok [OF Cons.prems(1,2) e]
  show ?case using Cons.IH [of s1 cp1] Cons.prems r e keeps_trans by (auto simp: keeps_def)
qed (simp add: keeps_refl)

lemma expand_enter_ok:
  assumes "safe base s" "se_wait cp \<le> 1" "expand_enter h cp s = (cp', s')"
  shows "keeps base s s'" "se_wait cp' = se_wait cp"
proof -
  note l = keeps_logs [OF keeps_refl [OF assms(1)]]
  let ?cp = "cp\<lparr>se_family := AF_INET\<rparr>"
  consider e where "cp' \<in> {cp, ?cp}" "s' = logs e s" | as where "fold enter_addr as (cp, s) = (cp', s')"
    | as where "fold enter_addr as (?cp, s) = (cp', s')"
    using assms(3) unfolding expand_enter_def Let_def
    by (simp split: option.splits sum.splits if_splits) metis+
  then have "keeps base s s' \<and> se_wait cp' = se_wait cp"
  proof cases
    case 1
    then show ?thesis using l by auto
  next
    case 2
    then show ?thesis using enter_addrs_ok [OF assms(1,2)] by simp
  next
    case 3
    then show ?thesis using enter_addrs_ok [OF assms(1), of ?cp] assms(2) by simp
  qed
  then show "keeps base s s'" "se_wait cp' = se_wait cp" by simp_all
qed

lemma enter_service_ok:
  assumes "safe base s" "se_wait cp \<le> 1" "enter_service h cp s = (cp', s')"
  shows "keeps base s s'" "se_wait cp' = se_wait cp"
  using assms enter_ok [OF assms(1), of "cp\<lparr>se_fd := -1, se_checked := True\<rparr>" cp'] expand_enter_ok [OF assms(1,2)]
  by (auto simp: enter_service_def split: prod.splits if_splits)

text \<open>The parser makes no entries that wait for a process.\<close>

lemma parse_entry_wait: "parse_entry f l argv p = Inr (Entry p') \<Longrightarrow> se_wait (serv p') \<le> 1"
proof -
  assume a: "parse_entry f l argv p = Inr (Entry p')"
  have "bi_wait b = 0" if "bi_lookup sep = Some b" for b sep
    using that by (auto simp: bi_lookup_def biltins_def find_Some_iff split: if_splits)
  then show "se_wait (serv p') \<le> 1"
    using a by (fastforce simp: parse_entry_def parse_wait_def Let_def split: sum.splits prod.splits if_splits option.splits)
qed

lemma parse_line_wait: "parse_line f l argv p = Inr (Entry p') \<Longrightarrow> se_wait (serv p') \<le> 1"
  using parse_entry_wait by (auto simp: parse_line_def split: if_splits)

lemma next_node_wait [simp]: "se_wait (serv (next_node_sep p)) = se_wait (serv p)"
  by (simp add: next_node_sep_def Let_def split: option.split)

lemma conf_loop_wait: "conf_loop f l t p = Inr (found, p', l', t') \<Longrightarrow> se_wait (serv p') \<le> 1"
proof (induction f l t p rule: conf_loop.induct)
  case (1 f l t p)
  note ps = conf_loop.simps [of f l t p]
  show ?case
  proof (cases "next_line l t")
    case None
    then show ?thesis using 1(3) ps by (auto simp: serv_zero_def)
  next
    case (Some x)
    obtain k n r where x: "x = (k, n, r)" by (cases x)
    note nl = Some [unfolded x]
    show ?thesis
      using 1(1) [OF nl refl refl] 1(2) [OF nl refl refl _ _ refl] 1(3) ps nl
      by (auto split: option.splits sum.splits parsed.splits dest: parse_line_wait)
  qed
qed

lemma getconfigent_wait:
  "getconfigent f l t p = Inr (found, p', l', t') \<Longrightarrow> se_wait (serv p) \<le> 1 \<Longrightarrow> se_wait (serv p') \<le> 1"
  by (auto simp: getconfigent_def dest: conf_loop_wait split: if_splits)

lemma conf_entries_ok:
  "safe base s \<Longrightarrow> se_wait (serv p) \<le> 1 \<Longrightarrow> conf_entries h f l t p s = Inr (p', s') \<Longrightarrow>
     keeps base s s' \<and> se_wait (serv p') \<le> 1"
proof (induction h f l t p s rule: conf_entries.induct)
  case (1 h f l t p s)
  note ps = conf_entries.simps [of h f l t p s]
  obtain found p1 l1 t1 where g: "getconfigent f l t p = Inr (found, p1, l1, t1)"
    using 1(5) ps by (auto split: sum.splits)
  have w1: "se_wait (serv p1) \<le> 1" using getconfigent_wait [OF g 1(4)] .
  show ?case
  proof (cases found)
    case False
    then show ?thesis using 1(3,5) ps g w1 keeps_refl by simp
  next
    case True
    then obtain u where u: "se_user (serv p1) = Some u" using 1(5) ps g by (auto split: option.splits)
    show ?thesis
    proof (cases "getpwnam h u = None")
      case None: True
      let ?s = "logs (No_such_user (se_service (serv p1)) (se_proto (serv p1)) u) s"
      have k: "keeps base s ?s" using keeps_logs [OF keeps_refl [OF 1(3)]] .
      have "conf_entries h f l1 t1 p1 ?s = Inr (p', s')" using 1(5) ps g u True None by simp
      then show ?thesis
        using 1(1) [OF g refl refl refl _ u None] True w1 keeps_trans [OF k] k by (simp add: keeps_def)
    next
      case False
      obtain cp s1 where e: "enter_service h (serv p1) s = (cp, s1)" by (cases "enter_service h (serv p1) s")
      note k = enter_service_ok [OF 1(3) w1 e]
      have "conf_entries h f l1 t1 (p1\<lparr>serv := cp\<rparr>) s1 = Inr (p', s')" using 1(5) ps g u True False e by simp
      then show ?thesis
        using 1(2) [OF g refl refl refl _ u False e [symmetric]] True w1 k keeps_trans [OF k(1)] by (simp add: keeps_def)
    qed
  qed
qed

text \<open>Removing an entry.\<close>

lemma socks_append [simp]: "socks (xs @ ys) = socks xs + socks ys"
  by (induction xs) (simp_all add: ac_simps)

lemma close_sep_state:
  "0 \<le> se_fd sep \<Longrightarrow> close_sep sep s = (sep', s') \<Longrightarrow>
     services s' = services s \<and> allsock s' = allsock s - {se_fd sep} \<and> nsock s' = nsock s - 1 \<and> maxsock s' = maxsock s
       \<and> set (fds s') = set (fds s) - {se_fd sep} \<and> se_fd sep' = -1 \<and> (se_wait sep' = 0 \<longleftrightarrow> se_wait sep = 0) \<and> se_wait sep' \<le> 1
       \<and> se_socktype sep' = se_socktype sep"
  by (auto simp: close_sep_def Let_def close_fd_def split: if_splits)

lemma finite_allsock: "table_ok base s \<Longrightarrow> finite (allsock s)"
  by (auto simp: table_ok_def intro: finite_subset)

lemma remove_entry_ok:
  assumes "safe base s" "services s = xs @ sep # ys" "0 \<le> se_fd sep" "services s' = xs @ ys"
    "set (fds s') = set (fds s) - {se_fd sep}" "allsock s' = allsock s - {se_fd sep}" "maxsock s' = maxsock s" "nsock s' = nsock s - 1"
  shows "keeps base s s'"
proof -
  have t: "table_ok base s" and w: "waiting_ok s" and n: "nsock s \<le> int (card (allsock s))"
    using assms(1) by (simp_all add: safe_def)
  have "table_ok base s'"
    by (rule lose_socket [OF t _ assms(4-7)]) (use t assms(2,3) in \<open>auto simp: table_ok_def sock1_def\<close>)
  moreover have "waiting_ok s'" using w assms(2,4,6,7) by (auto simp: waiting_ok_def)
  moreover have c: "int (card (allsock s')) = int (card (allsock s)) - (if se_fd sep \<in> allsock s then 1 else 0)"
  proof (cases "se_fd sep \<in> allsock s")
    case True
    then have "card (allsock s) = Suc (card (allsock s'))"
      using card.remove [OF finite_allsock [OF t]] assms(6) by simp
    then show ?thesis using True by simp
  qed (simp add: assms(6))
  moreover have d: "se_fd x \<noteq> se_fd sep" if "x \<in> set (xs @ ys)" for x
  proof
    assume eq: "se_fd x = se_fd sep"
    then have "se_fd sep \<in># socks (xs @ ys)" using socks_member [OF that] assms(3) by simp
    moreover have "socks (xs @ ys) = mset_set (set (fds s) - {se_fd sep} - base)"
      using \<open>table_ok base s'\<close> unfolding table_ok_def assms(4,5) by (elim conjE)
    ultimately have "se_fd sep \<in># mset_set (set (fds s) - {se_fd sep} - base)" by metis
    then show False by simp
  qed
  moreover have "exact s'" if "exact s" "quiet s"
  proof -
    have "se_fd sep \<in> allsock s" using that assms(2,3) by (simp add: exact_def quiet_def)
    then show ?thesis using that c d assms(2,4,6,8) by (auto simp: exact_def)
  qed
  ultimately show ?thesis using n assms(2,4,8) by (auto simp: keeps_def safe_def quiet_def waits_def)
qed

lemma drop_entry_ok:
  assumes "safe base s" "services s = xs @ sep # ys" "se_fd sep < 0"
  shows "keeps base s (s\<lparr>services := xs @ ys\<rparr>)"
  using assms by (auto simp: keeps_def safe_def table_ok_def waiting_ok_def exact_def quiet_def sock1_def waits_def)

lemma purge_ok:
  "safe base (s\<lparr>services := pre @ seps\<rparr>) \<Longrightarrow> purge seps s = (seps', s') \<Longrightarrow>
     keeps base (s\<lparr>services := pre @ seps\<rparr>) (s'\<lparr>services := pre @ seps'\<rparr>) \<and> services s' = services s"
proof (induction seps arbitrary: pre s seps' s')
  case Nil
  then show ?case by (auto intro: keeps_refl)
next
  case (Cons sep seps)
  show ?case
  proof (cases "se_checked sep")
    case True
    then show ?thesis using Cons.IH [where pre = "pre @ [sep]" and s = s] Cons.prems by (auto split: prod.splits)
  next
    case False
    define s1 where "s1 = (if se_fd sep \<ge> 0 then snd (close_sep sep s) else s)"
    have p: "purge seps s1 = (seps', s')" using Cons.prems(2) False by (simp add: s1_def)
    have k: "keeps base (s\<lparr>services := pre @ sep # seps\<rparr>) (s1\<lparr>services := pre @ seps\<rparr>) \<and> services s1 = services s"
    proof (cases "se_fd sep \<ge> 0")
      case True
      note c = close_sep_state [OF True, of s "fst (close_sep sep s)" "snd (close_sep sep s)", simplified]
      show ?thesis
        using c True by (intro conjI remove_entry_ok [OF Cons.prems(1), of pre sep seps]) (simp_all add: s1_def)
    next
      case False
      then show ?thesis using drop_entry_ok [OF Cons.prems(1), of pre sep seps] by (simp add: s1_def)
    qed
    then have "safe base (s1\<lparr>services := pre @ seps\<rparr>)" by (simp add: keeps_def)
    then show ?thesis using Cons.IH [OF _ p] k keeps_trans by auto
  qed
qed

lemma purge_services_ok: "safe base s \<Longrightarrow> keeps base s (purge_services s)"
proof -
  assume a: "safe base s"
  obtain seps s' where p: "purge (services s) s = (seps, s')" by (cases "purge (services s) s")
  show ?thesis using purge_ok [where pre = "[]", OF _ p] a by (simp add: purge_services_def p)
qed

text \<open>A descriptor that belongs to no service.\<close>

lemma open_fd_safe:
  assumes "safe base s" "open_fd s = (fd, s')"
  shows "safe (insert fd base) s'" "exact s' = exact s" "quiet s' = quiet s" "fd \<notin> base" "services s' = services s" "waits s' = waits s"
    "fd \<notin> allsock s" "allsock s' = allsock s"
proof -
  have t: "table_ok base s" using assms(1) by (simp add: safe_def)
  note o = open_fd_ok [OF t assms(2)]
  show "safe (insert fd base) s'" using o(1,5) assms(1) by (simp add: safe_def waiting_ok_def)
  show "exact s' = exact s" "quiet s' = quiet s" "services s' = services s" "allsock s' = allsock s" "waits s' = waits s"
    using o(5) by (simp_all add: exact_def quiet_def waits_def)
  show "fd \<notin> base" by (rule o(4))
  show "fd \<notin> allsock s" using o(2) t by (auto simp: table_ok_def)
qed

lemma close_fd_safe:
  assumes "safe (insert fd base) s" "fd \<notin> base"
  shows "safe base (close_fd fd s)" "exact (close_fd fd s) = exact s" "quiet (close_fd fd s) = quiet s"
    "waits (close_fd fd s) = waits s"
  using assms close_fd_ok by (simp_all add: safe_def waiting_ok_def exact_def quiet_def waits_def)

lemma nextconfig_ok:
  assumes "safe base s" "se_wait (serv p) \<le> 1" "nextconfig h f text (p, s) = Inr (p', s')"
  shows "keeps base s s' \<and> se_wait (serv p') \<le> 1"
proof -
  obtain fd s1 where o: "open_fd s = (fd, s1)" by (cases "open_fd s")
  obtain s2 where e: "conf_entries h f 0 text p s1 = Inr (p', s2)" "s' = purge_services (close_fd fd s2)"
    using assms(3) o by (auto simp: nextconfig_def split: sum.splits)
  note os = open_fd_safe [OF assms(1) o]
  note ce = conf_entries_ok [OF os(1) assms(2) e(1)]
  then have s2: "safe (insert fd base) s2" by (simp add: keeps_def)
  note cl = close_fd_safe [OF s2 os(4)]
  have "keeps base (close_fd fd s2) s'" unfolding e(2) by (rule purge_services_ok [OF cl(1)])
  then show ?thesis using ce cl os(2,3,6) by (auto simp: keeps_def)
qed

lemma config_files_ok:
  "safe base (snd ps) \<Longrightarrow> se_wait (serv (fst ps)) \<le> 1 \<Longrightarrow> config_files h fs ps = Inr ps' \<Longrightarrow>
     keeps base (snd ps) (snd ps') \<and> se_wait (serv (fst ps')) \<le> 1"
proof (induction h fs ps rule: config_files.induct)
  case (1 h ps)
  then show ?case by (auto intro: keeps_refl)
next
  case (2 h f fs ps)
  have k: "keeps base (snd ps) (logs (No_file f) (snd ps))" using keeps_logs [OF keeps_refl] 2 by blast
  then show ?case using 2 keeps_trans [OF k] by (simp add: keeps_def)
next
  case (3 h f t fs ps)
  obtain ps1 where n: "nextconfig h f t ps = Inr ps1" using 3(4) by (auto split: sum.splits)
  have k: "keeps base (snd ps) (snd ps1) \<and> se_wait (serv (fst ps1)) \<le> 1"
    using nextconfig_ok [of base "snd ps" "fst ps" h f t "fst ps1" "snd ps1"] n 3(2,3) by simp
  show ?case using 3(1) [OF n] 3(4) n k keeps_trans by (auto simp: keeps_def)
qed

lemma unchecked_ok: "safe base s \<Longrightarrow> keeps base s (s\<lparr>services := map (\<lambda>sep. sep\<lparr>se_checked := b\<rparr>) (services s)\<rparr>)"
proof -
  assume a: "safe base s"
  have "socks (map (\<lambda>sep. sep\<lparr>se_checked := b\<rparr>) xs) = socks xs" for xs by (induction xs) (simp_all add: sock1_def)
  then show ?thesis
    using a by (simp add: keeps_def safe_def table_ok_def waiting_ok_def exact_def quiet_def waits_def image_image)
qed

lemma fix_tcpmux_ok: "safe base s \<Longrightarrow> keeps base s (fix_tcpmux h s)"
proof -
  assume a: "safe base s"
  let ?s = "logs Inserting_tcpmux s"
  have k: "keeps base s ?s" by (rule keeps_logs [OF keeps_refl [OF a]])
  then have "safe base ?s" by (simp add: keeps_def)
  then have "keeps base ?s (snd (expand_enter h tcpmux_serv ?s))"
    using expand_enter_ok(1) [of base ?s tcpmux_serv h "fst (expand_enter h tcpmux_serv ?s)" "snd (expand_enter h tcpmux_serv ?s)"]
    by (simp add: tcpmux_serv_def)
  then show ?thesis
    using keeps_trans [OF k] keeps_refl [OF a] by (simp add: fix_tcpmux_def split: option.split prod.split bool.split)
qed

lemma config_ok:
  assumes "safe base s" "se_wait (serv p) \<le> 1" "config h paths (p, s) = Inr (p', s')"
  shows "keeps base s s' \<and> se_wait (serv p') \<le> 1"
proof -
  let ?s = "s\<lparr>services := map (\<lambda>sep. sep\<lparr>se_checked := False\<rparr>) (services s)\<rparr>"
  note u = unchecked_ok [OF assms(1), of False]
  obtain s1 where c: "config_files h (concat (map (files_of h) paths)) (p, ?s) = Inr (p', s1)" "s' = fix_tcpmux h s1"
    using assms(3) by (auto simp: config_def split: sum.splits)
  have "safe base ?s" using u by (simp add: keeps_def)
  then have k: "keeps base ?s s1 \<and> se_wait (serv p') \<le> 1"
    using config_files_ok [OF _ _ c(1), of base] assms(2) by simp
  then have "keeps base s1 s'" unfolding c(2) by (intro fix_tcpmux_ok) (simp add: keeps_def)
  then show ?thesis using k u keeps_trans by blast
qed

end
