(* ===== verification/Inetd_Parse.thy ===== *)
theory Inetd_Parse
  imports Inetd_Invariant
begin

text \<open>
  What inetd reads from its configuration files.  A file of lines made of plain words is read as these words
  (\<open>conf_loop_line\<close>), so that the theorems below speak of words: the entry a line gives, the arguments of the
  server, and what is left in the parser by lines that are refused.
\<close>

section \<open>Lines of words\<close>

text \<open>Words that make a line of a configuration file.\<close>

definition line_words :: "string list \<Rightarrow> bool" where
  "line_words ws \<longleftrightarrow> ws \<noteq> [] \<and> list_all plain_word ws \<and> hd (hd ws) \<noteq> CHR ''#''"

fun conf_text :: "string list list \<Rightarrow> string" where
  "conf_text [] = []"
| "conf_text (ws # wss) = join ws @ CHR 0x0A # conf_text wss"

lemma join_chars: "list_all plain_word ws \<Longrightarrow> c \<in> set (join ws) \<Longrightarrow> plain_char c \<or> c = CHR '' ''"
  by (induction ws rule: join.induct) (auto simp: plain_word_def)

lemma hd_join: "ws \<noteq> [] \<Longrightarrow> list_all plain_word ws \<Longrightarrow> hd (join ws) = hd (hd ws)"
  by (cases ws rule: join.cases) (auto simp: plain_word_def)

lemma next_line_words:
  assumes "line_words ws"
  shows "next_line l (join ws @ CHR 0x0A # rest) = Some (join ws, Suc l, rest)"
proof -
  have p: "\<forall>w \<in> set ws. plain_word w" "ws \<noteq> []" "list_all plain_word ws" using assms by (auto simp: line_words_def list_all_iff)
  have c: "c \<noteq> CHR 0x0A" "c \<noteq> CHR 0x00" if "c \<in> set (join ws)" for c
    using join_chars [OF p(3) that] by (auto simp: plain_char_def ctype_space_def)
  have n: "join ws \<noteq> []" using join_plain [OF p(2,1)] by simp
  have t: "takeWhile (\<lambda>c. c \<noteq> CHR 0x0A) (join ws @ CHR 0x0A # rest) = join ws"
    "takeWhile (\<lambda>c. c \<noteq> CHR 0x00) (join ws) = join ws"
    using c by (auto simp: takeWhile_append takeWhile_eq_all_conv)
  have "hd (join ws) \<noteq> CHR ''#''" using hd_join [OF p(2,3)] assms by (simp add: line_words_def)
  then show ?thesis using n by (simp add: next_line.simps [of l] Let_def t)
qed

lemma conf_loop_line:
  assumes "line_words ws"
  shows "conf_loop f l (join ws @ CHR 0x0A # rest) p =
    (case parse_line f (Suc l) ws p of
       Inl e \<Rightarrow> Inl e
     | Inr (Again p') \<Rightarrow> conf_loop f (Suc l) rest p'
     | Inr (Entry p') \<Rightarrow> Inr (True, next_node_sep p', Suc l, rest))"
proof -
  have "argcv_get (join ws) [] = Some ws"
    using assms by (intro argcv_get_join) (auto simp: line_words_def list_all_iff)
  then show ?thesis using next_line_words [OF assms] by (simp add: conf_loop.simps [of f l])
qed

lemma conf_loop_end: "conf_loop f l [] p = Inr (False, p\<lparr>serv := serv_zero\<rparr>, l, [])"
  by (simp add: conf_loop.simps [of f l] next_line.simps [of l])

lemma conf_entries_end: "serv_node p = None \<Longrightarrow> conf_entries h f l [] p s = Inr (p\<lparr>serv := serv_zero\<rparr>, s)"
  by (simp add: conf_entries.simps [of h f l] getconfigent_def conf_loop_end)

text \<open>A line for one service, without a node.\<close>

lemma conf_entries_line:
  assumes "serv_node p = None" "line_words ws" "parse_line f (Suc l) ws p = Inr (Entry p')" "serv_node p' = None"
    "se_user (serv p') = Some u" "getpwnam h u \<noteq> None" "enter_service h (serv p') s = (cp, s')"
  shows "conf_entries h f l (conf_text (ws # wss)) p s = conf_entries h f (Suc l) (conf_text wss) (p'\<lparr>serv := cp\<rparr>) s'"
proof -
  have "next_node_sep p' = p'" using assms(4) by (simp add: next_node_sep_def)
  then have "getconfigent f l (conf_text (ws # wss)) p = Inr (True, p', Suc l, conf_text wss)"
    using assms(1,3) conf_loop_line [OF assms(2)] by (simp add: getconfigent_def)
  then show ?thesis using assms(5-7) by (auto simp: conf_entries.simps [of h f l "join ws @ CHR 0x0A # conf_text wss"])
qed

section \<open>The entry of a line\<close>

text \<open>What a line of the configuration says of an ordinary service.\<close>

record service_spec =
  sp_name :: string
  sp_stream :: bool
  sp_proto :: string
  sp_wait :: bool
  sp_user :: string
  sp_server :: string
  sp_args :: "string list"

definition spec_words :: "service_spec \<Rightarrow> string list" where
  "spec_words sp =
     [sp_name sp, if sp_stream sp then ''stream'' else ''dgram'', sp_proto sp, if sp_wait sp then ''wait'' else ''nowait'',
      sp_user sp, sp_server sp] @ sp_args sp"

definition spec_ok :: "service_spec \<Rightarrow> bool" where
  "spec_ok sp \<longleftrightarrow> list_all plain_word (spec_words sp) \<and> hd (sp_name sp) \<noteq> CHR ''#'' \<and> CHR '':'' \<notin> set (sp_name sp)
     \<and> take 7 (sp_name sp) \<noteq> ''tcpmux/'' \<and> sp_server sp \<noteq> ''internal'' \<and> sp_args sp \<noteq> []"

text \<open>The entry for it, as \<open>getconfigent\<close> makes it.\<close>

definition spec_entry :: "string \<Rightarrow> nat \<Rightarrow> service_spec \<Rightarrow> servtab" where
  "spec_entry f l sp =
     serv_zero\<lparr>se_file := f, se_line := l, se_service := sp_name sp,
       se_socktype := (if sp_stream sp then SOCK_STREAM else SOCK_DGRAM), se_proto := sp_proto sp,
       se_family := fst (parse_family (sp_proto sp)), se_v4mapped := snd (parse_family (sp_proto sp)),
       se_wait := (if sp_wait sp then 1 else 0), se_user := Some (sp_user sp), se_server := sp_server sp,
       se_argc := length (sp_args sp) + 1, se_argv := Some (map Some (sp_args sp) @ [None, None])\<rparr>"

lemma spec_line_words: "spec_ok sp \<Longrightarrow> line_words (spec_words sp)"
  by (auto simp: spec_ok_def line_words_def spec_words_def)

lemma parse_wait_plain:
  "parse_wait ''wait'' = (1, 0, [])" "parse_wait ''nowait'' = (0, 0, [])"
  by (simp_all add: parse_wait_def split_chr_def)

lemma parse_socktype_plain:
  "parse_socktype ''stream'' = (SOCK_STREAM, [])" "parse_socktype ''dgram'' = (SOCK_DGRAM, [])"
  by (simp_all add: parse_socktype_def)

lemma spec_parse:
  assumes "spec_ok sp" "global_serv_node p = Null"
  shows "parse_line f l (spec_words sp) p = Inr (Entry (p\<lparr>serv := spec_entry f l sp\<rparr>))"
proof -
  let ?ws = "spec_words sp"
  have w: "?ws ! 0 = sp_name sp" "?ws ! 1 = (if sp_stream sp then ''stream'' else ''dgram'')" "?ws ! 2 = sp_proto sp"
    "?ws ! 3 = (if sp_wait sp then ''wait'' else ''nowait'')" "?ws ! 4 = sp_user sp" "?ws ! 5 = sp_server sp"
    "length ?ws = 6 + length (sp_args sp)" "drop 6 ?ws = sp_args sp"
    by (simp_all add: spec_words_def)
  have ok: "CHR '':'' \<notin> set (sp_name sp)" "take 7 (sp_name sp) \<noteq> ''tcpmux/''" "sp_server sp \<noteq> ''internal''" "sp_args sp \<noteq> []"
    using assms(1) by (simp_all add: spec_ok_def)
  have "parse_service (sp_name sp) p = Inr (sp_name sp, p)"
    using ok(1) assms(2) by (simp add: parse_service_def split_rchr_def)
  moreover have "parse_mux (sp_name sp) = (NORM_TYPE, sp_name sp)" using ok(2) by (simp add: parse_mux_def)
  moreover have "parse_args (sp_server sp) ?ws = map Some (sp_args sp) @ [None, None]"
    using ok(4) w(7,8) by (simp add: parse_args_def Let_def)
  ultimately have "parse_entry f l ?ws p = Inr (Entry (p\<lparr>serv := spec_entry f l sp\<rparr>))"
    using ok w
    by (simp add: parse_entry_def parse_wait_plain parse_socktype_plain spec_entry_def Let_def serv_zero_def
        split: prod.split)
  then show ?thesis using w(7) by (simp add: parse_line_def)
qed

section \<open>The services of a file\<close>

text \<open>The addresses of a service.\<close>

definition resolved :: "host \<Rightarrow> service_spec \<Rightarrow> byte list list" where
  "resolved h sp =
     (case getprotobyname h (if take 3 (sp_proto sp) = ''tcp'' then ''tcp''
                             else if take 3 (sp_proto sp) = ''udp'' then ''udp'' else sp_proto sp) of
        None \<Rightarrow> []
      | Some proto \<Rightarrow>
          (case inetd_getaddrinfo h (spec_entry [] 0 sp) proto of Inl _ \<Rightarrow> [] | Inr as \<Rightarrow> as))"

text \<open>What an entry of the table says of its service, and what a line says of it.\<close>

definition view :: "servtab \<Rightarrow> string \<times> int \<times> string \<times> int \<times> string option \<times> string \<times> string option list option \<times> byte list" where
  "view sep = (se_service sep, se_socktype sep, se_proto sep, se_wait sep, se_user sep, se_server sep, se_argv sep, se_ctrladdr sep)"

definition spec_view :: "service_spec \<times> byte list \<Rightarrow> string \<times> int \<times> string \<times> int \<times> string option \<times> string \<times> string option list option \<times> byte list" where
  "spec_view = (\<lambda>(sp, a). (sp_name sp, if sp_stream sp then SOCK_STREAM else SOCK_DGRAM, sp_proto sp, if sp_wait sp then 1 else 0,
     Some (sp_user sp), sp_server sp, Some (map Some (sp_args sp) @ [None]), sockaddr_storage a))"

definition key :: "servtab \<Rightarrow> byte list \<times> string \<times> string" where
  "key sep = (se_ctrladdr sep, se_service sep, se_proto sep)"

definition spec_key :: "service_spec \<times> byte list \<Rightarrow> byte list \<times> string \<times> string" where
  "spec_key = (\<lambda>(sp, a). (sockaddr_storage a, sp_name sp, sp_proto sp))"

lemma setup_sock_succeeds:
  "io s = [] \<Longrightarrow> setup_sock sep s = (True, sep\<lparr>se_fd := new_fd (fds s)\<rparr>, s\<lparr>fds := new_fd (fds s) # fds s\<rparr>)"
  by (simp add: setup_sock.simps [of sep s] take_io_def open_fd_def Let_def)

lemma servent_setup_succeeds:
  assumes "io s = []" "services s = y # ys" "se_fd y = -1"
  shows "services (servent_setup 0 s) = y\<lparr>se_checked := True, se_fd := new_fd (fds s)\<rparr> # ys"
    "fds (servent_setup 0 s) = new_fd (fds s) # fds s" "allsock (servent_setup 0 s) = insert (new_fd (fds s)) (allsock s)"
    "io (servent_setup 0 s) = []" "nsock (servent_setup 0 s) = nsock s + 1" "set (listening s) \<subseteq> set (listening (servent_setup 0 s))"
    "se_socktype y = SOCK_STREAM \<Longrightarrow> new_fd (fds s) \<in> set (listening (servent_setup 0 s))"
  using assms by (auto simp: servent_setup_def setup_service_def setup_sock_succeeds Let_def)

lemma enter_new:
  assumes "key cp \<notin> key ` set (services s)"
  shows "enter cp s = (cp, 0, s\<lparr>services := copy_entry cp # services s\<rparr>)"
proof -
  have none: "index_of P xs = None" if "\<forall>x \<in> set xs. \<not> P x" for P and xs :: "servtab list" using that by (induction xs) auto
  have "key sep = key cp" if "same_service sep cp" for sep using that by (simp add: same_service_def key_def)
  then have "\<forall>sep \<in> set (services s). \<not> same_service sep cp" using assms by (metis imageI)
  then have "index_of (\<lambda>sep. same_service sep cp) (services s) = None" by (rule none)
  then show ?thesis by (simp add: enter_def)
qed

lemma expand_enter_resolved:
  assumes "resolved h sp = [a]"
  shows "expand_enter h (spec_entry f l sp) s = enter_addr a (spec_entry f l sp, s)"
proof -
  let ?sep = "spec_entry f l sp"
  let ?name = "if take 3 (sp_proto sp) = ''tcp'' then ''tcp'' else if take 3 (sp_proto sp) = ''udp'' then ''udp'' else sp_proto sp"
  have same: "inetd_getaddrinfo h ?sep proto = inetd_getaddrinfo h (spec_entry [] 0 sp) proto" for proto
    by (simp add: inetd_getaddrinfo_def spec_entry_def serv_zero_def)
  obtain proto where p: "getprotobyname h ?name = Some proto"
    using assms by (cases "getprotobyname h ?name") (simp_all add: resolved_def)
  have g: "inetd_getaddrinfo h ?sep proto = Inr [a]"
    using assms p by (cases "inetd_getaddrinfo h (spec_entry [] 0 sp) proto") (simp_all add: resolved_def same)
  have n: "se_proto ?sep = sp_proto sp" by (simp add: spec_entry_def)
  show ?thesis unfolding expand_enter_def n Let_def p option.case g by simp
qed

text \<open>One line adds its service in front, with a new socket that is selected.\<close>

definition opened :: "inetd \<Rightarrow> inetd \<Rightarrow> servtab \<Rightarrow> bool" where
  "opened s s' sep \<longleftrightarrow> se_checked sep \<and> \<not> ISMUX sep \<and> se_fd sep \<in> allsock s' \<and> se_fd sep \<notin> set (fds s)
     \<and> (se_socktype sep = SOCK_STREAM \<longrightarrow> se_fd sep \<in> set (listening s'))"

lemma enter_spec:
  assumes "spec_ok sp" "resolved h sp = [a]" "spec_key (sp, a) \<notin> key ` set (services s)" "io s = []"
  obtains cp s' y where "enter_service h (spec_entry f l sp) s = (cp, s')" "services s' = y # services s"
    "view y = spec_view (sp, a)" "key y = spec_key (sp, a)" "opened s s' y" "io s' = []"
    "allsock s \<subseteq> allsock s'" "set (listening s) \<subseteq> set (listening s')" "set (fds s) \<subseteq> set (fds s')"
    "nsock s' = nsock s + 1"
proof -
  let ?cp = "(spec_entry f l sp)\<lparr>se_ctrladdr := sockaddr_storage a, se_addrlen := length a\<rparr>"
  let ?s = "s\<lparr>services := copy_entry ?cp # services s\<rparr>"
  have "key ?cp = spec_key (sp, a)" by (simp add: key_def spec_key_def spec_entry_def)
  then have e: "enter ?cp s = (?cp, 0, ?s)" using assms(3) by (intro enter_new) simp
  have fd: "se_fd (copy_entry ?cp) = -1" by (simp add: copy_entry_def)
  have i: "io ?s = []" "services ?s = copy_entry ?cp # services s" using assms(4) by simp_all
  note st = servent_setup_succeeds [OF i fd]
  let ?t = "servent_setup 0 ?s" and ?y = "(copy_entry ?cp)\<lparr>se_checked := True, se_fd := new_fd (fds ?s)\<rparr>"
  have es: "enter_service h (spec_entry f l sp) s = (?cp, ?t)"
    using expand_enter_resolved [OF assms(2)] e by (simp add: enter_service_def ISMUX_def spec_entry_def serv_zero_def enter_addr_def)
  have v: "view ?y = spec_view (sp, a)" by (simp add: copy_entry_def view_def spec_view_def spec_entry_def)
  have k: "key ?y = spec_key (sp, a)" by (simp add: copy_entry_def key_def spec_key_def spec_entry_def)
  have o: "opened s ?t ?y" using st(3,7) new_fd_new(1) [of "fds s"]
    by (simp add: opened_def ISMUX_def copy_entry_def spec_entry_def serv_zero_def)
  show ?thesis by (rule that [OF es st(1) v k o st(4)]) (use st(2,3,5,6) in auto)
qed

lemma opened_mono:
  "opened s s' sep \<Longrightarrow> allsock s' \<subseteq> allsock s'' \<Longrightarrow> set (listening s') \<subseteq> set (listening s'') \<Longrightarrow> opened s s'' sep"
  by (auto simp: opened_def)

text \<open>The services that can be opened: known users and one address each, with different keys.\<close>

definition specs_ok :: "host \<Rightarrow> (service_spec \<times> byte list) list \<Rightarrow> bool" where
  "specs_ok h sps \<longleftrightarrow> distinct (map spec_key sps)
     \<and> (\<forall>(sp, a) \<in> set sps. spec_ok sp \<and> getpwnam h (sp_user sp) \<noteq> None \<and> resolved h sp = [a])"

lemma conf_entries_specs:
  assumes "specs_ok h sps" "global_serv_node p = Null" "serv_node p = None" "io s = []"
    "spec_key ` set sps \<inter> key ` set (services s) = {}"
  shows "\<exists>p' s' ys. conf_entries h f l (conf_text (map (\<lambda>x. spec_words (fst x)) sps)) p s = Inr (p', s')
    \<and> services s' = ys @ services s \<and> map view ys = rev (map spec_view sps) \<and> (\<forall>y \<in> set ys. opened s s' y) \<and> diags p' = diags p
    \<and> allsock s \<subseteq> allsock s' \<and> set (listening s) \<subseteq> set (listening s') \<and> nsock s' = nsock s + int (length sps)"
  using assms
proof (induction sps arbitrary: l p s)
  case Nil
  then show ?case by (simp add: conf_entries_end)
next
  case (Cons spa sps)
  obtain sp a where spa: "spa = (sp, a)" by (cases spa)
  have ok: "spec_ok sp" "getpwnam h (sp_user sp) \<noteq> None" "resolved h sp = [a]" "specs_ok h sps"
    "spec_key (sp, a) \<notin> spec_key ` set sps"
    using Cons.prems(1) by (auto simp: specs_ok_def spa)
  have k: "spec_key (sp, a) \<notin> key ` set (services s)" using Cons.prems(5) by (auto simp: spa)
  obtain cp s1 y where e: "enter_service h (spec_entry f (Suc l) sp) s = (cp, s1)" "services s1 = y # services s"
    "view y = spec_view (sp, a)" "key y = spec_key (sp, a)" "opened s s1 y" "io s1 = []"
    "allsock s \<subseteq> allsock s1" "set (listening s) \<subseteq> set (listening s1)" "set (fds s) \<subseteq> set (fds s1)"
    "nsock s1 = nsock s + 1"
    by (rule enter_spec [OF ok(1,3) k Cons.prems(4), of f "Suc l"]) blast
  let ?p = "p\<lparr>serv := spec_entry f (Suc l) sp\<rparr>"
  note line = conf_entries_line [OF Cons.prems(3) spec_line_words [OF ok(1)] spec_parse [OF ok(1) Cons.prems(2)]]
  have step: "conf_entries h f l (conf_text (map (\<lambda>x. spec_words (fst x)) (spa # sps))) p s =
      conf_entries h f (Suc l) (conf_text (map (\<lambda>x. spec_words (fst x)) sps)) (?p\<lparr>serv := cp\<rparr>) s1"
    using line [where u = "sp_user sp" and h = h and s = s and cp = cp and s' = s1 and f = f and l = l] Cons.prems(3) ok(2) e(1) by (simp add: spa spec_entry_def)
  have d: "spec_key ` set sps \<inter> key ` set (services s1) = {}" using Cons.prems(5) ok(5) e(2,4) by (auto simp: spa)
  obtain p' s' ys where r: "conf_entries h f (Suc l) (conf_text (map (\<lambda>x. spec_words (fst x)) sps)) (?p\<lparr>serv := cp\<rparr>) s1 = Inr (p', s')"
    "services s' = ys @ services s1" "map view ys = rev (map spec_view sps)" "\<forall>y \<in> set ys. opened s1 s' y" "diags p' = diags p"
    "allsock s1 \<subseteq> allsock s'" "set (listening s1) \<subseteq> set (listening s')" "nsock s' = nsock s1 + int (length sps)"
    using Cons.IH [OF ok(4) _ _ e(6) d, of "?p\<lparr>serv := cp\<rparr>" "Suc l"] Cons.prems(2,3) by auto
  have "opened s s' z" if "z \<in> set (ys @ [y])" for z
    using that r(4) e(5,9) opened_mono [OF e(5) r(6,7)] by (auto simp: opened_def)
  moreover have "services s' = (ys @ [y]) @ services s" "map view (ys @ [y]) = rev (map spec_view (spa # sps))"
    using r(2,3) e(2,3) spa by simp_all
  ultimately show ?case using step r(1,5-8) e(7,8,10) by (intro exI [of _ p'] exI [of _ s'] exI [of _ "ys @ [y]"]) auto
qed

lemma purge_checked: "\<forall>sep \<in> set seps. se_checked sep \<Longrightarrow> purge seps s = (seps, s)"
  by (induction seps) auto

lemma nextconfig_specs:
  assumes "specs_ok h sps" "global_serv_node p = Null" "serv_node p = None" "services s = []" "io s = []"
  shows "\<exists>p' s'. nextconfig h f (conf_text (map (\<lambda>x. spec_words (fst x)) sps)) (p, s) = Inr (p', s')
    \<and> map view (services s') = rev (map spec_view sps) \<and> diags p' = diags p \<and> nsock s' = nsock s + int (length sps)
    \<and> (\<forall>sep \<in> set (services s'). \<not> ISMUX sep \<and> se_fd sep \<in> allsock s'
         \<and> (se_socktype sep = SOCK_STREAM \<longrightarrow> se_fd sep \<in> set (listening s')))"
proof -
  obtain fd s1 where o: "open_fd s = (fd, s1)" by (cases "open_fd s")
  have s1: "services s1 = []" "io s1 = []" "fd \<in> set (fds s1)" "nsock s1 = nsock s" using o assms(4,5) by (auto simp: open_fd_def Let_def)
  obtain p' s2 ys where r: "conf_entries h f 0 (conf_text (map (\<lambda>x. spec_words (fst x)) sps)) p s1 = Inr (p', s2)"
    "services s2 = ys @ services s1" "map view ys = rev (map spec_view sps)" "\<forall>y \<in> set ys. opened s1 s2 y" "diags p' = diags p"
    "nsock s2 = nsock s1 + int (length sps)"
    using conf_entries_specs [OF assms(1-3) s1(2), of f 0] s1(1) by auto
  have ys: "services s2 = ys" using r(2) s1(1) by simp
  have "purge_services (close_fd fd s2) = close_fd fd s2"
    using purge_checked [of ys "close_fd fd s2"] r(4) ys by (simp add: purge_services_def opened_def)
  then have n: "nextconfig h f (conf_text (map (\<lambda>x. spec_words (fst x)) sps)) (p, s) = Inr (p', close_fd fd s2)"
    using o r(1) by (simp add: nextconfig_def)
  have "\<not> ISMUX y \<and> se_fd y \<in> allsock s2 \<and> (se_socktype y = SOCK_STREAM \<longrightarrow> se_fd y \<in> set (listening s2) - {fd})" if "y \<in> set ys" for y
    using r(4) that s1(3) by (auto simp: opened_def)
  then show ?thesis using n r(3,5,6) ys s1(4) by simp
qed

section \<open>Properties\<close>

text \<open>
  (C27) Reading a configuration file of ordinary services into an empty table opens them: when the users are known
  and every service has an address of its own, the table has exactly one entry for every line, the last one first, with the
  type, protocol, user, program and arguments of the line; its socket is open and given to
  \<open>select\<close>, and a stream socket listens.  Nothing is reported.
\<close>

theorem nextconfig_opens_services:
  assumes "specs_ok h sps" "global_serv_node p = Null" "serv_node p = None" "services s = []" "io s = []"
  shows "\<exists>p' s'. nextconfig h f (conf_text (map (\<lambda>x. spec_words (fst x)) sps)) (p, s) = Inr (p', s')
    \<and> map view (services s') = rev (map spec_view sps) \<and> diags p' = diags p
    \<and> (\<forall>sep \<in> set (services s'). se_fd sep \<in> allsock s'
         \<and> (se_socktype sep = SOCK_STREAM \<longrightarrow> se_fd sep \<in> set (listening s')))"
  using nextconfig_specs [OF assms, of f] by blast

text \<open>A line with a node for a service inetd does not have.\<close>

definition refused_line :: "string \<Rightarrow> string \<Rightarrow> string list" where
  "refused_line n x = [n @ '':'' @ x, ''stream'', ''tcp'', ''nowait'', ''root'', ''internal'']"

definition refused_ok :: "string \<Rightarrow> string \<Rightarrow> bool" where
  "refused_ok n x \<longleftrightarrow> plain_word n \<and> plain_word x \<and> hd n \<noteq> CHR ''#'' \<and> n \<noteq> ''*'' \<and> CHR '':'' \<notin> set x
     \<and> take 7 x \<noteq> ''tcpmux/'' \<and> x \<notin> {''echo'', ''discard'', ''time'', ''daytime'', ''chargen'', ''tcpmux''}"

lemma split_rchr_last: "c \<notin> set x \<Longrightarrow> split_rchr c (n @ c # x) = Some (n, x)"
proof -
  assume c: "c \<notin> set x"
  have t: "takeWhile (\<lambda>d. d \<noteq> c) (rev x @ c # rev n) = rev x" "dropWhile (\<lambda>d. d \<noteq> c) (rev x @ c # rev n) = c # rev n"
    using c by (auto simp: takeWhile_append dropWhile_append takeWhile_eq_all_conv dropWhile_eq_Nil_conv)
  show ?thesis by (simp add: split_rchr_def t)
qed

lemma refused_again:
  assumes "refused_ok n x"
  shows "parse_line f l (refused_line n x) p = Inr (Again (report f l (Internal_unknown x)
     (p\<lparr>serv_node := Some n, serv_node_offset := 0\<rparr>)))"
proof -
  have "parse_service (n @ '':'' @ x) p = Inr (x, p\<lparr>serv_node := Some n, serv_node_offset := 0\<rparr>)"
    using assms split_rchr_last [of "CHR '':''" x n] by (simp add: parse_service_def refused_ok_def)
  moreover have "parse_mux x = (NORM_TYPE, x)" using assms by (simp add: parse_mux_def refused_ok_def)
  moreover have "bi_lookup sep = None" if "se_service sep = x" for sep
    using assms that by (auto simp: bi_lookup_def find_None_iff biltins_def refused_ok_def)
  ultimately show ?thesis
    by (simp add: parse_line_def parse_entry_def refused_line_def parse_socktype_plain parse_wait_plain Let_def split: prod.split)
qed

lemma refused_words: "refused_ok n x \<Longrightarrow> line_words (refused_line n x)"
  by (cases n) (auto simp: line_words_def refused_line_def refused_ok_def plain_word_def plain_char_def ctype_space_def)

text \<open>
  (C37) A line that is refused after its node was read leaves the node behind.  The service of the next line that names no
  node is then bound to it; and when the refused line is the last, the next time inetd reads
  its configuration it takes the node for the rest of a list whose entry has been cleared, and looks up a user
  by a null pointer.
\<close>

theorem refused_node_lingers:
  assumes "refused_ok n x" "serv_node p = None" "global_serv_node p = Null"
    "file_at h path = Some (Regular (Some (conf_text [refused_line n x])))"
  shows "(\<forall>sp. spec_ok sp \<longrightarrow> (\<exists>p' r. conf_loop f l (conf_text [refused_line n x, spec_words sp]) p = Inr (True, p', r)
      \<and> se_service (serv p') = sp_name sp \<and> se_node (serv p') = Some (takeWhile (\<lambda>c. c \<noteq> CHR '','') n)))
    \<and> (\<exists>p' s'. config h [path] (p, s) = Inr (p', s') \<and> config h [path] (p', s') = Inl Null_user)"
proof (rule conjI)
  note again = refused_again [OF assms(1)] and words = refused_words [OF assms(1)]
  define q where "q l = report f l (Internal_unknown x) (p\<lparr>serv_node := Some n, serv_node_offset := 0\<rparr>)" for l
  show "\<forall>sp. spec_ok sp \<longrightarrow> (\<exists>p' r. conf_loop f l (conf_text [refused_line n x, spec_words sp]) p = Inr (True, p', r)
      \<and> se_service (serv p') = sp_name sp \<and> se_node (serv p') = Some (takeWhile (\<lambda>c. c \<noteq> CHR '','') n))"
  proof (intro allI impI)
    fix sp
    assume sp: "spec_ok sp"
    have g: "global_serv_node (q l) = Null" "serv_node (q l) = Some n" "serv_node_offset (q l) = 0" for l
      using assms(3) by (simp_all add: q_def report_def)
    have "conf_loop f l (conf_text [refused_line n x, spec_words sp]) p =
        Inr (True, next_node_sep ((q (Suc l))\<lparr>serv := spec_entry f (Suc (Suc l)) sp\<rparr>), Suc (Suc l), [])"
      using conf_loop_line [OF words] conf_loop_line [OF spec_line_words [OF sp]] again [of f "Suc l" p, folded q_def]
        spec_parse [OF sp g(1)] by simp
    moreover have "se_node (serv (next_node_sep ((q (Suc l))\<lparr>serv := e\<rparr>))) = Some (takeWhile (\<lambda>c. c \<noteq> CHR '','') n)"
      "se_service (serv (next_node_sep ((q (Suc l))\<lparr>serv := e\<rparr>))) = se_service e" for e
      using g by (simp_all add: next_node_sep_def Let_def takeWhile_eq_take [symmetric])
    ultimately show "\<exists>p' r. conf_loop f l (conf_text [refused_line n x, spec_words sp]) p = Inr (True, p', r)
        \<and> se_service (serv p') = sp_name sp \<and> se_node (serv p') = Some (takeWhile (\<lambda>c. c \<noteq> CHR '','') n)"
      by (simp add: spec_entry_def)
  qed
  have first: "conf_entries h path 0 (conf_text [refused_line n x]) p s =
      Inr ((report path 1 (Internal_unknown x) (p\<lparr>serv_node := Some n, serv_node_offset := 0\<rparr>))\<lparr>serv := serv_zero\<rparr>, s)" for s
    using conf_loop_line [OF words, of path 0 "[]" p] again [of path 1 p] assms(2)
    by (simp add: conf_entries.simps [of h path 0 _ p] getconfigent_def conf_loop_end)
  have second: "conf_entries h path 0 t q s = Inl Null_user" if "serv_node q = Some n" "serv q = serv_zero" for q s t
    using that by (simp add: conf_entries.simps [of h path 0 _ q] getconfigent_def next_node_sep_def Let_def serv_zero_def)
  show "\<exists>p' s'. config h [path] (p, s) = Inr (p', s') \<and> config h [path] (p', s') = Inl Null_user"
    using assms(4) first second
    by (simp add: config_def files_of_def nextconfig_def report_def split: prod.split)
qed

text \<open>
  A line of six fields names no arguments.  The array that is made for it has the name of the program and a null pointer, but a new
  entry of the table copies only the name.
\<close>

theorem lone_server_unterminated:
  assumes "parse_entry f l argv p = Inr (Entry p')" "length argv = 6"
  shows "\<exists>a. se_argv (copy_entry (serv p')) = Some [Some a]"
  using assms
  by (auto simp: parse_entry_def parse_args_def copy_entry_def Let_def split: sum.splits prod.splits if_splits option.splits)

text \<open>
  When the configuration is read again, the first address of a service takes the arguments away: an entry that is
  found takes them over, and those after it, for the other addresses of the same line, get none.
\<close>

theorem reload_moves_arguments:
  assumes "index_of (\<lambda>sep. same_service sep cp) (services s) = Some i" "enter cp s = (cp', j, s')"
    "index_of (\<lambda>sep. same_service sep (cp'\<lparr>se_ctrladdr := a\<rparr>)) (services s') = Some k"
    "enter (cp'\<lparr>se_ctrladdr := a\<rparr>) s' = (cp'', k', s'')"
  shows "se_argv (services s' ! i) = se_argv cp \<and> se_argv (services s'' ! k) = None"
  using assms index_of_bound [OF assms(1)] index_of_bound [OF assms(3)]
  by (auto simp: enter_def merge_def)

section \<open>Examples\<close>

definition ex_host :: "string \<Rightarrow> host" where
  "ex_host conf = \<lparr>getpwnam = (\<lambda>u. if u = ''root'' then Some (0, 0) else None),
     getprotobyname = (\<lambda>p. if p = ''udp'' then Some 17 else Some 6),
     getaddrinfo = (\<lambda>node service hints. Inr [[2, 0, 0, of_nat (length service)]]),
     file_at = (\<lambda>f. if f = ''conf'' then Some (Regular (Some conf)) else None)\<rparr>"

definition ex_parser :: parser where
  "ex_parser = \<lparr>global_serv_node = Null, serv_node = None, serv_node_offset = 0, serv = serv_zero, diags = []\<rparr>"

definition ex_inetd :: inetd where
  "ex_inetd = \<lparr>services = [], nsock = 0, maxsock = 0, allsock = {}, timingout = False, fds = [0, 1, 2], listening = [],
     io = [], events = []\<rparr>"

definition ex_telnet :: service_spec where
  "ex_telnet = \<lparr>sp_name = ''telnet'', sp_stream = True, sp_proto = ''tcp'', sp_wait = False, sp_user = ''root'',
     sp_server = ''/telnetd'', sp_args = [''telnetd'', ''-h'']\<rparr>"

definition ex_ntalk :: service_spec where
  "ex_ntalk = \<lparr>sp_name = ''ntalk'', sp_stream = False, sp_proto = ''udp'', sp_wait = True, sp_user = ''root'',
     sp_server = ''/talkd'', sp_args = [''talkd'']\<rparr>"

lemma ex_specs: "specs_ok (ex_host conf) [(ex_telnet, [2, 0, 0, 6]), (ex_ntalk, [2, 0, 0, 5])]"
proof -
  have "resolved (ex_host conf) ex_telnet = [[2, 0, 0, 6]]" "resolved (ex_host conf) ex_ntalk = [[2, 0, 0, 5]]"
    by (simp_all add: resolved_def inetd_getaddrinfo_def ex_host_def ex_telnet_def ex_ntalk_def spec_entry_def)
  moreover have "spec_ok ex_telnet" "spec_ok ex_ntalk" by code_simp+
  ultimately show ?thesis
    by (simp add: specs_ok_def spec_key_def ex_telnet_def ex_ntalk_def ex_host_def)
qed

theorem nextconfig_opens_services_witness:
  "\<exists>p' s'. nextconfig (ex_host []) ''conf'' (conf_text [spec_words ex_telnet, spec_words ex_ntalk]) (ex_parser, ex_inetd) = Inr (p', s')
    \<and> map view (services s') = [spec_view (ex_ntalk, [2, 0, 0, 5]), spec_view (ex_telnet, [2, 0, 0, 6])]
    \<and> list_all (\<lambda>sep. se_fd sep \<in> allsock s') (services s')"
proof -
  have "serv_node ex_parser = None" "global_serv_node ex_parser = Null" "services ex_inetd = []" "io ex_inetd = []"
    by (simp_all add: ex_parser_def ex_inetd_def)
  from nextconfig_opens_services [OF ex_specs [of "[]"] this(2,1,3,4), of "''conf''"] show ?thesis
    by (auto simp: list_all_iff)
qed

theorem refused_node_lingers_witness:
  "\<exists>p' s'. config (ex_host (conf_text [refused_line ''127.0.0.1'' ''nosuch''])) [''conf''] (ex_parser, ex_inetd) = Inr (p', s')
    \<and> config (ex_host (conf_text [refused_line ''127.0.0.1'' ''nosuch''])) [''conf''] (p', s') = Inl Null_user"
proof -
  have "refused_ok ''127.0.0.1'' ''nosuch''" by code_simp
  from refused_node_lingers [OF this, of ex_parser "ex_host (conf_text [refused_line ''127.0.0.1'' ''nosuch''])" "''conf''" "[]" 0 ex_inetd]
  show ?thesis by (simp add: ex_parser_def ex_host_def)
qed

end
