(* ===== verification/Inetd_Safety.thy ===== *)
theory Inetd_Safety
  imports Inetd_Parse
begin

text \<open>
  The invariants of inetd in all its executions: the steps of the main loop, the end of servers, the timer and
  the configuration being read again keep \<open>safe\<close>; \<open>exact\<close> is kept by the main loop and the end of servers, and by
  reading the configuration while no server is being waited for.
\<close>

section \<open>A request\<close>

lemma others_differ:
  assumes "table_ok base s" "i < length (services s)" "0 \<le> se_fd (services s ! i)" "j < length (services s)" "j \<noteq> i"
  shows "se_fd (services s ! j) \<noteq> se_fd (services s ! i)"
  using socks_inj [of "services s" _ i j] assms by (auto simp: table_ok_def)

lemma card_without: "table_ok base s \<Longrightarrow> fd \<in> allsock s \<Longrightarrow> int (card (allsock s - {fd})) = int (card (allsock s)) - 1"
  using card.remove [OF finite_allsock] by fastforce

text \<open>An entry whose socket is taken from \<open>select\<close>.\<close>

lemma deselect_ok:
  assumes "safe base s" "i < length (services s)" "0 \<le> se_fd (services s ! i)" "se_fd (services s ! i) \<in> allsock s"
    "services s' = (services s)[i := y]" "allsock s' = allsock s - {se_fd (services s ! i)}" "nsock s' = nsock s - 1"
    "maxsock s' = maxsock s" "table_ok base s'" "se_fd y = -1 \<and> se_wait y \<le> 1 \<or> se_fd y = se_fd (services s ! i) \<and> 1 < se_wait y"
  shows "safe base s'" "exact s \<Longrightarrow> exact s'"
proof -
  have t: "table_ok base s" and w: "waiting_ok s" and n: "nsock s \<le> int (card (allsock s))"
    using assms(1) by (simp_all add: safe_def)
  have c: "int (card (allsock s')) = int (card (allsock s)) - 1" using card_without [OF t assms(4)] assms(6) by simp
  have "se_fd (services s ! i) \<le> maxsock s" using t assms(4) by (auto simp: table_ok_def)
  then have "waiting_ok s'"
    using assms(3,6,8,10) by (intro waiting_update [OF w assms(2,5)]) auto
  then show "safe base s'" using assms(7,9) c n by (simp add: safe_def)
  have "se_fd sep \<in> allsock s'" if e: "exact s" "sep \<in> set (services s')" "0 \<le> se_fd sep" "se_wait sep \<le> 1" for sep
  proof -
    obtain j where j: "j < length (services s)" "j \<noteq> i" "sep = services s ! j"
      using in_update [of sep "services s" i y] e(2,3,4) assms(2,5,10) by auto
    then have "sep \<in> set (services s)" by simp
    then have "se_fd sep \<in> allsock s" using e(1,3,4) by (simp add: exact_def)
    then show ?thesis using others_differ [OF t assms(2,3) j(1,2)] j(3) assms(6) by simp
  qed
  then show "exact s \<Longrightarrow> exact s'" using c assms(7) by (simp add: exact_def)
qed

lemma get_ctrl_ok:
  assumes "safe base s" "get_ctrl sep s = (ctrl, s1)"
  obtains base' where "safe base' s1" "exact s1 = exact s" "services s1 = services s" "allsock s1 = allsock s"
    "\<And>t sep'. safe base' t \<Longrightarrow> takes_connection sep' = takes_connection sep \<Longrightarrow>
       safe base (drop_ctrl sep' ctrl t) \<and> exact (drop_ctrl sep' ctrl t) = exact t"
proof (cases "takes_connection sep")
  case True
  then have "open_fd s = (ctrl, s1)" using assms(2) by (simp add: get_ctrl_def)
  note o = open_fd_safe [OF assms(1) this]
  show ?thesis
    using o close_fd_safe [OF _ o(4)] True by (intro that [of "insert ctrl base"]) (simp_all add: drop_ctrl_def)
next
  case False
  then show ?thesis using assms by (intro that [of base]) (auto simp: get_ctrl_def drop_ctrl_def)
qed

lemma drop_ctrl_simps [simp]:
  "services (drop_ctrl sep ctrl s) = services s" "allsock (drop_ctrl sep ctrl s) = allsock s"
  by (simp_all add: drop_ctrl_def)

lemma admit_entry:
  "admit many t sep = (sep', ok) \<Longrightarrow> se_fd sep' = se_fd sep \<and> se_wait sep' = se_wait sep \<and> se_socktype sep' = se_socktype sep"
  by (auto simp: admit_def Let_def split: if_splits)

text \<open>What the service of a request leaves: the entries of the other services, and their sockets in \<open>select\<close>.\<close>

definition served :: "int set \<Rightarrow> nat \<Rightarrow> inetd \<Rightarrow> inetd \<Rightarrow> bool" where
  "served base i s s' \<longleftrightarrow> safe base s' \<and> (exact s \<longrightarrow> exact s') \<and> length (services s') = length (services s)
     \<and> (\<forall>j. j \<noteq> i \<longrightarrow> services s' ! j = services s ! j) \<and> allsock s - {se_fd (services s ! i)} \<subseteq> allsock s'
     \<and> allsock s' \<subseteq> allsock s"

lemma terminate_ok:
  assumes "safe base s" "i < length (services s)" "se_fd sep = se_fd (services s ! i)" "0 \<le> se_fd sep" "se_fd sep \<in> allsock s"
    "se_wait sep = se_wait (services s ! i)" "se_socktype sep = se_socktype (services s ! i)"
    "\<And>t sep'. safe base t \<Longrightarrow> takes_connection sep' = takes_connection (services s ! i) \<Longrightarrow>
       safe base0 (drop_ctrl sep' ctrl t) \<and> exact (drop_ctrl sep' ctrl t) = exact t"
  shows "served base0 i s (terminate i sep ctrl s)"
proof -
  let ?l = "logs (Looping (se_service sep) (se_proto sep)) s"
  obtain sep' s' where c: "close_sep sep ?l = (sep', s')" by (cases "close_sep sep ?l")
  note cs = close_sep_state [OF assms(4) c]
  let ?s = "set_service i sep' s'"
  have t: "table_ok base s" using assms(1) by (simp add: safe_def)
  have y: "socks ((services s)[i := sep']) + {#se_fd sep#} = socks (services s)"
    using socks_update [OF assms(2), of sep'] assms(3,4) cs by (simp add: sock1_def)
  have ge: "\<forall>x \<in> set ((services s)[i := sep']). -1 \<le> se_fd x"
    using t cs set_update_subset_insert [of "services s" i sep'] by (fastforce simp: table_ok_def)
  have "table_ok base ?s" by (rule lose_socket [OF t y]) (use cs ge in simp_all)
  then have "safe base ?s" "exact s \<Longrightarrow> exact ?s"
    using deselect_ok [OF assms(1,2), of ?s sep'] assms(3-5) cs by simp_all
  moreover have "takes_connection sep' = takes_connection (services s ! i)"
    using cs assms(6,7) by (simp add: takes_connection_def)
  ultimately have d: "safe base0 (drop_ctrl sep' ctrl ?s)" "exact s \<Longrightarrow> exact (drop_ctrl sep' ctrl ?s)"
    using assms(8) by simp_all
  have "safe base0 (set_alarm t) = safe base0 t" "exact (set_alarm t) = exact t" for t
    using invariants_same [of t "set_alarm t"] by (simp_all add: same_state_def)
  then show ?thesis
    using d cs assms(3) by (auto simp: served_def terminate_def c)
qed

lemma started_ok:
  assumes "safe base s" "i < length (services s)" "se_fd sep = se_fd (services s ! i)" "0 \<le> se_fd sep" "se_fd sep \<in> allsock s"
    "se_wait sep = se_wait (services s ! i)" "1 < pid"
  shows "served base i s (started i sep pid s)"
proof (cases "se_wait sep = 0")
  case True
  then have "started i sep pid s = set_service i sep s" by (simp add: started_def)
  then show ?thesis
    using entry_update [of i s "set_service i sep s" sep] assms by (simp add: served_def)
next
  case False
  let ?y = "sep\<lparr>se_wait := pid\<rparr>"
  let ?s = "started i sep pid s"
  have s': "services ?s = (services s)[i := ?y]" "allsock ?s = allsock s - {se_fd sep}" "nsock ?s = nsock s - 1"
    "maxsock ?s = maxsock s" "fds ?s = fds s"
    using False assms(4) by (simp_all add: started_def)
  have t: "table_ok base s" using assms(1) by (simp add: safe_def)
  have "-1 \<le> se_fd x" if "x \<in> set (services ?s)" for x
    using that t assms(4) set_update_subset_insert [of "services s" i ?y] unfolding s'(1) table_ok_def by fastforce
  then have "table_ok base ?s"
    using t assms(2,3) s' by (auto simp: table_ok_def socks_update_fd)
  then have "safe base ?s \<and> (exact s \<longrightarrow> exact ?s)"
    using deselect_ok [OF assms(1,2), of ?s ?y] assms(3-7) s' by simp
  then show ?thesis using s' assms(3) by (simp add: served_def)
qed

lemma served_drop:
  assumes "served base' i s s'" "services s0 = services s" "allsock s0 = allsock s" "exact s0 = exact s"
    "safe base (drop_ctrl sep ctrl s') \<and> exact (drop_ctrl sep ctrl s') = exact s'"
  shows "served base i s0 (drop_ctrl sep ctrl s')"
  using assms by (simp add: served_def)

lemma fork_service_ok:
  assumes "safe base s" "i < length (services s)" "sep = services s ! i" "0 \<le> se_fd sep" "se_fd sep \<in> allsock s"
    "fork_pid rq < 0 \<or> 1 < fork_pid rq"
    "\<And>t sep'. safe base t \<Longrightarrow> takes_connection sep' = takes_connection sep \<Longrightarrow>
       safe base0 (drop_ctrl sep' ctrl t) \<and> exact (drop_ctrl sep' ctrl t) = exact t"
  shows "served base0 i s (inet (fork_service rq i ctrl sep s m))"
proof -
  obtain sep' ok where a: "admit (toomany m) (now rq) sep = (sep', ok)" by (cases "admit (toomany m) (now rq) sep")
  note e = admit_entry [OF a]
  have tk: "takes_connection sep' = takes_connection sep" using e by (simp add: takes_connection_def)
  consider "\<not> ok" | "ok" "fork_pid rq < 0" | "ok" "1 < fork_pid rq" using assms(6) by blast
  then show ?thesis
  proof cases
    case 1
    then show ?thesis
      using terminate_ok [OF assms(1,2), of sep' base0 ctrl] assms(3-5,7) e a by (simp add: fork_service_def)
  next
    case 2
    let ?s = "set_service i sep' (logs Fork_error s)"
    have "served base i s ?s" using entry_update [of i s ?s sep'] assms(1-3) e by (simp add: served_def)
    then show ?thesis
      using 2 a served_drop [of base i s ?s s base0 sep' ctrl] assms(7) tk by (simp add: fork_service_def served_def)
  next
    case 3
    have "served base i s (started i sep' (fork_pid rq) s)"
      using started_ok [OF assms(1,2), of sep' "fork_pid rq"] assms(3-5) e 3 by simp
    then show ?thesis
      using 3 a served_drop [of base i s "started i sep' (fork_pid rq) s" s base0 sep' ctrl] assms(7) tk
      by (simp add: fork_service_def served_def)
  qed
qed

lemma served_same: "same_state s s' \<Longrightarrow> safe base s \<Longrightarrow> served base i s s'"
  using invariants_same(2) [of s s' base] invariants_same(3) [of s s'] by (auto simp: same_state_def served_def)

lemma serve_ok:
  assumes "safe base (inet m)" "i < length (services (inet m))" "0 \<le> se_fd (services (inet m) ! i)"
    "se_fd (services (inet m) ! i) \<in> allsock (inet m)" "fork_pid rq < 0 \<or> 1 < fork_pid rq"
  shows "served base i (inet m) (inet (serve rq i m))"
proof -
  let ?s = "inet m" let ?sep = "services ?s ! i"
  obtain ctrl s1 where g: "get_ctrl ?sep ?s = (ctrl, s1)" by (cases "get_ctrl ?sep ?s")
  obtain base' where b: "safe base' s1" "exact s1 = exact ?s" "services s1 = services ?s" "allsock s1 = allsock ?s"
    "\<And>t sep'. safe base' t \<Longrightarrow> takes_connection sep' = takes_connection ?sep \<Longrightarrow>
       safe base (drop_ctrl sep' ctrl t) \<and> exact (drop_ctrl sep' ctrl t) = exact t"
    by (rule get_ctrl_ok [OF assms(1) g]) blast
  define m1 where "m1 = (if takes_connection ?sep \<and> env_option m
    then m\<lparr>environ := prepenv (resolve_option m) (peer rq) (environ m)\<rparr> else m)"
  have f: "served base i ?s (inet (fork_service rq i ctrl ?sep s1 m1))"
    using fork_service_ok [OF b(1), of i ?sep rq base ctrl m1] b assms(2-5) by (simp add: served_def)
  have d: "served base i ?s (drop_ctrl ?sep ctrl s1)"
    using b by (simp add: served_def)
  have "served base i ?s (if accept_errno rq \<noteq> 4 then logs (Accept_error (se_service ?sep)) ?s else ?s)"
    using served_same [OF _ assms(1)] by (simp add: same_state_def)
  then show ?thesis
    using f d by (auto simp: serve_def g serve_builtin_def Let_def split: option.split prod.split simp flip: m1_def)
qed

section \<open>A turn of the loop\<close>

lemma serve_all_ok:
  assumes "safe base (inet m)" "distinct is" "\<forall>i \<in> set is. i < length (services (inet m))"
    "\<forall>i \<in> set is. fork_pid (rq i) < 0 \<or> 1 < fork_pid (rq i)"
    "\<forall>i \<in> set is. se_fd (services (inet m) ! i) \<in> ready \<longrightarrow> se_fd (services (inet m) ! i) \<in> allsock (inet m)"
  shows "safe base (inet (serve_all ready rq n is m)) \<and> (exact (inet m) \<longrightarrow> exact (inet (serve_all ready rq n is m)))"
  using assms
proof (induction "is" arbitrary: n m)
  case (Cons i "is")
  let ?s = "inet m"
  let ?fd = "se_fd (services ?s ! i)"
  have t: "table_ok base ?s" using Cons.prems(1) by (simp add: safe_def)
  have "-1 \<le> ?fd" using t Cons.prems(3) by (auto simp: table_ok_def)
  show ?case
  proof (cases "n \<noteq> 0 \<and> ?fd \<noteq> -1 \<and> ?fd \<in> ready")
    case True
    then have fd: "0 \<le> ?fd" "?fd \<in> allsock ?s" using \<open>-1 \<le> ?fd\<close> Cons.prems(5) by auto
    have sv: "served base i ?s (inet (serve (rq i) i m))"
      using serve_ok [OF Cons.prems(1) _ fd] Cons.prems(3,4) by simp
    have "se_fd (services (inet (serve (rq i) i m)) ! j) \<in> allsock (inet (serve (rq i) i m))"
      if "j \<in> set is" "se_fd (services (inet (serve (rq i) i m)) ! j) \<in> ready" for j
    proof -
      have ji: "j \<noteq> i" "j < length (services ?s)" "i < length (services ?s)" using that(1) Cons.prems(2,3) by auto
      then have e: "services (inet (serve (rq i) i m)) ! j = services ?s ! j" using sv by (simp add: served_def)
      then show ?thesis
        using that Cons.prems(5) others_differ [OF t ji(3) fd(1) ji(2,1)] sv by (auto simp: served_def)
    qed
    then show ?thesis
      using Cons.IH [of "serve (rq i) i m" "n - 1"] Cons.prems sv True by (simp add: served_def Let_def)
  next
    case False
    then show ?thesis using Cons.IH [of m n] Cons.prems by (auto simp: Let_def)
  qed
qed simp

lemma main_turn_ok:
  assumes "safe base (inet m)" "fresh_pids rq m"
  shows "safe base (inet (main_turn ready rq m)) \<and> (exact (inet m) \<longrightarrow> exact (inet (main_turn ready rq m)))"
proof -
  have "\<forall>i \<in> set [0..<length (services (inet m))]. fork_pid (rq i) < 0 \<or> 1 < fork_pid (rq i)"
    using assms(2) by (auto simp: fresh_pids_def)
  then show ?thesis
    using serve_all_ok [OF assms(1), of "[0..<length (services (inet m))]" rq "ready \<inter> allsock (inet m)"] assms(1)
    by (simp add: main_turn_def Let_def)
qed

section \<open>The end of servers\<close>

lemma reap_one_ok:
  assumes "safe base s" "i < length (services s)" "1 < pid"
  shows "safe base (reap_one pid status i s) \<and> (exact s \<longrightarrow> exact (reap_one pid status i s))
    \<and> length (services (reap_one pid status i s)) = length (services s)"
proof (cases "se_wait (services s ! i) = pid")
  case False
  then show ?thesis using assms(1) by (simp add: reap_one_def)
next
  case True
  let ?sep = "services s ! i" let ?y = "?sep\<lparr>se_wait := 1\<rparr>" let ?s = "reap_one pid status i s"
  have s': "services ?s = (services s)[i := ?y]" "allsock ?s = insert (se_fd ?sep) (allsock s)" "nsock ?s = nsock s + 1"
    "maxsock ?s = maxsock s" "fds ?s = fds s"
    using True by (simp_all add: reap_one_def Let_def)
  have t: "table_ok base s" and w: "waiting_ok s" and n: "nsock s \<le> int (card (allsock s))"
    using assms(1) by (simp_all add: safe_def)
  have fd: "0 \<le> se_fd ?sep" "se_fd ?sep \<le> maxsock s" "se_fd ?sep \<notin> allsock s"
    using w True assms(2,3) by (auto simp: waiting_ok_def)
  have "-1 \<le> se_fd x" if "x \<in> set (services ?s)" for x
    using that t fd set_update_subset_insert [of "services s" i ?y] unfolding s'(1) table_ok_def by fastforce
  then have "table_ok base ?s"
    using t assms(2) s' fd nth_in_table [OF assms(2) t fd(1)] by (auto simp: table_ok_def socks_update_fd)
  moreover have "waiting_ok ?s"
    using others_differ [OF t assms(2) fd(1)] s' by (intro waiting_update [OF w assms(2) s'(1)]) auto
  moreover have c: "card (insert (se_fd ?sep) (allsock s)) = Suc (card (allsock s))"
    using finite_allsock [OF t] fd(3) by simp
  moreover have "exact ?s" if "exact s"
    using that c s' set_update_subset_insert [of "services s" i ?y] by (fastforce simp: exact_def)
  ultimately show ?thesis using n s' by (simp add: safe_def)
qed

lemma reap_pid_ok:
  assumes "safe base s" "1 < pid"
  shows "safe base (reap_pid (pid, status) s) \<and> (exact s \<longrightarrow> exact (reap_pid (pid, status) s))"
proof -
  have "safe base (fold (reap_one pid status) is s) \<and> (exact s \<longrightarrow> exact (fold (reap_one pid status) is s))"
    if "safe base s" "\<forall>i \<in> set is. i < length (services s)" for "is" s
    using that
  proof (induction "is" arbitrary: s)
    case (Cons i "is")
    then show ?case using reap_one_ok [of base s i pid status] assms(2) by simp
  qed simp
  then show ?thesis using assms(1) by (simp add: reap_pid_def)
qed

lemma reap_pids_ok:
  "safe base s \<Longrightarrow> \<forall>d \<in> set dead. 1 < fst d \<Longrightarrow> safe base (fold reap_pid dead s) \<and> (exact s \<longrightarrow> exact (fold reap_pid dead s))"
proof (induction dead arbitrary: s)
  case (Cons d dead)
  then show ?case using reap_pid_ok [of base s "fst d" "snd d"] by simp
qed simp

section \<open>Processes\<close>

text \<open>The processes that are being waited for have been started and not yet returned by \<open>wait3\<close>.\<close>

definition good :: "int set \<Rightarrow> master \<Rightarrow> bool" where
  "good base m \<longleftrightarrow> safe base (inet m) \<and> se_wait (serv (parse m)) \<le> 1 \<and> (\<forall>r \<in> set (running m). 1 < fst r)
     \<and> waits (inet m) \<subseteq> fst ` set (running m)"

lemma waits_update: "waits (set_service i sep s) \<subseteq> waits s \<union> {w. w = se_wait sep \<and> 1 < w}"
  using set_update_subset_insert [of "services s" i sep] by (fastforce simp: waits_def)

lemma waits_services: "services s = services s' \<Longrightarrow> waits s = waits s'"
  by (simp add: waits_def)

lemma terminate_waits:
  assumes "i < length (services s)" "se_wait sep = se_wait (services s ! i)"
  shows "waits (terminate i sep ctrl s) \<subseteq> waits s"
proof -
  let ?l = "logs (Looping (se_service sep) (se_proto sep)) s"
  obtain sep' s' where c: "close_sep sep ?l = (sep', s')" by (cases "close_sep sep ?l")
  have w: "se_wait sep' \<le> 1" "services s' = services s"
    using c by (auto simp: close_sep_def Let_def close_fd_def logs_def split: if_splits)
  have "waits (terminate i sep ctrl s) = waits (set_service i sep' s')"
    by (rule waits_services) (simp add: terminate_def c)
  then show ?thesis using waits_update [of i sep' s'] w waits_services [of s' s] by auto
qed

lemma started_waits:
  assumes "i < length (services s)" "se_wait sep = se_wait (services s ! i)"
  shows "waits (started i sep pid s) \<subseteq> insert pid (waits s)"
proof (cases "se_wait sep = 0")
  case True
  then show ?thesis using waits_update [of i sep s] by (auto simp: started_def)
next
  case False
  let ?s = "if se_fd sep \<ge> 0 then s\<lparr>allsock := allsock s - {se_fd sep}, nsock := nsock s - 1\<rparr> else s"
  have "waits (started i sep pid s) = waits (set_service i (sep\<lparr>se_wait := pid\<rparr>) ?s)" using False by (simp add: started_def)
  then show ?thesis using waits_update [of i "sep\<lparr>se_wait := pid\<rparr>" ?s] waits_services [of ?s s] by auto
qed

lemma serve_processes:
  assumes "i < length (services (inet m))"
  shows "waits (inet (serve rq i m)) \<subseteq> waits (inet m) \<union> fst ` set (running (serve rq i m))
    \<and> set (running m) \<subseteq> set (running (serve rq i m)) \<and> fst ` set (running (serve rq i m)) \<subseteq> insert (fork_pid rq) (fst ` set (running m))
    \<and> (fork_pid rq < 0 \<longrightarrow> running (serve rq i m) = running m) \<and> parse (serve rq i m) = parse m"
proof -
  let ?s = "inet m" let ?sep = "services ?s ! i"
  obtain ctrl s1 where g: "get_ctrl ?sep ?s = (ctrl, s1)" by (cases "get_ctrl ?sep ?s")
  have s1: "services s1 = services ?s" using g by (auto simp: get_ctrl_def open_fd_def Let_def split: if_splits)
  define m1 where "m1 = (if takes_connection ?sep \<and> env_option m
    then m\<lparr>environ := prepenv (resolve_option m) (peer rq) (environ m)\<rparr> else m)"
  have m1: "running m1 = running m" "parse m1 = parse m" by (simp_all add: m1_def)
  obtain sep' ok where a: "admit (toomany m1) (now rq) ?sep = (sep', ok)" by (cases "admit (toomany m1) (now rq) ?sep")
  have e: "se_wait sep' = se_wait ?sep" using admit_entry [OF a] by simp
  have w1: "waits s1 = waits ?s" by (rule waits_services) (rule s1)
  have d: "waits (drop_ctrl x ctrl t) = waits t" for x t by (rule waits_services) simp
  have q: "waits (set_service i sep' (logs Fork_error s1)) \<subseteq> waits s1"
    using waits_update [of i sep' "logs Fork_error s1"] waits_services [of "logs Fork_error s1" s1] e assms
    by (auto simp: w1) (auto simp: waits_def)
  have t: "waits (terminate i sep' ctrl s1) \<subseteq> waits ?s"
    using terminate_waits [of i s1 sep' ctrl] assms e by (simp add: s1 w1)
  have st: "waits (started i sep' (fork_pid rq) s1) \<subseteq> insert (fork_pid rq) (waits ?s)"
    using started_waits [of i s1 sep' "fork_pid rq"] assms e by (simp add: s1 w1)
  let ?f = "fork_service rq i ctrl ?sep s1 m1"
  have f: "waits (inet ?f) \<subseteq> waits ?s \<union> fst ` set (running ?f) \<and> set (running m) \<subseteq> set (running ?f)
      \<and> fst ` set (running ?f) \<subseteq> insert (fork_pid rq) (fst ` set (running m))
      \<and> (fork_pid rq < 0 \<longrightarrow> running ?f = running m) \<and> parse ?f = parse m"
    using t st q a m1 by (auto simp: fork_service_def d w1)
  have "waits (if accept_errno rq \<noteq> 4 then logs (Accept_error (se_service ?sep)) ?s else ?s) = waits ?s"
    by (rule waits_services) simp
  then show ?thesis
    using f m1 by (auto simp: serve_def g serve_builtin_def Let_def d w1 split: option.split prod.split simp flip: m1_def)
qed

lemma serve_all_processes:
  assumes "\<forall>i \<in> set is. i < length (services (inet m))" "\<forall>i \<in> set is. fork_pid (rq i) < 0 \<or> 1 < fork_pid (rq i)"
    "\<forall>r \<in> set (running m). 1 < fst r" "waits (inet m) \<subseteq> fst ` set (running m)"
    "\<And>i m. i \<in> set is \<Longrightarrow> length (services (inet (serve (rq i) i m))) = length (services (inet m))"
  shows "waits (inet (serve_all ready rq n is m)) \<subseteq> fst ` set (running (serve_all ready rq n is m))
    \<and> (\<forall>r \<in> set (running (serve_all ready rq n is m)). 1 < fst r) \<and> parse (serve_all ready rq n is m) = parse m"
  using assms
proof (induction "is" arbitrary: n m)
  case (Cons i "is")
  let ?m = "serve (rq i) i m"
  have l: "i < length (services (inet m))" using Cons.prems(1) by simp
  note p = serve_processes [OF l, of "rq i"]
  have "fst ` set (running m) \<subseteq> fst ` set (running ?m)" using p by (intro image_mono) simp
  moreover have "waits (inet ?m) \<subseteq> waits (inet m) \<union> fst ` set (running ?m)" using p by (elim conjE)
  ultimately have w: "waits (inet ?m) \<subseteq> fst ` set (running ?m)" using Cons.prems(4) by (meson Un_least order_trans subset_refl)
  have r: "\<forall>r \<in> set (running ?m). 1 < fst r"
  proof
    fix r
    assume r: "r \<in> set (running ?m)"
    then have "fst r = fork_pid (rq i) \<or> fst r \<in> fst ` set (running m)" using p by auto
    moreover have "fst r \<in> fst ` set (running m)" if "fork_pid (rq i) < 0" using that p r by auto
    moreover have "fork_pid (rq i) < 0 \<or> 1 < fork_pid (rq i)" using Cons.prems(2) by simp
    moreover have "1 < x" if "x \<in> fst ` set (running m)" for x using that Cons.prems(3) by auto
    ultimately show "1 < fst r" by metis
  qed
  have l': "\<forall>j \<in> set is. j < length (services (inet ?m))" using Cons.prems(1,5) by simp
  have f: "\<forall>j \<in> set is. fork_pid (rq j) < 0 \<or> 1 < fork_pid (rq j)" using Cons.prems(2) by simp
  have ls: "length (services (inet (serve (rq j) j m))) = length (services (inet m))" if "j \<in> set is" for j m
    using Cons.prems(5) that by simp
  have m: "\<forall>j \<in> set is. j < length (services (inet m))" using Cons.prems(1) by simp
  show ?case
  proof (cases "n \<noteq> 0 \<and> se_fd (services (inet m) ! i) \<noteq> -1 \<and> se_fd (services (inet m) ! i) \<in> ready")
    case True
    then have "serve_all ready rq n (i # is) m = serve_all ready rq (n - 1) is ?m" by (simp add: Let_def)
    then show ?thesis using Cons.IH [OF l' f r w ls, of "n - 1"] p by simp
  next
    case False
    then have "serve_all ready rq n (i # is) m = m \<or> serve_all ready rq n (i # is) m = serve_all ready rq n is m" by (auto simp: Let_def)
    then show ?thesis using Cons.IH [OF m f Cons.prems(3,4) ls, of n] Cons.prems(3,4) by (elim disjE) simp_all
  qed
qed simp

lemma serve_length: "length (services (inet (serve rq i m))) = length (services (inet m))"
proof -
  have 1: "length (services (terminate i sep ctrl s)) = length (services s)" for sep ctrl s
    by (auto simp: terminate_def close_sep_def Let_def split: prod.splits)
  have 2: "length (services (started i sep pid s)) = length (services s)" for sep pid s
    by (simp add: started_def)
  have 3: "length (services (inet (fork_service rq i ctrl sep s m))) = length (services s)" for ctrl sep s m
    by (simp add: fork_service_def 1 2 split: prod.split)
  show ?thesis
    by (auto simp: serve_def Let_def 3 serve_builtin_def get_ctrl_def open_fd_def split: prod.splits option.splits)
qed

lemma main_turn_good:
  assumes "good base m" "fresh_pids rq m"
  shows "good base (main_turn ready rq m)" "exact (inet m) \<Longrightarrow> exact (inet (main_turn ready rq m))"
proof -
  have s: "safe base (inet m)" using assms(1) by (simp add: good_def)
  note t = main_turn_ok [OF s assms(2), of ready]
  have f: "\<forall>i \<in> set [0..<length (services (inet m))]. fork_pid (rq i) < 0 \<or> 1 < fork_pid (rq i)"
    using assms(2) by (auto simp: fresh_pids_def)
  show "good base (main_turn ready rq m)"
    using serve_all_processes [OF _ f _ _ serve_length, of m] t assms(1) by (auto simp: good_def main_turn_def Let_def)
  show "exact (inet m) \<Longrightarrow> exact (inet (main_turn ready rq m))" using t by simp
qed

definition reaped :: "int \<Rightarrow> servtab \<Rightarrow> servtab" where
  "reaped pid sep = (if se_wait sep = pid then sep\<lparr>se_wait := 1\<rparr> else sep)"

lemma reap_one_services:
  "services (reap_one pid status i s) = (services s)[i := reaped pid (services s ! i)]"
  by (cases "i < length (services s)") (auto simp: reap_one_def reaped_def Let_def)

lemma reap_pid_services: "services (reap_pid (pid, status) s) = map (reaped pid) (services s)"
proof -
  have "n \<le> length (services s) \<Longrightarrow>
      services (fold (reap_one pid status) [0..<n] s) = map (reaped pid) (take n (services s)) @ drop n (services s)" for n
  proof (induction n)
    case (Suc n)
    then have n: "n < length (services s)" by simp
    then have "drop n (services s) = services s ! n # drop (Suc n) (services s)" by (simp add: Cons_nth_drop_Suc)
    then show ?case using Suc n by (simp add: reap_one_services take_Suc_conv_app_nth nth_append list_update_append)
  qed simp
  from this [of "length (services s)"] show ?thesis by (simp add: reap_pid_def)
qed

lemma reap_pids_waits: "waits (fold reap_pid dead s) \<subseteq> waits s - fst ` set dead"
proof (induction dead arbitrary: s)
  case (Cons d dead)
  have "waits (reap_pid d s) \<subseteq> waits s - {fst d}"
    using reap_pid_services [of "fst d" "snd d" s] by (auto simp: waits_def reaped_def split: if_splits)
  then show ?case using Cons.IH [of "reap_pid d s"] by auto
qed simp

lemma reapchild_good:
  assumes "good base m" "fst ` set dead \<subseteq> fst ` set (running m)"
  shows "good base (reapchild dead m)" "exact (inet m) \<Longrightarrow> exact (inet (reapchild dead m))"
proof -
  have "\<forall>d \<in> set dead. 1 < fst d" using assms by (fastforce simp: good_def)
  then have k: "safe base (fold reap_pid dead (inet m)) \<and> (exact (inet m) \<longrightarrow> exact (fold reap_pid dead (inet m)))"
    using reap_pids_ok [of base "inet m" dead] assms(1) by (simp add: good_def)
  then show "exact (inet m) \<Longrightarrow> exact (inet (reapchild dead m))" by (simp add: reapchild_def)
  have "waits (fold reap_pid dead (inet m)) \<subseteq> fst ` set (filter (\<lambda>(pid, _). pid \<notin> fst ` set dead) (running m))"
  proof
    fix w
    assume "w \<in> waits (fold reap_pid dead (inet m))"
    then have "w \<in> fst ` set (running m)" "w \<notin> fst ` set dead"
      using reap_pids_waits [of dead "inet m"] assms(1) unfolding good_def by blast+
    then show "w \<in> fst ` set (filter (\<lambda>(pid, _). pid \<notin> fst ` set dead) (running m))" by force
  qed
  then show "good base (reapchild dead m)" using k assms(1) by (auto simp: good_def reapchild_def)
qed

lemma retry_waits: "waits (retry s) = waits s"
proof -
  have "map se_wait (services (retry_one i s)) = map se_wait (services s)" for i s
  proof -
    obtain ok sep s' where u: "setup_sock (services s ! i) s = (ok, sep, s')" by (cases "setup_sock (services s ! i) s")
    obtain fd f where "sep = (services s ! i)\<lparr>se_fd := fd, se_family := f\<rparr>" "services s' = services s"
      using setup_sock_result [OF u] by blast
    then show ?thesis by (simp add: retry_one_def setup_service_def u map_update flip: list_update_id)
      (metis list_update_id map_update)
  qed
  then have "map se_wait (services (fold retry_one is s)) = map se_wait (services s)" for "is" s
    by (induction "is" arbitrary: s) simp_all
  then show ?thesis by (intro waits_map) (simp add: retry_def)
qed

section \<open>Executions\<close>

lemma hup_good:
  assumes "good base m" "hup h paths m = Inr m'"
  shows "good base m'" "exact (inet m) \<and> quiet (inet m) \<Longrightarrow> exact (inet m') \<and> quiet (inet m')"
proof -
  obtain p s where c: "config h paths (parse m, inet m) = Inr (p, s)" "m' = m\<lparr>parse := p, inet := s\<rparr>"
    using assms(2) by (cases "config h paths (parse m, inet m)") (auto simp: hup_def)
  have "keeps base (inet m) s \<and> se_wait (serv p) \<le> 1" using config_ok [OF _ _ c(1), of base] assms(1) by (simp add: good_def)
  then show "good base m'" "exact (inet m) \<and> quiet (inet m) \<Longrightarrow> exact (inet m') \<and> quiet (inet m')"
    using assms(1) c(2) by (auto simp: good_def keeps_def)
qed

lemma step_good: "inetd_step a m m' \<Longrightarrow> good base m \<Longrightarrow> good base m'"
proof (induction rule: inetd_step.induct)
  case (Expired m)
  then show ?case using retry_ok [of base "inet m"] retry_waits by (simp add: good_def)
qed (auto intro: main_turn_good reapchild_good hup_good)

lemma run_good: "inetd_run S m m' \<Longrightarrow> good base m \<Longrightarrow> good base m'"
  by (induction rule: inetd_run.induct) (auto intro: step_good)

text \<open>The state \<open>main\<close> starts in; \<open>base\<close> are the descriptors that are open then.\<close>

definition initial :: "int set \<Rightarrow> master \<Rightarrow> bool" where
  "initial base m \<longleftrightarrow> services (inet m) = [] \<and> nsock (inet m) = 0 \<and> allsock (inet m) = {} \<and> set (fds (inet m)) = base
     \<and> running m = [] \<and> serv (parse m) = serv_zero"

lemma initial_good: "initial base m \<Longrightarrow> good base m \<and> exact (inet m) \<and> quiet (inet m)"
  by (simp add: initial_def good_def safe_def table_ok_def waiting_ok_def waits_def exact_def quiet_def serv_zero_def)

lemma socks_mset: "socks xs = mset (filter (\<lambda>fd. 0 \<le> fd) (map se_fd xs))"
  by (induction xs) (auto simp: sock1_def)

lemma distinct_mset_set: "mset xs = mset_set A \<Longrightarrow> distinct xs"
proof -
  assume a: "mset xs = mset_set A"
  have "x \<in> set xs \<longleftrightarrow> finite A \<and> x \<in> A" for x
    using arg_cong [OF a, of "\<lambda>M. x \<in># M"] by (cases "finite A") auto
  then show ?thesis unfolding distinct_count_atmost_1 a by (simp add: count_mset_set')
qed

lemma safe_table:
  assumes "safe base s"
  shows "distinct (filter (\<lambda>fd. 0 \<le> fd) (map se_fd (services s)))"
    "set (fds s) = base \<union> {fd \<in> se_fd ` set (services s). 0 \<le> fd}" "base \<inter> {fd \<in> se_fd ` set (services s). 0 \<le> fd} = {}"
    "allsock s \<subseteq> {fd \<in> se_fd ` set (services s). 0 \<le> fd}"
proof -
  let ?l = "filter (\<lambda>fd. 0 \<le> fd) (map se_fd (services s))"
  have t: "mset ?l = mset_set (set (fds s) - base)" "base \<subseteq> set (fds s)" "allsock s \<subseteq> set (fds s) - base"
    using assms by (simp_all add: safe_def table_ok_def socks_mset)
  show "distinct ?l" using distinct_mset_set [OF t(1)] .
  have "set ?l = set (fds s) - base" using arg_cong [OF t(1), of set_mset] by simp
  then have e: "{fd \<in> se_fd ` set (services s). 0 \<le> fd} = set (fds s) - base" by auto
  show "set (fds s) = base \<union> {fd \<in> se_fd ` set (services s). 0 \<le> fd}"
    "base \<inter> {fd \<in> se_fd ` set (services s). 0 \<le> fd} = {}" "allsock s \<subseteq> {fd \<in> se_fd ` set (services s). 0 \<le> fd}"
    unfolding e using t by auto
qed

text \<open>Executions in which the timer does not expire and the configuration is only read while no server is waited for.\<close>

inductive inetd_calm :: "int set \<Rightarrow> master \<Rightarrow> bool" for base where
  Calm_start: "initial base m \<Longrightarrow> inetd_calm base m"
| Calm_step: "inetd_calm base m \<Longrightarrow> a = Turned \<or> a = Reaped \<Longrightarrow> inetd_step a m m' \<Longrightarrow> inetd_calm base m'"
| Calm_reread: "inetd_calm base m \<Longrightarrow> quiet (inet m) \<Longrightarrow> hup h paths m = Inr m' \<Longrightarrow> inetd_calm base m'"

lemma calm_good: "inetd_calm base m \<Longrightarrow> good base m \<and> exact (inet m)"
proof (induction rule: inetd_calm.induct)
  case (Calm_start m)
  then show ?case using initial_good by blast
next
  case (Calm_step m a m')
  then show ?case
    using main_turn_good reapchild_good by (auto elim!: inetd_stepE)
next
  case (Calm_reread m h paths m')
  then show ?case using hup_good [of base m h paths m'] by blast
qed

section \<open>Properties\<close>

text \<open>
  (C25) In every execution, whatever requests arrive, servers end, timers expire and configurations are read, inetd
  has open, besides the descriptors it was started with, one socket for each service that has one; it gives
  \<open>select\<close> only such sockets; and the socket of a service whose server is being waited for is not among them, and the
  process it waits for is one that was started and has not been reaped.
\<close>

theorem inetd_descriptors:
  assumes "initial base m" "inetd_run UNIV m m'"
  shows "distinct (filter (\<lambda>fd. 0 \<le> fd) (map se_fd (services (inet m'))))
    \<and> set (fds (inet m')) = base \<union> {fd \<in> se_fd ` set (services (inet m')). 0 \<le> fd}
    \<and> base \<inter> {fd \<in> se_fd ` set (services (inet m')). 0 \<le> fd} = {}
    \<and> allsock (inet m') \<subseteq> {fd \<in> se_fd ` set (services (inet m')). 0 \<le> fd}
    \<and> (\<forall>sep \<in> set (services (inet m')). 1 < se_wait sep \<longrightarrow>
         se_fd sep \<notin> allsock (inet m') \<and> se_wait sep \<in> fst ` set (running m'))"
proof -
  have g: "good base m'" using run_good [OF assms(2)] initial_good [OF assms(1)] by simp
  then have s: "safe base (inet m')" by (simp add: good_def)
  have "se_fd sep \<notin> allsock (inet m') \<and> se_wait sep \<in> fst ` set (running m')"
    if "sep \<in> set (services (inet m'))" "1 < se_wait sep" for sep
    using g that unfolding good_def safe_def waiting_ok_def waits_def by blast
  then show ?thesis using safe_table [OF s] by blast
qed

text \<open>
  (C26) As long as the timer does not expire and the configuration is read only while no server is waited for,
  the counter \<open>nsock\<close> is the number of the sockets given to \<open>select\<close>, and every service that has a socket is either
  listened to or has its server running, so that the main loop does not sleep while one of them could be requested.  A
  service whose socket could not be bound, or that was closed for being started too often, has no socket and is not
  among them.
\<close>

theorem inetd_keeps_listening:
  assumes "inetd_calm base m"
  shows "nsock (inet m) = int (card (allsock (inet m)))
    \<and> (\<forall>sep \<in> set (services (inet m)). 0 \<le> se_fd sep \<longrightarrow>
         (if se_wait sep \<le> 1 then se_fd sep \<in> allsock (inet m) else se_wait sep \<in> fst ` set (running m)))"
proof -
  have g: "good base m" and e: "exact (inet m)" using calm_good [OF assms] by simp_all
  have "se_wait sep \<in> fst ` set (running m)" if "sep \<in> set (services (inet m))" "\<not> se_wait sep \<le> 1" for sep
    using g that by (auto simp: good_def waits_def)
  then show ?thesis using e by (auto simp: exact_def)
qed

section \<open>Examples\<close>

definition ex_master :: master where
  "ex_master = \<lparr>inet = ex_inetd, parse = ex_parser, toomany = 1000, env_option = False, resolve_option = False,
     environ = Map.empty, running = [], ring_pos = None, sent = []\<rparr>"

definition ex_conf :: string where
  "ex_conf = conf_text [spec_words ex_telnet, spec_words ex_ntalk]"

lemma ex_initial: "initial {0, 1, 2} ex_master"
  by (auto simp: initial_def ex_master_def ex_inetd_def ex_parser_def)

lemma hup_specs:
  assumes "specs_ok h sps" "file_at h path = Some (Regular (Some (conf_text (map (\<lambda>x. spec_words (fst x)) sps))))"
    "global_serv_node (parse m) = Null" "serv_node (parse m) = None" "services (inet m) = []" "io (inet m) = []"
  obtains m' where "hup h [path] m = Inr m'" "map view (services (inet m')) = rev (map spec_view sps)"
    "nsock (inet m') = nsock (inet m) + int (length sps)" "\<forall>sep \<in> set (services (inet m')). se_fd sep \<in> allsock (inet m')"
proof -
  let ?s = "inet m"
  have u: "?s\<lparr>services := []\<rparr> = ?s" using assms(5) by (metis inetd.surjective inetd.update_convs(1))
  obtain p s where n: "nextconfig h path (conf_text (map (\<lambda>x. spec_words (fst x)) sps)) (parse m, ?s) = Inr (p, s)"
    "map view (services s) = rev (map spec_view sps)" "nsock s = nsock ?s + int (length sps)"
    "\<forall>sep \<in> set (services s). \<not> ISMUX sep \<and> se_fd sep \<in> allsock s"
    using nextconfig_specs [OF assms(1,3-6), of path] by blast
  have "\<exists>b. tcpmux_flags seps False has = Some (False, b)" if "\<forall>sep \<in> set seps. \<not> ISMUX sep" for seps has
    using that by (induction seps arbitrary: has) (simp_all add: Let_def)
  then obtain b where "tcpmux_flags (services s) False False = Some (False, b)" using n(4) by blast
  then have "fix_tcpmux h s = s" by (simp add: fix_tcpmux_def)
  then have "hup h [path] m = Inr (m\<lparr>parse := p, inet := s\<rparr>)"
    using n(1) assms(2,5) by (simp add: u hup_def config_def files_of_def)
  then show ?thesis using n(2-4) by (intro that) auto
qed

lemma ex_hup: obtains m where "hup (ex_host ex_conf) [''conf''] ex_master = Inr m" "nsock (inet m) = 2"
    "map view (services (inet m)) = [spec_view (ex_ntalk, [2, 0, 0, 5]), spec_view (ex_telnet, [2, 0, 0, 6])]"
    "\<forall>sep \<in> set (services (inet m)). se_fd sep \<in> allsock (inet m)"
proof -
  have f: "file_at (ex_host ex_conf) ''conf'' = Some (Regular (Some (conf_text (map (\<lambda>x. spec_words (fst x))
      [(ex_telnet, [2, 0, 0, 6]), (ex_ntalk, [2, 0, 0, 5])]))))"
    by (simp add: ex_host_def ex_conf_def)
  have p: "global_serv_node (parse ex_master) = Null" "serv_node (parse ex_master) = None" "services (inet ex_master) = []" "io (inet ex_master) = []"
    "nsock (inet ex_master) = 0"
    by (simp_all add: ex_master_def ex_parser_def ex_inetd_def)
  show thesis by (rule hup_specs [OF ex_specs f p(1-4)]) (use p(5) in \<open>auto intro: that\<close>)
qed

theorem inetd_descriptors_witness:
  "\<exists>m. hup (ex_host ex_conf) [''conf''] ex_master = Inr m \<and> length (services (inet m)) = 2
    \<and> distinct (filter (\<lambda>fd. 0 \<le> fd) (map se_fd (services (inet m))))
    \<and> set (fds (inet m)) = {0, 1, 2} \<union> {fd \<in> se_fd ` set (services (inet m)). 0 \<le> fd}"
proof -
  obtain m where m: "hup (ex_host ex_conf) [''conf''] ex_master = Inr m"
    "map view (services (inet m)) = [spec_view (ex_ntalk, [2, 0, 0, 5]), spec_view (ex_telnet, [2, 0, 0, 6])]"
    by (rule ex_hup)
  have "inetd_run UNIV ex_master m" using m(1) by (blast intro: inetd_run.intros inetd_step.Reread)
  from inetd_descriptors [OF ex_initial this] show ?thesis
    using m(1) map_eq_imp_length_eq [of view "services (inet m)" id] arg_cong [OF m(2), of length] by (auto simp del: map_eq_conv)
qed

theorem inetd_keeps_listening_witness:
  "\<exists>m. hup (ex_host ex_conf) [''conf''] ex_master = Inr m \<and> nsock (inet m) = 2 \<and> card (allsock (inet m)) = 2"
proof -
  obtain m where m: "hup (ex_host ex_conf) [''conf''] ex_master = Inr m" "nsock (inet m) = 2" by (rule ex_hup)
  have "quiet (inet ex_master)" by (simp add: quiet_def ex_master_def ex_inetd_def)
  then have "inetd_calm {0, 1, 2} m" using Calm_reread [OF Calm_start [OF ex_initial]] m(1) by blast
  from inetd_keeps_listening [OF this] show ?thesis using m by (intro exI [of _ m]) simp
qed

end
