(* ===== verification/Inetd_Stranded.thy ===== *)
theory Inetd_Stranded
  imports Inetd_Safety
begin

text \<open>
  Services that inetd stops listening to: after the timer (\<open>retry\<close>) and after the configuration was read while a server was
  running.
\<close>

section \<open>A service without its socket in select\<close>

definition stranded :: "nat \<Rightarrow> inetd \<Rightarrow> bool" where
  "stranded i s \<longleftrightarrow> i < length (services s) \<and> se_wait (services s ! i) \<le> 1 \<and> se_fd (services s ! i) \<notin> allsock s"

lemma serve_all_stranded:
  assumes "safe base (inet m)" "distinct is" "\<forall>j \<in> set is. j < length (services (inet m))"
    "\<forall>j \<in> set is. fork_pid (rq j) < 0 \<or> 1 < fork_pid (rq j)"
    "\<forall>j \<in> set is. se_fd (services (inet m) ! j) \<in> ready \<longrightarrow> se_fd (services (inet m) ! j) \<in> allsock (inet m)"
    "stranded i (inet m)"
  shows "stranded i (inet (serve_all ready rq n is m))"
  using assms
proof (induction "is" arbitrary: n m)
  case (Cons j "is")
  let ?s = "inet m" let ?m = "serve (rq j) j m"
  let ?fd = "se_fd (services ?s ! j)"
  have t: "table_ok base ?s" using Cons.prems(1) by (simp add: safe_def)
  have ge: "-1 \<le> ?fd" using t Cons.prems(3) by (auto simp: table_ok_def)
  show ?case
  proof (cases "n \<noteq> 0 \<and> ?fd \<noteq> -1 \<and> ?fd \<in> ready")
    case True
    then have fd: "0 \<le> ?fd" "?fd \<in> allsock ?s" using ge Cons.prems(5) by auto
    then have ij: "i \<noteq> j" using Cons.prems(6) by (auto simp: stranded_def)
    have jl: "j < length (services ?s)" using Cons.prems(3) by simp
    have sv: "served base j ?s (inet ?m)" using serve_ok [OF Cons.prems(1) jl fd] Cons.prems(4) by simp
    have st: "stranded i (inet ?m)" using sv Cons.prems(6) ij by (auto simp: served_def stranded_def)
    have "se_fd (services (inet ?m) ! k) \<in> allsock (inet ?m)"
      if "k \<in> set is" "se_fd (services (inet ?m) ! k) \<in> ready" for k
    proof -
      have kj: "k \<noteq> j" "k < length (services ?s)" using that(1) Cons.prems(2,3) by auto
      then have e: "services (inet ?m) ! k = services ?s ! k" using sv by (simp add: served_def)
      then show ?thesis
        using that Cons.prems(5) others_differ [OF t jl fd(1) kj(2,1)] sv by (auto simp: served_def)
    qed
    then show ?thesis
      using Cons.IH [of ?m "n - 1"] Cons.prems sv st True by (simp add: served_def Let_def)
  next
    case False
    then show ?thesis using Cons.IH [of m n] Cons.prems by (auto simp: Let_def)
  qed
qed simp

lemma main_turn_stranded:
  assumes "good base m" "fresh_pids rq m" "stranded i (inet m)"
  shows "stranded i (inet (main_turn ready rq m))"
proof -
  have "\<forall>i \<in> set [0..<length (services (inet m))]. fork_pid (rq i) < 0 \<or> 1 < fork_pid (rq i)"
    using assms(2) by (auto simp: fresh_pids_def)
  then show ?thesis
    using serve_all_stranded [of base m "[0..<length (services (inet m))]" rq "ready \<inter> allsock (inet m)"] assms(1,3)
    by (simp add: main_turn_def Let_def good_def)
qed

lemma reap_one_stranded:
  assumes "safe base s" "j < length (services s)" "1 < pid" "stranded i s"
  shows "stranded i (reap_one pid status j s)"
proof (cases "se_wait (services s ! j) = pid")
  case True
  have t: "table_ok base s" and w: "waiting_ok s" using assms(1) by (simp_all add: safe_def)
  have "0 \<le> se_fd (services s ! j)" using w True assms(2,3) by (auto simp: waiting_ok_def)
  moreover have "i \<noteq> j" "i < length (services s)" using assms(3,4) True by (auto simp: stranded_def)
  ultimately have "se_fd (services s ! i) \<noteq> se_fd (services s ! j)" using others_differ [OF t assms(2)] by blast
  then show ?thesis
    using assms(4) True \<open>i \<noteq> j\<close> by (simp add: reap_one_def stranded_def Let_def)
qed (use assms(4) in \<open>simp add: reap_one_def\<close>)

lemma reap_pids_stranded:
  "safe base s \<Longrightarrow> stranded i s \<Longrightarrow> \<forall>d \<in> set dead. 1 < fst d \<Longrightarrow> stranded i (fold reap_pid dead s)"
proof (induction dead arbitrary: s)
  case (Cons d dead)
  have "safe base (fold (reap_one (fst d) (snd d)) is s) \<and> stranded i (fold (reap_one (fst d) (snd d)) is s)"
    if "safe base s" "stranded i s" "\<forall>j \<in> set is. j < length (services s)" for "is" s
    using that
  proof (induction "is" arbitrary: s)
    case (Cons j "is")
    have "1 < fst d" using \<open>\<forall>d \<in> set (d # dead). 1 < fst d\<close> by simp
    then show ?case
      using Cons.IH [of "reap_one (fst d) (snd d) j s"] Cons.prems reap_one_ok [of base s j "fst d" "snd d"]
        reap_one_stranded [of base s j "fst d" i "snd d"] by simp
  qed simp
  from this [of s "[0..<length (services s)]"] Cons.prems have "safe base (reap_pid d s)" "stranded i (reap_pid d s)"
    by (simp_all add: reap_pid_def case_prod_beta)
  then show ?case using Cons by simp
qed simp

lemma retry_one_stranded:
  assumes "safe base s" "j < length (services s)" "stranded i s"
  shows "stranded i (retry_one j s)" "safe base (retry_one j s)" "length (services (retry_one j s)) = length (services s)"
proof -
  obtain ok s' where u: "setup_service j s = (ok, s')" by (cases "setup_service j s")
  have "stranded i (retry_one j s) \<and> safe base (retry_one j s) \<and> length (services (retry_one j s)) = length (services s)"
  proof (cases "se_fd (services s ! j) = -1 \<and> \<not> ISMUX (services s ! j)")
    case False
    then show ?thesis using assms by (auto simp: retry_one_def)
  next
    case True
    note r = setup_service_ok [OF assms(1,2) _ u]
    obtain fd f where sv: "services s' = (services s)[j := (services s ! j)\<lparr>se_fd := fd, se_family := f\<rparr>]"
      and fd: "if ok then 0 \<le> fd \<and> fd \<notin> set (fds s) \<and> set (fds s') = insert fd (set (fds s)) else fd = -1 \<and> set (fds s') = set (fds s)"
      using r(6) True by blast
    have "allsock s \<subseteq> set (fds s)" using assms(1) by (auto simp: safe_def table_ok_def)
    moreover have "-1 \<notin> allsock s" using safe_table(4) [OF assms(1)] by auto
    ultimately have "fd \<notin> allsock s" using fd by (cases ok) auto
    moreover have "retry_one j s = s'" using True u by (simp add: retry_one_def)
    ultimately show ?thesis
      using assms(3) sv r(1,2) True by (cases "i = j") (auto simp: stranded_def)
  qed
  then show "stranded i (retry_one j s)" "safe base (retry_one j s)" "length (services (retry_one j s)) = length (services s)"
    by simp_all
qed

lemma retry_stranded: "safe base s \<Longrightarrow> stranded i s \<Longrightarrow> stranded i (retry s)"
proof -
  have "stranded i (fold retry_one is s)" if "safe base s" "stranded i s" "\<forall>j \<in> set is. j < length (services s)" for "is" s
    using that
  proof (induction "is" arbitrary: s)
    case (Cons j "is")
    then show ?case using retry_one_stranded [of base s j i] by simp
  qed simp
  moreover assume "safe base s" "stranded i s"
  ultimately show ?thesis
    using invariants_same(2) [of s "s\<lparr>timingout := False\<rparr>" base] by (simp add: retry_def stranded_def same_state_def)
qed

lemma step_stranded:
  assumes "inetd_step a m m'" "a \<noteq> Reread" "good base m" "stranded i (inet m)"
  shows "stranded i (inet m')"
  using assms
proof (cases rule: inetd_step.cases)
  case (Reaped dead)
  have "\<forall>d \<in> set dead. 1 < fst d" using Reaped assms(3) by (fastforce simp: good_def)
  then show ?thesis using Reaped reap_pids_stranded [of base "inet m" i dead] assms(3,4) by (simp add: reapchild_def good_def)
qed (use main_turn_stranded retry_stranded in \<open>auto simp: good_def\<close>)

lemma run_stranded:
  "inetd_run S m m' \<Longrightarrow> Reread \<notin> S \<Longrightarrow> good base m \<Longrightarrow> stranded i (inet m) \<Longrightarrow> stranded i (inet m')"
proof (induction rule: inetd_run.induct)
  case (more m m' a m'')
  then show ?case using step_stranded run_good by metis
qed

section \<open>A configuration without services\<close>

lemma purge_unchecked:
  "\<forall>sep \<in> set seps. \<not> se_checked sep \<Longrightarrow> \<exists>s'. purge seps s = ([], s') \<and> io s' = io s
     \<and> nsock s' = nsock s - int (length (filter (\<lambda>sep. 0 \<le> se_fd sep) seps))
     \<and> allsock s' = allsock s - {fd \<in> se_fd ` set seps. 0 \<le> fd}"
proof (induction seps arbitrary: s)
  case (Cons sep seps)
  define s1 where "s1 = (if se_fd sep \<ge> 0 then snd (close_sep sep s) else s)"
  have s1: "io s1 = io s" "nsock s1 = nsock s - (if 0 \<le> se_fd sep then 1 else 0)"
    "allsock s1 = allsock s - {fd. fd = se_fd sep \<and> 0 \<le> fd}"
    by (auto simp: s1_def close_sep_def Let_def close_fd_def)
  have c: "\<not> se_checked sep" "\<forall>x \<in> set seps. \<not> se_checked x" using Cons.prems by simp_all
  obtain s' where s': "purge seps s1 = ([], s')" "io s' = io s1"
    "nsock s' = nsock s1 - int (length (filter (\<lambda>sep. 0 \<le> se_fd sep) seps))"
    "allsock s' = allsock s1 - {fd \<in> se_fd ` set seps. 0 \<le> fd}"
    using Cons.IH [OF c(2), of s1] by blast
  have "purge (sep # seps) s = ([], s')" using s'(1) c(1) by (simp add: s1_def)
  then show ?case using s'(2-4) s1 by (intro exI [of _ s']) auto
qed simp

lemma exact_count:
  assumes "safe base s" "exact s"
  shows "nsock s = int (length (filter (\<lambda>sep. 0 \<le> se_fd sep) (services s))) - int (length (filter (\<lambda>sep. 1 < se_wait sep) (services s)))"
proof -
  let ?A = "filter (\<lambda>sep. 0 \<le> se_fd sep) (services s)"
  let ?B = "filter (\<lambda>sep. se_wait sep \<le> 1) ?A"
  have "distinct (map se_fd ?A)" using safe_table(1) [OF assms(1)] by (simp add: filter_map o_def)
  then have d: "distinct (map se_fd ?B)" by (rule distinct_map_filter)
  have "allsock s = se_fd ` set ?B"
    using assms safe_table(4) [OF assms(1)] by (force simp: exact_def safe_def waiting_ok_def)
  then have "card (allsock s) = length ?B" using distinct_card [OF d] by simp
  moreover have "length ?A = length ?B + length (filter (\<lambda>sep. \<not> se_wait sep \<le> 1) ?A)"
    using sum_length_filter_compl [of "\<lambda>sep. se_wait sep \<le> 1" ?A] by simp
  moreover have "filter (\<lambda>sep. \<not> se_wait sep \<le> 1) ?A = filter (\<lambda>sep. 1 < se_wait sep) (services s)"
    using assms(1) by (auto simp: safe_def waiting_ok_def intro!: filter_cong)
  ultimately show ?thesis using assms(2) by (simp add: exact_def)
qed

lemma empty_reload:
  assumes "good base m" "exact (inet m)" "serv_node (parse m) = None" "global_serv_node (parse m) = Null"
    "file_at h path = Some (Regular (Some []))"
  obtains m' where "hup h [path] m = Inr m'" "services (inet m') = []" "allsock (inet m') = {}" "io (inet m') = io (inet m)"
    "nsock (inet m') = - int (length (filter (\<lambda>sep. 1 < se_wait sep) (services (inet m))))"
    "serv_node (parse m') = None" "global_serv_node (parse m') = Null"
proof -
  let ?s = "inet m"
  let ?xs = "map (\<lambda>sep. sep\<lparr>se_checked := False\<rparr>) (services ?s)"
  let ?p = "(parse m)\<lparr>serv := serv_zero\<rparr>"
  obtain fd s1 where o: "open_fd (?s\<lparr>services := ?xs\<rparr>) = (fd, s1)" by (cases "open_fd (?s\<lparr>services := ?xs\<rparr>)")
  have s1: "s1 = ?s\<lparr>services := ?xs, fds := fd # fds ?s\<rparr>" using o by (auto simp: open_fd_def Let_def)
  let ?t = "close_fd fd s1"
  obtain s2 where p: "purge ?xs ?t = ([], s2)" "io s2 = io ?t"
    "nsock s2 = nsock ?t - int (length (filter (\<lambda>sep. 0 \<le> se_fd sep) ?xs))"
    "allsock s2 = allsock ?t - {fd \<in> se_fd ` set ?xs. 0 \<le> fd}"
    using purge_unchecked [of ?xs ?t] by auto
  have "nextconfig h path [] (parse m, ?s\<lparr>services := ?xs\<rparr>) = Inr (?p, s2\<lparr>services := []\<rparr>)"
    using o p(1) assms(3) s1 by (simp add: nextconfig_def conf_entries_end purge_services_def)
  then have h: "hup h [path] m = Inr (m\<lparr>parse := ?p, inet := s2\<lparr>services := []\<rparr>\<rparr>)"
    using assms(5) by (simp add: hup_def config_def files_of_def fix_tcpmux_def)
  have sf: "safe base ?s" using assms(1) by (simp add: good_def)
  have l: "length (filter (\<lambda>sep. 0 \<le> se_fd sep) ?xs) = length (filter (\<lambda>sep. 0 \<le> se_fd sep) (services ?s))"
    by (simp add: filter_map o_def)
  show ?thesis
  proof (rule that [OF h])
    show "allsock (inet (m\<lparr>parse := ?p, inet := s2\<lparr>services := []\<rparr>\<rparr>)) = {}"
      using p(4) safe_table(4) [OF sf] by (auto simp: s1 image_image)
    show "nsock (inet (m\<lparr>parse := ?p, inet := s2\<lparr>services := []\<rparr>\<rparr>)) = - int (length (filter (\<lambda>sep. 1 < se_wait sep) (services ?s)))"
      using p(3) [unfolded l] exact_count [OF sf assms(2)] by (simp add: s1)
  qed (use p(2) assms(3,4) in \<open>simp_all add: s1 close_fd_def\<close>)
qed

section \<open>Properties\<close>

text \<open>
  (C35) The timer never brings a service back: a service that has no socket, because its address could not be bound or because it
  was closed for being started too often, is not listened to after any number of requests, ends of servers
  and expirations of the timer; \<open>retry\<close> makes a socket for it that neither listens nor is given to \<open>select\<close>.
\<close>

theorem retry_does_not_listen:
  assumes "good base m" "i < length (services (inet m))" "se_fd (services (inet m) ! i) = -1"
    "inetd_run {Turned, Reaped, Expired} m m'"
  shows "i < length (services (inet m')) \<and> se_fd (services (inet m') ! i) \<notin> allsock (inet m')"
proof -
  have s: "safe base (inet m)" using assms(1) by (simp add: good_def)
  have "se_wait (services (inet m) ! i) \<le> 1"
    using s nth_mem [OF assms(2)] assms(3) by (force simp: safe_def waiting_ok_def)
  moreover have "-1 \<notin> allsock (inet m)" using safe_table(4) [OF s] by auto
  ultimately have "stranded i (inet m)" using assms(2,3) by (simp add: stranded_def)
  then show ?thesis using run_stranded [OF assms(4) _ assms(1)] by (simp add: stranded_def)
qed

text \<open>
  (C36) Reading the configuration while one server is waited for makes \<open>nsock\<close> too small: the socket of its service
  is subtracted a second time.  After a configuration without services and one with a single service, that service has its
  socket given to \<open>select\<close>, but \<open>nsock\<close> is 0, and the main loop no longer looks at any request.
\<close>

theorem reload_starves:
  assumes "good base m" "exact (inet m)" "serv_node (parse m) = None" "global_serv_node (parse m) = Null" "io (inet m) = []"
    "length (filter (\<lambda>sep. 1 < se_wait sep) (services (inet m))) = 1"
    "file_at h path = Some (Regular (Some []))" "file_at h' path = Some (Regular (Some (conf_text [spec_words sp])))"
    "specs_ok h' [(sp, a)]"
  shows "\<exists>m1 m2. hup h [path] m = Inr m1 \<and> hup h' [path] m1 = Inr m2 \<and> allsock (inet m2) \<noteq> {}
    \<and> (\<forall>ready rq. main_turn ready rq m2 = m2)"
proof -
  obtain m1 where m1: "hup h [path] m = Inr m1" "services (inet m1) = []" "io (inet m1) = []" "nsock (inet m1) = -1"
    "serv_node (parse m1) = None" "global_serv_node (parse m1) = Null"
    by (rule empty_reload [OF assms(1-4,7)]) (use assms(5,6) in auto)
  obtain m2 where m2: "hup h' [path] m1 = Inr m2" "map view (services (inet m2)) = rev (map spec_view [(sp, a)])"
    "nsock (inet m2) = nsock (inet m1) + int (length [(sp, a)])" "\<forall>sep \<in> set (services (inet m2)). se_fd sep \<in> allsock (inet m2)"
    by (rule hup_specs [OF assms(9) _ m1(6,5,2,3), of path]) (use assms(8) in auto)
  have "services (inet m2) \<noteq> []" using m2(2) by auto
  then have "allsock (inet m2) \<noteq> {}" using m2(4) by (cases "services (inet m2)") auto
  moreover have "nsock (inet m2) = 0" using m2(3) m1(4) by simp
  ultimately show ?thesis using m1(1) m2(1) by (auto simp: main_turn_def Let_def)
qed

section \<open>Examples\<close>

text \<open>A service that was closed, with the timer set, and one whose server runs.\<close>

definition ex_closed :: master where
  "ex_closed = ex_master\<lparr>inet := ex_inetd\<lparr>services := [copy_entry (spec_entry ''conf'' 1 ex_telnet)], timingout := True\<rparr>\<rparr>"

definition ex_waiting :: master where
  "ex_waiting = (let sep = (copy_entry (spec_entry ''conf'' 1 ex_ntalk))\<lparr>se_fd := 3, se_wait := 100\<rparr>
     in ex_master\<lparr>inet := ex_inetd\<lparr>services := [sep], fds := [3, 0, 1, 2], maxsock := 3\<rparr>, running := [(100, sep)]\<rparr>)"

lemma ex_closed_good: "good {0, 1, 2} ex_closed"
  by (simp add: good_def ex_closed_def ex_master_def ex_inetd_def ex_parser_def safe_def table_ok_def waiting_ok_def waits_def
      sock1_def copy_entry_def spec_entry_def serv_zero_def ex_telnet_def)

lemma ex_waiting_good: "good {0, 1, 2} ex_waiting" "exact (inet ex_waiting)"
proof -
  have "insert 3 {0, 1, 2} - {0, 1, 2} = {3 :: int}" by auto
  then show "good {0, 1, 2} ex_waiting"
    by (auto simp: good_def ex_waiting_def ex_master_def ex_inetd_def ex_parser_def safe_def table_ok_def waiting_ok_def waits_def
        sock1_def copy_entry_def spec_entry_def serv_zero_def Let_def)
  show "exact (inet ex_waiting)"
    by (simp add: exact_def ex_waiting_def ex_master_def ex_inetd_def Let_def)
qed

theorem retry_does_not_listen_witness:
  "se_fd (services (retry (inet ex_closed)) ! 0) = 3 \<and> se_fd (services (retry (inet ex_closed)) ! 0) \<notin> allsock (retry (inet ex_closed))"
proof -
  have "inetd_step Expired ex_closed (ex_closed\<lparr>inet := retry (inet ex_closed)\<rparr>)"
    by (rule inetd_step.Expired) (simp add: ex_closed_def ex_master_def)
  then have "inetd_run {Turned, Reaped, Expired} ex_closed (ex_closed\<lparr>inet := retry (inet ex_closed)\<rparr>)"
    by (blast intro: inetd_run.intros)
  from retry_does_not_listen [OF ex_closed_good _ _ this, of 0]
  have "se_fd (services (retry (inet ex_closed)) ! 0) \<notin> allsock (retry (inet ex_closed))"
    by (simp add: ex_closed_def ex_master_def copy_entry_def)
  moreover have "se_fd (services (retry (inet ex_closed)) ! 0) = 3" by code_simp
  ultimately show ?thesis by simp
qed

theorem reload_starves_witness:
  "\<exists>m1 m2. hup (ex_host []) [''conf''] ex_waiting = Inr m1
    \<and> hup (ex_host (conf_text [spec_words ex_telnet])) [''conf''] m1 = Inr m2 \<and> allsock (inet m2) \<noteq> {}"
proof -
  have a: "serv_node (parse ex_waiting) = None" "global_serv_node (parse ex_waiting) = Null" "io (inet ex_waiting) = []"
    "length (filter (\<lambda>sep. 1 < se_wait sep) (services (inet ex_waiting))) = 1"
    by (simp_all add: ex_waiting_def ex_master_def ex_parser_def ex_inetd_def Let_def)
  have f: "file_at (ex_host c) ''conf'' = Some (Regular (Some c))" for c by (simp add: ex_host_def)
  have "specs_ok (ex_host c) [(ex_telnet, [2, 0, 0, 6])]" for c
    using ex_specs [of c] by (simp add: specs_ok_def)
  from reload_starves [OF ex_waiting_good a f f this] show ?thesis by blast
qed

end
