(* ===== verification/Inetd_Service.thy ===== *)
theory Inetd_Service
  imports Inetd
begin

text \<open>
  What the services of inetd do: the limit on the rate at which servers are started, the lines of the character
  generator, the request line of the multiplexer and the service it selects, the answer of the time service.
\<close>

unbundle bit_operations_syntax

section \<open>The rate of starts\<close>

text \<open>The number of servers started for requests at the given times, until the service is closed.\<close>

fun starts :: "int \<Rightarrow> servtab \<Rightarrow> int list \<Rightarrow> nat" where
  "starts many sep [] = 0"
| "starts many sep (t # ts) = (case admit many t sep of (sep', ok) \<Rightarrow> if ok then Suc (starts many sep' ts) else 0)"

text \<open>The number of starts that the comparisons of the main loop allow.  It is one less than the documented maximum: the
  manual calls \<open>toomany\<close> the number of times a service can be invoked in one minute.\<close>

definition start_limit :: "int \<Rightarrow> servtab \<Rightarrow> int" where
  "start_limit many sep = (if se_max sep = 0 then many - 1 else min (uint (se_max sep)) (many - 1))"

lemma admit_counting:
  assumes "1 \<le> se_count sep" "se_count sep < many" "many < 2 ^ 31" "t - se_time sep \<le> CNT_INTVL"
  shows "admit many t sep = (sep\<lparr>se_count := se_count sep + 1\<rparr>, se_count sep + 1 \<le> start_limit many sep)"
proof -
  define k where "k = se_count sep + 1"
  have "0 \<le> k" "k < 2 ^ 32" using assms(1-3) by (simp_all add: k_def)
  then have "uint (word_of_int k :: u32) = k" by (simp add: uint_word_of_int_eq take_bit_int_eq_self)
  then have "se_max sep < word_of_int k \<longleftrightarrow> uint (se_max sep) < k" by (simp add: word_less_def)
  then show ?thesis using assms by (auto simp: admit_def start_limit_def Let_def simp flip: k_def)
qed

lemma starts_counting:
  assumes "1 \<le> se_count sep" "se_count sep < many" "many < 2 ^ 31" "\<forall>t \<in> set ts. t - se_time sep \<le> CNT_INTVL"
  shows "starts many sep ts = min (length ts) (nat (start_limit many sep - se_count sep))"
  using assms
proof (induction ts arbitrary: sep)
  case (Cons t ts)
  let ?sep = "sep\<lparr>se_count := se_count sep + 1\<rparr>"
  have a: "admit many t sep = (?sep, se_count sep + 1 \<le> start_limit many sep)"
    using admit_counting [of sep many t] Cons.prems by simp
  have l: "start_limit many ?sep = start_limit many sep" "start_limit many sep \<le> many - 1" by (auto simp: start_limit_def)
  show ?case
  proof (cases "se_count sep + 1 \<le> start_limit many sep")
    case True
    then have "starts many ?sep ts = min (length ts) (nat (start_limit many sep - (se_count sep + 1)))"
      using Cons.IH [of ?sep] Cons.prems l by simp
    then show ?thesis using True a by (simp add: min_def) linarith
  next
    case False
    then show ?thesis using a by simp
  qed
qed simp

section \<open>The character generator\<close>

lemma ring_bytes: "ring = map (\<lambda>i. of_nat (32 + i)) [0..<95]"
  by code_simp

lemma ring_nth: "i < 95 \<Longrightarrow> ring ! i = of_nat (32 + i)"
  by (simp add: ring_bytes del: upt_Suc)

lemma ring_length: "length ring = 95"
  by (simp add: ring_bytes del: upt_Suc)

lemma chargen_text_ring:
  assumes "rs < 95"
  shows "chargen_text rs = map (\<lambda>j. of_nat (32 + (rs + j) mod 95)) [0..<72] @ [13, 10]"
proof (cases "95 - rs \<ge> 72")
  case True
  then have "take 72 (drop rs ring) = map (\<lambda>j. of_nat (32 + (rs + j) mod 95)) [0..<72]"
    by (intro nth_equalityI) (auto simp: ring_length ring_nth simp del: upt_Suc)
  then show ?thesis using True by (simp add: chargen_text_def ring_length del: upt_Suc)
next
  case False
  have "take (95 - rs) (drop rs ring) @ take (72 - (95 - rs)) ring = map (\<lambda>j. of_nat (32 + (rs + j) mod 95)) [0..<72]"
    using False assms
    by (intro nth_equalityI) (auto simp: ring_length ring_nth nth_append mod_if simp del: upt_Suc)
  then show ?thesis using False by (simp add: chargen_text_def ring_length del: upt_Suc)
qed

lemma chargen_lines_ring:
  "rs < 95 \<Longrightarrow> chargen_lines rs n = map (\<lambda>k. chargen_text ((rs + k) mod 95)) [0..<n]"
proof (induction n arbitrary: rs)
  case (Suc n)
  have n: "chargen_next rs < 95" "(chargen_next rs + k) mod 95 = (rs + Suc k) mod 95" for k
    using Suc.prems by (auto simp: chargen_next_def ring_length)
  show ?case
    using Suc n by (simp add: map_upt_Suc del: upt_Suc)
qed simp

section \<open>The multiplexer\<close>

lemma fd_getline_chunks:
  assumes "\<forall>c \<in> set chunks. c \<noteq> []" "length buf < len"
  shows "fd_getline (map Some chunks) buf len = Some (buf @ take (len - length buf) (takeWhile (\<lambda>c. \<not> line_end c) (concat chunks)))"
  using assms
proof (induction chunks arbitrary: buf)
  case Nil
  then show ?case by (simp add: fd_getline.simps)
next
  case (Cons c cs)
  let ?P = "\<lambda>c. \<not> line_end c"
  let ?n = "len - length buf"
  let ?got = "take ?n c"
  have c: "c \<noteq> []" "?n > 0" using Cons.prems by simp_all
  have cc: "concat (c # cs) = ?got @ drop ?n c @ concat cs" by simp
  show ?case
  proof (cases "takeWhile ?P ?got = ?got")
    case False
    then have "takeWhile ?P (concat (c # cs)) = takeWhile ?P ?got"
      unfolding cc by (metis takeWhile_append1 takeWhile_eq_all_conv)
    moreover have "length (takeWhile ?P ?got) \<le> ?n" using length_takeWhile_le [of ?P ?got] by (auto intro: order_trans)
    ultimately show ?thesis using False c by (simp add: fd_getline.simps [of "Some c # map Some cs"] Let_def del: concat.simps)
  next
    case line: True
    have all: "takeWhile ?P (concat (c # cs)) = ?got @ takeWhile ?P (drop ?n c @ concat cs)"
      unfolding cc using line by (metis takeWhile_append2 takeWhile_eq_all_conv)
    show ?thesis
    proof (cases "length (buf @ ?got) < len")
      case True
      then have g: "?got = c" "drop ?n c = []" by auto
      have tw: "takeWhile ?P c = c" using line unfolding g(1) .
      then have ne: "\<not> (\<exists>x \<in> set c. line_end x)" by (simp add: takeWhile_eq_all_conv)
      show ?thesis
        using g True c all Cons.IH [of "buf @ c"] Cons.prems ne
        by (simp add: fd_getline.simps [of "Some c # map Some cs"] Let_def tw del: concat.simps)
    next
      case False
      then have "length ?got = ?n" using Cons.prems(2) by (auto simp: min_def split: if_splits)
      then show ?thesis
        using False c all by (simp add: fd_getline.simps [of "Some c # map Some cs"] Let_def line del: concat.simps)
    qed
  qed
qed

section \<open>Time\<close>

text \<open>The bytes of a 32 bit number, the highest first.\<close>

definition network_bytes :: "u32 \<Rightarrow> byte list" where
  "network_bytes w = [ucast (drop_bit 24 w), ucast (drop_bit 16 w), ucast (drop_bit 8 w), ucast w]"

lemma bytes_of_htonl: "bytes_of (ucast (htonl w)) = network_bytes w @ [0, 0, 0, 0]"
proof -
  have "bytes_of (ucast v) = [ucast v, ucast (drop_bit 8 v), ucast (drop_bit 16 v), ucast (drop_bit 24 v), 0, 0, 0, 0]" for v :: u32
    unfolding bytes_of_def by (simp add: upt_rec) (intro conjI bit_eqI; auto simp: bit_simps dest: bit_imp_le_length)
  moreover have "(ucast (htonl w) :: byte) = ucast (drop_bit 24 w)" "(ucast (drop_bit 8 (htonl w)) :: byte) = ucast (drop_bit 16 w)"
    "(ucast (drop_bit 16 (htonl w)) :: byte) = ucast (drop_bit 8 w)" "(ucast (drop_bit 24 (htonl w)) :: byte) = ucast w"
    by (intro bit_eqI; auto simp: htonl_def bit_simps dest: bit_imp_le_length)+
  ultimately show ?thesis by (simp add: network_bytes_def)
qed

section \<open>Properties\<close>



text \<open>
  (Cx) The lines of the character generator are those of RFC 864: line \<open>k\<close> has 72 of the 95 printing characters in
  their circular order, from the one numbered \<open>k\<close>, and ends in CR LF.
\<close>

theorem chargen_pattern:
  "chargen_stream n = map (\<lambda>k. map (\<lambda>j. of_nat (32 + (k + j) mod 95)) [0..<72] @ [13, 10]) [0..<n]"
proof -
  have "chargen_text (k mod 95) = map (\<lambda>j. of_nat (32 + (k + j) mod 95)) [0..<72] @ [13, 10]" for k
    using chargen_text_ring [of "k mod 95"] by (simp add: mod_add_left_eq del: upt_Suc)
  then show ?thesis using chargen_lines_ring [of 0 n] by (simp add: chargen_stream_def del: upt_Suc)
qed

text \<open>
  (C39) However the network divides the request, the multiplexer reads its first line, of which it keeps no more characters than
  its array has room for before the null, and starts the first service of the
  table that is its own and has this name in any case; a service marked \<open>+\<close> is announced.
\<close>

theorem tcpmux_selects:
  assumes "\<forall>c \<in> set chunks. c \<noteq> []" "name = take MAX_SERV_LEN (takeWhile (\<lambda>c. \<not> line_end c) (concat chunks))"
    "\<not> strcaseeq name ''help''" "table = as @ sep # bs" "ISMUX sep" "strcaseeq name (se_service sep)"
    "\<forall>x \<in> set as. ISMUX x \<longrightarrow> \<not> strcaseeq name (se_service x)"
  shows "fd_getline (map Some chunks) [] MAX_SERV_LEN = Some name \<and> length name < MAX_SERV_LEN + 1
    \<and> tcpmux (map Some chunks) table = (if se_type sep = MUXPLUS_TYPE then [''+Go'' @ [CHR 0x0D, CHR 0x0A]] else [], Inr sep)"
proof -
  have g: "fd_getline (map Some chunks) [] MAX_SERV_LEN = Some name"
    using fd_getline_chunks [OF assms(1), of "[]" MAX_SERV_LEN] assms(2) by simp
  have "find (\<lambda>sep. ISMUX sep \<and> strcaseeq name (se_service sep)) table = Some sep"
    using assms(4-7) by (induction as arbitrary: table) auto
  then show ?thesis
    using g assms(2,3) by (simp add: tcpmux_def ISMUXPLUS_def)
qed

theorem tcpmux_selects_witness:
  "tcpmux (map Some [''DA'', ''te'' @ [CHR 0x0D, CHR 0x0A]])
     [serv_zero\<lparr>se_service := ''date''\<rparr>, serv_zero\<lparr>se_service := ''date'', se_type := MUXPLUS_TYPE\<rparr>]
   = ([''+Go'' @ [CHR 0x0D, CHR 0x0A]], Inr (serv_zero\<lparr>se_service := ''date'', se_type := MUXPLUS_TYPE\<rparr>))"
proof -
  let ?sep = "serv_zero\<lparr>se_service := ''date'', se_type := MUXPLUS_TYPE\<rparr>"
  let ?chunks = "[''DA'', ''te'' @ [CHR 0x0D, CHR 0x0A]]"
  let ?z = "serv_zero\<lparr>se_service := ''date''\<rparr>"
  have c: "\<forall>c \<in> set ?chunks. c \<noteq> []" "''DAte'' = take MAX_SERV_LEN (takeWhile (\<lambda>c. \<not> line_end c) (concat ?chunks))"
    by (simp_all add: line_end_def)
  have e: "\<not> strcaseeq ''DAte'' ''help''" "strcaseeq ''DAte'' ''date''" by code_simp+
  then have s: "ISMUX ?sep" "strcaseeq ''DAte'' (se_service ?sep)" "[?z, ?sep] = [?z] @ ?sep # []"
    "\<forall>x \<in> set [?z]. ISMUX x \<longrightarrow> \<not> strcaseeq ''DAte'' (se_service x)"
    by (simp_all add: ISMUX_def serv_zero_def)
  show ?thesis using tcpmux_selects [OF c e(1) s(3,1,2,4)] by simp
qed

text \<open>
  The time service answers with the seconds since 1900 as a 32 bit number in network byte order, and with four
  more bytes, because a \<open>long\<close> is written.
\<close>

theorem time_answer:
  "machtime_stream (Some sec) = [network_bytes (ucast (sec + 2208988800)) @ [0, 0, 0, 0]]"
  by (simp add: machtime_stream_def machtime_def bytes_of_htonl)

text \<open>
  A service of the multiplexer that inetd provides without a process of its own returns to the main loop in the child.
\<close>

theorem mux_builtin_returns:
  assumes "se_bi sep = Some bi" "bi_fn bi = Tcpmux" "tcpmux i table = (out, Inr sep')" "se_bi sep' = Some bi'"
    "bi_fn bi' = Daytime_stream"
  shows "run_service h g u table (i # is) sep = (out, [Builtin Daytime_stream, Returns])"
  using assms by (simp add: run_service.simps [of h g u table "i # is"] run_service.simps [of h g u table "is" sep'] bi_exits_def)

end
