(* ===== verification/Spec2Isabelle.thy ===== *)
theory Spec2Isabelle
  imports Ring_Buffer Telnetd_Commands Telnet_Session Telnet_Subneg Telnet_Client_Bounds Tftp_Complete Tftp_Request Talkd Ping Syslogd_Select
    Syslogd_Account Syslogd_Errors Inetd_Stranded Inetd_Service
begin

text \<open>
  A verification development for GNU inetutils, the collection of network clients and servers under
  \<open>src/\<close>.  It models the telnet server and client, both sides of TFTP, the talk daemon, ping, the log daemon, inetd and
  the splitting of command lines.

  \<^bold>\<open>Telnet server\<close> (\<open>telnetd/\<close>).  The daemon connects a network socket to a pseudo terminal.  Its main loop
  reads from both, \<open>telrcv\<close> takes the telnet commands out of what comes from the network and gives the
  data to the pty, what the pty produces is sent back in the format of the network virtual terminal.
  Options are negotiated by WILL, WONT, DO and DONT, some have parameters in suboptions, and the
  special characters of the terminal are negotiated by SLC triplets.  The theories follow the files:

  \<^item> \<open>Telnetd_Base\<close>: the variables of the program as one record \<open>telnetd\<close>, with the buffers, the
    table of options, the terminal settings and the environment; the tests and changes of the
    option bits (\<open>telnetd.h\<close>).  The system calls that can fail or be partial (\<open>read\<close>, \<open>write\<close>) take their
    results from lists in the record, so that a theorem for all states is one for all behaviours.
  \<^item> \<open>Telnetd_Net\<close>: buffered output to the network and the pty, urgent data and \<open>netclear\<close>
    (\<open>utility.c\<close>).
  \<^item> \<open>Telnetd_Term\<close>: the tests and changes of the terminal settings (\<open>term.c\<close>, with termios).
  \<^item> \<open>Telnetd_Slc\<close>: the special characters (\<open>slc.c\<close>).
  \<^item> \<open>Telnetd_Linemode\<close>: requests, \<open>localstat\<close>, \<open>clientstat\<close> and \<open>flowstat\<close> (\<open>state.c\<close>, \<open>termstat.c\<close>).
  \<^item> \<open>Telnetd_Options\<close>: the four commands (\<open>state.c\<close>), and that the options settle.
  \<^item> \<open>Telnetd_Commands\<close>: the abstract negotiation machine of the comment above \<open>send_do\<close>, and the proof that requests and
    commands implement it, in the state they leave and in the bytes they send; where the comment and the code differ.
  \<^item> \<open>Telnetd_Subopt\<close>: suboptions and \<open>send_status\<close> (\<open>state.c\<close>).
  \<^item> \<open>Telnetd_Receive\<close>: the state machine \<open>telrcv\<close> (\<open>state.c\<close>) with a null pointer as an error value.
  \<^item> \<open>Telnetd_Loop\<close>: one turn of the main loop (\<open>telnetd.c\<close>) and the way from the pty to the network.

  The lemmas show that data passes unchanged in both directions, that the arrays are not overrun by
  what a client sends and where they are (\<open>net_output_data\<close>, \<open>add_slc\<close>), that the option commands refine the
  abstract machine, settle and do not loop, and what the suboptions mean.

  \<^bold>\<open>Telnet client\<close> (\<open>telnet/\<close>).  The client connects a terminal to the network through four ring buffers.

  \<^item> \<open>Ring_Buffer\<close>: \<open>ring.c\<close>, on integer addresses and a memory; the ring is a FIFO queue (locale
    \<open>fifo_queue\<close> of \<open>Prelude\<close>, interpreted on the ring operations).  The other theories of the client use
    this and have the rings as lists; \<open>ring_put_supplied\<close> shows that one byte more is the same in both, also
    in a full ring, which then holds this byte only.
  \<^item> \<open>Telnet_Client\<close>: the variables as one record \<open>telnet\<close>, the macros that fill the rings (\<open>defines.h\<close>), the option
    bits (\<open>externs.h\<close>), the mode of the connection (\<open>terminal.c\<close>, \<open>sys_bsd.c\<close>) and the requests (\<open>telnet.c\<close>).
  \<^item> \<open>Telnet_Client_Slc\<close>, \<open>Telnet_Client_Options\<close>, \<open>Telnet_Client_Subopt\<close>: line mode, the four commands, the
    suboptions (\<open>telnet.c\<close>) and the environment list (\<open>commands.c\<close>).
  \<^item> \<open>Telnet_Client_Io\<close>: \<open>telrcv\<close>, \<open>telsnd\<close> and the user's special characters.
  \<^item> \<open>Telnet_Client_Bounds\<close>: the rings and the suboption buffer stay within their bounds, whatever the
    server sends, and the two arrays that do not.

  \<^bold>\<open>Client and server together.\<close>  \<open>Telnet_Proto\<close> has the constants of the protocol and the abstract
  negotiation machine, which the commands and requests of both programs refine.  \<open>Telnet_Agree\<close> puts two such machines
  on a network that delivers in order: the locale \<open>negotiator\<close> is what a program promises about an
  option, and under the locale \<open>negotiation\<close> every exchange of commands ends, with both sides in agreement.
  \<open>Telnet_Session\<close> interprets them on the definitions of server and client.  \<open>Telnet_Data\<close> and
  \<open>Telnet_Subneg\<close> follow data, the window size and the environment from one program to the other.

  \<^bold>\<open>TFTP\<close> (\<open>src/tftp.c\<close>, \<open>src/tftpd.c\<close>, \<open>libinetutils/tftpsubs.c\<close>).

  \<^item> \<open>Tftp_Subs\<close>: reading ahead and writing behind in two buffers, with the netascii conversion.
  \<^item> \<open>Tftp_Transfer\<close>: \<open>send_file\<close> and \<open>recvfile\<close> of server and client as machines that react to a
    packet or to the timer; a step relation in which a packet under way can arrive any
    number of times and in any order, and packets can be lost for good at any time; the locale \<open>tftp_peers\<close> states what a sender and a
    receiver promise each other, and is interpreted for downloads and for uploads.
  \<^item> \<open>Tftp_Complete\<close>: the locale \<open>tftp_lockstep\<close>, under which a transfer can go on from the loss of all packets as
    long as a retransmission is left, interpreted for
    both directions; whole transfers give the file that was sent.
  \<^item> \<open>Tftp_Request\<close>: requests, the check of the file name against the directories of the server, and
    refusals.  The file system is a parameter.

  \<^bold>\<open>Talk daemon\<close> (\<open>talkd/\<close>).  It keeps invitations and answers requests about them.

  \<^item> \<open>Argcv\<close>: command lines (\<open>libinetutils/argcv.c\<close>).
  \<^item> \<open>Talkd_Table\<close>: the linked list of invitations (\<open>table.c\<close>) in a memory of nodes.  It refines the operations on lists,
    and the locale \<open>invitations\<close> is what the daemon relies on.
  \<^item> \<open>Talkd_Acl\<close>: the access lists (\<open>acl.c\<close>); regular expressions, users and files are parameters.
  \<^item> \<open>Talkd\<close>: the announcement (\<open>announce.c\<close>), requests (\<open>process.c\<close>) and the loop (\<open>talkd.c\<close>).

  \<^bold>\<open>Ping\<close> (\<open>ping/\<close>, \<open>libicmp/\<close>).  It sends requests and counts the replies.

  \<^item> \<open>Icmp\<close>: the checksum, and the messages in a buffer.  The checksum is arithmetic modulo 65535, an encoded
    message is accepted, and a message with a changed word is not.
  \<^item> \<open>Ping\<close>: the library (\<open>libping.c\<close>, \<open>ping_common.c\<close>) with its table of 1024 bits, and the loop of the program
    (\<open>ping.c\<close>), which takes what \<open>select\<close>, \<open>recvfrom\<close>, \<open>sendto\<close> and the clock answer from a list.  Every answered
    packet is counted once, and a run with a count ends.

  \<^bold>\<open>Log daemon\<close> (\<open>src/syslogd.c\<close>).  It receives messages and writes them to the files, hosts and users that
  the configuration file names for their facility and level.

  \<^item> \<open>Syslogd_Config\<close>: the entries of the configuration, \<open>cfline\<close> and the lines of the file.
  \<^item> \<open>Syslogd_Select\<close>: what selectors mean, and that \<open>cfline\<close> gives them this meaning; which lines are read.
  \<^item> \<open>Syslogd\<close>: \<open>printline\<close>, \<open>printsys\<close>, \<open>logmsg\<close>, \<open>fprintlog\<close>, \<open>wallmsg\<close>, \<open>domark\<close> and \<open>die\<close>.
  \<^item> \<open>Syslogd_Account\<close>: a log can be read back to the messages that were taken, although repeated ones are written as
    counts.
  \<^item> \<open>Syslogd_Errors\<close>: errors that are logged while logging, the loop that opens a terminal again, and the bounds of the input.

  The results of the calls that write, send and look up are an infinite sequence in the state, so that a theorem for all states is one for
  all behaviours.

  \<^bold>\<open>Internet super-server\<close> (\<open>src/inetd.c\<close>).  It listens for the services of its configuration files and starts their servers;
  some services it provides itself.

  \<^item> \<open>Inetd_Config\<close>: the entries of the service table and the parser \<open>getconfigent\<close>, with uses of freed memory and of null
    pointers as error values.
  \<^item> \<open>Inetd_Table\<close>: the table and its sockets, \<open>setup\<close>, \<open>servent_setup\<close>, \<open>retry\<close>, \<open>close_sep\<close>, \<open>enter\<close>, \<open>expand_enter\<close>,
    \<open>nextconfig\<close>, \<open>fix_tcpmux\<close> and \<open>config\<close>.  The descriptors that are open are part of the state, and a new one has the lowest free
    number; the errors of \<open>socket\<close> and \<open>bind\<close> are taken from a list; users, protocols, addresses and files are a parameter.
  \<^item> \<open>Inetd_Builtin\<close>: the built-in services, \<open>tcpmux\<close>, \<open>run_service\<close> and \<open>prepenv\<close>.
  \<^item> \<open>Inetd\<close>: the main loop and the signals, as functions on one record \<open>master\<close> and as a step relation.
  \<^item> \<open>Inetd_Invariant\<close> and \<open>Inetd_Safety\<close>: the descriptors, the sockets given to \<open>select\<close> and the processes that are waited for,
    in all executions; when the counter \<open>nsock\<close> is right.
  \<^item> \<open>Inetd_Parse\<close>: what a configuration file means, and what a refused line leaves behind.
  \<^item> \<open>Inetd_Stranded\<close>: services that are no longer listened to, after the timer and after a reload.
  \<^item> \<open>Inetd_Service\<close>: the limit on starts, the character generator, the multiplexer and the time service.

  \<^bold>\<open>Bounds.\<close>  Loops over buffers are recursive functions with termination proofs; the one loop that may not
  end, that of \<open>ring_supply_data\<close>, has fuel, with theorems that enough fuel gives the result when there is
  room and that no fuel is enough when there is not; \<open>telsnd\<close>, which calls the command interpreter, has
  fuel for the bytes of its input and the number of its pieces, which is shown to be enough.  The searches of talkd in its linked list
  are partial functions, with a theorem that they end.  \<open>logmsg\<close>, which is called again for an error while logging, has fuel
  for the depth of these calls, with a theorem that three more than the number of entries are enough.  The loop of \<open>fprintlog\<close> that
  opens a terminal again has the fuel \<open>s_tries\<close>, which is enough when the errors it is repeated for come at most so many times in a
  row, and no fuel is when they never end.  Block numbers, option states and clocks keep
  their width.  The transfer theorems are for files of fewer than 65536 blocks, and the behaviour
  from there on is a theorem of its own.

  \<^bold>\<open>Configuration.\<close>  The default build for GNU/Linux: no authentication and encryption, termios, \<open>EXTPROC\<close>
  but no \<open>TIOCEXT\<close>, no \<open>VSTATUS\<close>, \<open>BUFSIZ\<close> of 8192, \<open>KLUDGELINEMODE\<close> in the
  client; diagnostics are off.

  \<^bold>\<open>Not modelled.\<close>  The debugging printer of telnetd, the start of its login program and the expansion of
  its issue file; the command interpreters of the clients, the termios calls of the telnet client and its
  termcap entry; authentication and encryption
  (\<open>libtelnet\<close>); the second process that \<open>tftpd\<close> starts when a request is repeated by the network; signals of \<open>inetd\<close>
  that arrive while it goes through its table, they are taken between two turns of the main loop; \<open>ftp\<close>, \<open>ftpd\<close>, the options of \<open>inetd\<close> and the titles of its processes, the sockets and options of \<open>syslogd\<close>, \<open>logger\<close>, \<open>talk\<close>, \<open>ping6\<close>, \<open>traceroute\<close>, the options and the printing of \<open>ping\<close>, \<open>ifconfig\<close>,
  \<open>whois\<close>, the remote shell family and \<open>libls\<close>.  \<open>lib/\<close> is gnulib.
\<close>

end
